(* ===== verification/EdxPrelude.thy ===== *)
theory EdxPrelude
  imports Complex_Main "HOL-Library.Monad_Syntax"
begin

text \<open>
  Shared vocabulary of the development: the JavaScript values the modelled code passes
  around, the few operations of the JavaScript standard library it relies on
  (\<open>parseInt\<close>, \<open>toString\<close>, \<open>splice\<close>, \<open>hasOwnProperty\<close>), and generic lemmas
  about lists that the components share.

  A computation that may throw returns an \<open>option\<close>; \<open>None\<close> is the thrown
  \<open>TypeError\<close>. JavaScript numbers that the code only adds, halves and compares are
  modelled as exact rationals (\<open>rat\<close>) or integers (\<open>int\<close>): the rounding of
  IEEE doubles is not modelled.
\<close>



section \<open>JavaScript values\<close>

text \<open>
  A value as \<open>JSON.parse\<close> yields it, plus \<open>undefined\<close>. The fields of an object are
  listed in the order of \<open>Object.keys\<close>.
\<close>

datatype js =
    JUndef
  | JNull
  | JBool bool
  | JNum rat
  | JStr string
  | JArr "js list"
  | JObj "(string \<times> js) list"

subsection \<open>Properties of objects\<close>

text \<open>\<open>o.hasOwnProperty(k)\<close>: throws on \<open>null\<close> and \<open>undefined\<close>; a value that is
  not an object has none of the property names the code asks for.\<close>

fun js_has_own :: "js \<Rightarrow> string \<Rightarrow> bool option" where
  "js_has_own JUndef k = None"
| "js_has_own JNull k = None"
| "js_has_own (JObj kvs) k = Some (map_of kvs k \<noteq> None)"
| "js_has_own _ k = Some False"

text \<open>\<open>o[k]\<close>: a missing property reads as \<open>undefined\<close>.\<close>

fun js_get :: "js \<Rightarrow> string \<Rightarrow> js" where
  "js_get (JObj kvs) k = (case map_of kvs k of None \<Rightarrow> JUndef | Some v \<Rightarrow> v)"
| "js_get _ k = JUndef"

fun kv_put :: "string \<Rightarrow> js \<Rightarrow> (string \<times> js) list \<Rightarrow> (string \<times> js) list" where
  "kv_put k v [] = [(k, v)]"
| "kv_put k v ((k', v') # kvs) = (if k' = k then (k, v) # kvs else (k', v') # kv_put k v kvs)"

text \<open>\<open>o[k] = v\<close>: overwrites in place or appends; writing to a value that is not an
  object has no effect.\<close>

fun js_put :: "js \<Rightarrow> string \<Rightarrow> js \<Rightarrow> js" where
  "js_put (JObj kvs) k v = JObj (kv_put k v kvs)"
| "js_put u k v = u"

lemma map_of_kv_put [simp]: "map_of (kv_put k v kvs) = (map_of kvs)(k \<mapsto> v)"
  by (induction kvs) (auto simp: fun_eq_iff)

lemma js_get_put [simp]:
  "js_get (js_put (JObj kvs) k v) k' = (if k' = k then v else js_get (JObj kvs) k')"
  by simp

lemma kv_put_same: "map_of kvs k = Some v \<Longrightarrow> kv_put k v kvs = kvs"
  by (induction kvs) (auto split: if_splits)

section \<open>Text\<close>

definition digit_char :: "nat \<Rightarrow> char" where
  "digit_char d = ''0123456789'' ! d"

fun nat_text :: "nat \<Rightarrow> string" where
  "nat_text n = (if n < 10 then [digit_char n] else nat_text (n div 10) @ [digit_char (n mod 10)])"

declare nat_text.simps [simp del]

definition int_text :: "int \<Rightarrow> string" where
  "int_text i = (if i < 0 then ''-'' @ nat_text (nat (- i)) else nat_text (nat i))"

definition lower_char :: "char \<Rightarrow> char" where
  "lower_char c =
     (let n = of_char c :: nat in if 65 \<le> n \<and> n \<le> 90 then char_of (n + 32) else c)"

text \<open>\<open>String.prototype.toLowerCase\<close> on ASCII text.\<close>

definition js_lower :: "string \<Rightarrow> string" where
  "js_lower s = map lower_char s"

subsection \<open>\<open>parseInt(s, 10)\<close>\<close>

definition digit_val :: "char \<Rightarrow> nat option" where
  "digit_val c =
     (let n = of_char c :: nat in if 48 \<le> n \<and> n \<le> 57 then Some (n - 48) else None)"

definition is_space :: "char \<Rightarrow> bool" where
  "is_space c \<longleftrightarrow> (of_char c :: nat) \<in> {9, 10, 11, 12, 13, 32}"

fun digits_acc :: "nat option \<Rightarrow> string \<Rightarrow> nat option" where
  "digits_acc acc [] = acc"
| "digits_acc acc (c # cs) =
     (case digit_val c of
        None \<Rightarrow> acc
      | Some d \<Rightarrow> digits_acc (Some (10 * (case acc of None \<Rightarrow> 0 | Some n \<Rightarrow> n) + d)) cs)"

text \<open>Leading white space, an optional sign, then the longest run of digits; \<open>None\<close> is
  \<open>NaN\<close>.\<close>

definition parse_int_text :: "string \<Rightarrow> int option" where
  "parse_int_text s =
     (case dropWhile is_space s of
        [] \<Rightarrow> None
      | c # cs \<Rightarrow>
          (if c = CHR ''-'' then map_option (\<lambda>n. - int n) (digits_acc None cs)
           else if c = CHR ''+'' then map_option int (digits_acc None cs)
           else map_option int (digits_acc None (c # cs))))"

text \<open>A number is converted to text first. From \<open>1e21\<close> on, and below \<open>1e-6\<close>, the
  text is in exponent notation and the digits \<open>parseInt\<close> reads end after the first one.
  The recursion scales the magnitude into \<open>[1, 10)\<close>; its fuel exceeds the decimal
  exponents a double can have.\<close>

fun lead_digit :: "nat \<Rightarrow> rat \<Rightarrow> int" where
  "lead_digit 0 q = 0"
| "lead_digit (Suc f) q =
     (if 10 \<le> q then lead_digit f (q / 10) else if q < 1 then lead_digit f (10 * q) else \<lfloor>q\<rfloor>)"

definition parse_int_num :: "rat \<Rightarrow> int" where
  "parse_int_num q =
     (if q = 0 then 0
      else if 1 / 10 ^ 6 \<le> \<bar>q\<bar> \<and> \<bar>q\<bar> < 10 ^ 21
        then (if q < 0 then - \<lfloor>- q\<rfloor> else \<lfloor>q\<rfloor>)
      else (if q < 0 then - lead_digit 400 (- q) else lead_digit 400 q))"

text \<open>\<open>parseInt(v, 10)\<close> on any value; the text of an array is that of its elements
  joined with commas, so only its first element matters.\<close>

fun js_parse_int :: "js \<Rightarrow> int option" where
  "js_parse_int (JNum q) = Some (parse_int_num q)"
| "js_parse_int (JStr s) = parse_int_text s"
| "js_parse_int (JArr (v # vs)) = js_parse_int v"
| "js_parse_int _ = None"

text \<open>Digits past the range of a double read as an infinity.\<close>

definition finite_double :: "int \<Rightarrow> bool" where
  "finite_double i \<longleftrightarrow> \<bar>i\<bar> < 2 ^ 1024 - 2 ^ 970"

text \<open>Reading the digits of a number back.\<close>

lemma digit_val_digit_char: "d < 10 \<Longrightarrow> digit_val (digit_char d) = Some d"
proof -
  assume "d < 10"
  then have "d \<in> {0, 1, 2, 3, 4, 5, 6, 7, 8, 9}" by auto
  then show ?thesis by (auto simp: digit_char_def digit_val_def)
qed

lemma digit_char_no_sign:
  "d < 10 \<Longrightarrow> \<not> is_space (digit_char d) \<and> digit_char d \<noteq> CHR ''-'' \<and> digit_char d \<noteq> CHR ''+''"
proof -
  assume "d < 10"
  then have "d \<in> {0, 1, 2, 3, 4, 5, 6, 7, 8, 9}" by auto
  then show ?thesis by (auto simp: digit_char_def is_space_def)
qed

lemma digits_acc_nat_text: "digits_acc None (nat_text n @ r) = digits_acc (Some n) r"
proof (induction n arbitrary: r rule: nat_text.induct)
  case (1 n)
  show ?case
  proof (cases "n < 10")
    case True
    then show ?thesis by (simp add: nat_text.simps [of n] digit_val_digit_char)
  next
    case False
    then show ?thesis
      by (simp add: nat_text.simps [of n] 1 digit_val_digit_char)
  qed
qed

lemma nat_text_head:
  "\<exists>c cs. nat_text n = c # cs \<and> \<not> is_space c \<and> c \<noteq> CHR ''-'' \<and> c \<noteq> CHR ''+''"
proof (induction n rule: nat_text.induct)
  case (1 n)
  show ?case
  proof (cases "n < 10")
    case True
    then show ?thesis by (simp add: nat_text.simps [of n] digit_char_no_sign)
  next
    case False
    then show ?thesis using 1 by (auto simp: nat_text.simps [of n])
  qed
qed

lemma parse_int_text_nat [simp]: "parse_int_text (nat_text n) = Some (int n)"
proof -
  obtain c cs where e: "nat_text n = c # cs" and "\<not> is_space c" "c \<noteq> CHR ''-''" "c \<noteq> CHR ''+''"
    using nat_text_head by blast
  moreover have "digits_acc None (c # cs) = Some n"
    using digits_acc_nat_text [of n "[]"] e by simp
  ultimately show ?thesis by (simp add: parse_int_text_def del: digits_acc.simps)
qed

lemma parse_int_text_int [simp]: "parse_int_text (int_text i) = Some i"
proof (cases "i < 0")
  case True
  have "digits_acc None (nat_text (nat (- i))) = Some (nat (- i))"
    using digits_acc_nat_text [of "nat (- i)" "[]"] by simp
  with True show ?thesis
    by (simp add: int_text_def parse_int_text_def is_space_def)
next
  case False
  then show ?thesis by (simp add: int_text_def)
qed

lemma parse_int_num_of_int [simp]:
  "\<bar>i\<bar> < 10 ^ 21 \<Longrightarrow> parse_int_num (of_int i) = i"
proof -
  assume b: "\<bar>i\<bar> < 10 ^ 21"
  show ?thesis
  proof (cases "i = 0")
    case True
    then show ?thesis by (simp add: parse_int_num_def)
  next
    case False
    then have "1 \<le> \<bar>i\<bar>" by simp
    then have "(1::rat) \<le> of_int \<bar>i\<bar>" by linarith
    then have lo: "(1::rat) / 10 ^ 6 \<le> \<bar>of_int i\<bar>" by (simp add: field_simps)
    from b have "(of_int \<bar>i\<bar> :: rat) < of_int (10 ^ 21)" by (simp only: of_int_less_iff)
    then have hi: "\<bar>of_int i :: rat\<bar> < 10 ^ 21" by simp
    have "- \<lfloor>- (of_int i :: rat)\<rfloor> = i"
      by (metis floor_of_int minus_minus of_int_minus)
    with False lo hi show ?thesis by (auto simp: parse_int_num_def)
  qed
qed

section \<open>Arrays\<close>

text \<open>\<open>xs.splice(i, 1)\<close>: a negative start counts from the end, and a start past the end
  removes nothing.\<close>

definition splice1 :: "'a list \<Rightarrow> int \<Rightarrow> 'a list" where
  "splice1 xs i =
     (let n = int (length xs);
          s = nat (if i < 0 then max (n + i) 0 else min i n)
      in take s xs @ drop (Suc s) xs)"

lemma splice1_nth: "i < length xs \<Longrightarrow> splice1 xs (int i) = take i xs @ drop (Suc i) xs"
  by (simp add: splice1_def Let_def)

lemma length_splice1: "i < length xs \<Longrightarrow> length (splice1 xs (int i)) = length xs - 1"
  by (simp add: splice1_nth)

lemma nth_splice1:
  "i < length xs \<Longrightarrow> j < length xs - 1 \<Longrightarrow>
     splice1 xs (int i) ! j = (if j < i then xs ! j else xs ! Suc j)"
  by (auto simp: splice1_nth nth_append min_def)

lemma set_splice1_distinct:
  assumes "distinct xs" and "i < length xs"
  shows "set (splice1 xs (int i)) = set xs - {xs ! i}"
proof -
  have eq: "xs = take i xs @ xs ! i # drop (Suc i) xs"
    using assms(2) by (rule id_take_nth_drop)
  have "distinct (take i xs @ xs ! i # drop (Suc i) xs)"
    using assms(1) eq by simp
  then have "xs ! i \<notin> set (take i xs) \<union> set (drop (Suc i) xs)" by auto
  moreover have "set xs = insert (xs ! i) (set (take i xs) \<union> set (drop (Suc i) xs))"
    by (subst eq) auto
  ultimately show ?thesis using assms(2) by (auto simp: splice1_nth)
qed

lemma distinct_splice1: "distinct xs \<Longrightarrow> i < length xs \<Longrightarrow> distinct (splice1 xs (int i))"
  by (metis distinct_append distinct_drop distinct_take set_take_disj_set_drop_if_distinct
      lessI less_imp_le_nat splice1_nth)

lemma splice1_filter:
  assumes "distinct xs" and "i < length xs"
  shows "splice1 xs (int i) = filter (\<lambda>x. x \<noteq> xs ! i) xs"
proof -
  have eq: "xs = take i xs @ xs ! i # drop (Suc i) xs"
    using assms(2) by (rule id_take_nth_drop)
  have d: "distinct (take i xs @ xs ! i # drop (Suc i) xs)"
    using assms(1) eq by simp
  have "filter (\<lambda>x. x \<noteq> xs ! i) (take i xs @ xs ! i # drop (Suc i) xs)
        = take i xs @ drop (Suc i) xs"
    using d by (auto intro!: arg_cong2 [where f = "(@)"] filter_True)
  with eq assms(2) show ?thesis by (simp add: splice1_nth)
qed

end
