(* ===== verification/DndConfig.thy ===== *)
theory DndConfig
  imports EdxPrelude
begin

text \<open>
  The configuration parser of the drag-and-drop problem
  (\<open>common/static/js/capa/drag_and_drop/config_parser.js\<close>): one definition per
  function, in the order of the file, on the parsed JSON value. The parser normalises its
  input in place (\<open>obj[attr] = tempInt\<close>), so a checking function returns the object it
  leaves behind next to its verdict. \<open>None\<close> is a thrown \<open>TypeError\<close>. The messages
  written to \<open>console.log\<close> are not modelled.
\<close>

section \<open>The parsed configuration: \<open>state.config\<close>\<close>

record conf =
  c_draggables :: "js list"
  baseImage :: string
  c_targets :: "js list"
  onePerTarget :: "bool option"
  targetOutline :: bool
  labelBgColor :: string
  individualTargets :: "bool option"
  foundErrors :: bool

definition default_conf :: conf where
  "default_conf =
     \<lparr> c_draggables = [], baseImage = '''', c_targets = [], onePerTarget = None,
       targetOutline = True, labelBgColor = ''#d6d6d6'', individualTargets = None,
       foundErrors = False \<rparr>"

definition fail_conf :: "conf \<Rightarrow> conf" where
  "fail_conf c = c\<lparr>foundErrors := True\<rparr>"

section \<open>Attribute checks\<close>

definition attrIsString :: "js \<Rightarrow> string \<Rightarrow> bool option" where
  "attrIsString obj attr =
     do { own \<leftarrow> js_has_own obj attr;
          Some (if \<not> own then False
                else (case js_get obj attr of JStr _ \<Rightarrow> True | _ \<Rightarrow> False)) }"

definition attrIsInteger :: "js \<Rightarrow> string \<Rightarrow> (bool \<times> js) option" where
  "attrIsInteger obj attr =
     do { own \<leftarrow> js_has_own obj attr;
          Some (if \<not> own then (False, obj)
                else (case js_parse_int (js_get obj attr) of
                        None \<Rightarrow> (False, obj)
                      | Some tempInt \<Rightarrow> (True, js_put obj attr (JNum (of_int tempInt))))) }"

definition attrIsBoolean :: "js \<Rightarrow> string \<Rightarrow> js \<Rightarrow> (bool \<times> js) option" where
  "attrIsBoolean obj attr defaultVal =
     do { own \<leftarrow> js_has_own obj attr;
          Some (if \<not> own
                then (if defaultVal = JUndef then (False, obj)
                      else (True, js_put obj attr defaultVal))
                else if js_get obj attr = JStr '''' then (True, js_put obj attr defaultVal)
                else if js_get obj attr = JStr ''false'' \<or> js_get obj attr = JBool False
                then (True, js_put obj attr (JBool False))
                else if js_get obj attr = JStr ''true'' \<or> js_get obj attr = JBool True
                then (True, js_put obj attr (JBool True))
                else (False, obj)) }"

section \<open>Targets and draggables\<close>

text \<open>The chain of \<open>||\<close> stops at the first failing attribute.\<close>

fun all_integers :: "js \<Rightarrow> string list \<Rightarrow> (bool \<times> js) option" where
  "all_integers obj [] = Some (True, obj)"
| "all_integers obj (a # as) =
     do { (ok, obj') \<leftarrow> attrIsInteger obj a;
          if ok then all_integers obj' as else Some (False, obj') }"

text \<open>The last component is the state; the target is pushed unless \<open>pushToState\<close> is
  \<open>false\<close>.\<close>

definition processTarget_cfg :: "conf \<Rightarrow> js \<Rightarrow> bool \<Rightarrow> (bool \<times> js \<times> conf) option" where
  "processTarget_cfg c obj pushToState =
     do { isId \<leftarrow> attrIsString obj ''id'';
          if \<not> isId then Some (False, obj, c)
          else do {
            (ok, obj') \<leftarrow> all_integers obj [''w'', ''h'', ''x'', ''y''];
            Some (if \<not> ok then (False, obj', c)
                  else (True, obj',
                        if pushToState then c\<lparr>c_targets := c_targets c @ [obj']\<rparr> else c)) } }"

text \<open>\<open>target_fields.every(\<dots>)\<close> with \<open>pushToState = false\<close>; the elements are
  normalised in place up to the first improper one.\<close>

fun every_field :: "conf \<Rightarrow> js list \<Rightarrow> (bool \<times> js list) option" where
  "every_field c [] = Some (True, [])"
| "every_field c (t # ts) =
     do { (ok, t', _) \<leftarrow> processTarget_cfg c t False;
          if ok then do { (ok', ts') \<leftarrow> every_field c ts; Some (ok', t' # ts') }
          else Some (False, t' # ts) }"

text \<open>The end of \<open>processDraggable\<close>: the target fields are checked, then the draggable is
  pushed. Reading \<open>every\<close> of a value that is not an array throws.\<close>

definition checkTargetFields :: "conf \<Rightarrow> js \<Rightarrow> (bool \<times> conf) option" where
  "checkTargetFields c obj =
     do { hasFields \<leftarrow> js_has_own obj ''target_fields'';
          if \<not> hasFields then Some (False, c) else
            (case js_get obj ''target_fields'' of
               JArr ts \<Rightarrow> do {
                 (ok, ts') \<leftarrow> every_field c ts;
                 Some (if \<not> ok then (False, c)
                       else (True, c\<lparr>c_draggables :=
                              c_draggables c @ [js_put obj ''target_fields'' (JArr ts')]\<rparr>)) }
             | _ \<Rightarrow> None) }"

definition processDraggable_cfg :: "conf \<Rightarrow> js \<Rightarrow> (bool \<times> conf) option" where
  "processDraggable_cfg c obj =
     do { isId \<leftarrow> attrIsString obj ''id'';
          if \<not> isId then Some (False, c) else do {
          isIcon \<leftarrow> attrIsString obj ''icon'';
          if \<not> isIcon then Some (False, c) else do {
          isLabel \<leftarrow> attrIsString obj ''label'';
          if \<not> isLabel then Some (False, c) else do {
          (isReuse, obj1) \<leftarrow> attrIsBoolean obj ''can_reuse'' (JBool False);
          if \<not> isReuse then Some (False, c) else checkTargetFields c obj1 } } } }"

section \<open>The sections of the configuration\<close>

fun every_draggable :: "conf \<Rightarrow> js list \<Rightarrow> conf option" where
  "every_draggable c [] = Some c"
| "every_draggable c (d # ds) =
     do { (ok, c') \<leftarrow> processDraggable_cfg c d;
          if ok then every_draggable c' ds else Some (fail_conf c') }"

definition getDraggables :: "conf \<Rightarrow> js \<Rightarrow> conf option" where
  "getDraggables c config =
     do { own \<leftarrow> js_has_own config ''draggables'';
          if \<not> own then Some (fail_conf c)
          else (case js_get config ''draggables'' of
                  JArr ds \<Rightarrow> every_draggable c ds
                | _ \<Rightarrow> Some (fail_conf c)) }"

definition getBaseImage :: "conf \<Rightarrow> js \<Rightarrow> conf option" where
  "getBaseImage c config =
     do { own \<leftarrow> js_has_own config ''base_image'';
          Some (if \<not> own then fail_conf c
                else (case js_get config ''base_image'' of
                        JStr s \<Rightarrow> c\<lparr>baseImage := s\<rparr>
                      | _ \<Rightarrow> fail_conf c)) }"

fun every_target :: "conf \<Rightarrow> js list \<Rightarrow> conf option" where
  "every_target c [] = Some c"
| "every_target c (t # ts) =
     do { (ok, _, c') \<leftarrow> processTarget_cfg c t True;
          if ok then every_target c' ts else Some (fail_conf c') }"

definition getTargets :: "conf \<Rightarrow> js \<Rightarrow> conf option" where
  "getTargets c config =
     do { own \<leftarrow> js_has_own config ''targets'';
          if \<not> own then Some c
          else (case js_get config ''targets'' of
                  JArr ts \<Rightarrow> every_target c ts
                | _ \<Rightarrow> Some (fail_conf c)) }"

definition getOnePerTarget :: "conf \<Rightarrow> js \<Rightarrow> conf option" where
  "getOnePerTarget c config =
     do { own \<leftarrow> js_has_own config ''one_per_target'';
          Some (if \<not> own then fail_conf c
                else (case js_get config ''one_per_target'' of
                        JStr s \<Rightarrow>
                          (if js_lower s = ''true'' then c\<lparr>onePerTarget := Some True\<rparr>
                           else if js_lower s = ''false'' then c\<lparr>onePerTarget := Some False\<rparr>
                           else fail_conf c)
                      | _ \<Rightarrow> fail_conf c)) }"

definition getTargetOutline :: "conf \<Rightarrow> js \<Rightarrow> conf option" where
  "getTargetOutline c config =
     do { own \<leftarrow> js_has_own config ''target_outline'';
          Some (if \<not> own then c
                else (case js_get config ''target_outline'' of
                        JStr s \<Rightarrow>
                          (if js_lower s = ''true'' then c\<lparr>targetOutline := True\<rparr>
                           else if js_lower s = ''false'' then c\<lparr>targetOutline := False\<rparr>
                           else fail_conf c)
                      | _ \<Rightarrow> fail_conf c)) }"

text \<open>A \<open>label_bg_color\<close> of the wrong type is only logged: it is not an error.\<close>

definition getLabelBgColor :: "conf \<Rightarrow> js \<Rightarrow> conf option" where
  "getLabelBgColor c config =
     do { own \<leftarrow> js_has_own config ''label_bg_color'';
          Some (if \<not> own then c
                else (case js_get config ''label_bg_color'' of
                        JStr s \<Rightarrow> c\<lparr>labelBgColor := s\<rparr>
                      | _ \<Rightarrow> c)) }"

definition setIndividualTargets :: "conf \<Rightarrow> conf" where
  "setIndividualTargets c = c\<lparr>individualTargets := Some (c_targets c \<noteq> [])\<rparr>"

definition configParser :: "js \<Rightarrow> (bool \<times> conf) option" where
  "configParser config =
     do { c1 \<leftarrow> getDraggables default_conf config;
          c2 \<leftarrow> getBaseImage c1 config;
          c3 \<leftarrow> getTargets c2 config;
          c4 \<leftarrow> getOnePerTarget c3 config;
          c5 \<leftarrow> getTargetOutline c4 config;
          c6 \<leftarrow> getLabelBgColor c5 config;
          let c7 = setIndividualTargets c6;
          Some (\<not> foundErrors c7, c7) }"

section \<open>What an accepted configuration looks like\<close>

definition is_int_num :: "js \<Rightarrow> bool" where
  "is_int_num v = (case v of JNum q \<Rightarrow> q = of_int \<lfloor>q\<rfloor> | _ \<Rightarrow> False)"

definition is_text :: "js \<Rightarrow> bool" where
  "is_text v = (case v of JStr _ \<Rightarrow> True | _ \<Rightarrow> False)"

definition is_flag :: "js \<Rightarrow> bool" where
  "is_flag v = (case v of JBool _ \<Rightarrow> True | _ \<Rightarrow> False)"

definition is_object :: "js \<Rightarrow> bool" where
  "is_object v = (case v of JObj _ \<Rightarrow> True | _ \<Rightarrow> False)"

text \<open>A target as the rest of the program reads it: an object with a string id and four
  integer coordinates.\<close>

definition good_target :: "js \<Rightarrow> bool" where
  "good_target t \<longleftrightarrow>
     is_object t \<and> is_text (js_get t ''id'') \<and>
     (\<forall>a \<in> set [''w'', ''h'', ''x'', ''y'']. is_int_num (js_get t a))"

definition good_fields :: "js \<Rightarrow> bool" where
  "good_fields v = (case v of JArr ts \<Rightarrow> list_all good_target ts | _ \<Rightarrow> False)"

definition good_draggable :: "js \<Rightarrow> bool" where
  "good_draggable d \<longleftrightarrow>
     is_object d \<and> is_text (js_get d ''id'') \<and> is_text (js_get d ''icon'') \<and>
     is_text (js_get d ''label'') \<and> is_flag (js_get d ''can_reuse'') \<and>
     good_fields (js_get d ''target_fields'')"

definition good_conf :: "conf \<Rightarrow> bool" where
  "good_conf c \<longleftrightarrow>
     list_all good_target (c_targets c) \<and> list_all good_draggable (c_draggables c) \<and>
     onePerTarget c \<noteq> None \<and> individualTargets c = Some (c_targets c \<noteq> [])"

lemma js_own_object: "js_has_own obj a = Some True \<Longrightarrow> is_object obj"
  by (cases obj) (auto simp: is_object_def)

lemma js_own_get: "js_has_own obj a = Some True \<longleftrightarrow> (\<exists>kvs. obj = JObj kvs \<and> map_of kvs a \<noteq> None)"
  by (cases obj) auto

lemma js_get_own: "is_object obj \<Longrightarrow> js_get obj a \<noteq> JUndef \<Longrightarrow> js_has_own obj a = Some True"
  by (cases obj) (auto simp: is_object_def split: option.splits)

lemma js_get_put_object:
  "is_object obj \<Longrightarrow> js_get (js_put obj k v) k' = (if k' = k then v else js_get obj k')"
  by (cases obj) (auto simp: is_object_def)

lemma js_put_same: "is_object obj \<Longrightarrow> js_get obj k = v \<Longrightarrow> v \<noteq> JUndef \<Longrightarrow> js_put obj k v = obj"
  by (cases obj) (auto simp: is_object_def kv_put_same split: option.splits)

lemma is_object_put [simp]: "is_object (js_put obj k v) = is_object obj"
  by (cases obj) (auto simp: is_object_def)

lemma is_int_num_of_int [simp]: "is_int_num (JNum (of_int i))"
  by (simp add: is_int_num_def)

lemma attrIsString_TrueD:
  "attrIsString obj a = Some True \<Longrightarrow> is_object obj \<and> is_text (js_get obj a)"
  by (cases "js_has_own obj a")
    (auto simp: attrIsString_def is_text_def dest: js_own_object split: if_splits js.splits)

lemma attrIsString_intro: "is_object obj \<Longrightarrow> is_text (js_get obj a) \<Longrightarrow> attrIsString obj a = Some True"
  using js_get_own [of obj a]
  by (auto simp: attrIsString_def is_text_def split: js.splits)

lemma attrIsInteger_TrueD:
  assumes "attrIsInteger obj a = Some (True, obj')"
  shows "is_object obj \<and> is_object obj' \<and> is_int_num (js_get obj' a) \<and>
    (\<forall>b. b \<noteq> a \<longrightarrow> js_get obj' b = js_get obj b)"
proof -
  from assms have own: "js_has_own obj a = Some True"
    by (cases "js_has_own obj a") (auto simp: attrIsInteger_def split: if_splits)
  then have o: "is_object obj" by (rule js_own_object)
  from assms own obtain n where "obj' = js_put obj a (JNum (of_int n))"
    by (auto simp: attrIsInteger_def split: option.splits)
  with o show ?thesis by (simp add: js_get_put_object)
qed

lemma all_integers_TrueD:
  "all_integers obj as = Some (True, obj') \<Longrightarrow> is_object obj \<Longrightarrow>
     is_object obj' \<and> (\<forall>a \<in> set as. is_int_num (js_get obj' a)) \<and>
     (\<forall>b. b \<notin> set as \<longrightarrow> js_get obj' b = js_get obj b)"
proof (induction as arbitrary: obj)
  case Nil
  then show ?case by simp
next
  case (Cons a as)
  from Cons.prems(1) obtain obj1 where
    i: "attrIsInteger obj a = Some (True, obj1)" and r: "all_integers obj1 as = Some (True, obj')"
    by (auto simp: bind_eq_Some_conv split: if_splits)
  note d = attrIsInteger_TrueD [OF i]
  with Cons.IH [OF r] show ?case by (cases "a \<in> set as") auto
qed

lemma processTarget_cfg_TrueD:
  assumes "processTarget_cfg c obj p = Some (True, obj', c')"
  shows "good_target obj' \<and> c' = (if p then c\<lparr>c_targets := c_targets c @ [obj']\<rparr> else c)"
proof -
  from assms obtain
    s: "attrIsString obj ''id'' = Some True" and
    i: "all_integers obj [''w'', ''h'', ''x'', ''y''] = Some (True, obj')" and
    c: "c' = (if p then c\<lparr>c_targets := c_targets c @ [obj']\<rparr> else c)"
    unfolding processTarget_cfg_def
    by (auto simp: bind_eq_Some_conv simp del: all_integers.simps split: if_splits)
  from attrIsString_TrueD [OF s] all_integers_TrueD [OF i] c show ?thesis
    by (auto simp: good_target_def)
qed

lemma every_field_TrueD: "every_field c ts = Some (True, ts') \<Longrightarrow> list_all good_target ts'"
  by (induction ts arbitrary: ts')
    (auto simp: bind_eq_Some_conv split: if_splits dest: processTarget_cfg_TrueD)

lemma attrIsBoolean_TrueD:
  assumes "attrIsBoolean obj a (JBool b) = Some (True, obj')" and "is_object obj"
  shows "is_object obj' \<and> is_flag (js_get obj' a) \<and> (\<forall>k. k \<noteq> a \<longrightarrow> js_get obj' k = js_get obj k)"
  using assms
  by (auto simp: attrIsBoolean_def bind_eq_Some_conv js_get_put_object is_flag_def split: if_splits)

lemma processDraggable_cfg_TrueD:
  assumes "processDraggable_cfg c obj = Some (True, c')"
  shows "\<exists>d. good_draggable d \<and> c' = c\<lparr>c_draggables := c_draggables c @ [d]\<rparr>"
proof -
  from assms obtain obj1 ts ts' where
    s: "attrIsString obj ''id'' = Some True" "attrIsString obj ''icon'' = Some True"
       "attrIsString obj ''label'' = Some True" and
    b: "attrIsBoolean obj ''can_reuse'' (JBool False) = Some (True, obj1)" and
    f: "every_field c ts = Some (True, ts')" and
    c: "c' = c\<lparr>c_draggables := c_draggables c @ [js_put obj1 ''target_fields'' (JArr ts')]\<rparr>"
    by (auto simp: processDraggable_cfg_def checkTargetFields_def bind_eq_Some_conv
        split: if_splits js.splits)
  from s have o: "is_object obj" by (auto dest: attrIsString_TrueD)
  have "good_draggable (js_put obj1 ''target_fields'' (JArr ts'))"
    using s [THEN attrIsString_TrueD] attrIsBoolean_TrueD [OF b o] every_field_TrueD [OF f]
    by (auto simp: good_draggable_def js_get_put_object good_fields_def)
  with c show ?thesis by blast
qed

lemma every_target_good:
  "every_target c ts = Some c' \<Longrightarrow> list_all good_target (c_targets c) \<Longrightarrow>
     list_all good_target (c_targets c') \<and> c_draggables c' = c_draggables c \<and>
     onePerTarget c' = onePerTarget c \<or> foundErrors c'"
proof (induction ts arbitrary: c)
  case Nil
  then show ?case by simp
next
  case (Cons t ts)
  from Cons.prems(1) obtain ok t1 c1 where
    p: "processTarget_cfg c t True = Some (ok, t1, c1)" and
    r: "(if ok then every_target c1 ts else Some (fail_conf c1)) = Some c'"
    by (auto simp: bind_eq_Some_conv)
  show ?case
  proof (cases ok)
    case True
    with p have "good_target t1 \<and> c1 = c\<lparr>c_targets := c_targets c @ [t1]\<rparr>"
      by (auto dest: processTarget_cfg_TrueD)
    with r True Cons.prems(2) Cons.IH [of c1] show ?thesis by auto
  next
    case False
    with r show ?thesis by (auto simp: fail_conf_def)
  qed
qed

lemma every_draggable_good:
  "every_draggable c ds = Some c' \<Longrightarrow> list_all good_draggable (c_draggables c) \<Longrightarrow>
     list_all good_draggable (c_draggables c') \<and> c_targets c' = c_targets c \<or> foundErrors c'"
proof (induction ds arbitrary: c)
  case Nil
  then show ?case by simp
next
  case (Cons d ds)
  from Cons.prems(1) obtain ok c1 where
    p: "processDraggable_cfg c d = Some (ok, c1)" and
    r: "(if ok then every_draggable c1 ds else Some (fail_conf c1)) = Some c'"
    by (auto simp: bind_eq_Some_conv)
  show ?case
  proof (cases ok)
    case True
    with p obtain e where "good_draggable e" "c1 = c\<lparr>c_draggables := c_draggables c @ [e]\<rparr>"
      by (auto dest: processDraggable_cfg_TrueD)
    with r True Cons.prems(2) Cons.IH [of c1] show ?thesis by auto
  next
    case False
    with r show ?thesis by (auto simp: fail_conf_def)
  qed
qed

subsection \<open>Errors are sticky\<close>

lemma processTarget_cfg_errors: "processTarget_cfg c t p = Some (ok, t', c') \<Longrightarrow> foundErrors c' = foundErrors c"
  by (auto simp: processTarget_cfg_def bind_eq_Some_conv simp del: all_integers.simps split: if_splits)

lemma checkTargetFields_errors: "checkTargetFields c d = Some (ok, c') \<Longrightarrow> foundErrors c' = foundErrors c"
  by (auto simp: checkTargetFields_def bind_eq_Some_conv split: if_splits js.splits)

lemma processDraggable_cfg_errors: "processDraggable_cfg c d = Some (ok, c') \<Longrightarrow> foundErrors c' = foundErrors c"
  by (auto simp: processDraggable_cfg_def bind_eq_Some_conv split: if_splits dest: checkTargetFields_errors)

lemma every_target_errors: "every_target c ts = Some c' \<Longrightarrow> foundErrors c \<Longrightarrow> foundErrors c'"
  by (induction ts arbitrary: c)
    (auto simp: bind_eq_Some_conv fail_conf_def split: if_splits dest: processTarget_cfg_errors)

lemma every_draggable_errors: "every_draggable c ds = Some c' \<Longrightarrow> foundErrors c \<Longrightarrow> foundErrors c'"
  by (induction ds arbitrary: c)
    (auto simp: bind_eq_Some_conv fail_conf_def split: if_splits dest: processDraggable_cfg_errors)

lemma getDraggables_errors: "getDraggables c v = Some c' \<Longrightarrow> foundErrors c \<Longrightarrow> foundErrors c'"
  by (auto simp: getDraggables_def bind_eq_Some_conv fail_conf_def every_draggable_errors
      split: if_splits js.splits)

lemma getTargets_errors: "getTargets c v = Some c' \<Longrightarrow> foundErrors c \<Longrightarrow> foundErrors c'"
  by (auto simp: getTargets_def bind_eq_Some_conv fail_conf_def every_target_errors
      split: if_splits js.splits)

lemma getBaseImage_frame:
  "getBaseImage c v = Some c' \<Longrightarrow>
     (foundErrors c \<longrightarrow> foundErrors c') \<and> c_targets c' = c_targets c \<and>
     c_draggables c' = c_draggables c \<and> onePerTarget c' = onePerTarget c"
  by (auto simp: getBaseImage_def bind_eq_Some_conv fail_conf_def split: js.splits)

lemma getOnePerTarget_frame:
  "getOnePerTarget c v = Some c' \<Longrightarrow>
     (foundErrors c \<longrightarrow> foundErrors c') \<and> c_targets c' = c_targets c \<and>
     c_draggables c' = c_draggables c \<and> (onePerTarget c' \<noteq> None \<or> foundErrors c')"
  by (auto simp: getOnePerTarget_def bind_eq_Some_conv fail_conf_def split: js.splits if_splits)

lemma getTargetOutline_frame:
  "getTargetOutline c v = Some c' \<Longrightarrow>
     (foundErrors c \<longrightarrow> foundErrors c') \<and> c_targets c' = c_targets c \<and>
     c_draggables c' = c_draggables c \<and> onePerTarget c' = onePerTarget c"
  by (auto simp: getTargetOutline_def bind_eq_Some_conv fail_conf_def split: js.splits if_splits)

lemma getLabelBgColor_frame:
  "getLabelBgColor c v = Some c' \<Longrightarrow>
     foundErrors c' = foundErrors c \<and> c_targets c' = c_targets c \<and>
     c_draggables c' = c_draggables c \<and> onePerTarget c' = onePerTarget c"
  by (auto simp: getLabelBgColor_def bind_eq_Some_conv split: js.splits if_splits)

text \<open>C20. Whatever JSON value the page carries, a configuration that \<open>configParser\<close> accepts is
  well typed: every base target, and every target of a draggable's target field, is an
  object with a string id and integer coordinates, every draggable has string id, icon and
  label and a Boolean \<open>can_reuse\<close>, the one-per-target mode is decided, and
  \<open>individualTargets\<close> says whether there are targets.\<close>

theorem configParser_accepts_typed:
  assumes "configParser config = Some (True, c)"
  shows "good_conf c"
proof -
  from assms obtain c1 c2 c3 c4 c5 c6 where
    s: "getDraggables default_conf config = Some c1" "getBaseImage c1 config = Some c2"
       "getTargets c2 config = Some c3" "getOnePerTarget c3 config = Some c4"
       "getTargetOutline c4 config = Some c5" "getLabelBgColor c5 config = Some c6" and
    c: "c = setIndividualTargets c6" and ok: "\<not> foundErrors c"
    by (auto simp: configParser_def bind_eq_Some_conv Let_def)
  note fr = getBaseImage_frame [OF s(2)] getOnePerTarget_frame [OF s(4)]
    getTargetOutline_frame [OF s(5)] getLabelBgColor_frame [OF s(6)]
  from c ok fr getTargets_errors [OF s(3)]
  have e: "\<not> foundErrors c1" "\<not> foundErrors c3" "\<not> foundErrors c4"
    by (auto simp: setIndividualTargets_def)
  have d1: "list_all good_draggable (c_draggables c1) \<and> c_targets c1 = []"
    using s(1) e(1)
    by (auto simp: getDraggables_def bind_eq_Some_conv fail_conf_def default_conf_def
        split: if_splits js.splits dest!: every_draggable_good)
  with fr have t2: "list_all good_target (c_targets c2)" by simp
  have t3: "list_all good_target (c_targets c3) \<and> c_draggables c3 = c_draggables c2"
    using s(3) e(2) t2
    by (auto simp: getTargets_def bind_eq_Some_conv fail_conf_def
        split: if_splits js.splits dest!: every_target_good)
  from d1 t3 fr e(3) c show ?thesis
    by (auto simp: good_conf_def setIndividualTargets_def)
qed

section \<open>Parsing a normalised configuration again\<close>

text \<open>The integers of the configuration, and the bound under which \<open>parseInt\<close> reads a
  number as itself.\<close>

definition small_num :: "js \<Rightarrow> bool" where
  "small_num v = (case v of JNum q \<Rightarrow> \<bar>q\<bar> < 10 ^ 21 | _ \<Rightarrow> True)"

definition small_target :: "js \<Rightarrow> bool" where
  "small_target t \<longleftrightarrow> list_all (\<lambda>a. small_num (js_get t a)) [''w'', ''h'', ''x'', ''y'']"

definition small_draggable :: "js \<Rightarrow> bool" where
  "small_draggable d =
     (case js_get d ''target_fields'' of JArr ts \<Rightarrow> list_all small_target ts | _ \<Rightarrow> True)"

definition flag_text :: "bool \<Rightarrow> string" where
  "flag_text b = (if b then ''true'' else ''false'')"

text \<open>The JSON a configuration amounts to, written with the keys the parser reads.\<close>

definition conf_json :: "conf \<Rightarrow> js" where
  "conf_json c = JObj
     [(''draggables'', JArr (c_draggables c)), (''base_image'', JStr (baseImage c)),
      (''targets'', JArr (c_targets c)),
      (''one_per_target'', JStr (flag_text (onePerTarget c = Some True))),
      (''target_outline'', JStr (flag_text (targetOutline c))),
      (''label_bg_color'', JStr (labelBgColor c))]"

lemma js_lower_flag [simp]: "js_lower ''true'' = ''true''" "js_lower ''false'' = ''false''"
  by (simp_all add: js_lower_def lower_char_def Let_def)

lemma all_integers_same:
  "is_object t \<Longrightarrow> \<forall>a \<in> set as. is_int_num (js_get t a) \<and> small_num (js_get t a) \<Longrightarrow>
     all_integers t as = Some (True, t)"
proof (induction as)
  case Nil
  then show ?case by simp
next
  case (Cons a as)
  then obtain i where v: "js_get t a = JNum (of_int i)" and b: "\<bar>of_int i :: rat\<bar> < 10 ^ 21"
    by (auto simp: is_int_num_def small_num_def split: js.splits)
  from b have "\<bar>of_int i :: rat\<bar> < of_int (10 ^ 21)" by simp
  then have "\<bar>i\<bar> < 10 ^ 21" by (simp only: of_int_abs [symmetric] of_int_less_iff)
  with v Cons.prems(1) have "attrIsInteger t a = Some (True, t)"
    using js_get_own [of t a] by (simp add: attrIsInteger_def js_put_same)
  with Cons show ?case by simp
qed

lemma processTarget_cfg_same:
  "good_target t \<Longrightarrow> small_target t \<Longrightarrow>
     processTarget_cfg c t p = Some (True, t, if p then c\<lparr>c_targets := c_targets c @ [t]\<rparr> else c)"
  using all_integers_same [of t "[''w'', ''h'', ''x'', ''y'']"] attrIsString_intro [of t "''id''"]
  by (auto simp: processTarget_cfg_def good_target_def small_target_def simp del: all_integers.simps)

lemma every_field_same:
  "list_all good_target ts \<Longrightarrow> list_all small_target ts \<Longrightarrow> every_field c ts = Some (True, ts)"
  by (induction ts) (auto simp: processTarget_cfg_same)

lemma every_target_same:
  "list_all good_target ts \<Longrightarrow> list_all small_target ts \<Longrightarrow>
     every_target c ts = Some (c\<lparr>c_targets := c_targets c @ ts\<rparr>)"
  by (induction ts arbitrary: c) (auto simp: processTarget_cfg_same)

lemma processDraggable_cfg_same:
  assumes "good_draggable d" and "small_draggable d"
  shows "processDraggable_cfg c d = Some (True, c\<lparr>c_draggables := c_draggables c @ [d]\<rparr>)"
proof -
  from assms have o: "is_object d" by (simp add: good_draggable_def)
  from assms obtain ts where ts: "js_get d ''target_fields'' = JArr ts"
    "list_all good_target ts" "list_all small_target ts"
    by (auto simp: good_draggable_def good_fields_def small_draggable_def split: js.splits)
  from assms obtain b where b: "js_get d ''can_reuse'' = JBool b"
    by (auto simp: good_draggable_def is_flag_def split: js.splits)
  have "attrIsBoolean d ''can_reuse'' (JBool False) = Some (True, d)"
    using b o js_get_own [of d "''can_reuse''"]
    by (cases b) (auto simp: attrIsBoolean_def js_put_same)
  moreover have "js_has_own d ''target_fields'' = Some True"
    using ts o by (intro js_get_own) simp_all
  moreover have "js_put d ''target_fields'' (JArr ts) = d"
    using ts o by (simp add: js_put_same)
  ultimately show ?thesis
    using assms(1) ts every_field_same [OF ts(2,3)]
    by (simp add: processDraggable_cfg_def checkTargetFields_def good_draggable_def attrIsString_intro)
qed

lemma every_draggable_same:
  "list_all good_draggable ds \<Longrightarrow> list_all small_draggable ds \<Longrightarrow>
     every_draggable c ds = Some (c\<lparr>c_draggables := c_draggables c @ ds\<rparr>)"
  by (induction ds arbitrary: c) (auto simp: processDraggable_cfg_same)

text \<open>C21. Normalisation is a fixed point: parsing the JSON of a well-typed configuration (whose
  coordinates are below \<open>1e21\<close>) accepts it and yields that very configuration, so a
  configuration that was accepted once is accepted again, unchanged.\<close>

theorem configParser_roundtrip:
  assumes "good_conf c" and "\<not> foundErrors c"
    and "list_all small_target (c_targets c)" and "list_all small_draggable (c_draggables c)"
  shows "configParser (conf_json c) = Some (True, c)"
proof -
  from assms(1) obtain b where b: "onePerTarget c = Some b"
    and t: "list_all good_target (c_targets c)" and d: "list_all good_draggable (c_draggables c)"
    and i: "individualTargets c = Some (c_targets c \<noteq> [])"
    by (auto simp: good_conf_def)
  show ?thesis
    using b i assms(2) every_target_same [OF t assms(3)] every_draggable_same [OF d assms(4)]
    by (cases b; cases "targetOutline c")
      (simp_all add: configParser_def conf_json_def getDraggables_def getBaseImage_def getTargets_def
        getOnePerTarget_def getTargetOutline_def getLabelBgColor_def setIndividualTargets_def
        default_conf_def flag_text_def Let_def)
qed

section \<open>An example\<close>

definition demo_conf :: conf where
  "demo_conf = \<lparr> c_draggables =
     [JObj [(''id'', JStr ''a''), (''icon'', JStr []), (''label'', JStr ''A''),
            (''can_reuse'', JBool False), (''target_fields'', JArr [])]],
     baseImage = ''i'',
     c_targets = [JObj [(''id'', JStr ''t''), (''x'', JNum 100), (''y'', JNum 100),
                        (''w'', JNum 10), (''h'', JNum 10)]],
     onePerTarget = Some True, targetOutline = False, labelBgColor = ''white'',
     individualTargets = Some True, foundErrors = False \<rparr>"

lemma configParser_accepts_typed_witness: "good_conf demo_conf"
proof -
  have "configParser (conf_json demo_conf) = Some (True, demo_conf)" by code_simp
  then show ?thesis by (rule configParser_accepts_typed)
qed

lemma configParser_roundtrip_witness:
  "configParser (conf_json demo_conf) = Some (True, demo_conf)"
proof (rule configParser_roundtrip)
  show "good_conf demo_conf" by code_simp
  show "\<not> foundErrors demo_conf" by (simp add: demo_conf_def)
  show "list_all small_target (c_targets demo_conf)" by code_simp
  show "list_all small_draggable (c_draggables demo_conf)" by code_simp
qed

end
