(* ===== verification/DndState.thy ===== *)
theory DndState
  imports DndConfig
begin

text \<open>
  The state of a drag-and-drop problem and the operations of
  \<open>common/static/js/capa/drag_and_drop/state.js\<close>, \<open>scroller.js\<close> and \<open>targets.js\<close>.

  The program keeps a graph of mutable objects: draggables point to the target they lie on,
  targets to the draggables on them, and both store their own index in the arrays that hold
  them. The model is an explicit heap: an object is known by the number of its
  \<open>uniqueId\<close>, \<open>dobj\<close> and \<open>tobj\<close> give its fields, and the arrays hold references. What
  the program writes to the page is kept as the CSS values and the parent of the elements;
  the sizes that the browser measures are parameters of the state.
\<close>

section \<open>Objects\<close>

datatype place = Nowhere | InSlider | OnBase

record css =
  cssLeft :: rat
  cssTop :: rat
  cssWidth :: rat
  cssHeight :: rat
  cssZ :: int
  cssBg :: string
  cssPad :: rat
  cssBorder :: string

text \<open>An entry of \<open>config.targets\<close> or of a draggable's \<open>target_fields\<close>.\<close>

record tconf =
  tc_id :: string
  tc_x :: int
  tc_y :: int
  tc_w :: int
  tc_h :: int

text \<open>An entry of \<open>config.draggables\<close>.\<close>

record dconf =
  dc_id :: string
  dc_icon :: string
  dc_label :: string
  dc_can_reuse :: bool
  dc_fields :: "tconf list"

text \<open>Reading an entry of the parsed configuration; the parser has checked and normalised the
  fields that are read here.\<close>

definition js_text :: "js \<Rightarrow> string" where
  "js_text v = (case v of JStr s \<Rightarrow> s | _ \<Rightarrow> [])"

definition js_int :: "js \<Rightarrow> int" where
  "js_int v = (case v of JNum q \<Rightarrow> \<lfloor>q\<rfloor> | _ \<Rightarrow> 0)"

definition target_conf :: "js \<Rightarrow> tconf" where
  "target_conf t =
     \<lparr> tc_id = js_text (js_get t ''id''), tc_x = js_int (js_get t ''x''),
       tc_y = js_int (js_get t ''y''), tc_w = js_int (js_get t ''w''),
       tc_h = js_int (js_get t ''h'') \<rparr>"

definition draggable_conf :: "js \<Rightarrow> dconf" where
  "draggable_conf d =
     \<lparr> dc_id = js_text (js_get d ''id''), dc_icon = js_text (js_get d ''icon''),
       dc_label = js_text (js_get d ''label''),
       dc_can_reuse = (js_get d ''can_reuse'' = JBool True),
       dc_fields = (case js_get d ''target_fields'' of
                      JArr ts \<Rightarrow> map target_conf ts | _ \<Rightarrow> []) \<rparr>"

lemma target_conf_faithful:
  assumes "good_target t"
  shows "js_get t ''id'' = JStr (tc_id (target_conf t))"
    and "js_get t ''x'' = JNum (of_int (tc_x (target_conf t)))"
    and "js_get t ''y'' = JNum (of_int (tc_y (target_conf t)))"
    and "js_get t ''w'' = JNum (of_int (tc_w (target_conf t)))"
    and "js_get t ''h'' = JNum (of_int (tc_h (target_conf t)))"
  using assms
  by (auto simp: good_target_def target_conf_def is_text_def is_int_num_def js_text_def js_int_def
      split: js.splits)

record target =
  t_id :: string
  t_x :: rat
  t_y :: rat
  t_w :: rat
  t_h :: rat
  offLeft :: rat
  offTop :: rat
  draggableList :: "nat list"
  numText :: "nat option" \<comment> \<open>the number shown in \<open>numTextEl\<close>; \<open>None\<close> when it is null\<close>
  onDrag :: bool \<comment> \<open>\<open>type === 'on_drag'\<close>, otherwise \<open>'base'\<close>\<close>
  draggableObj :: "nat option"
  indexInStateArray :: int
  dropEffect :: bool

record draggable =
  d_id :: string
  originalConf :: dconf
  stateDraggablesIndex :: "int option"
  isReusable :: bool
  isOriginal :: bool
  d_x :: js
  d_y :: js
  zIndex :: int
  containerShown :: bool
  iconEl :: css
  iconPlace :: place
  hasImg :: bool \<comment> \<open>\<open>iconImgEl !== null\<close>\<close>
  imgWidth :: rat
  imgHeight :: rat
  iconElBGColor :: string
  iconElPadding :: rat
  iconElBorder :: string
  iconElLeftOffset :: rat
  iconWidth :: rat
  iconHeight :: rat
  iconWidthSmall :: rat
  iconHeightSmall :: rat
  hasLabel :: bool \<comment> \<open>\<open>labelEl !== null\<close>\<close>
  labelEl :: css
  labelPlace :: place
  labelWidth :: rat
  hasLoaded :: bool
  inContainer :: bool
  mousePressed :: bool
  grabbed :: bool
  onTarget :: "nat option"
  onTargetIndex :: "int option"
  targetField :: "nat list"
  numDraggablesOnMe :: int

section \<open>Pending work\<close>

text \<open>
  The calls that \<open>update_input.js\<close> passes as continuations, as data: the grouped answer,
  the depth and position reached in it, and the identifiers read from the current chain
  (\<open>JNull\<close> and \<open>JUndef\<close> where the code has \<open>null\<close> or an unassigned variable).
\<close>

record chain =
  baseDraggableId :: js
  baseTargetId :: js
  layeredDraggableId :: js
  layeredTargetId :: js

type_synonym answers = "(nat \<times> js list) list"

datatype cont =
    KDone
  | KProcess answers nat nat
  | KCheckBase answers nat nat chain
  | KAfterBase answers nat nat chain
  | KCheckLayered answers nat nat chain nat

datatype movement = MoveTarget nat | MoveXY js js

text \<open>The callbacks of \<open>makeDraggableCopy\<close>, and the work that waits for a timer or for an
  image.\<close>

datatype copy_callback = CbMove movement cont | CbMouseDown rat rat

datatype task =
    Retry nat movement cont
  | CopyImage nat copy_callback
  | CopyReady nat copy_callback
  | OriginalImage nat

record dnd =
  config :: conf
  draggables :: "nat list"
  targets :: "nat list"
  dobj :: "nat \<Rightarrow> draggable"
  tobj :: "nat \<Rightarrow> target"
  numDraggablesInSlider :: int
  currentMovingDraggable :: "nat option"
  uniqueId :: nat
  showElLeftMargin :: int
  leftDimmed :: bool
  rightDimmed :: bool
  baseDropEffect :: bool
  inputVal :: "js option"
  tasks :: "task list"
  baseLeft :: rat
  baseTop :: rat
  baseWidth :: rat
  baseHeight :: rat
  textSize :: "string \<Rightarrow> rat \<times> rat"

definition upd_d :: "nat \<Rightarrow> (draggable \<Rightarrow> draggable) \<Rightarrow> dnd \<Rightarrow> dnd" where
  "upd_d d f st = st\<lparr>dobj := (dobj st)(d := f (dobj st d))\<rparr>"

definition upd_t :: "nat \<Rightarrow> (target \<Rightarrow> target) \<Rightarrow> dnd \<Rightarrow> dnd" where
  "upd_t t f st = st\<lparr>tobj := (tobj st)(t := f (tobj st t))\<rparr>"

section \<open>\<open>state.js\<close>\<close>

text \<open>The object's reference is the counter part of its \<open>uniqueId\<close>.\<close>

definition getUniqueId :: "dnd \<Rightarrow> nat \<times> dnd" where
  "getUniqueId st = (let n = uniqueId st + 1 in (n, st\<lparr>uniqueId := n\<rparr>))"

definition uniqueId_text :: "string \<Rightarrow> nat \<Rightarrow> string" where
  "uniqueId_text salt n = salt @ ''_'' @ nat_text n"

definition set_icon_pos :: "rat \<Rightarrow> rat \<Rightarrow> draggable \<Rightarrow> draggable" where
  "set_icon_pos l t d = d\<lparr>iconEl := (iconEl d)\<lparr>cssLeft := l, cssTop := t\<rparr>\<rparr>"

definition set_label_pos :: "rat \<Rightarrow> rat \<Rightarrow> draggable \<Rightarrow> draggable" where
  "set_label_pos l t d =
     (if hasLabel d then d\<lparr>labelEl := (labelEl d)\<lparr>cssLeft := l, cssTop := t\<rparr>\<rparr> else d)"

definition set_z :: "int \<Rightarrow> draggable \<Rightarrow> draggable" where
  "set_z z d =
     (let d1 = d\<lparr>zIndex := z, iconEl := (iconEl d)\<lparr>cssZ := z\<rparr>\<rparr>
      in if hasLabel d then d1\<lparr>labelEl := (labelEl d)\<lparr>cssZ := z\<rparr>\<rparr> else d1)"

text \<open>The icon follows the mouse with its centre under the pointer, the label below it.\<close>

definition follow_mouse :: "dnd \<Rightarrow> rat \<Rightarrow> rat \<Rightarrow> draggable \<Rightarrow> draggable" where
  "follow_mouse st pageX pageY d =
     set_label_pos (pageX - baseLeft st - labelWidth d / 2 - 9)
                   (pageY - baseTop st + iconHeight d / 2 + 5)
       (set_icon_pos (pageX - baseLeft st - iconWidth d / 2 - iconElLeftOffset d)
                     (pageY - baseTop st - iconHeight d / 2) d)"

definition documentMouseMove :: "dnd \<Rightarrow> rat \<Rightarrow> rat \<Rightarrow> dnd" where
  "documentMouseMove st pageX pageY =
     (case currentMovingDraggable st of
        None \<Rightarrow> st
      | Some d \<Rightarrow> upd_d d (follow_mouse st pageX pageY) st)"

section \<open>\<open>scroller.js\<close>\<close>

definition updateArrowOpacity :: "dnd \<Rightarrow> dnd" where
  "updateArrowOpacity st =
     st\<lparr>rightDimmed := showElLeftMargin st < -102 * (numDraggablesInSlider st - 6),
        leftDimmed := showElLeftMargin st > -102\<rparr>"

text \<open>The two arrows; the slider's animation ends with \<open>updateArrowOpacity\<close>.\<close>

definition moveLeft :: "dnd \<Rightarrow> dnd" where
  "moveLeft st =
     (if showElLeftMargin st > -102 then st
      else updateArrowOpacity (st\<lparr>showElLeftMargin := showElLeftMargin st + 102\<rparr>))"

definition moveRight :: "dnd \<Rightarrow> dnd" where
  "moveRight st =
     (if showElLeftMargin st < -102 * (numDraggablesInSlider st - 6) then st
      else updateArrowOpacity (st\<lparr>showElLeftMargin := showElLeftMargin st - 102\<rparr>))"

section \<open>\<open>targets.js\<close>\<close>

definition updateNumTextEl :: "nat \<Rightarrow> dnd \<Rightarrow> dnd" where
  "updateNumTextEl t =
     upd_t t (\<lambda>r. r\<lparr>numText := map_option (\<lambda>_. length (draggableList r)) (numText r)\<rparr>)"

definition numDraggables_add :: "int \<Rightarrow> nat \<Rightarrow> dnd \<Rightarrow> dnd" where
  "numDraggables_add k t st =
     (if onDrag (tobj st t) then
        (case draggableObj (tobj st t) of
           None \<Rightarrow> st
         | Some b \<Rightarrow> upd_d b (\<lambda>r. r\<lparr>numDraggablesOnMe := numDraggablesOnMe r + k\<rparr>) st)
      else st)"

text \<open>\<open>null\<close> is read as 0 where the code compares it or uses it as an index.\<close>

definition js_index :: "int option \<Rightarrow> int" where
  "js_index i = (case i of None \<Rightarrow> 0 | Some n \<Rightarrow> n)"

text \<open>The loop that closes the gap: every draggable of the list with a larger index moves down.\<close>

definition shift_onTargetIndex :: "int \<Rightarrow> draggable \<Rightarrow> draggable" where
  "shift_onTargetIndex k d =
     (if js_index (onTargetIndex d) > k
      then d\<lparr>onTargetIndex := Some (js_index (onTargetIndex d) - 1)\<rparr> else d)"

definition removeDraggable :: "nat \<Rightarrow> nat \<Rightarrow> dnd \<Rightarrow> dnd" where
  "removeDraggable t d st =
     (let k = js_index (onTargetIndex (dobj st d));
          st1 = upd_t t (\<lambda>r. r\<lparr>draggableList := splice1 (draggableList r) k\<rparr>) st;
          st2 = fold (\<lambda>e. upd_d e (shift_onTargetIndex k)) (draggableList (tobj st1 t)) st1;
          st3 = upd_d d (\<lambda>r. r\<lparr>onTarget := None, onTargetIndex := None\<rparr>) st2
      in updateNumTextEl t (numDraggables_add (-1) t st3))"

definition addDraggable :: "nat \<Rightarrow> nat \<Rightarrow> dnd \<Rightarrow> dnd" where
  "addDraggable t d st =
     (let n = length (draggableList (tobj st t));
          st1 = upd_d d (\<lambda>r. r\<lparr>onTarget := Some t, onTargetIndex := Some (int n)\<rparr>) st;
          st2 = upd_t t (\<lambda>r. r\<lparr>draggableList := draggableList r @ [d]\<rparr>) st1
      in updateNumTextEl t (numDraggables_add 1 t st2))"

text \<open>The lowest z-index starts at 10000, the highest at -10000. The second loop writes while it
  reads, but the element it writes is not read again.\<close>

definition cycleDraggableOrder :: "nat \<Rightarrow> dnd \<Rightarrow> dnd" where
  "cycleDraggableOrder t st =
     (let ds = draggableList (tobj st t);
          zs = map (\<lambda>d. zIndex (dobj st d)) ds;
          lowest = fold (\<lambda>z lo. if z < lo then z else lo) zs 10000;
          highest = fold (\<lambda>z hi. if z > hi then z else hi) zs (-10000)
      in if length ds < 2 then st
         else fold (\<lambda>d. upd_d d (\<lambda>r. set_z (if zIndex r = lowest then highest
                                                  else zIndex r - 1) r)) ds st)"

text \<open>A new target; \<open>owner\<close> is the draggable whose target field is being created. The offset of
  a target on a draggable is relative to the position of the draggable's icon.\<close>

definition processTarget :: "tconf \<Rightarrow> nat option \<Rightarrow> dnd \<Rightarrow> dnd" where
  "processTarget obj owner st =
     (let (n, st1) = getUniqueId st;
          (l, tp) = (case owner of
                       None \<Rightarrow> (of_int (tc_x obj), of_int (tc_y obj))
                     | Some d \<Rightarrow> (cssLeft (iconEl (dobj st d)) + of_int (tc_x obj),
                                  cssTop (iconEl (dobj st d)) + of_int (tc_y obj)));
          new = \<lparr> t_id = tc_id obj,
                  t_x = of_int (tc_x obj), t_y = of_int (tc_y obj),
                  t_w = of_int (tc_w obj), t_h = of_int (tc_h obj),
                  offLeft = l, offTop = tp, draggableList = [],
                  numText = (if onePerTarget (config st) = Some False then Some 0 else None),
                  onDrag = (owner \<noteq> None), draggableObj = owner,
                  indexInStateArray = int (length (targets st)), dropEffect = False \<rparr>;
          st2 = st1\<lparr>tobj := (tobj st1)(n := new), targets := targets st1 @ [n]\<rparr>
      in case owner of
           None \<Rightarrow> st2
         | Some d \<Rightarrow> upd_d d (\<lambda>r. r\<lparr>targetField := targetField r @ [n]\<rparr>) st2)"

definition initializeBaseTargets :: "dnd \<Rightarrow> dnd" where
  "initializeBaseTargets st =
     fold (\<lambda>c. processTarget (target_conf c) None) (c_targets (config st)) st"

text \<open>The first landing of a draggable creates its target field; a later one moves it along.\<close>

definition initializeTargetField :: "nat \<Rightarrow> dnd \<Rightarrow> dnd" where
  "initializeTargetField d st =
     (if targetField (dobj st d) = []
      then fold (\<lambda>c. processTarget c (Some d)) (dc_fields (originalConf (dobj st d))) st
      else fold (\<lambda>t. upd_t t (\<lambda>r. r\<lparr>offLeft := cssLeft (iconEl (dobj st d)) + t_x r,
                                        offTop := cssTop (iconEl (dobj st d)) + t_y r\<rparr>))
             (targetField (dobj st d)) st)"

text \<open>The targets of the field leave \<open>state.targets\<close> one by one, each at its stored index less
  the number already removed; then the indices past the lowest removed one shift down.\<close>

fun remove_field_targets :: "nat list \<Rightarrow> int \<Rightarrow> int \<Rightarrow> dnd \<Rightarrow> int \<times> int \<times> dnd" where
  "remove_field_targets [] offset lowest st = (offset, lowest, st)"
| "remove_field_targets (t # ts) offset lowest st =
     (let i = indexInStateArray (tobj st t)
      in remove_field_targets ts (offset + 1) (if lowest > i then i else lowest)
           (st\<lparr>targets := splice1 (targets st) (i - offset)\<rparr>))"

definition shift_indexInStateArray :: "int \<Rightarrow> int \<Rightarrow> target \<Rightarrow> target" where
  "shift_indexInStateArray lowest offset r =
     (if indexInStateArray r > lowest
      then r\<lparr>indexInStateArray := indexInStateArray r - offset\<rparr> else r)"

definition destroyTargetField :: "nat \<Rightarrow> dnd \<Rightarrow> dnd" where
  "destroyTargetField d st =
     (let (offset, lowest, st1) =
            remove_field_targets (targetField (dobj st d)) 0 (int (length (targets st)) + 1) st;
          st2 = fold (\<lambda>t. upd_t t (shift_indexInStateArray lowest offset)) (targets st1) st1
      in upd_d d (\<lambda>r. r\<lparr>targetField := []\<rparr>) st2)"

end
