(* ===== verification/DndInput.thy ===== *)
theory DndInput
  imports DndState
begin

text \<open>
  Reading and writing the answer of a drag-and-drop problem: \<open>update\<close>,
  \<open>addTargetRecursively\<close>, \<open>findDepth\<close> and \<open>getById\<close> of
  \<open>common/static/js/capa/drag_and_drop/update_input.js\<close>. The value of the input element
  is the JSON value its text stands for; \<open>None\<close> is the empty text.
\<close>

section \<open>Writing the answer\<close>

text \<open>
  The nested object for one draggable. \<open>None\<close> is a thrown error: the recursion reads
  \<open>target.type\<close> of \<open>null\<close> when a draggable in the chain lies on no target, and a chain
  without end overflows the stack. The fuel bounds the depth of the recursion;
  \<open>update\<close> supplies one more than the number of draggables, which is enough for every chain
  without a cycle.
\<close>

fun addTargetRecursively :: "nat \<Rightarrow> dnd \<Rightarrow> nat \<Rightarrow> nat option \<Rightarrow> js option" where
  "addTargetRecursively 0 st d t = None"
| "addTargetRecursively (Suc fuel) st d None = None"
| "addTargetRecursively (Suc fuel) st d (Some t) =
     (if \<not> onDrag (tobj st t)
      then Some (JObj [(d_id (dobj st d), JStr (t_id (tobj st t)))])
      else (case draggableObj (tobj st t) of
              None \<Rightarrow> None
            | Some b \<Rightarrow> do {
                inner \<leftarrow> addTargetRecursively fuel st b (onTarget (dobj st b));
                Some (JObj [(d_id (dobj st d), JObj [(t_id (tobj st t), inner)])]) }))"

definition position_entries :: "dnd \<Rightarrow> js list" where
  "position_entries st =
     map (\<lambda>d. JObj [(d_id (dobj st d), JArr [d_x (dobj st d), d_y (dobj st d)])])
       (filter (\<lambda>d. d_x (dobj st d) \<noteq> JNum (-1)) (draggables st))"

fun option_list :: "'a option list \<Rightarrow> 'a list option" where
  "option_list [] = Some []"
| "option_list (x # xs) = do { y \<leftarrow> x; ys \<leftarrow> option_list xs; Some (y # ys) }"

definition target_entry :: "dnd \<Rightarrow> nat \<Rightarrow> nat \<Rightarrow> js option" where
  "target_entry st t d =
     (if \<not> onDrag (tobj st t)
      then Some (JObj [(d_id (dobj st d), JStr (t_id (tobj st t)))])
      else addTargetRecursively (length (draggables st) + 1) st d (Some t))"

definition target_entries :: "dnd \<Rightarrow> js list option" where
  "target_entries st =
     option_list (concat (map (\<lambda>t. map (target_entry st t) (draggableList (tobj st t)))
                            (targets st)))"

definition update :: "dnd \<Rightarrow> dnd option" where
  "update st =
     (if individualTargets (config st) = Some False
      then Some (st\<lparr>inputVal := Some (JArr (position_entries st))\<rparr>)
      else do { es \<leftarrow> target_entries st; Some (st\<lparr>inputVal := Some (JArr es)\<rparr>) })"

section \<open>Reading the answer\<close>

text \<open>The depth is threaded through the properties of an object, so it counts the objects of the
  value.\<close>

fun findDepth :: "js \<Rightarrow> nat \<Rightarrow> nat"
  and findDepth_props :: "(string \<times> js) list \<Rightarrow> nat \<Rightarrow> nat" where
  "findDepth (JObj kvs) depth = findDepth_props kvs (depth + 1)"
| "findDepth v depth = depth"
| "findDepth_props [] depth = depth"
| "findDepth_props ((k, v) # kvs) depth = findDepth_props kvs (findDepth v depth)"

text \<open>\<open>getById\<close> on the draggables, for each combination of arguments the code uses; an omitted
  argument is \<open>JUndef\<close>. Reading the target of a draggable that lies on none throws.\<close>

definition on_target_with_id :: "dnd \<Rightarrow> nat \<Rightarrow> js \<Rightarrow> bool option" where
  "on_target_with_id st d targetId =
     (case onTarget (dobj st d) of
        None \<Rightarrow> None
      | Some t \<Rightarrow> Some (JStr (t_id (tobj st t)) = targetId))"

definition on_layer_with_ids :: "dnd \<Rightarrow> nat \<Rightarrow> js \<Rightarrow> js \<Rightarrow> js \<Rightarrow> bool option" where
  "on_layer_with_ids st d targetId baseId baseTarget =
     do { isT \<leftarrow> on_target_with_id st d targetId;
          t \<leftarrow> onTarget (dobj st d);
          if \<not> (isT \<and> onDrag (tobj st t)) then Some False
          else do {
            b \<leftarrow> draggableObj (tobj st t);
            if JStr (d_id (dobj st b)) \<noteq> baseId then Some False
            else on_target_with_id st b baseTarget } }"

definition draggable_matches :: "dnd \<Rightarrow> js \<Rightarrow> bool \<Rightarrow> js \<Rightarrow> js \<Rightarrow> js \<Rightarrow> nat \<Rightarrow> bool option" where
  "draggable_matches st i inSlider targetId baseId baseTarget d =
     (if JStr (d_id (dobj st d)) \<noteq> i \<or> inContainer (dobj st d) \<noteq> inSlider then Some False
      else if inSlider \<or> targetId = JUndef then Some True
      else if baseId \<noteq> JUndef \<and> baseTarget \<noteq> JUndef
        then on_layer_with_ids st d targetId baseId baseTarget
      else on_target_with_id st d targetId)"

fun find_first :: "('a \<Rightarrow> bool option) \<Rightarrow> 'a list \<Rightarrow> 'a option option" where
  "find_first p [] = Some None"
| "find_first p (x # xs) =
     do { ok \<leftarrow> p x; if ok then Some (Some x) else find_first p xs }"

definition getById_draggable :: "dnd \<Rightarrow> js \<Rightarrow> bool \<Rightarrow> js \<Rightarrow> js \<Rightarrow> js \<Rightarrow> nat option option" where
  "getById_draggable st i inSlider targetId baseId baseTarget =
     find_first (draggable_matches st i inSlider targetId baseId baseTarget) (draggables st)"

definition getById_target :: "dnd \<Rightarrow> js \<Rightarrow> bool \<Rightarrow> nat option" where
  "getById_target st i fromTargetField =
     find (\<lambda>t. JStr (t_id (tobj st t)) = i \<and> onDrag (tobj st t) = fromTargetField) (targets st)"

end
