(* ===== verification/DndDrag.thy ===== *)
theory DndDrag
  imports DndInput
begin

text \<open>
  Draggables: their creation and copying (\<open>draggables.js\<close>), the mouse events
  (\<open>draggable_events.js\<close>) and the logic behind them (\<open>draggable_logic.js\<close>), all under
  \<open>common/static/js/capa/drag_and_drop/\<close>. A function that ends by calling its callback
  returns that call as a continuation; one that defers it to a timer or to the load of an
  image leaves a pending task and returns \<open>KDone\<close>.
\<close>

definition blank_css :: css where
  "blank_css = \<lparr> cssLeft = 0, cssTop = 0, cssWidth = 0, cssHeight = 0, cssZ = 0, cssBg = [],
                 cssPad = 0, cssBorder = [] \<rparr>"

definition later :: "task \<Rightarrow> dnd \<Rightarrow> dnd" where
  "later k st = st\<lparr>tasks := tasks st @ [k]\<rparr>"

definition push_draggable :: "nat \<Rightarrow> dnd \<Rightarrow> dnd" where
  "push_draggable d st =
     (upd_d d (\<lambda>r. r\<lparr>stateDraggablesIndex := Some (int (length (draggables st)))\<rparr>) st)
       \<lparr>draggables := draggables st @ [d]\<rparr>"

section \<open>\<open>draggables.js\<close>\<close>

definition new_draggable :: "dconf \<Rightarrow> draggable" where
  "new_draggable obj =
     \<lparr> d_id = dc_id obj, originalConf = obj, stateDraggablesIndex = None,
       isReusable = dc_can_reuse obj, isOriginal = True, d_x = JNum (-1), d_y = JNum (-1),
       zIndex = 1, containerShown = True, iconEl = blank_css, iconPlace = Nowhere,
       hasImg = False, imgWidth = 0, imgHeight = 0, iconElBGColor = [], iconElPadding = 0,
       iconElBorder = [], iconElLeftOffset = 0, iconWidth = 0, iconHeight = 0,
       iconWidthSmall = 0, iconHeightSmall = 0, hasLabel = False, labelEl = blank_css,
       labelPlace = Nowhere, labelWidth = 0, hasLoaded = False, inContainer = True,
       mousePressed = False, grabbed = False, onTarget = None, onTargetIndex = None,
       targetField = [], numDraggablesOnMe = 0 \<rparr>"

text \<open>A draggable with an icon waits for its image; one with only a label uses the label as its
  icon; one with neither is dropped.\<close>

definition processDraggable :: "dconf \<Rightarrow> dnd \<Rightarrow> dnd" where
  "processDraggable obj st =
     (let (n, st1) = getUniqueId st;
          place = (\<lambda>d s. push_draggable n
                     (s\<lparr>dobj := (dobj s)(n := d),
                        numDraggablesInSlider := numDraggablesInSlider s + 1\<rparr>));
          w = fst (textSize st (dc_label obj)) + 1;
          h = snd (textSize st (dc_label obj))
      in if dc_icon obj \<noteq> [] then
           place ((new_draggable obj)\<lparr>iconElBGColor := ''transparent'', iconElPadding := 0,
                    iconElBorder := ''none'', iconElLeftOffset := 0, hasImg := True\<rparr>)
             (later (OriginalImage n) st1)
         else if dc_label obj \<noteq> [] then
           place ((new_draggable obj)\<lparr>iconElBGColor := labelBgColor (config st),
                    iconElPadding := 8, iconElBorder := ''1px solid black'',
                    iconElLeftOffset := 9, iconPlace := InSlider,
                    iconWidth := w, iconHeight := h, iconWidthSmall := w, iconHeightSmall := h,
                    iconEl := blank_css\<lparr>cssLeft := 50 - w / 2, cssTop := 50 - h / 2\<rparr>,
                    hasLoaded := True\<rparr>) st1
         else st1)"

definition init :: "dnd \<Rightarrow> dnd" where
  "init st = fold (\<lambda>d. processDraggable (draggable_conf d)) (c_draggables (config st)) st"

text \<open>The load event of the icon's image, with the image's size. The longer side is scaled to 60.\<close>

definition originalImageLoaded :: "nat \<Rightarrow> rat \<Rightarrow> rat \<Rightarrow> dnd \<Rightarrow> dnd" where
  "originalImageLoaded n w h st =
     upd_d n (\<lambda>d.
       let ws = (if w \<ge> h then 60 else 60 * (w / h));
           hs = (if w \<ge> h then 60 * (h / w) else 60);
           lab = dc_label (originalConf d);
           d1 = d\<lparr>iconWidth := w, iconHeight := h, iconWidthSmall := ws, iconHeightSmall := hs,
                  iconEl := (iconEl d)\<lparr>cssWidth := ws, cssHeight := hs, cssLeft := 50 - ws / 2,
                     cssTop := (if lab \<noteq> [] then 75 / 2 else 50) - hs / 2\<rparr>,
                  imgWidth := ws, imgHeight := hs, iconPlace := InSlider\<rparr>;
           lw = fst (textSize st lab);
           d2 = (if lab \<noteq> []
                 then d1\<lparr>hasLabel := True, labelPlace := InSlider, labelWidth := lw,
                         labelEl := blank_css\<lparr>cssLeft := 50 - lw / 2,
                                              cssTop := 85 / 2 + hs / 2\<rparr>\<rparr>
                 else d1)
       in d2\<lparr>hasLoaded := True\<rparr>) st"

text \<open>A copy shares every property of the original but its identity, its elements and its target
  field. It joins \<open>state.draggables\<close> when its image has loaded, or at once without an image.\<close>

definition makeDraggableCopy :: "nat \<Rightarrow> copy_callback \<Rightarrow> dnd \<Rightarrow> dnd" where
  "makeDraggableCopy d cb st =
     (let (n, st1) = getUniqueId st;
          r = dobj st d;
          copy = r\<lparr>isOriginal := False, stateDraggablesIndex := None, containerShown := False,
                   iconEl := blank_css, iconPlace := Nowhere, hasImg := False,
                   labelEl := blank_css, labelPlace := Nowhere, hasLabel := False,
                   targetField := []\<rparr>
      in if dc_icon (originalConf r) \<noteq> [] then
           later (CopyImage n cb)
             (st1\<lparr>dobj := (dobj st1)(n := copy\<lparr>hasImg := True\<rparr>)\<rparr>)
         else if dc_label (originalConf r) \<noteq> [] then
           later (CopyReady n cb) (push_draggable n
             (st1\<lparr>dobj := (dobj st1)(n := copy\<lparr>iconEl := blank_css
                \<lparr>cssLeft := 50 - iconWidthSmall r / 2, cssTop := 50 - iconHeightSmall r / 2\<rparr>\<rparr>)\<rparr>))
         else st1)"

definition copyImageLoaded :: "nat \<Rightarrow> copy_callback \<Rightarrow> dnd \<Rightarrow> dnd" where
  "copyImageLoaded n cb st =
     (let st1 = upd_d n (\<lambda>d.
        let lab = dc_label (originalConf d);
            d1 = d\<lparr>iconEl := (iconEl d)\<lparr>cssWidth := iconWidthSmall d,
                      cssHeight := iconHeightSmall d, cssLeft := 50 - iconWidthSmall d / 2,
                      cssTop := (if lab \<noteq> [] then 5 else 50 - iconHeightSmall d / 2)\<rparr>,
                   imgWidth := iconWidthSmall d, imgHeight := iconHeightSmall d\<rparr>
        in if lab \<noteq> []
           then d1\<lparr>hasLabel := True,
                   labelEl := blank_css\<lparr>cssLeft := 50 - labelWidth d / 2,
                                        cssTop := 5 + iconHeightSmall d + 5\<rparr>\<rparr>
           else d1) st
      in later (CopyReady n cb) (push_draggable n st1))"

section \<open>\<open>draggable_logic.js\<close>\<close>

definition toggleTargets :: "bool \<Rightarrow> dnd \<Rightarrow> dnd" where
  "toggleTargets isEnabled st =
     fold (\<lambda>t. upd_t t (\<lambda>r. r\<lparr>dropEffect := isEnabled\<rparr>)) (targets st)
       (st\<lparr>baseDropEffect := isEnabled\<rparr>)"

definition outline_offset :: "dnd \<Rightarrow> rat" where
  "outline_offset st = (if targetOutline (config st) then 1 else 0)"

text \<open>The centre of the icon is put on the centre of the target.\<close>

definition snapToTarget :: "nat \<Rightarrow> nat \<Rightarrow> dnd \<Rightarrow> dnd" where
  "snapToTarget t d st =
     (let r = tobj st t; o1 = outline_offset st
      in upd_d d (\<lambda>q. set_label_pos
            (offLeft r + t_w r / 2 - labelWidth q / 2 + o1 - 9)
            (offTop r + t_h r / 2 + iconHeight q / 2 + 5 + o1)
          (set_icon_pos
            (offLeft r + t_w r / 2 - iconWidth q / 2 + o1 - iconElLeftOffset q)
            (offTop r + t_h r / 2 - iconHeight q / 2 + o1) q)) st)"

text \<open>The z-index of the draggable becomes one more than the highest other one, not counting those
  being dragged (1000).\<close>

definition highest_z :: "dnd \<Rightarrow> nat list \<Rightarrow> int" where
  "highest_z st ds =
     fold (\<lambda>d hi. if zIndex (dobj st d) > hi \<and> zIndex (dobj st d) \<noteq> 1000
                   then zIndex (dobj st d) else hi) ds (-10000)"

definition correctZIndexes :: "nat \<Rightarrow> dnd \<Rightarrow> dnd option" where
  "correctZIndexes d st =
     do { hi \<leftarrow> (if individualTargets (config st) = Some True
                then (case onTarget (dobj st d) of
                        None \<Rightarrow> None
                      | Some t \<Rightarrow>
                          Some (if length (draggableList (tobj st t)) > 0
                                then highest_z st (draggableList (tobj st t)) else 0))
                else Some (if \<not> inContainer (dobj st d) then highest_z st (draggables st)
                           else -10000));
          let hi' = (if hi = -10000 then 0 else hi);
          Some (upd_d d (set_z (hi' + 1)) st) }"

text \<open>The loop over the targets, from the first one on. The first target that is free, is not part
  of the draggable and contains its centre takes it.\<close>

definition target_free :: "dnd \<Rightarrow> nat \<Rightarrow> nat \<Rightarrow> bool" where
  "target_free st d t \<longleftrightarrow>
     \<not> (onePerTarget (config st) = Some True \<and> length (draggableList (tobj st t)) = 1 \<and>
        draggableList (tobj st t) ! 0 \<noteq> d)"

definition centre_in :: "dnd \<Rightarrow> nat \<Rightarrow> rat \<Rightarrow> rat \<Rightarrow> nat \<Rightarrow> bool" where
  "centre_in st d posL posT t \<longleftrightarrow>
     (let r = tobj st t; cx = posL + iconWidth (dobj st d) / 2; cy = posT + iconHeight (dobj st d) / 2
      in \<not> (cy < offTop r \<or> cy > offTop r + t_h r \<or> cx < offLeft r \<or> cx > offLeft r + t_w r))"

fun checkIfOnTarget_from :: "nat list \<Rightarrow> nat \<Rightarrow> rat \<Rightarrow> rat \<Rightarrow> dnd \<Rightarrow> bool \<times> dnd" where
  "checkIfOnTarget_from [] d posL posT st = (False, st)"
| "checkIfOnTarget_from (t # ts) d posL posT st =
     (if \<not> target_free st d t then checkIfOnTarget_from ts d posL posT st
      else if onDrag (tobj st t) \<and> draggableObj (tobj st t) = Some d
      then checkIfOnTarget_from ts d posL posT st
      else if \<not> centre_in st d posL posT t then checkIfOnTarget_from ts d posL posT st
      else (let st1 = (case onTarget (dobj st d) of
                         None \<Rightarrow> addDraggable t d st
                       | Some t' \<Rightarrow> if t' \<noteq> t then addDraggable t d (removeDraggable t' d st)
                                    else st)
            in (True, snapToTarget t d st1)))"

definition checkIfOnTarget :: "nat \<Rightarrow> rat \<Rightarrow> rat \<Rightarrow> dnd \<Rightarrow> bool \<times> dnd" where
  "checkIfOnTarget d posL posT st = checkIfOnTarget_from (targets st) d posL posT st"

text \<open>A copy leaves the problem; an original goes back to its place in the slider.\<close>

definition shift_stateIndex :: "int \<Rightarrow> draggable \<Rightarrow> draggable" where
  "shift_stateIndex k d =
     (if js_index (stateDraggablesIndex d) > k
      then d\<lparr>stateDraggablesIndex := Some (js_index (stateDraggablesIndex d) - 1)\<rparr> else d)"

definition slider_look :: "draggable \<Rightarrow> draggable" where
  "slider_look d =
     (let d1 = d\<lparr>containerShown := True, zIndex := 1,
                 iconEl := (iconEl d)\<lparr>cssBorder := ''none'', cssBg := ''transparent'', cssPad := 0,
                    cssZ := 1, cssWidth := iconWidthSmall d, cssHeight := iconHeightSmall d,
                    cssLeft := 50 - iconWidthSmall d / 2,
                    cssTop := (if hasLabel d then 75 / 2 else 50) - iconHeightSmall d / 2\<rparr>,
                 iconPlace := InSlider\<rparr>;
          d2 = (if hasImg d then d1\<lparr>imgWidth := iconWidthSmall d, imgHeight := iconHeightSmall d\<rparr>
                else d1)
      in if hasLabel d
         then d2\<lparr>labelEl := (labelEl d)\<lparr>cssBorder := ''none'', cssBg := ''transparent'',
                    cssPad := 0, cssZ := 1, cssLeft := 50 - labelWidth d / 2,
                    cssTop := 85 / 2 + iconHeightSmall d / 2\<rparr>, labelPlace := InSlider\<rparr>
         else d2)"

definition moveBackToSlider :: "nat \<Rightarrow> dnd \<Rightarrow> dnd" where
  "moveBackToSlider d st =
     (let st1 = destroyTargetField d st
      in if \<not> isOriginal (dobj st d) then
           (let k = js_index (stateDraggablesIndex (dobj st d));
                st2 = upd_d d (\<lambda>r. r\<lparr>iconPlace := Nowhere, labelPlace := Nowhere\<rparr>) st1;
                st3 = st2\<lparr>draggables := splice1 (draggables st2) k\<rparr>
            in fold (\<lambda>e. upd_d e (shift_stateIndex k)) (draggables st3) st3)
         else upd_d d (\<lambda>r. (slider_look r)\<lparr>inContainer := True\<rparr>) st1)"

text \<open>\<open>posL\<close> and \<open>posT\<close> are \<open>this.iconEl.position()\<close>: the icon is positioned absolutely, so they are
  its CSS coordinates.\<close>

definition slider_count :: "int \<Rightarrow> nat \<Rightarrow> dnd \<Rightarrow> dnd" where
  "slider_count k d st =
     (if isOriginal (dobj st d)
      then st\<lparr>numDraggablesInSlider := numDraggablesInSlider st + k\<rparr> else st)"

definition arrows_if_original :: "nat \<Rightarrow> dnd \<Rightarrow> dnd" where
  "arrows_if_original d st = (if isOriginal (dobj st d) then updateArrowOpacity st else st)"

definition land_on_targets :: "nat \<Rightarrow> rat \<Rightarrow> rat \<Rightarrow> dnd \<Rightarrow> dnd option" where
  "land_on_targets d posL posT st =
     (let (found, st1) = checkIfOnTarget d posL posT st
      in if found then do { st2 \<leftarrow> correctZIndexes d st1; Some (initializeTargetField d st2) }
         else
           (let st2 = (case onTarget (dobj st1 d) of
                         None \<Rightarrow> st1 | Some t \<Rightarrow> removeDraggable t d st1)
            in Some (slider_count 1 d (moveBackToSlider d st2))))"

definition off_base :: "dnd \<Rightarrow> nat \<Rightarrow> rat \<Rightarrow> rat \<Rightarrow> bool" where
  "off_base st d posL posT \<longleftrightarrow>
     posL < 0 \<or> posL + iconWidth (dobj st d) > baseWidth st \<or>
     posT < 0 \<or> posT + iconHeight (dobj st d) > baseHeight st"

definition land_anywhere :: "nat \<Rightarrow> rat \<Rightarrow> rat \<Rightarrow> dnd \<Rightarrow> dnd option" where
  "land_anywhere d posL posT st =
     (if off_base st d posL posT then
        Some (slider_count 1 d
          (upd_d d (\<lambda>r. r\<lparr>d_x := JNum (-1), d_y := JNum (-1)\<rparr>) (moveBackToSlider d st)))
      else do {
        st1 \<leftarrow> correctZIndexes d st;
        Some (initializeTargetField d
          (upd_d d (\<lambda>r. r\<lparr>d_x := JNum (posL + iconWidth r / 2),
                          d_y := JNum (posT + iconHeight r / 2)\<rparr>) st1)) })"

definition checkLandingElement :: "nat \<Rightarrow> dnd \<Rightarrow> dnd option" where
  "checkLandingElement d st =
     (let st1 = upd_d d (\<lambda>r. r\<lparr>mousePressed := False\<rparr>) st;
          posL = cssLeft (iconEl (dobj st1 d)); posT = cssTop (iconEl (dobj st1 d))
      in do {
           st2 \<leftarrow> (if individualTargets (config st1) = Some True
                   then land_on_targets d posL posT st1 else land_anywhere d posL posT st1);
           update (arrows_if_original d st2) })"

text \<open>The look of a draggable outside the slider, shared by a move and by the start of a drag.\<close>

definition base_look :: "dnd \<Rightarrow> draggable \<Rightarrow> draggable" where
  "base_look st d =
     (let d1 = d\<lparr>inContainer := False,
                 containerShown := (if isOriginal d then False else containerShown d),
                 iconEl := (iconEl d)\<lparr>cssBg := iconElBGColor d, cssPad := iconElPadding d,
                    cssBorder := iconElBorder d, cssWidth := iconWidth d,
                    cssHeight := iconHeight d\<rparr>,
                 iconPlace := OnBase\<rparr>;
          d2 = (if hasImg d then d1\<lparr>imgWidth := iconWidth d, imgHeight := iconHeight d\<rparr> else d1)
      in if hasLabel d
         then d2\<lparr>labelEl := (labelEl d)\<lparr>cssBg := labelBgColor (config st), cssPad := 8,
                    cssBorder := ''1px solid black''\<rparr>, labelPlace := OnBase\<rparr>
         else d2)"

text \<open>A coordinate of a saved answer; the code writes numbers there. Anything else is not a
  number, and jQuery ignores the assignment of \<open>NaN\<close>.\<close>

definition js_number :: "js \<Rightarrow> rat option" where
  "js_number v = (case v of JNum q \<Rightarrow> Some q | _ \<Rightarrow> None)"

definition set_or_keep :: "rat option \<Rightarrow> (rat \<Rightarrow> rat) \<Rightarrow> rat \<Rightarrow> rat" where
  "set_or_keep v f old = (case v of None \<Rightarrow> old | Some q \<Rightarrow> f q)"

definition place_at :: "dnd \<Rightarrow> js \<Rightarrow> js \<Rightarrow> draggable \<Rightarrow> draggable" where
  "place_at st x y d =
     (let o1 = outline_offset st; vx = js_number x; vy = js_number y;
          d1 = set_icon_pos
                 (set_or_keep vx (\<lambda>q. q - iconWidth d / 2 + o1 - iconElLeftOffset d)
                    (cssLeft (iconEl d)))
                 (set_or_keep vy (\<lambda>q. q - iconHeight d / 2 + o1) (cssTop (iconEl d))) d
      in set_label_pos
           (set_or_keep vx (\<lambda>q. q - labelWidth d / 2 + o1 - 9) (cssLeft (labelEl d)))
           (set_or_keep vy (\<lambda>q. q - iconHeight d / 2 + iconHeight d + 5 + o1) (cssTop (labelEl d)))
           d1)"

definition moveDraggableTo :: "nat \<Rightarrow> movement \<Rightarrow> cont \<Rightarrow> dnd \<Rightarrow> (cont \<times> dnd) option" where
  "moveDraggableTo d mv k st =
     (if \<not> hasLoaded (dobj st d) then Some (KDone, later (Retry d mv k) st)
      else if isReusable (dobj st d) \<and> isOriginal (dobj st d)
      then Some (KDone, makeDraggableCopy d (CbMove mv k) st)
      else
        (let st1 = upd_d d (base_look st) st;
             st2 = (case mv of
                      MoveTarget t \<Rightarrow> addDraggable t d (snapToTarget t d st1)
                    | MoveXY x y \<Rightarrow>
                        upd_d d (\<lambda>r. (place_at st x y r)\<lparr>d_x := x, d_y := y\<rparr>) st1);
             st3 = upd_d d (\<lambda>r. r\<lparr>zIndex := 1000\<rparr>) st2
         in do {
              st4 \<leftarrow> correctZIndexes d st3;
              let st5 = initializeTargetField d st4;
              Some (k, if isOriginal (dobj st5 d)
                       then updateArrowOpacity (slider_count (-1) d st5) else st5) }))"

section \<open>\<open>draggable_events.js\<close>\<close>

text \<open>The draggable with its mouse button down: on top of everything, and the one that follows
  the mouse.\<close>

definition grab :: "nat \<Rightarrow> dnd \<Rightarrow> dnd" where
  "grab d st =
     (toggleTargets True (upd_d d (\<lambda>r. (set_z 1000 r)\<lparr>grabbed := True, mousePressed := True\<rparr>) st))
       \<lparr>currentMovingDraggable := Some d\<rparr>"

definition mouseDown :: "nat \<Rightarrow> rat \<Rightarrow> rat \<Rightarrow> dnd \<Rightarrow> dnd" where
  "mouseDown d pageX pageY st =
     (if mousePressed (dobj st d) then st
      else if numDraggablesOnMe (dobj st d) > 0 then st
      else if inContainer (dobj st d) then
        (if isReusable (dobj st d) \<and> isOriginal (dobj st d)
         then makeDraggableCopy d (CbMouseDown pageX pageY) st
         else grab d (slider_count (-1) d
                (upd_d d (\<lambda>r. follow_mouse st pageX pageY (base_look st r)) st)))
      else grab d st)"

definition mouseUp :: "nat \<Rightarrow> dnd \<Rightarrow> dnd option" where
  "mouseUp d st =
     (if mousePressed (dobj st d) then
        do { st1 \<leftarrow> checkLandingElement d
               (upd_d d (\<lambda>r. r\<lparr>grabbed := False\<rparr>) (st\<lparr>currentMovingDraggable := None\<rparr>));
             Some (toggleTargets False st1) }
      else Some st)"

definition mouseMove :: "nat \<Rightarrow> rat \<Rightarrow> rat \<Rightarrow> dnd \<Rightarrow> dnd" where
  "mouseMove d pageX pageY st =
     (if mousePressed (dobj st d) then upd_d d (follow_mouse st pageX pageY) st else st)"

end
