(* ===== verification/DndAnswer.thy ===== *)
theory DndAnswer
  imports DndDrag
begin

text \<open>
  Placing the draggables of a saved answer (\<open>check\<close>, \<open>repositionDraggables\<close>,
  \<open>processAnswerPositions\<close>, \<open>processAnswerTargets\<close> of \<open>update_input.js\<close>), the start of a
  problem (\<open>main.js\<close>) and the event loop.

  Every call in \<open>processAnswerTargets\<close> and its local functions is a tail call, so one
  \<open>answer_step\<close> makes one of these calls and \<open>run_cont\<close> makes them until the work is done
  or is left to a timer.
\<close>

section \<open>Reading a chain\<close>

text \<open>\<open>Object.keys(v)[0]\<close>; \<open>null\<close> and \<open>undefined\<close> throw.\<close>

fun first_key :: "js \<Rightarrow> js option" where
  "first_key JUndef = None"
| "first_key JNull = None"
| "first_key (JObj ((k, v) # kvs)) = Some (JStr k)"
| "first_key (JArr (v # vs)) = Some (JStr ''0'')"
| "first_key (JStr (c # cs)) = Some (JStr ''0'')"
| "first_key _ = Some JUndef"

text \<open>\<open>v[k]\<close> for a key that \<open>first_key\<close> returned.\<close>

definition key_text :: "js \<Rightarrow> string" where
  "key_text k = (case k of JStr s \<Rightarrow> s | _ \<Rightarrow> ''undefined'')"

fun js_elem :: "js \<Rightarrow> js \<Rightarrow> js option" where
  "js_elem JUndef k = None"
| "js_elem JNull k = None"
| "js_elem (JObj kvs) k = Some (js_get (JObj kvs) (key_text k))"
| "js_elem (JArr vs) k =
     Some (if k = JStr ''0'' \<and> vs \<noteq> [] then hd vs else JUndef)"
| "js_elem (JStr s) k = Some (if k = JStr ''0'' \<and> s \<noteq> [] then JStr [hd s] else JUndef)"
| "js_elem _ k = Some JUndef"

text \<open>\<open>v[n]\<close> for a number.\<close>

fun js_nth :: "js \<Rightarrow> nat \<Rightarrow> js option" where
  "js_nth JUndef n = None"
| "js_nth JNull n = None"
| "js_nth (JArr vs) n = Some (if n < length vs then vs ! n else JUndef)"
| "js_nth (JStr s) n = Some (if n < length s then JStr [s ! n] else JUndef)"
| "js_nth v n = Some JUndef"

definition read_chain :: "nat \<Rightarrow> js \<Rightarrow> chain option" where
  "read_chain depth c =
     do { k1 \<leftarrow> first_key c;
          if depth = 1 then do {
            t \<leftarrow> js_elem c k1;
            Some \<lparr> baseDraggableId = k1, baseTargetId = t,
                   layeredDraggableId = JNull, layeredTargetId = JNull \<rparr> }
          else if depth = 3 then do {
            v1 \<leftarrow> js_elem c k1;
            k2 \<leftarrow> first_key v1;
            v2 \<leftarrow> js_elem v1 k2;
            k3 \<leftarrow> first_key v2;
            t \<leftarrow> js_elem v2 k3;
            Some \<lparr> baseDraggableId = k3, baseTargetId = t,
                   layeredDraggableId = k1, layeredTargetId = k2 \<rparr> }
          else
            Some \<lparr> baseDraggableId = k1, baseTargetId = JUndef,
                   layeredDraggableId = JUndef, layeredTargetId = JUndef \<rparr> }"

section \<open>\<open>processAnswerTargets\<close>\<close>

definition createBaseDraggableOnTarget ::
    "js \<Rightarrow> js \<Rightarrow> cont \<Rightarrow> dnd \<Rightarrow> (cont \<times> dnd) option" where
  "createBaseDraggableOnTarget draggableId targetId k st =
     do { d \<leftarrow> getById_draggable st draggableId True JUndef JUndef JUndef;
          case d of
            None \<Rightarrow> Some (KDone, st)
          | Some d' \<Rightarrow>
              (case getById_target st targetId False of
                 None \<Rightarrow> Some (KDone, st)
               | Some t \<Rightarrow> moveDraggableTo d' (MoveTarget t) k st) }"

definition after_base :: "answers \<Rightarrow> nat \<Rightarrow> nat \<Rightarrow> chain \<Rightarrow> nat \<Rightarrow> cont" where
  "after_base ans depth i ch b =
     (if layeredTargetId ch = JNull \<or> layeredDraggableId ch = JNull
      then KProcess ans depth (i + 1) else KCheckLayered ans depth i ch b)"

definition checkBaseDraggable ::
    "answers \<Rightarrow> nat \<Rightarrow> nat \<Rightarrow> chain \<Rightarrow> dnd \<Rightarrow> (cont \<times> dnd) option" where
  "checkBaseDraggable ans depth i ch st =
     do { r \<leftarrow> getById_draggable st (baseDraggableId ch) False (baseTargetId ch) JUndef JUndef;
          case r of
            None \<Rightarrow> createBaseDraggableOnTarget (baseDraggableId ch) (baseTargetId ch)
                      (KAfterBase ans depth i ch) st
          | Some b \<Rightarrow> Some (after_base ans depth i ch b, st) }"

definition baseCreated ::
    "answers \<Rightarrow> nat \<Rightarrow> nat \<Rightarrow> chain \<Rightarrow> dnd \<Rightarrow> (cont \<times> dnd) option" where
  "baseCreated ans depth i ch st =
     do { r \<leftarrow> getById_draggable st (baseDraggableId ch) False (baseTargetId ch) JUndef JUndef;
          Some (case r of None \<Rightarrow> KDone | Some b \<Rightarrow> after_base ans depth i ch b, st) }"

text \<open>The last target of the field with the wanted id.\<close>

definition layered_target :: "dnd \<Rightarrow> nat \<Rightarrow> js \<Rightarrow> nat option" where
  "layered_target st b i =
     fold (\<lambda>t found. if JStr (t_id (tobj st t)) = i then Some t else found)
       (targetField (dobj st b)) None"

definition checklayeredDraggable ::
    "answers \<Rightarrow> nat \<Rightarrow> nat \<Rightarrow> chain \<Rightarrow> nat \<Rightarrow> dnd \<Rightarrow> (cont \<times> dnd) option" where
  "checklayeredDraggable ans depth i ch b st =
     do { r \<leftarrow> getById_draggable st (layeredDraggableId ch) False (layeredTargetId ch)
                 (baseDraggableId ch) (baseTargetId ch);
          case r of
            Some _ \<Rightarrow> Some (KProcess ans depth (i + 1), st)
          | None \<Rightarrow> do {
              ld \<leftarrow> getById_draggable st (layeredDraggableId ch) True JUndef JUndef JUndef;
              case (ld, layered_target st b (layeredTargetId ch)) of
                (Some l, Some t) \<Rightarrow> moveDraggableTo l (MoveTarget t) (KProcess ans depth (i + 1)) st
              | _ \<Rightarrow> Some (KProcess ans depth (i + 1), st) } }"

definition processAnswerTargets :: "answers \<Rightarrow> nat \<Rightarrow> nat \<Rightarrow> dnd \<Rightarrow> (cont \<times> dnd) option" where
  "processAnswerTargets ans depth i st =
     (if depth = 0 then Some (KDone, st)
      else (case map_of ans depth of
              None \<Rightarrow> Some (KProcess ans (depth - 1) 0, st)
            | Some cs \<Rightarrow>
                (if length cs \<le> i then Some (KProcess ans (depth - 1) 0, st)
                 else do { ch \<leftarrow> read_chain depth (cs ! i);
                           Some (KCheckBase ans depth i ch, st) })))"

fun answer_step :: "cont \<Rightarrow> dnd \<Rightarrow> (cont \<times> dnd) option" where
  "answer_step KDone st = Some (KDone, st)"
| "answer_step (KProcess ans depth i) st = processAnswerTargets ans depth i st"
| "answer_step (KCheckBase ans depth i ch) st = checkBaseDraggable ans depth i ch st"
| "answer_step (KAfterBase ans depth i ch) st = baseCreated ans depth i ch st"
| "answer_step (KCheckLayered ans depth i ch b) st = checklayeredDraggable ans depth i ch b st"

text \<open>The calls end: the depth goes down, and within a depth the position goes up to the number
  of chains.\<close>

definition chains_left :: "answers \<Rightarrow> nat \<Rightarrow> nat \<Rightarrow> nat" where
  "chains_left ans depth i =
     (case map_of ans depth of None \<Rightarrow> 0 | Some cs \<Rightarrow> length cs - i)"

fun cont_depth :: "cont \<Rightarrow> nat" where
  "cont_depth KDone = 0"
| "cont_depth (KProcess ans depth i) = Suc depth"
| "cont_depth (KCheckBase ans depth i ch) = Suc depth"
| "cont_depth (KAfterBase ans depth i ch) = Suc depth"
| "cont_depth (KCheckLayered ans depth i ch b) = Suc depth"

fun cont_rank :: "cont \<Rightarrow> nat" where
  "cont_rank KDone = 0"
| "cont_rank (KProcess ans depth i) = 4 * chains_left ans depth i"
| "cont_rank (KCheckBase ans depth i ch) = 4 * chains_left ans depth (i + 1) + 3"
| "cont_rank (KAfterBase ans depth i ch) = 4 * chains_left ans depth (i + 1) + 2"
| "cont_rank (KCheckLayered ans depth i ch b) = 4 * chains_left ans depth (i + 1) + 1"

definition cont_less :: "(cont \<times> cont) set" where
  "cont_less = measures [cont_depth, cont_rank]"

lemma moveDraggableTo_cont:
  "moveDraggableTo d mv k st = Some (k', st') \<Longrightarrow> k' = k \<or> k' = KDone"
  by (auto simp: moveDraggableTo_def Let_def bind_eq_Some_conv split: if_splits)

lemma createBase_cont:
  "createBaseDraggableOnTarget i t k st = Some (k', st') \<Longrightarrow> k' = k \<or> k' = KDone"
  by (auto simp: createBaseDraggableOnTarget_def bind_eq_Some_conv split: option.splits
      dest: moveDraggableTo_cont)

lemma answer_step_less: "k \<noteq> KDone \<Longrightarrow> answer_step k st = Some (k', st') \<Longrightarrow> (k', k) \<in> cont_less"
proof (cases k)
  case (KProcess ans depth i)
  assume "answer_step k st = Some (k', st')"
  with KProcess show ?thesis
    by (auto simp: processAnswerTargets_def cont_less_def chains_left_def bind_eq_Some_conv
        split: if_splits option.splits)
next
  case (KCheckBase ans depth i ch)
  assume "answer_step k st = Some (k', st')"
  with KCheckBase have "k' \<in> {KDone, KAfterBase ans depth i ch} \<or> (\<exists>b. k' = after_base ans depth i ch b)"
    by (auto simp: checkBaseDraggable_def bind_eq_Some_conv split: option.splits dest: createBase_cont)
  with KCheckBase show ?thesis by (auto simp: cont_less_def after_base_def)
next
  case (KAfterBase ans depth i ch)
  assume "answer_step k st = Some (k', st')"
  with KAfterBase have "k' = KDone \<or> (\<exists>b. k' = after_base ans depth i ch b)"
    by (auto simp: baseCreated_def bind_eq_Some_conv split: option.splits)
  with KAfterBase show ?thesis by (auto simp: cont_less_def after_base_def)
next
  case (KCheckLayered ans depth i ch b)
  assume "answer_step k st = Some (k', st')"
  with KCheckLayered have "k' \<in> {KDone, KProcess ans depth (i + 1)}"
    by (auto simp: checklayeredDraggable_def bind_eq_Some_conv split: option.splits
        dest: moveDraggableTo_cont)
  with KCheckLayered show ?thesis by (auto simp: cont_less_def)
qed simp

function run_cont :: "cont \<Rightarrow> dnd \<Rightarrow> dnd option" where
  "run_cont k st =
     (if k = KDone then Some st
      else (case answer_step k st of
              None \<Rightarrow> None
            | Some (k', st') \<Rightarrow> run_cont k' st'))"
  by pat_completeness auto
termination
proof (relation "inv_image cont_less fst")
  show "wf (inv_image cont_less fst)" by (simp add: cont_less_def)
qed (auto dest: answer_step_less)

declare run_cont.simps [simp del]

section \<open>\<open>repositionDraggables\<close> and \<open>check\<close>\<close>

fun process_position_entries :: "(string \<times> js) list \<Rightarrow> dnd \<Rightarrow> dnd option" where
  "process_position_entries [] st = Some st"
| "process_position_entries ((i, v) # kvs) st =
     do { d \<leftarrow> getById_draggable st (JStr i) True JUndef JUndef JUndef;
          case d of
            None \<Rightarrow> process_position_entries kvs st
          | Some d' \<Rightarrow> do {
              x \<leftarrow> js_nth v 0;
              y \<leftarrow> js_nth v 1;
              (_, st') \<leftarrow> moveDraggableTo d' (MoveXY x y) KDone st;
              process_position_entries kvs st' } }"

fun processAnswerPositions :: "js list \<Rightarrow> dnd \<Rightarrow> dnd option" where
  "processAnswerPositions [] st = Some st"
| "processAnswerPositions (c # cs) st =
     do { st' \<leftarrow> (case c of JObj kvs \<Rightarrow> process_position_entries kvs st | _ \<Rightarrow> Some st);
          processAnswerPositions cs st' }"

fun add_answer :: "nat \<Rightarrow> js \<Rightarrow> answers \<Rightarrow> answers" where
  "add_answer depth c [] = [(depth, [c])]"
| "add_answer depth c ((d, cs) # ans) =
     (if d = depth then (d, cs @ [c]) # ans else (d, cs) # add_answer depth c ans)"

definition sort_by_depth :: "js list \<Rightarrow> answers" where
  "sort_by_depth cs = fold (\<lambda>c. add_answer (findDepth c 0) c) cs []"

definition minDepth :: "js list \<Rightarrow> nat" where
  "minDepth cs = fold (\<lambda>c m. if findDepth c 0 < m then findDepth c 0 else m) cs 1000"

definition maxDepth :: "js list \<Rightarrow> nat" where
  "maxDepth cs = fold (\<lambda>c m. if findDepth c 0 > m then findDepth c 0 else m) cs 0"

definition repositionDraggables :: "js \<Rightarrow> dnd \<Rightarrow> dnd option" where
  "repositionDraggables answer st =
     (case answer of
        JArr cs \<Rightarrow>
          (if cs = [] then Some st
           else if minDepth cs < 1 \<or> maxDepth cs > 3 then Some st
           else if individualTargets (config st) = Some True
             then run_cont (KProcess (sort_by_depth cs) (maxDepth cs) 0) st
           else if individualTargets (config st) = Some False
             then processAnswerPositions cs st
           else Some st)
      | _ \<Rightarrow> None)"

definition check :: "dnd \<Rightarrow> (bool \<times> dnd) option" where
  "check st =
     (case inputVal st of
        None \<Rightarrow> Some (False, st)
      | Some v \<Rightarrow> do { st' \<leftarrow> repositionDraggables v st; Some (True, st') })"

section \<open>Starting a problem: \<open>State\<close> and \<open>addContent\<close>\<close>

definition new_state :: "conf \<Rightarrow> js option \<Rightarrow> rat \<times> rat \<Rightarrow> rat \<times> rat \<Rightarrow> (string \<Rightarrow> rat \<times> rat) \<Rightarrow> dnd" where
  "new_state c v pos dims ts =
     \<lparr> config = c, draggables = [], targets = [], dobj = (\<lambda>_. new_draggable (draggable_conf JNull)),
       tobj = (\<lambda>_. \<lparr> t_id = [], t_x = 0, t_y = 0, t_w = 0, t_h = 0, offLeft = 0, offTop = 0,
                      draggableList = [], numText = None, onDrag = False, draggableObj = None,
                      indexInStateArray = 0, dropEffect = False \<rparr>),
       numDraggablesInSlider = 0, currentMovingDraggable = None, uniqueId = 0,
       showElLeftMargin = 0, leftDimmed = False, rightDimmed = False, baseDropEffect = False,
       inputVal = v, tasks = [], baseLeft = fst pos, baseTop = snd pos,
       baseWidth = fst dims, baseHeight = snd dims, textSize = ts \<rparr>"

definition addContent :: "dnd \<Rightarrow> dnd option" where
  "addContent st =
     do { (ok, st1) \<leftarrow> check (updateArrowOpacity (init
            ((initializeBaseTargets st)\<lparr>showElLeftMargin := 0\<rparr>)));
          if ok then Some st1 else update st1 }"

section \<open>The event loop\<close>

definition drop_task :: "nat \<Rightarrow> dnd \<Rightarrow> dnd" where
  "drop_task i st = st\<lparr>tasks := take i (tasks st) @ drop (Suc i) (tasks st)\<rparr>"

definition run_callback :: "nat \<Rightarrow> copy_callback \<Rightarrow> dnd \<Rightarrow> dnd option" where
  "run_callback n cb st =
     (case cb of
        CbMove mv k \<Rightarrow> do { (k', st') \<leftarrow> moveDraggableTo n mv k st; run_cont k' st' }
      | CbMouseDown x y \<Rightarrow> Some (mouseDown n x y st))"

text \<open>What a pending task does when its timer fires or its image, of the given size, has loaded.\<close>

definition run_task :: "task \<Rightarrow> rat \<Rightarrow> rat \<Rightarrow> dnd \<Rightarrow> dnd option" where
  "run_task k w h st =
     (case k of
        Retry d mv c \<Rightarrow> do { (k', st') \<leftarrow> moveDraggableTo d mv c st; run_cont k' st' }
      | CopyImage n cb \<Rightarrow> Some (copyImageLoaded n cb st)
      | CopyReady n cb \<Rightarrow> run_callback n cb st
      | OriginalImage n \<Rightarrow> Some (originalImageLoaded n w h st))"

end
