(* ===== verification/BackIndex.thy ===== *)
theory BackIndex
  imports EdxPrelude
begin

text \<open>
  Arrays of objects that store their own position. The drag-and-drop code keeps three of them:
  \<open>state.targets\<close> with \<open>indexInStateArray\<close>, \<open>state.draggables\<close> with
  \<open>stateDraggablesIndex\<close>, and the \<open>draggableList\<close> of a target with \<open>onTargetIndex\<close>. Each is
  appended to with \<open>push\<close> and shortened with \<open>splice\<close>, after which a loop shifts the stored
  positions of the elements behind the gap. The locale states what such a shift promises and
  proves once that the stored positions stay right.
\<close>

definition indexed :: "('o \<Rightarrow> int option) \<Rightarrow> (nat \<Rightarrow> 'o) \<Rightarrow> nat list \<Rightarrow> bool" where
  "indexed idx h xs \<longleftrightarrow>
     distinct xs \<and> (\<forall>i < length xs. idx (h (xs ! i)) = Some (int i))"

lemma indexed_distinct: "indexed idx h xs \<Longrightarrow> distinct xs"
  by (simp add: indexed_def)

lemma indexed_nth: "indexed idx h xs \<Longrightarrow> i < length xs \<Longrightarrow> idx (h (xs ! i)) = Some (int i)"
  by (simp add: indexed_def)

lemma indexed_memD:
  "indexed idx h xs \<Longrightarrow> x \<in> set xs \<Longrightarrow>
     \<exists>i < length xs. xs ! i = x \<and> idx (h x) = Some (int i)"
  by (auto simp: indexed_def in_set_conv_nth)

lemma indexed_Nil [simp]: "indexed idx h []"
  by (simp add: indexed_def)

lemma indexed_cong:
  "(\<And>x. x \<in> set xs \<Longrightarrow> idx (h' x) = idx (h x)) \<Longrightarrow> indexed idx h' xs = indexed idx h xs"
  by (auto simp: indexed_def)

lemma indexed_push:
  assumes "indexed idx h xs" and "x \<notin> set xs"
    and "\<And>y. y \<in> set xs \<Longrightarrow> idx (h' y) = idx (h y)" and "idx (h' x) = Some (int (length xs))"
  shows "indexed idx h' (xs @ [x])"
  using assms by (auto simp: indexed_def nth_append less_Suc_eq)

locale back_index =
  fixes idx :: "'o \<Rightarrow> int option"
    and shift :: "int \<Rightarrow> int \<Rightarrow> 'o \<Rightarrow> 'o"
  assumes idx_shift: "idx x = Some i \<Longrightarrow> idx (shift lo m x) = Some (if i > lo then i - m else i)"
begin

lemma remove_block:
  assumes "indexed idx h xs" and "l + m \<le> length xs"
    and "\<And>x. x \<in> set (take l xs @ drop (l + m) xs) \<Longrightarrow> idx (h' x) = idx (shift (int l) (int m) (h x))"
  shows "indexed idx h' (take l xs @ drop (l + m) xs)"
proof -
  let ?ys = "take l xs @ drop (l + m) xs"
  have d: "distinct xs" using assms(1) by (rule indexed_distinct)
  then have "distinct ?ys"
    using set_take_disj_set_drop_if_distinct [of xs l "l + m"] by simp
  moreover have "idx (h' (?ys ! i)) = Some (int i)" if i: "i < length ?ys" for i
  proof (cases "i < l")
    case True
    with assms(2) have "?ys ! i = xs ! i" by (simp add: nth_append)
    with True assms i have "idx (h (?ys ! i)) = Some (int i)"
      by (simp add: indexed_nth)
    then have "idx (shift (int l) (int m) (h (?ys ! i))) = Some (int i)"
      using True by (simp add: idx_shift)
    with assms(3) [of "?ys ! i"] i show ?thesis by (metis nth_mem)
  next
    case False
    with assms(2) i have e: "?ys ! i = xs ! (i + m)" and b: "i + m < length xs"
      by (auto simp: nth_append algebra_simps)
    with assms(1) have "idx (h (?ys ! i)) = Some (int (i + m))" by (simp add: indexed_nth)
    then have s: "idx (shift (int l) (int m) (h (?ys ! i)))
        = Some (if int (i + m) > int l then int (i + m) - int m else int (i + m))"
      by (rule idx_shift)
    from False have "\<not> int (i + m) > int l \<Longrightarrow> m = 0" by auto
    with s have "idx (shift (int l) (int m) (h (?ys ! i))) = Some (int i)" by auto
    with assms(3) [of "?ys ! i"] i show ?thesis by (metis nth_mem)
  qed
  ultimately show ?thesis by (auto simp: indexed_def)
qed

lemma remove_one:
  assumes "indexed idx h xs" and "k < length xs"
    and "\<And>x. x \<in> set (splice1 xs (int k)) \<Longrightarrow> idx (h' x) = idx (shift (int k) 1 (h x))"
  shows "indexed idx h' (splice1 xs (int k))"
  using remove_block [of h xs k 1 h'] assms by (simp add: splice1_nth)

end

end
