(* ===== verification/DndEffects.thy ===== *)
theory DndEffects
  imports DndAnswer BackIndex
begin

text \<open>
  What each drag-and-drop operation changes, as equations on the fields the invariant of the
  object graph is about. An operation's effect on the page (CSS, parents of elements, numbers
  shown) is summarised by \<open>same_graph\<close>: the object graph is untouched.
\<close>

section \<open>Single updates and loops of updates\<close>

lemma upd_d_eq: "upd_d d f st = st\<lparr>dobj := (dobj st)(d := f (dobj st d))\<rparr>"
  by (simp add: upd_d_def)

lemma upd_t_eq: "upd_t t f st = st\<lparr>tobj := (tobj st)(t := f (tobj st t))\<rparr>"
  by (simp add: upd_t_def)

lemma fold_upd_d:
  "distinct xs \<Longrightarrow>
     fold (\<lambda>e. upd_d e f) xs st = st\<lparr>dobj := (\<lambda>e. if e \<in> set xs then f (dobj st e) else dobj st e)\<rparr>"
proof (induction xs arbitrary: st)
  case Nil
  then show ?case by simp
next
  case (Cons x xs)
  then show ?case by (auto simp: upd_d_def fun_eq_iff intro!: arg_cong [where f = "\<lambda>h. st\<lparr>dobj := h\<rparr>"])
qed

lemma fold_upd_t:
  "distinct xs \<Longrightarrow>
     fold (\<lambda>e. upd_t e f) xs st = st\<lparr>tobj := (\<lambda>e. if e \<in> set xs then f (tobj st e) else tobj st e)\<rparr>"
proof (induction xs arbitrary: st)
  case Nil
  then show ?case by simp
next
  case (Cons x xs)
  then show ?case by (auto simp: upd_t_def fun_eq_iff intro!: arg_cong [where f = "\<lambda>h. st\<lparr>tobj := h\<rparr>"])
qed

section \<open>The object graph\<close>

text \<open>The fields of an object that the graph consists of.\<close>

definition core_rest :: "draggable \<Rightarrow> int option \<times> bool \<times> bool \<times> bool \<times> bool \<times> nat list \<times> dconf \<times> string" where
  "core_rest d = (stateDraggablesIndex d, isReusable d, isOriginal d, inContainer d, mousePressed d,
                  targetField d, originalConf d, d_id d)"

definition links :: "draggable \<Rightarrow> nat option \<times> int option \<times> int" where
  "links d = (onTarget d, onTargetIndex d, numDraggablesOnMe d)"

definition tcore :: "target \<Rightarrow> nat list \<times> bool \<times> nat option \<times> int \<times> string" where
  "tcore t = (draggableList t, onDrag t, draggableObj t, indexInStateArray t, t_id t)"

lemmas graph_fields = core_rest_def links_def tcore_def

definition same_graph :: "dnd \<Rightarrow> dnd \<Rightarrow> bool" where
  "same_graph st' st \<longleftrightarrow>
     config st' = config st \<and> draggables st' = draggables st \<and> targets st' = targets st \<and>
     uniqueId st' = uniqueId st \<and> numDraggablesInSlider st' = numDraggablesInSlider st \<and>
     tasks st' = tasks st \<and>
     (\<forall>d. core_rest (dobj st' d) = core_rest (dobj st d) \<and> links (dobj st' d) = links (dobj st d)) \<and>
     (\<forall>t. tcore (tobj st' t) = tcore (tobj st t))"

lemma same_graph_refl [simp]: "same_graph st st"
  by (simp add: same_graph_def)

lemma same_graph_trans: "same_graph s3 s2 \<Longrightarrow> same_graph s2 s1 \<Longrightarrow> same_graph s3 s1"
  by (auto simp: same_graph_def)

lemma same_graph_upd_d:
  "core_rest (f (dobj st d)) = core_rest (dobj st d) \<Longrightarrow> links (f (dobj st d)) = links (dobj st d) \<Longrightarrow>
     same_graph (upd_d d f st) st"
  by (auto simp: same_graph_def upd_d_def)

lemma core_set_icon_pos [simp]:
  "core_rest (set_icon_pos x y d) = core_rest d" "links (set_icon_pos x y d) = links d"
  by (simp_all add: set_icon_pos_def graph_fields)

lemma core_set_label_pos [simp]:
  "core_rest (set_label_pos x y d) = core_rest d" "links (set_label_pos x y d) = links d"
  by (simp_all add: set_label_pos_def graph_fields)

lemma core_set_z [simp]: "core_rest (set_z z d) = core_rest d" "links (set_z z d) = links d"
  by (simp_all add: set_z_def Let_def graph_fields)

lemma core_follow_mouse [simp]:
  "core_rest (follow_mouse st x y d) = core_rest d" "links (follow_mouse st x y d) = links d"
  by (simp_all add: follow_mouse_def)

lemma core_place_at [simp]:
  "core_rest (place_at st x y d) = core_rest d" "links (place_at st x y d) = links d"
  by (simp_all add: place_at_def Let_def)

lemma same_graph_follow: "same_graph (upd_d d (follow_mouse s x y) st) st"
  by (rule same_graph_upd_d) simp_all

lemma same_graph_documentMouseMove: "same_graph (documentMouseMove st x y) st"
  by (auto simp: documentMouseMove_def same_graph_follow split: option.splits)

lemma same_graph_mouseMove: "same_graph (mouseMove d x y st) st"
  by (auto simp: mouseMove_def same_graph_follow)

lemma same_graph_snap: "same_graph (snapToTarget t d st) st"
  unfolding snapToTarget_def Let_def by (rule same_graph_upd_d) simp_all

lemma same_graph_arrows: "same_graph (updateArrowOpacity st) st"
  by (simp add: updateArrowOpacity_def same_graph_def)

lemma same_graph_arrows_if: "same_graph (arrows_if_original d st) st"
  by (simp add: arrows_if_original_def same_graph_arrows)

lemma same_graph_scroll: "same_graph (moveLeft st) st" "same_graph (moveRight st) st"
  by (auto simp: moveLeft_def moveRight_def updateArrowOpacity_def same_graph_def)

lemma same_graph_fold_t:
  assumes "\<And>r. tcore (f r) = tcore r"
  shows "same_graph (fold (\<lambda>t. upd_t t f) ts st) st"
proof (induction ts arbitrary: st)
  case Nil
  then show ?case by simp
next
  case (Cons t ts)
  have "same_graph (upd_t t f st) st" by (auto simp: same_graph_def upd_t_def assms)
  with Cons [of "upd_t t f st"] show ?case by (auto intro: same_graph_trans)
qed

lemma same_graph_fold_d:
  assumes "\<And>r. core_rest (f r) = core_rest r" and "\<And>r. links (f r) = links r"
  shows "same_graph (fold (\<lambda>d. upd_d d f) ds st) st"
proof (induction ds arbitrary: st)
  case Nil
  then show ?case by simp
next
  case (Cons d ds)
  have "same_graph (upd_d d f st) st" by (auto simp: same_graph_def upd_d_def assms)
  with Cons [of "upd_d d f st"] show ?case by (auto intro: same_graph_trans)
qed

lemma same_graph_toggle: "same_graph (toggleTargets b st) st"
proof -
  have "same_graph (toggleTargets b st) (st\<lparr>baseDropEffect := b\<rparr>)"
    unfolding toggleTargets_def by (rule same_graph_fold_t) (simp add: tcore_def)
  moreover have "same_graph (st\<lparr>baseDropEffect := b\<rparr>) st" by (simp add: same_graph_def)
  ultimately show ?thesis by (rule same_graph_trans)
qed

lemma same_graph_cycle: "same_graph (cycleDraggableOrder t st) st"
  unfolding cycleDraggableOrder_def Let_def by (auto intro!: same_graph_fold_d)

lemma same_graph_updateNumTextEl: "same_graph (updateNumTextEl t st) st"
  by (auto simp: updateNumTextEl_def upd_t_def same_graph_def tcore_def)

lemma same_graph_correctZ: "correctZIndexes d st = Some st' \<Longrightarrow> same_graph st' st"
  by (auto simp: correctZIndexes_def bind_eq_Some_conv Let_def intro!: same_graph_upd_d)

lemma same_graph_update: "update st = Some st' \<Longrightarrow> same_graph st' st"
  by (auto simp: update_def same_graph_def bind_eq_Some_conv split: if_splits)

lemma same_graph_imageLoaded: "same_graph (originalImageLoaded n w h st) st"
  unfolding originalImageLoaded_def
  by (rule same_graph_upd_d) (simp_all add: Let_def graph_fields)

lemma same_graph_refresh_field:
  "targetField (dobj st d) \<noteq> [] \<Longrightarrow> same_graph (initializeTargetField d st) st"
  unfolding initializeTargetField_def by (auto intro!: same_graph_fold_t simp: tcore_def)

section \<open>Effects on the graph\<close>

text \<open>The base draggable of a target.\<close>

definition counted_on :: "dnd \<Rightarrow> nat \<Rightarrow> nat option" where
  "counted_on st t = (if onDrag (tobj st t) then draggableObj (tobj st t) else None)"

lemma numDraggables_add_eq:
  "numDraggables_add k t st =
     st\<lparr>dobj := (\<lambda>e. if counted_on st t = Some e
                    then (dobj st e)\<lparr>numDraggablesOnMe := numDraggablesOnMe (dobj st e) + k\<rparr>
                    else dobj st e)\<rparr>"
  by (auto simp: numDraggables_add_def counted_on_def upd_d_def fun_eq_iff
      intro!: arg_cong [where f = "\<lambda>h. st\<lparr>dobj := h\<rparr>"] split: option.splits)

lemma addDraggable_frame:
  "config (addDraggable t d st) = config st" "draggables (addDraggable t d st) = draggables st"
  "targets (addDraggable t d st) = targets st" "uniqueId (addDraggable t d st) = uniqueId st"
  "numDraggablesInSlider (addDraggable t d st) = numDraggablesInSlider st"
  "tasks (addDraggable t d st) = tasks st"
  by (simp_all add: addDraggable_def Let_def updateNumTextEl_def upd_t_def upd_d_def numDraggables_add_eq)

lemma addDraggable_tobj:
  "draggableList (tobj (addDraggable t d st) u) =
     (if u = t then draggableList (tobj st t) @ [d] else draggableList (tobj st u))"
  "onDrag (tobj (addDraggable t d st) u) = onDrag (tobj st u)"
  "draggableObj (tobj (addDraggable t d st) u) = draggableObj (tobj st u)"
  "indexInStateArray (tobj (addDraggable t d st) u) = indexInStateArray (tobj st u)"
  "t_id (tobj (addDraggable t d st) u) = t_id (tobj st u)"
  by (simp_all add: addDraggable_def Let_def updateNumTextEl_def upd_t_def upd_d_def numDraggables_add_eq)

lemma addDraggable_dobj:
  "core_rest (dobj (addDraggable t d st) e) = core_rest (dobj st e)"
  "onTarget (dobj (addDraggable t d st) e) = (if e = d then Some t else onTarget (dobj st e))"
  "onTargetIndex (dobj (addDraggable t d st) e) =
     (if e = d then Some (int (length (draggableList (tobj st t)))) else onTargetIndex (dobj st e))"
  "numDraggablesOnMe (dobj (addDraggable t d st) e) =
     numDraggablesOnMe (dobj st e) + (if counted_on st t = Some e then 1 else 0)"
  by (simp_all add: addDraggable_def Let_def updateNumTextEl_def upd_t_def upd_d_def
      numDraggables_add_eq core_rest_def counted_on_def)

lemma removeDraggable_eq:
  assumes "distinct (draggableList (tobj st t))"
    and "js_index (onTargetIndex (dobj st d)) = int k" and "k < length (draggableList (tobj st t))"
  shows "removeDraggable t d st =
    updateNumTextEl t (numDraggables_add (-1) t (
      let l = splice1 (draggableList (tobj st t)) (int k)
      in st\<lparr>tobj := (tobj st)(t := (tobj st t)\<lparr>draggableList := l\<rparr>),
           dobj := (\<lambda>e. if e \<in> set l then shift_onTargetIndex (int k) (dobj st e) else dobj st e)
             (d := (if d \<in> set l then shift_onTargetIndex (int k) (dobj st d) else dobj st d)
                     \<lparr>onTarget := None, onTargetIndex := None\<rparr>)\<rparr>))"
  using assms distinct_splice1 [OF assms(1,3)]
  by (simp add: removeDraggable_def Let_def upd_t_def upd_d_def fold_upd_d cong: if_cong)

lemma removeDraggable_frame:
  assumes "distinct (draggableList (tobj st t))"
    and "js_index (onTargetIndex (dobj st d)) = int k" and "k < length (draggableList (tobj st t))"
  shows "config (removeDraggable t d st) = config st" "draggables (removeDraggable t d st) = draggables st"
    "targets (removeDraggable t d st) = targets st" "uniqueId (removeDraggable t d st) = uniqueId st"
    "numDraggablesInSlider (removeDraggable t d st) = numDraggablesInSlider st"
    "tasks (removeDraggable t d st) = tasks st"
  unfolding removeDraggable_eq [OF assms]
  by (simp_all add: Let_def updateNumTextEl_def upd_t_def numDraggables_add_eq)

lemma removeDraggable_tobj:
  assumes "distinct (draggableList (tobj st t))"
    and "js_index (onTargetIndex (dobj st d)) = int k" and "k < length (draggableList (tobj st t))"
  shows "draggableList (tobj (removeDraggable t d st) u) =
      (if u = t then splice1 (draggableList (tobj st t)) (int k) else draggableList (tobj st u))"
    "onDrag (tobj (removeDraggable t d st) u) = onDrag (tobj st u)"
    "draggableObj (tobj (removeDraggable t d st) u) = draggableObj (tobj st u)"
    "indexInStateArray (tobj (removeDraggable t d st) u) = indexInStateArray (tobj st u)"
    "t_id (tobj (removeDraggable t d st) u) = t_id (tobj st u)"
  unfolding removeDraggable_eq [OF assms]
  by (simp_all add: Let_def updateNumTextEl_def upd_t_def numDraggables_add_eq)

lemma shift_onTargetIndex_core [simp]:
  "core_rest (shift_onTargetIndex k d) = core_rest d"
  "onTarget (shift_onTargetIndex k d) = onTarget d"
  "numDraggablesOnMe (shift_onTargetIndex k d) = numDraggablesOnMe d"
  by (simp_all add: shift_onTargetIndex_def core_rest_def)

lemma removeDraggable_dobj:
  assumes "distinct (draggableList (tobj st t))"
    and "js_index (onTargetIndex (dobj st d)) = int k" and "k < length (draggableList (tobj st t))"
  shows "core_rest (dobj (removeDraggable t d st) e) = core_rest (dobj st e)"
    "onTarget (dobj (removeDraggable t d st) e) = (if e = d then None else onTarget (dobj st e))"
    "onTargetIndex (dobj (removeDraggable t d st) e) =
      (if e = d then None
       else if e \<in> set (splice1 (draggableList (tobj st t)) (int k))
       then onTargetIndex (shift_onTargetIndex (int k) (dobj st e))
       else onTargetIndex (dobj st e))"
    "numDraggablesOnMe (dobj (removeDraggable t d st) e) =
      numDraggablesOnMe (dobj st e) - (if counted_on st t = Some e then 1 else 0)"
proof -
  show "core_rest (dobj (removeDraggable t d st) e) = core_rest (dobj st e)"
    unfolding removeDraggable_eq [OF assms]
    by (auto simp: Let_def updateNumTextEl_def upd_t_def numDraggables_add_eq core_rest_def
        shift_onTargetIndex_def)
  show "onTarget (dobj (removeDraggable t d st) e) = (if e = d then None else onTarget (dobj st e))"
    unfolding removeDraggable_eq [OF assms]
    by (simp add: Let_def updateNumTextEl_def upd_t_def numDraggables_add_eq)
  show "onTargetIndex (dobj (removeDraggable t d st) e) =
      (if e = d then None
       else if e \<in> set (splice1 (draggableList (tobj st t)) (int k))
       then onTargetIndex (shift_onTargetIndex (int k) (dobj st e))
       else onTargetIndex (dobj st e))"
    unfolding removeDraggable_eq [OF assms]
    by (simp add: Let_def updateNumTextEl_def upd_t_def numDraggables_add_eq)
  show "numDraggablesOnMe (dobj (removeDraggable t d st) e) =
      numDraggablesOnMe (dobj st e) - (if counted_on st t = Some e then 1 else 0)"
    unfolding removeDraggable_eq [OF assms]
    by (simp add: Let_def updateNumTextEl_def upd_t_def numDraggables_add_eq counted_on_def)
qed

end
