(* ===== verification/DndGraph.thy ===== *)
theory DndGraph
  imports DndEffects
begin

text \<open>
  The well-formedness of the drag-and-drop object graph, \<open>graph_inv\<close>: a draggable lies on a
  target exactly when the target lists it, stored indices are true, the target field of a
  draggable is one contiguous block of \<open>state.targets\<close>, and \<open>numDraggablesOnMe\<close> counts the
  draggables on that field. The operations of \<open>targets.js\<close> preserve it.
\<close>

section \<open>The three arrays with stored positions\<close>

text \<open>The shifting loops, as functions of the first removed index and the number removed; where the
  code always removes one element, the loop subtracts 1.\<close>

definition target_index :: "target \<Rightarrow> int option" where
  "target_index r = Some (indexInStateArray r)"

definition shift_on :: "int \<Rightarrow> int \<Rightarrow> draggable \<Rightarrow> draggable" where
  "shift_on lo m d = (if m = 1 then shift_onTargetIndex lo d
     else d\<lparr>onTargetIndex := map_option (\<lambda>i. if i > lo then i - m else i) (onTargetIndex d)\<rparr>)"

definition shift_state :: "int \<Rightarrow> int \<Rightarrow> draggable \<Rightarrow> draggable" where
  "shift_state lo m d = (if m = 1 then shift_stateIndex lo d
     else d\<lparr>stateDraggablesIndex :=
              map_option (\<lambda>i. if i > lo then i - m else i) (stateDraggablesIndex d)\<rparr>)"

interpretation on_target: back_index onTargetIndex shift_on
  by unfold_locales (simp add: shift_on_def shift_onTargetIndex_def js_index_def)

interpretation in_state: back_index stateDraggablesIndex shift_state
  by unfold_locales (simp add: shift_state_def shift_stateIndex_def js_index_def)

interpretation in_targets: back_index target_index shift_indexInStateArray
  by unfold_locales (auto simp: target_index_def shift_indexInStateArray_def)

section \<open>The invariant\<close>

definition links_ok :: "dnd \<Rightarrow> bool" where
  "links_ok st \<longleftrightarrow>
     (\<forall>t \<in> set (targets st).
        indexed onTargetIndex (dobj st) (draggableList (tobj st t)) \<and>
        (\<forall>d. d \<in> set (draggableList (tobj st t)) \<longleftrightarrow>
               d \<in> set (draggables st) \<and> onTarget (dobj st d) = Some t))"

definition closed_ok :: "dnd \<Rightarrow> bool" where
  "closed_ok st \<longleftrightarrow>
     (\<forall>d \<in> set (draggables st). \<forall>t. onTarget (dobj st d) = Some t \<longrightarrow> t \<in> set (targets st))"

definition arrays_ok :: "dnd \<Rightarrow> bool" where
  "arrays_ok st \<longleftrightarrow>
     indexed stateDraggablesIndex (dobj st) (draggables st) \<and>
     indexed target_index (tobj st) (targets st)"

definition block_of :: "nat list \<Rightarrow> nat list \<Rightarrow> nat \<Rightarrow> bool" where
  "block_of xs ts l \<longleftrightarrow> l + length xs \<le> length ts \<and> xs = take (length xs) (drop l ts)"

definition fields_ok :: "dnd \<Rightarrow> bool" where
  "fields_ok st \<longleftrightarrow>
     (\<forall>d \<in> set (draggables st). \<exists>l. block_of (targetField (dobj st d)) (targets st) l) \<and>
     (\<forall>t \<in> set (targets st).
        (onDrag (tobj st t) \<longleftrightarrow> draggableObj (tobj st t) \<noteq> None) \<and>
        (\<forall>d. draggableObj (tobj st t) = Some d \<longleftrightarrow>
               d \<in> set (draggables st) \<and> t \<in> set (targetField (dobj st d))))"

definition field_load :: "dnd \<Rightarrow> nat list \<Rightarrow> int" where
  "field_load st ts = int (sum_list (map (\<lambda>t. length (draggableList (tobj st t))) ts))"

definition counts_ok :: "dnd \<Rightarrow> bool" where
  "counts_ok st \<longleftrightarrow>
     (\<forall>d \<in> set (draggables st).
        numDraggablesOnMe (dobj st d) = field_load st (targetField (dobj st d)))"

definition graph_inv :: "dnd \<Rightarrow> bool" where
  "graph_inv st \<longleftrightarrow>
     links_ok st \<and> closed_ok st \<and> arrays_ok st \<and> fields_ok st \<and> counts_ok st"

lemmas graph_inv_defs =
  graph_inv_def links_ok_def closed_ok_def arrays_ok_def fields_ok_def counts_ok_def field_load_def

section \<open>Consequences\<close>

lemma block_set: "block_of xs ts l \<Longrightarrow> set xs \<subseteq> set ts"
  unfolding block_of_def by (metis set_drop_subset set_take_subset subset_trans)

lemma block_distinct: "block_of xs ts l \<Longrightarrow> distinct ts \<Longrightarrow> distinct xs"
  unfolding block_of_def by (metis distinct_drop distinct_take)

lemma same_graphD:
  assumes "same_graph st' st"
  shows "config st' = config st" "draggables st' = draggables st" "targets st' = targets st"
    "uniqueId st' = uniqueId st" "numDraggablesInSlider st' = numDraggablesInSlider st"
    "tasks st' = tasks st"
    "stateDraggablesIndex (dobj st' d) = stateDraggablesIndex (dobj st d)"
    "isReusable (dobj st' d) = isReusable (dobj st d)" "isOriginal (dobj st' d) = isOriginal (dobj st d)"
    "inContainer (dobj st' d) = inContainer (dobj st d)" "mousePressed (dobj st' d) = mousePressed (dobj st d)"
    "targetField (dobj st' d) = targetField (dobj st d)" "originalConf (dobj st' d) = originalConf (dobj st d)"
    "d_id (dobj st' d) = d_id (dobj st d)"
    "onTarget (dobj st' d) = onTarget (dobj st d)" "onTargetIndex (dobj st' d) = onTargetIndex (dobj st d)"
    "numDraggablesOnMe (dobj st' d) = numDraggablesOnMe (dobj st d)"
    "draggableList (tobj st' t) = draggableList (tobj st t)" "onDrag (tobj st' t) = onDrag (tobj st t)"
    "draggableObj (tobj st' t) = draggableObj (tobj st t)"
    "indexInStateArray (tobj st' t) = indexInStateArray (tobj st t)" "t_id (tobj st' t) = t_id (tobj st t)"
  using assms by (auto simp: same_graph_def graph_fields)

lemma graph_inv_same_graph:
  assumes "same_graph st' st" shows "graph_inv st' = graph_inv st"
proof -
  note e = same_graphD [OF assms]
  have "indexed onTargetIndex (dobj st') xs = indexed onTargetIndex (dobj st) xs"
    "indexed stateDraggablesIndex (dobj st') xs = indexed stateDraggablesIndex (dobj st) xs"
    "indexed target_index (tobj st') xs = indexed target_index (tobj st) xs" for xs
    by (rule indexed_cong, simp add: e target_index_def)+
  then show ?thesis by (simp add: graph_inv_defs e)
qed

lemma graph_invD:
  assumes "graph_inv st" and "d \<in> set (draggables st)"
  shows "distinct (targets st)" "distinct (draggables st)"
    "set (targetField (dobj st d)) \<subseteq> set (targets st)" "distinct (targetField (dobj st d))"
    "onTarget (dobj st d) = Some t \<Longrightarrow> t \<in> set (targets st) \<and> d \<in> set (draggableList (tobj st t))"
proof -
  show dt: "distinct (targets st)" and "distinct (draggables st)"
    using assms(1) by (auto simp: graph_inv_defs dest: indexed_distinct)
  from assms obtain l where b: "block_of (targetField (dobj st d)) (targets st) l"
    by (auto simp: graph_inv_def fields_ok_def)
  show "set (targetField (dobj st d)) \<subseteq> set (targets st)" by (rule block_set [OF b])
  show "distinct (targetField (dobj st d))" by (rule block_distinct [OF b dt])
  show "t \<in> set (targets st) \<and> d \<in> set (draggableList (tobj st t))" if "onTarget (dobj st d) = Some t"
    using assms that by (auto simp: graph_inv_defs)
qed

text \<open>The stored position of a draggable in the list of its target.\<close>

lemma graph_inv_position:
  assumes "graph_inv st" and "d \<in> set (draggables st)" and "onTarget (dobj st d) = Some t"
  shows "\<exists>k < length (draggableList (tobj st t)).
     draggableList (tobj st t) ! k = d \<and> onTargetIndex (dobj st d) = Some (int k) \<and>
     distinct (draggableList (tobj st t))"
proof -
  from graph_invD(5) [OF assms] have "t \<in> set (targets st)" "d \<in> set (draggableList (tobj st t))"
    by auto
  moreover from this(1) assms(1) have "indexed onTargetIndex (dobj st) (draggableList (tobj st t))"
    by (simp add: graph_inv_def links_ok_def)
  ultimately show ?thesis by (auto dest: indexed_memD indexed_distinct)
qed

lemma counted_on_field:
  "graph_inv st \<Longrightarrow> t \<in> set (targets st) \<Longrightarrow>
     counted_on st t = Some e \<longleftrightarrow> e \<in> set (draggables st) \<and> t \<in> set (targetField (dobj st e))"
  unfolding counted_on_def graph_inv_def fields_ok_def by (metis option.distinct(1))

lemma sum_list_bump:
  "distinct ts \<Longrightarrow>
     int (sum_list (map (\<lambda>u. length (if u = t then ys else xs u)) ts)) =
     int (sum_list (map (\<lambda>u. length (xs u)) ts)) +
       (if t \<in> set ts then int (length ys) - int (length (xs t)) else 0)"
  by (induction ts) auto

lemma field_load_cong:
  "(\<And>t. t \<in> set ts \<Longrightarrow> draggableList (tobj st' t) = draggableList (tobj st t)) \<Longrightarrow>
     field_load st' ts = field_load st ts"
  by (simp add: field_load_def cong: map_cong)

lemma field_load_append [simp]:
  "field_load st (ts @ us) = field_load st ts + field_load st us"
  "field_load st [] = 0"
  "field_load st (t # ts) = int (length (draggableList (tobj st t))) + field_load st ts"
  by (simp_all add: field_load_def)

section \<open>\<open>addDraggable\<close> and \<open>removeDraggable\<close>\<close>

lemma core_restD:
  assumes "core_rest d' = core_rest d"
  shows "stateDraggablesIndex d' = stateDraggablesIndex d" "isReusable d' = isReusable d"
    "isOriginal d' = isOriginal d" "inContainer d' = inContainer d" "mousePressed d' = mousePressed d"
    "targetField d' = targetField d" "originalConf d' = originalConf d" "d_id d' = d_id d"
  using assms by (simp_all add: core_rest_def)

lemma addDraggable_inv:
  assumes inv: "graph_inv st" and t: "t \<in> set (targets st)" and d: "d \<in> set (draggables st)"
    and off: "onTarget (dobj st d) = None"
  shows "graph_inv (addDraggable t d st)" (is "graph_inv ?st")
proof -
  note f = addDraggable_frame [of t d st] addDraggable_tobj [of t d st] addDraggable_dobj [of t d st]
    core_restD [OF addDraggable_dobj(1) [of t d st]]
  have notin: "d \<notin> set (draggableList (tobj st u))" if "u \<in> set (targets st)" for u
    using inv off that by (auto simp: graph_inv_defs)
  have "links_ok ?st" unfolding links_ok_def
  proof (intro ballI conjI allI)
    fix u assume "u \<in> set (targets ?st)"
    then have u: "u \<in> set (targets st)" by (simp add: f)
    have old: "indexed onTargetIndex (dobj st) (draggableList (tobj st u))"
      using inv u by (simp add: graph_inv_defs)
    show "indexed onTargetIndex (dobj ?st) (draggableList (tobj ?st u))"
    proof (cases "u = t")
      case True
      with old notin [OF u] show ?thesis
        by (auto simp: f intro!: indexed_push [where h = "dobj st"])
    next
      case False
      have "indexed onTargetIndex (dobj ?st) (draggableList (tobj st u))
          = indexed onTargetIndex (dobj st) (draggableList (tobj st u))"
        using notin [OF u] by (intro indexed_cong) (auto simp: f)
      with False old show ?thesis by (simp add: f)
    qed
    show "e \<in> set (draggableList (tobj ?st u)) \<longleftrightarrow>
        e \<in> set (draggables ?st) \<and> onTarget (dobj ?st e) = Some u" for e
      using inv u d notin [OF u] off by (auto simp: f graph_inv_defs)
  qed
  moreover have "closed_ok ?st" using inv t by (auto simp: closed_ok_def graph_inv_def f)
  moreover have "arrays_ok ?st"
  proof -
    have "indexed stateDraggablesIndex (dobj ?st) xs = indexed stateDraggablesIndex (dobj st) xs"
      "indexed target_index (tobj ?st) xs = indexed target_index (tobj st) xs" for xs
      by (rule indexed_cong, simp add: f target_index_def)+
    with inv show ?thesis by (simp add: graph_inv_defs f)
  qed
  moreover have "fields_ok ?st" using inv by (simp add: graph_inv_def fields_ok_def f)
  moreover have "counts_ok ?st" unfolding counts_ok_def
  proof
    fix e assume "e \<in> set (draggables ?st)"
    then have e: "e \<in> set (draggables st)" by (simp add: f)
    have "distinct (targetField (dobj st e))" by (rule graph_invD(4) [OF inv e])
    with inv e t show "numDraggablesOnMe (dobj ?st e) = field_load ?st (targetField (dobj ?st e))"
      by (simp add: f field_load_def sum_list_bump counted_on_field)
        (simp add: graph_inv_def counts_ok_def field_load_def)
  qed
  ultimately show ?thesis by (simp add: graph_inv_def)
qed

lemma removeDraggable_inv:
  assumes inv: "graph_inv st" and d: "d \<in> set (draggables st)" and on: "onTarget (dobj st d) = Some t"
  shows "graph_inv (removeDraggable t d st)" (is "graph_inv ?st")
proof -
  obtain k where k: "k < length (draggableList (tobj st t))" "draggableList (tobj st t) ! k = d"
      "onTargetIndex (dobj st d) = Some (int k)" "distinct (draggableList (tobj st t))"
    using graph_inv_position [OF inv d on] by auto
  from k(3) have k': "js_index (onTargetIndex (dobj st d)) = int k" by (simp add: js_index_def)
  from graph_invD(5) [OF inv d on] have t: "t \<in> set (targets st)" by simp
  note f = removeDraggable_frame [OF k(4) k' k(1)] removeDraggable_tobj [OF k(4) k' k(1)]
    removeDraggable_dobj [OF k(4) k' k(1)] core_restD [OF removeDraggable_dobj(1) [OF k(4) k' k(1)]]
  have rest: "set (splice1 (draggableList (tobj st t)) (int k)) = set (draggableList (tobj st t)) - {d}"
    using set_splice1_distinct [OF k(4) k(1)] k(2) by simp
  have only: "u = t" if "u \<in> set (targets st)" "d \<in> set (draggableList (tobj st u))" for u
    using inv on that by (auto simp: graph_inv_defs)
  have mem: "e \<in> set (draggableList (tobj st u)) \<longleftrightarrow> e \<in> set (draggables st) \<and> onTarget (dobj st e) = Some u"
    if "u \<in> set (targets st)" for u e
    using inv that by (auto simp: graph_inv_defs)
  have "links_ok ?st" unfolding links_ok_def
  proof (intro ballI conjI allI)
    fix u assume "u \<in> set (targets ?st)"
    then have u: "u \<in> set (targets st)" by (simp add: f)
    have old: "indexed onTargetIndex (dobj st) (draggableList (tobj st u))"
      using inv u by (simp add: graph_inv_defs)
    show "indexed onTargetIndex (dobj ?st) (draggableList (tobj ?st u))"
    proof (cases "u = t")
      case True
      with old k(1) have "indexed onTargetIndex (dobj ?st) (splice1 (draggableList (tobj st t)) (int k))"
        by (intro on_target.remove_one [where h = "dobj st"]) (auto simp: f rest shift_on_def)
      with True show ?thesis by (simp add: f)
    next
      case False
      have "indexed onTargetIndex (dobj ?st) (draggableList (tobj st u))
          = indexed onTargetIndex (dobj st) (draggableList (tobj st u))"
        using only [OF u] False mem [OF u] mem [OF t] by (intro indexed_cong) (auto simp: f rest)
      with False old show ?thesis by (simp add: f)
    qed
    show "e \<in> set (draggableList (tobj ?st u)) \<longleftrightarrow>
        e \<in> set (draggables ?st) \<and> onTarget (dobj ?st e) = Some u" for e
      using mem [OF u] on by (auto simp: f rest)
  qed
  moreover have "closed_ok ?st" using inv by (auto simp: closed_ok_def graph_inv_def f)
  moreover have "arrays_ok ?st"
  proof -
    have "indexed stateDraggablesIndex (dobj ?st) xs = indexed stateDraggablesIndex (dobj st) xs"
      "indexed target_index (tobj ?st) xs = indexed target_index (tobj st) xs" for xs
      by (rule indexed_cong, simp add: f target_index_def)+
    with inv show ?thesis by (simp add: graph_inv_defs f)
  qed
  moreover have "fields_ok ?st" using inv by (simp add: graph_inv_def fields_ok_def f)
  moreover have "counts_ok ?st" unfolding counts_ok_def
  proof
    fix e assume "e \<in> set (draggables ?st)"
    then have e: "e \<in> set (draggables st)" by (simp add: f)
    have "distinct (targetField (dobj st e))" by (rule graph_invD(4) [OF inv e])
    with inv e t k(1) show "numDraggablesOnMe (dobj ?st e) = field_load ?st (targetField (dobj ?st e))"
      by (simp add: f field_load_def sum_list_bump counted_on_field length_splice1)
        (simp add: graph_inv_def counts_ok_def field_load_def)
  qed
  ultimately show ?thesis by (simp add: graph_inv_def)
qed

section \<open>Creating a target field\<close>

definition targets_allocated :: "dnd \<Rightarrow> bool" where
  "targets_allocated st \<longleftrightarrow> (\<forall>t \<in> set (targets st). t \<le> uniqueId st)"

lemma block_append: "block_of xs ts l \<Longrightarrow> block_of xs (ts @ us) l"
  by (auto simp: block_of_def)

lemma processTarget_frame:
  "config (processTarget c owner st) = config st"
  "draggables (processTarget c owner st) = draggables st"
  "targets (processTarget c owner st) = targets st @ [Suc (uniqueId st)]"
  "uniqueId (processTarget c owner st) = Suc (uniqueId st)"
  "numDraggablesInSlider (processTarget c owner st) = numDraggablesInSlider st"
  "tasks (processTarget c owner st) = tasks st"
  by (auto simp: processTarget_def getUniqueId_def Let_def upd_d_def split: option.splits)

lemma processTarget_tobj:
  "u \<noteq> Suc (uniqueId st) \<Longrightarrow> tobj (processTarget c owner st) u = tobj st u"
  "draggableList (tobj (processTarget c owner st) (Suc (uniqueId st))) = []"
  "onDrag (tobj (processTarget c owner st) (Suc (uniqueId st))) = (owner \<noteq> None)"
  "draggableObj (tobj (processTarget c owner st) (Suc (uniqueId st))) = owner"
  "indexInStateArray (tobj (processTarget c owner st) (Suc (uniqueId st))) = int (length (targets st))"
  by (auto simp: processTarget_def getUniqueId_def Let_def upd_d_def split: option.splits)

lemma processTarget_dobj:
  "dobj (processTarget c owner st) e =
     (if owner = Some e
      then (dobj st e)\<lparr>targetField := targetField (dobj st e) @ [Suc (uniqueId st)]\<rparr> else dobj st e)"
  by (auto simp: processTarget_def getUniqueId_def Let_def upd_d_def split: option.splits)

text \<open>The field being created is a suffix of \<open>state.targets\<close>.\<close>

definition field_at_end :: "dnd \<Rightarrow> nat \<Rightarrow> bool" where
  "field_at_end st d \<longleftrightarrow>
     (\<exists>l. block_of (targetField (dobj st d)) (targets st) l \<and>
          l + length (targetField (dobj st d)) = length (targets st))"

lemma processTarget_inv:
  assumes inv: "graph_inv st" and al: "targets_allocated st"
    and own: "\<And>d. owner = Some d \<Longrightarrow> d \<in> set (draggables st) \<and> field_at_end st d"
  shows "graph_inv (processTarget c owner st)" (is "graph_inv ?st")
    and "targets_allocated (processTarget c owner st)"
    and "\<And>d. owner = Some d \<Longrightarrow> field_at_end (processTarget c owner st) d"
proof -
  let ?n = "Suc (uniqueId st)"
  have n: "?n \<notin> set (targets st)" using al by (auto simp: targets_allocated_def)
  then have old: "t \<noteq> ?n" if "t \<in> set (targets st)" for t using that by auto
  note f = processTarget_frame [of c owner st] processTarget_tobj(2-) [of c owner st]
    processTarget_dobj [of c owner st]
  have keep: "tobj ?st t = tobj st t" if "t \<in> set (targets st)" for t
    using old [OF that] by (rule processTarget_tobj(1))
  have no: "onTarget (dobj st d) \<noteq> Some ?n" if "d \<in> set (draggables st)" for d
    using inv that n by (auto simp: graph_inv_def closed_ok_def)
  have sub: "set (targetField (dobj st d)) \<subseteq> set (targets st)" if "d \<in> set (draggables st)" for d
    using graph_invD(3) [OF inv that] .
  show "targets_allocated ?st"
    using al by (auto simp: targets_allocated_def f)
  show fe: "field_at_end ?st d" if "owner = Some d" for d
  proof -
    from own [OF that] obtain l where "block_of (targetField (dobj st d)) (targets st) l"
      "l + length (targetField (dobj st d)) = length (targets st)"
      by (auto simp: field_at_end_def)
    then have "block_of (targetField (dobj st d) @ [?n]) (targets st @ [?n]) l"
      by (auto simp: block_of_def)
    with \<open>l + length _ = _\<close> that show ?thesis
      by (auto simp: field_at_end_def processTarget_frame processTarget_dobj intro!: exI [of _ l])
  qed
  have on_cong: "indexed onTargetIndex (dobj ?st) xs = indexed onTargetIndex (dobj st) xs"
    "indexed stateDraggablesIndex (dobj ?st) xs = indexed stateDraggablesIndex (dobj st) xs" for xs
    by (rule indexed_cong, simp add: f)+
  have "links_ok ?st"
    using inv no by (auto simp: links_ok_def graph_inv_def f keep on_cong)
  moreover have "closed_ok ?st"
    using inv by (auto simp: closed_ok_def graph_inv_def f split: if_splits)
  moreover have "arrays_ok ?st"
    using inv n keep
    by (auto simp: arrays_ok_def graph_inv_def f on_cong target_index_def
        intro!: indexed_push [where h = "tobj st"])
  moreover have "fields_ok ?st" unfolding fields_ok_def
  proof (intro conjI ballI allI)
    fix d assume "d \<in> set (draggables ?st)"
    then have d: "d \<in> set (draggables st)" by (simp add: f)
    then obtain l where l: "block_of (targetField (dobj st d)) (targets st) l"
      using inv by (auto simp: graph_inv_def fields_ok_def)
    show "\<exists>l. block_of (targetField (dobj ?st d)) (targets ?st) l"
    proof (cases "owner = Some d")
      case True
      with fe [OF this] show ?thesis by (auto simp: field_at_end_def)
    next
      case False
      with block_append [OF l] show ?thesis by (auto simp: f)
    qed
  next
    fix t assume t: "t \<in> set (targets ?st)"
    show "onDrag (tobj ?st t) = (draggableObj (tobj ?st t) \<noteq> None)"
      using t inv keep
      by (auto simp: processTarget_frame processTarget_tobj(2-) graph_inv_def fields_ok_def)
    show "(draggableObj (tobj ?st t) = Some d) =
        (d \<in> set (draggables ?st) \<and> t \<in> set (targetField (dobj ?st d)))" for d
    proof (cases "t = ?n")
      case True
      with n sub own show ?thesis by (auto simp: f)
    next
      case False
      with t have "t \<in> set (targets st)" by (simp add: f)
      with inv keep False show ?thesis by (auto simp: f graph_inv_def fields_ok_def)
    qed
  qed
  moreover have "counts_ok ?st" unfolding counts_ok_def
  proof
    fix d assume "d \<in> set (draggables ?st)"
    then have d: "d \<in> set (draggables st)" by (simp add: f)
    have "field_load ?st (targetField (dobj st d)) = field_load st (targetField (dobj st d))"
      using sub [OF d] keep by (intro field_load_cong) auto
    moreover have "numDraggablesOnMe (dobj st d) = field_load st (targetField (dobj st d))"
      using inv d by (simp add: graph_inv_def counts_ok_def)
    ultimately show "numDraggablesOnMe (dobj ?st d) = field_load ?st (targetField (dobj ?st d))"
      by (auto simp: processTarget_dobj processTarget_tobj)
  qed
  ultimately show "graph_inv ?st" by (simp add: graph_inv_def)
qed

text \<open>Creating a whole field.\<close>

lemma create_field:
  assumes "graph_inv st" and "targets_allocated st" and "d \<in> set (draggables st)" and "field_at_end st d"
  shows "graph_inv (fold (\<lambda>c. processTarget c (Some d)) cs st) \<and>
    targets_allocated (fold (\<lambda>c. processTarget c (Some d)) cs st)"
  using assms
proof (induction cs arbitrary: st)
  case Nil
  then show ?case by simp
next
  case (Cons c cs)
  have "graph_inv (processTarget c (Some d) st)" "targets_allocated (processTarget c (Some d) st)"
    "field_at_end (processTarget c (Some d) st) d"
    using processTarget_inv [where st = st and owner = "Some d" and c = c] Cons.prems by auto
  with Cons show ?case by (simp add: processTarget_frame)
qed

abbreviation create_targets :: "nat option \<Rightarrow> tconf list \<Rightarrow> dnd \<Rightarrow> dnd" where
  "create_targets owner cs st \<equiv> fold (\<lambda>c. processTarget c owner) cs st"

lemma create_field_frame:
  shows "config (create_targets owner cs st) = config st" "draggables (create_targets owner cs st) = draggables st"
    "numDraggablesInSlider (create_targets owner cs st) = numDraggablesInSlider st" "tasks (create_targets owner cs st) = tasks st"
    "uniqueId (create_targets owner cs st) = uniqueId st + length cs"
    "targets (create_targets owner cs st) = targets st @ [Suc (uniqueId st) ..< Suc (uniqueId st + length cs)]"
    "u \<le> uniqueId st \<Longrightarrow> tobj (create_targets owner cs st) u = tobj st u"
    "uniqueId st < u \<Longrightarrow> u \<le> uniqueId st + length cs \<Longrightarrow>
       draggableList (tobj (create_targets owner cs st) u) = [] \<and> draggableObj (tobj (create_targets owner cs st) u) = owner \<and>
       onDrag (tobj (create_targets owner cs st) u) = (owner \<noteq> None)"
    "dobj (create_targets owner cs st) e = (if owner = Some e
       then (dobj st e)\<lparr>targetField := targetField (dobj st e) @
              [Suc (uniqueId st) ..< Suc (uniqueId st + length cs)]\<rparr> else dobj st e)"
proof -
  have "config (create_targets owner cs st) = config st \<and> draggables (create_targets owner cs st) = draggables st \<and>
    numDraggablesInSlider (create_targets owner cs st) = numDraggablesInSlider st \<and> tasks (create_targets owner cs st) = tasks st \<and>
    uniqueId (create_targets owner cs st) = uniqueId st + length cs \<and>
    targets (create_targets owner cs st) = targets st @ [Suc (uniqueId st) ..< Suc (uniqueId st + length cs)] \<and>
    (\<forall>u \<le> uniqueId st. tobj (create_targets owner cs st) u = tobj st u) \<and>
    (\<forall>u. uniqueId st < u \<longrightarrow> u \<le> uniqueId st + length cs \<longrightarrow>
       draggableList (tobj (create_targets owner cs st) u) = [] \<and> draggableObj (tobj (create_targets owner cs st) u) = owner \<and>
       onDrag (tobj (create_targets owner cs st) u) = (owner \<noteq> None)) \<and>
    (\<forall>e. dobj (create_targets owner cs st) e = (if owner = Some e
       then (dobj st e)\<lparr>targetField := targetField (dobj st e) @
              [Suc (uniqueId st) ..< Suc (uniqueId st + length cs)]\<rparr> else dobj st e))"
  proof (induction cs rule: rev_induct)
    case Nil
    then show ?case by simp
  next
    case (snoc c cs)
    let ?s = "create_targets owner cs st"
    have t: "tobj (processTarget c owner ?s) u = tobj ?s u" if "u \<le> uniqueId st + length cs" for u
      using snoc that by (intro processTarget_tobj(1)) simp
    have new: "draggableList (tobj (processTarget c owner ?s) (Suc (uniqueId st + length cs))) = []"
      "draggableObj (tobj (processTarget c owner ?s) (Suc (uniqueId st + length cs))) = owner"
      "onDrag (tobj (processTarget c owner ?s) (Suc (uniqueId st + length cs))) = (owner \<noteq> None)"
      using processTarget_tobj(2-4) [of c owner ?s] snoc by simp_all
    have up: "[Suc (uniqueId st) ..< Suc (uniqueId st + length (cs @ [c]))]
        = [Suc (uniqueId st) ..< Suc (uniqueId st + length cs)] @ [Suc (uniqueId st + length cs)]"
      by (simp add: upt_Suc_append del: upt_Suc)
    have s: "create_targets owner (cs @ [c]) st = processTarget c owner ?s" by simp
    show ?case
      unfolding s up using snoc t new
      by (cases owner) (simp_all add: processTarget_frame processTarget_dobj le_Suc_eq del: upt_Suc)
  qed
  then show "config (create_targets owner cs st) = config st" "draggables (create_targets owner cs st) = draggables st"
    "numDraggablesInSlider (create_targets owner cs st) = numDraggablesInSlider st" "tasks (create_targets owner cs st) = tasks st"
    "uniqueId (create_targets owner cs st) = uniqueId st + length cs"
    "targets (create_targets owner cs st) = targets st @ [Suc (uniqueId st) ..< Suc (uniqueId st + length cs)]"
    "u \<le> uniqueId st \<Longrightarrow> tobj (create_targets owner cs st) u = tobj st u"
    "uniqueId st < u \<Longrightarrow> u \<le> uniqueId st + length cs \<Longrightarrow>
       draggableList (tobj (create_targets owner cs st) u) = [] \<and> draggableObj (tobj (create_targets owner cs st) u) = owner \<and>
       onDrag (tobj (create_targets owner cs st) u) = (owner \<noteq> None)"
    "dobj (create_targets owner cs st) e = (if owner = Some e
       then (dobj st e)\<lparr>targetField := targetField (dobj st e) @
              [Suc (uniqueId st) ..< Suc (uniqueId st + length cs)]\<rparr> else dobj st e)"
    by blast+
qed

section \<open>Destroying a target field\<close>

lemma block_remove:
  assumes b: "block_of xs ts b" and l: "l + m \<le> length ts" and d: "distinct ts"
    and dis: "set xs \<inter> set (take m (drop l ts)) = {}"
  shows "\<exists>b'. block_of xs (take l ts @ drop (l + m) ts) b'"
proof (cases "xs = [] \<or> m = 0")
  case True
  then show ?thesis
  proof
    assume "xs = []"
    then have "block_of xs (take l ts @ drop (l + m) ts) 0" by (simp add: block_of_def)
    then show ?thesis ..
  next
    assume "m = 0"
    with b have "block_of xs (take l ts @ drop (l + m) ts) b" by simp
    then show ?thesis ..
  qed
next
  case False
  from b have bl: "b + length xs \<le> length ts" and xs: "xs = take (length xs) (drop b ts)"
    by (auto simp: block_of_def)
  have "b + length xs \<le> l \<or> l + m \<le> b"
  proof (rule ccontr)
    assume c: "\<not> ?thesis"
    define i where "i = max b l"
    from c False have "b \<le> i" "i < b + length xs" "l \<le> i" "i < l + m" by (auto simp: i_def)
    then have ib: "i - b < length xs" and il: "i - l < length (take m (drop l ts))" using l by auto
    have "xs ! (i - b) = ts ! i"
      using arg_cong [OF xs, of "\<lambda>zs. zs ! (i - b)"] ib bl \<open>b \<le> i\<close> by simp
    moreover have "take m (drop l ts) ! (i - l) = ts ! i" using il l \<open>l \<le> i\<close> by simp
    moreover note ib il
    ultimately
    have "ts ! i \<in> set xs \<inter> set (take m (drop l ts))" by (metis IntI nth_mem)
    with dis show False by simp
  qed
  then show ?thesis
  proof
    assume "b + length xs \<le> l"
    with bl l xs have "block_of xs (take l ts @ drop (l + m) ts) b"
      by (auto simp: block_of_def drop_take min_def)
    then show ?thesis ..
  next
    assume h: "l + m \<le> b"
    then have "drop (b - m) (take l ts @ drop (l + m) ts) = drop b ts"
      using l by (simp add: drop_take)
    with h bl l xs have "block_of xs (take l ts @ drop (l + m) ts) (b - m)"
      by (auto simp: block_of_def)
    then show ?thesis ..
  qed
qed

lemma set_remove_block:
  assumes "distinct ts" and "l + m \<le> length ts"
  shows "set (take l ts @ drop (l + m) ts) = set ts - set (take m (drop l ts))"
proof -
  define xs ys zs where "xs = take l ts" and "ys = take m (drop l ts)" and "zs = drop (l + m) ts"
  have "ts = xs @ ys @ zs"
    unfolding xs_def ys_def zs_def by (metis add.commute append_take_drop_id drop_drop)
  with assms(1) have "set (xs @ zs) = set ts - set ys" by auto
  then show ?thesis by (simp add: xs_def ys_def zs_def)
qed

lemma remove_field_targets_block:
  assumes "indexed target_index (tobj st) ts" and "l + length fs \<le> length ts"
    and "fs = take (length fs) (drop l ts)" and "j \<le> length fs"
    and "targets st' = take l ts @ drop (l + j) ts" and "tobj st' = tobj st"
  shows "remove_field_targets (drop j fs) (int j) lowest st' =
    (int (length fs), (if j < length fs \<and> lowest > int (l + j) then int (l + j) else lowest),
     st'\<lparr>targets := take l ts @ drop (l + length fs) ts\<rparr>)"
  using assms(4-)
proof (induction "length fs - j" arbitrary: j lowest st')
  case 0
  then have "j = length fs" by simp
  with 0 show ?case by simp
next
  case (Suc n)
  then have j: "j < length fs" by simp
  then have d: "drop j fs = fs ! j # drop (Suc j) fs" by (simp add: Cons_nth_drop_Suc)
  have f: "fs ! j = ts ! (l + j)"
    using j assms(2,3) by (metis add_leE nth_drop nth_take)
  have i: "indexInStateArray (tobj st' (fs ! j)) = int (l + j)"
    using indexed_nth [OF assms(1), of "l + j"] j assms(2) f Suc.prems
    by (simp add: target_index_def)
  have lj: "l + j < length ts" using j assms(2) by simp
  have "splice1 (targets st') (int l) = take l ts @ drop (l + Suc j) ts"
    using lj Suc.prems by (simp add: splice1_nth min_def)
  with Suc.hyps(1) [of "Suc j" "st'\<lparr>targets := take l ts @ drop (l + Suc j) ts\<rparr>"
      "if lowest > int (l + j) then int (l + j) else lowest"] Suc.hyps(2) Suc.prems j i d
  show ?case by (auto simp: Let_def add.commute)
qed

lemma destroyTargetField_eq:
  assumes "indexed target_index (tobj st) (targets st)"
    and b: "block_of (targetField (dobj st d)) (targets st) l"
  defines "m \<equiv> length (targetField (dobj st d))"
  defines "ts \<equiv> take l (targets st) @ drop (l + m) (targets st)"
  shows "destroyTargetField d st = st\<lparr>targets := ts,
     tobj := (\<lambda>t. if t \<in> set ts \<and> m \<noteq> 0 then shift_indexInStateArray (int l) (int m) (tobj st t)
                  else tobj st t),
     dobj := (dobj st)(d := (dobj st d)\<lparr>targetField := []\<rparr>)\<rparr>"
proof -
  have fs: "targetField (dobj st d) = take m (drop l (targets st))" and lm: "l + m \<le> length (targets st)"
    using b by (auto simp: block_of_def m_def)
  have r: "remove_field_targets (targetField (dobj st d)) 0 (int (length (targets st)) + 1) st
      = (int m, (if m \<noteq> 0 then int l else int (length (targets st)) + 1), st\<lparr>targets := ts\<rparr>)"
    using remove_field_targets_block [OF assms(1), of l "targetField (dobj st d)" 0 st
        "int (length (targets st)) + 1"] fs lm
    by (auto simp: m_def [symmetric] ts_def)
  have dts: "distinct ts"
    using indexed_distinct [OF assms(1)] set_take_disj_set_drop_if_distinct [of "targets st" l "l + m"]
    by (simp add: ts_def)
  show ?thesis
  proof (cases "m = 0")
    case True
    have "shift_indexInStateArray (int (length (targets st)) + 1) 0 (tobj st t) = tobj st t" for t
      by (simp add: shift_indexInStateArray_def)
    with True show ?thesis
      by (simp add: destroyTargetField_def r fold_upd_t dts upd_d_def cong: if_cong)
  next
    case False
    then show ?thesis
      by (simp add: destroyTargetField_def r fold_upd_t dts upd_d_def cong: if_cong)
  qed
qed

lemma destroyTargetField_effect:
  assumes inv: "graph_inv st" and d: "d \<in> set (draggables st)"
  shows "set (targets (destroyTargetField d st)) = set (targets st) - set (targetField (dobj st d))"
    "config (destroyTargetField d st) = config st" "draggables (destroyTargetField d st) = draggables st"
    "numDraggablesInSlider (destroyTargetField d st) = numDraggablesInSlider st"
    "tasks (destroyTargetField d st) = tasks st" "uniqueId (destroyTargetField d st) = uniqueId st"
    "dobj (destroyTargetField d st) = (dobj st)(d := (dobj st d)\<lparr>targetField := []\<rparr>)"
    "draggableList (tobj (destroyTargetField d st) t) = draggableList (tobj st t)"
    "onDrag (tobj (destroyTargetField d st) t) = onDrag (tobj st t)"
    "draggableObj (tobj (destroyTargetField d st) t) = draggableObj (tobj st t)"
    "t_id (tobj (destroyTargetField d st) t) = t_id (tobj st t)"
proof -
  from inv d obtain l where b: "block_of (targetField (dobj st d)) (targets st) l"
    and i: "indexed target_index (tobj st) (targets st)"
    by (auto simp: graph_inv_defs)
  note e = destroyTargetField_eq [OF i b]
  let ?m = "length (targetField (dobj st d))"
  from b have f: "targetField (dobj st d) = take ?m (drop l (targets st))"
    and lm: "l + ?m \<le> length (targets st)" by (auto simp: block_of_def)
  show "set (targets (destroyTargetField d st)) = set (targets st) - set (targetField (dobj st d))"
    using set_remove_block [OF indexed_distinct [OF i] lm] f by (simp add: e)
  show "config (destroyTargetField d st) = config st" "draggables (destroyTargetField d st) = draggables st"
    "numDraggablesInSlider (destroyTargetField d st) = numDraggablesInSlider st"
    "tasks (destroyTargetField d st) = tasks st" "uniqueId (destroyTargetField d st) = uniqueId st"
    "dobj (destroyTargetField d st) = (dobj st)(d := (dobj st d)\<lparr>targetField := []\<rparr>)"
    "draggableList (tobj (destroyTargetField d st) t) = draggableList (tobj st t)"
    "onDrag (tobj (destroyTargetField d st) t) = onDrag (tobj st t)"
    "draggableObj (tobj (destroyTargetField d st) t) = draggableObj (tobj st t)"
    "t_id (tobj (destroyTargetField d st) t) = t_id (tobj st t)"
    by (simp_all add: e shift_indexInStateArray_def)
qed

lemma destroyTargetField_inv:
  assumes inv: "graph_inv st" and d: "d \<in> set (draggables st)"
    and empty: "numDraggablesOnMe (dobj st d) = 0"
  shows "graph_inv (destroyTargetField d st)" (is "graph_inv ?st")
proof -
  from inv d obtain l where b: "block_of (targetField (dobj st d)) (targets st) l"
    and i: "indexed target_index (tobj st) (targets st)"
    by (auto simp: graph_inv_defs)
  note e = destroyTargetField_eq [OF i b]
  note f = destroyTargetField_effect [OF inv d]
  let ?m = "length (targetField (dobj st d))"
  from b have fld: "targetField (dobj st d) = take ?m (drop l (targets st))"
    and lm: "l + ?m \<le> length (targets st)" by (auto simp: block_of_def)
  have unloaded: "draggableList (tobj st t) = []" if "t \<in> set (targetField (dobj st d))" for t
  proof -
    have "field_load st (targetField (dobj st d)) = 0"
      using inv d empty by (simp add: graph_inv_def counts_ok_def)
    with that show ?thesis by (auto simp: field_load_def)
  qed
  have sub: "t \<in> set (targets st)" if "t \<in> set (targets ?st)" for t using that f(1) by simp
  have on_cong: "indexed onTargetIndex (dobj ?st) xs = indexed onTargetIndex (dobj st) xs"
    "indexed stateDraggablesIndex (dobj ?st) xs = indexed stateDraggablesIndex (dobj st) xs" for xs
    by (rule indexed_cong, simp add: f)+
  have sel: "onTarget (dobj ?st e) = onTarget (dobj st e)"
    "targetField (dobj ?st e) = (if e = d then [] else targetField (dobj st e))"
    "numDraggablesOnMe (dobj ?st e) = numDraggablesOnMe (dobj st e)" for e
    by (simp_all add: f)
  have "links_ok ?st"
    using inv sub by (simp add: links_ok_def graph_inv_def f(3,8) sel on_cong)
  moreover have "closed_ok ?st" unfolding closed_ok_def
  proof (intro ballI allI impI)
    fix e t assume "e \<in> set (draggables ?st)" "onTarget (dobj ?st e) = Some t"
    then have et: "e \<in> set (draggables st)" "onTarget (dobj st e) = Some t" by (simp_all add: f(3) sel)
    from graph_invD(5) [OF inv et] have "t \<in> set (targets st)" "draggableList (tobj st t) \<noteq> []"
      by auto
    with unloaded show "t \<in> set (targets ?st)" by (auto simp: f(1))
  qed
  moreover have "arrays_ok ?st"
  proof -
    have "indexed target_index (tobj ?st) (take l (targets st) @ drop (l + ?m) (targets st))"
    proof (cases "?m = 0")
      case True
      with i e show ?thesis by simp
    next
      case False
      then show ?thesis by (intro in_targets.remove_block [OF i lm]) (simp add: e)
    qed
    moreover have "targets ?st = take l (targets st) @ drop (l + ?m) (targets st)" by (simp add: e)
    ultimately show ?thesis using inv by (simp add: graph_inv_def arrays_ok_def on_cong f(3))
  qed
  moreover have "fields_ok ?st" unfolding fields_ok_def
  proof (intro conjI ballI allI)
    fix x assume "x \<in> set (draggables ?st)"
    then have x: "x \<in> set (draggables st)" by (simp add: f(3))
    then obtain bx where bx: "block_of (targetField (dobj st x)) (targets st) bx"
      using inv by (auto simp: graph_inv_def fields_ok_def)
    show "\<exists>l. block_of (targetField (dobj ?st x)) (targets ?st) l"
    proof (cases "x = d")
      case True
      then show ?thesis by (auto simp: sel block_of_def)
    next
      case False
      have "set (targetField (dobj st x)) \<inter> set (targetField (dobj st d)) = {}"
        using inv x d False graph_invD(3) [OF inv x]
        by (auto simp: graph_inv_def fields_ok_def) (metis option.inject subsetD)
      with fld have "set (targetField (dobj st x)) \<inter> set (take ?m (drop l (targets st))) = {}" by simp
      from block_remove [OF bx lm indexed_distinct [OF i] this] False
      show ?thesis by (simp add: sel) (simp add: e)
    qed
  next
    fix t assume t: "t \<in> set (targets ?st)"
    show "onDrag (tobj ?st t) = (draggableObj (tobj ?st t) \<noteq> None)"
      using sub [OF t] inv by (simp add: f graph_inv_def fields_ok_def)
    show "(draggableObj (tobj ?st t) = Some x) =
        (x \<in> set (draggables ?st) \<and> t \<in> set (targetField (dobj ?st x)))" for x
      using t inv by (auto simp: f graph_inv_def fields_ok_def)
  qed
  moreover have "counts_ok ?st" unfolding counts_ok_def
  proof
    fix x assume "x \<in> set (draggables ?st)"
    then have x: "x \<in> set (draggables st)" by (simp add: f(3))
    have "field_load ?st ts = field_load st ts" for ts by (rule field_load_cong) (simp add: f)
    with inv x empty show "numDraggablesOnMe (dobj ?st x) = field_load ?st (targetField (dobj ?st x))"
      by (auto simp: sel graph_inv_def counts_ok_def)
  qed
  ultimately show ?thesis by (simp add: graph_inv_def)
qed

end
