(* ===== verification/DndBoard.thy ===== *)
theory DndBoard
  imports DndGraph
begin

text \<open>
  The invariant of a drag-and-drop problem with individual targets, \<open>board_inv\<close>: besides the
  well-formed object graph, where each draggable is (slider, target or mouse), that the slider
  counter counts the originals in the slider, and that every target stands, through the
  draggables below it, on a base target. Every operation the user or a timer can trigger
  preserves it.
\<close>

section \<open>Targets that stand on the base image\<close>

inductive grounded :: "dnd \<Rightarrow> nat \<Rightarrow> bool" for st where
  base: "\<not> onDrag (tobj st t) \<Longrightarrow> grounded st t"
| layer: "draggableObj (tobj st t) = Some b \<Longrightarrow> onTarget (dobj st b) = Some u \<Longrightarrow>
    grounded st u \<Longrightarrow> grounded st t"

definition ground_ok :: "dnd \<Rightarrow> bool" where
  "ground_ok st \<longleftrightarrow> (\<forall>t \<in> set (targets st). grounded st t)"

text \<open>While \<open>d\<close> is being moved, all but the targets of its own field.\<close>

definition ground_except :: "nat \<Rightarrow> dnd \<Rightarrow> bool" where
  "ground_except d st \<longleftrightarrow>
     (\<forall>t \<in> set (targets st). t \<notin> set (targetField (dobj st d)) \<longrightarrow> grounded st t)"

lemma ground_ok_except: "ground_ok st \<Longrightarrow> ground_except d st"
  by (simp add: ground_ok_def ground_except_def)

lemma grounded_transfer:
  assumes "grounded st t"
    and "\<And>u. onDrag (tobj st' u) = onDrag (tobj st u)"
    and "\<And>u. draggableObj (tobj st' u) = draggableObj (tobj st u)"
    and "\<And>b. onTarget (dobj st' b) = onTarget (dobj st b)"
  shows "grounded st' t"
  using assms(1) by induction (auto intro: grounded.intros simp: assms(2-))

lemma unloaded_field:
  assumes "graph_inv st" and "d \<in> set (draggables st)" and "numDraggablesOnMe (dobj st d) = 0"
    and "t \<in> set (targetField (dobj st d))"
  shows "draggableList (tobj st t) = []"
proof -
  have "field_load st (targetField (dobj st d)) = 0"
    using assms by (simp add: graph_inv_def counts_ok_def)
  with assms(4) show ?thesis by (auto simp: field_load_def)
qed

text \<open>Moving a draggable with nothing on its field does not touch the ground of the others.\<close>

lemma grounded_move:
  assumes "grounded st t" and inv: "graph_inv st" and d: "d \<in> set (draggables st)"
    and empty: "numDraggablesOnMe (dobj st d) = 0"
    and "t \<in> set (targets st)" and "t \<notin> set (targetField (dobj st d))"
    and on: "\<And>u. onDrag (tobj st' u) = onDrag (tobj st u)"
    and obj: "\<And>u. draggableObj (tobj st' u) = draggableObj (tobj st u)"
    and tgt: "\<And>b. b \<noteq> d \<Longrightarrow> onTarget (dobj st' b) = onTarget (dobj st b)"
  shows "grounded st' t"
  using assms(1,5,6)
proof induction
  case (base t)
  from base.hyps show ?case by (intro grounded.base) (simp only: on not_False_eq_True)
next
  case (layer t b u)
  then have b: "b \<in> set (draggables st)" "t \<in> set (targetField (dobj st b))"
    using inv by (auto simp: graph_inv_def fields_ok_def)
  with layer.prems have "b \<noteq> d" by auto
  have u: "u \<in> set (targets st)" "b \<in> set (draggableList (tobj st u))"
    using graph_invD(5) [OF inv b(1) layer.hyps(2)] by auto
  have "u \<notin> set (targetField (dobj st d))"
    using unloaded_field [OF inv d empty, of u] u(2) by auto
  with layer.IH u(1) have gu: "grounded st' u" by blast
  have "draggableObj (tobj st' t) = Some b" by (rule trans [OF obj layer.hyps(1)])
  moreover have "onTarget (dobj st' b) = Some u" by (rule trans [OF tgt [OF \<open>b \<noteq> d\<close>] layer.hyps(2)])
  ultimately show ?case using gu by (rule grounded.layer)
qed

section \<open>Where a draggable is\<close>

definition situation :: "draggable \<Rightarrow> bool \<times> bool \<times> bool \<times> bool \<times> nat option \<times> nat list \<times> int" where
  "situation r = (isReusable r, isOriginal r, inContainer r, mousePressed r, onTarget r,
                  targetField r, numDraggablesOnMe r)"

definition placed :: "draggable \<Rightarrow> bool" where
  "placed r \<longleftrightarrow>
     (inContainer r \<longrightarrow> onTarget r = None \<and> \<not> mousePressed r \<and> targetField r = []) \<and>
     (\<not> inContainer r \<and> \<not> mousePressed r \<longrightarrow> onTarget r \<noteq> None) \<and>
     (targetField r \<noteq> [] \<longrightarrow> onTarget r \<noteq> None) \<and>
     (isReusable r \<and> isOriginal r \<longrightarrow> inContainer r) \<and>
     (mousePressed r \<longrightarrow> numDraggablesOnMe r = 0)"

definition place_ok :: "dnd \<Rightarrow> bool" where
  "place_ok st \<longleftrightarrow> (\<forall>d \<in> set (draggables st). placed (dobj st d))"

definition one_pressed :: "dnd \<Rightarrow> bool" where
  "one_pressed st \<longleftrightarrow>
     (\<forall>d \<in> set (draggables st). \<forall>e \<in> set (draggables st).
        mousePressed (dobj st d) \<and> mousePressed (dobj st e) \<longrightarrow> d = e)"

definition calm :: "dnd \<Rightarrow> bool" where
  "calm st \<longleftrightarrow> (\<forall>d \<in> set (draggables st). \<not> mousePressed (dobj st d))"

definition in_slider :: "draggable \<Rightarrow> bool" where
  "in_slider r \<longleftrightarrow> isOriginal r \<and> inContainer r"

text \<open>The slider counter is \<open>c\<close> more than the number of originals in the slider.\<close>

definition slider_off :: "int \<Rightarrow> dnd \<Rightarrow> bool" where
  "slider_off c st \<longleftrightarrow>
     numDraggablesInSlider st =
       int (length (filter (\<lambda>d. in_slider (dobj st d)) (draggables st))) + c"

lemma length_filter_change:
  assumes "distinct xs" and "d \<in> set xs" and "\<And>x. x \<in> set xs \<Longrightarrow> x \<noteq> d \<Longrightarrow> Q x = P x"
  shows "int (length (filter Q xs)) =
    int (length (filter P xs)) + (if Q d then 1 else 0) - (if P d then 1 else 0)"
  using assms
proof (induction xs)
  case Nil
  then show ?case by simp
next
  case (Cons x xs)
  show ?case
  proof (cases "x = d")
    case True
    with Cons.prems have "filter Q xs = filter P xs" by (intro filter_cong) auto
    with True show ?thesis by simp
  next
    case False
    with Cons.prems(3) have "Q x = P x" by simp
    moreover from Cons.prems False have "int (length (filter Q xs)) =
        int (length (filter P xs)) + (if Q d then 1 else 0) - (if P d then 1 else 0)"
      by (intro Cons.IH) simp_all
    ultimately show ?thesis using False by (cases "Q d"; cases "P d") simp_all
  qed
qed

section \<open>Copies under way\<close>

definition fresh_copy :: "draggable \<Rightarrow> bool" where
  "fresh_copy r \<longleftrightarrow>
     \<not> isOriginal r \<and> inContainer r \<and> onTarget r = None \<and> targetField r = [] \<and>
     \<not> mousePressed r \<and> numDraggablesOnMe r = 0"

fun waiting_copy :: "task \<Rightarrow> nat list" where
  "waiting_copy (CopyImage n cb) = [n]"
| "waiting_copy _ = []"

fun ready_copy :: "task \<Rightarrow> nat list" where
  "ready_copy (CopyReady n cb) = [n]"
| "ready_copy _ = []"

definition waiting :: "dnd \<Rightarrow> nat list" where
  "waiting st = concat (map waiting_copy (tasks st))"

definition ready :: "dnd \<Rightarrow> nat list" where
  "ready st = concat (map ready_copy (tasks st))"

definition copies_ok :: "dnd \<Rightarrow> bool" where
  "copies_ok st \<longleftrightarrow>
     distinct (waiting st) \<and> distinct (ready st) \<and>
     (\<forall>n \<in> set (waiting st). n \<notin> set (draggables st) \<and> n \<le> uniqueId st) \<and>
     set (ready st) \<subseteq> set (draggables st) \<and>
     (\<forall>n \<in> set (waiting st) \<union> set (ready st). fresh_copy (dobj st n)) \<and>
     (\<forall>d \<in> set (draggables st). d \<le> uniqueId st)"

section \<open>The invariant\<close>

definition indiv :: "dnd \<Rightarrow> bool" where
  "indiv st \<longleftrightarrow> individualTargets (config st) = Some True"

definition board_core :: "int \<Rightarrow> dnd \<Rightarrow> bool" where
  "board_core c st \<longleftrightarrow>
     indiv st \<and> graph_inv st \<and> targets_allocated st \<and> one_pressed st \<and> slider_off c st \<and> copies_ok st"

definition board_off :: "int \<Rightarrow> dnd \<Rightarrow> bool" where
  "board_off c st \<longleftrightarrow> board_core c st \<and> ground_ok st \<and> place_ok st"

definition board_inv :: "dnd \<Rightarrow> bool" where
  "board_inv st \<longleftrightarrow> board_off 0 st"

text \<open>The state within an operation that moves \<open>d\<close>: it is neither in the slider nor pressed, and
  nothing lies on it.\<close>

definition in_hand :: "int \<Rightarrow> nat \<Rightarrow> dnd \<Rightarrow> bool" where
  "in_hand c d st \<longleftrightarrow>
     board_core c st \<and> ground_except d st \<and> calm st \<and> d \<in> set (draggables st) \<and>
     (\<forall>e \<in> set (draggables st). e \<noteq> d \<longrightarrow> placed (dobj st e)) \<and>
     numDraggablesOnMe (dobj st d) = 0 \<and> \<not> inContainer (dobj st d) \<and>
     \<not> (isReusable (dobj st d) \<and> isOriginal (dobj st d))"

lemmas board_defs = board_inv_def board_off_def board_core_def in_hand_def

lemma situationD:
  assumes "situation r' = situation r"
  shows "placed r' = placed r" "in_slider r' = in_slider r" "fresh_copy r' = fresh_copy r"
    "mousePressed r' = mousePressed r" "inContainer r' = inContainer r" "onTarget r' = onTarget r"
    "isOriginal r' = isOriginal r" "isReusable r' = isReusable r" "targetField r' = targetField r"
    "numDraggablesOnMe r' = numDraggablesOnMe r"
  using assms by (simp_all add: situation_def placed_def in_slider_def fresh_copy_def)

text \<open>What only changes the page preserves everything.\<close>

lemma same_graph_situation: "same_graph st' st \<Longrightarrow> situation (dobj st' d) = situation (dobj st d)"
  by (simp add: situation_def same_graphD)

lemma same_graph_board:
  assumes sg: "same_graph st' st"
  shows "board_core c st' = board_core c st" "ground_except d st' = ground_except d st"
    "ground_ok st' = ground_ok st" "place_ok st' = place_ok st" "in_hand c d st' = in_hand c d st"
    "board_off c st' = board_off c st" "board_inv st' = board_inv st" "calm st' = calm st"
proof -
  note e = same_graphD(1-6) [OF sg]
  note f = situationD [OF same_graph_situation [OF sg]]
  have g: "grounded st' t = grounded st t" for t
    by (intro iffI) (erule grounded_transfer, simp_all add: same_graphD [OF sg])+
  show core: "board_core c st' = board_core c st" for c
    by (simp add: board_core_def indiv_def targets_allocated_def one_pressed_def slider_off_def
        copies_ok_def waiting_def ready_def e f graph_inv_same_graph [OF sg])
  show gx: "ground_except d st' = ground_except d st" and go: "ground_ok st' = ground_ok st"
    by (simp_all add: ground_except_def ground_ok_def e f g)
  show po: "place_ok st' = place_ok st" and ca: "calm st' = calm st"
    by (simp_all add: place_ok_def calm_def e f)
  show "in_hand c d st' = in_hand c d st" by (simp add: in_hand_def core gx ca e f)
  show "board_off c st' = board_off c st" by (simp add: board_off_def core go po)
  show "board_inv st' = board_inv st" by (simp add: board_defs core [unfolded board_core_def] go po)
qed

section \<open>Landing\<close>

lemma removeDraggable_fields:
  assumes inv: "graph_inv st" and d: "d \<in> set (draggables st)" and on: "onTarget (dobj st d) = Some t"
  shows "config (removeDraggable t d st) = config st" "draggables (removeDraggable t d st) = draggables st"
    "targets (removeDraggable t d st) = targets st" "uniqueId (removeDraggable t d st) = uniqueId st"
    "numDraggablesInSlider (removeDraggable t d st) = numDraggablesInSlider st"
    "tasks (removeDraggable t d st) = tasks st"
    "onDrag (tobj (removeDraggable t d st) u) = onDrag (tobj st u)"
    "draggableObj (tobj (removeDraggable t d st) u) = draggableObj (tobj st u)"
    "core_rest (dobj (removeDraggable t d st) e) = core_rest (dobj st e)"
    "onTarget (dobj (removeDraggable t d st) e) = (if e = d then None else onTarget (dobj st e))"
    "numDraggablesOnMe (dobj (removeDraggable t d st) e) =
      numDraggablesOnMe (dobj st e) - (if counted_on st t = Some e then 1 else 0)"
proof -
  obtain k where k: "k < length (draggableList (tobj st t))" "distinct (draggableList (tobj st t))"
      "onTargetIndex (dobj st d) = Some (int k)"
    using graph_inv_position [OF inv d on] by auto
  from k(3) have k': "js_index (onTargetIndex (dobj st d)) = int k" by (simp add: js_index_def)
  note f = removeDraggable_frame [OF k(2) k' k(1)] removeDraggable_tobj [OF k(2) k' k(1)]
    removeDraggable_dobj [OF k(2) k' k(1)]
  show "config (removeDraggable t d st) = config st" "draggables (removeDraggable t d st) = draggables st"
    "targets (removeDraggable t d st) = targets st" "uniqueId (removeDraggable t d st) = uniqueId st"
    "numDraggablesInSlider (removeDraggable t d st) = numDraggablesInSlider st"
    "tasks (removeDraggable t d st) = tasks st"
    "onDrag (tobj (removeDraggable t d st) u) = onDrag (tobj st u)"
    "draggableObj (tobj (removeDraggable t d st) u) = draggableObj (tobj st u)"
    "core_rest (dobj (removeDraggable t d st) e) = core_rest (dobj st e)"
    "onTarget (dobj (removeDraggable t d st) e) = (if e = d then None else onTarget (dobj st e))"
    "numDraggablesOnMe (dobj (removeDraggable t d st) e) =
      numDraggablesOnMe (dobj st e) - (if counted_on st t = Some e then 1 else 0)"
    by (rule f(1) f(2) f(3) f(4) f(5) f(6) f(8) f(9) f(12) f(13) f(15))+
qed

text \<open>A draggable cannot lie on its own field when that is empty.\<close>

lemma not_on_own_field:
  assumes "graph_inv st" and "d \<in> set (draggables st)" and "onTarget (dobj st d) = Some t"
    and "numDraggablesOnMe (dobj st d) = 0"
  shows "t \<notin> set (targetField (dobj st d))" "counted_on st t \<noteq> Some d"
proof -
  from graph_invD(5) [OF assms(1-3)] have t: "t \<in> set (targets st)" "d \<in> set (draggableList (tobj st t))"
    by auto
  with unloaded_field [OF assms(1,2,4), of t] show "t \<notin> set (targetField (dobj st d))" by auto
  with t(1) show "counted_on st t \<noteq> Some d" using counted_on_field [OF assms(1) t(1)] by simp
qed

lemma remove_ground:
  assumes inv: "graph_inv st" and d: "d \<in> set (draggables st)" and on: "onTarget (dobj st d) = Some t"
    and empty: "numDraggablesOnMe (dobj st d) = 0" and g: "ground_except d st"
  shows "ground_except d (removeDraggable t d st)"
  unfolding ground_except_def
proof (intro ballI impI)
  note f = removeDraggable_fields [OF inv d on]
  fix u assume "u \<in> set (targets (removeDraggable t d st))"
    "u \<notin> set (targetField (dobj (removeDraggable t d st) d))"
  then have u: "u \<in> set (targets st)" "u \<notin> set (targetField (dobj st d))"
    by (simp_all only: f(3) core_restD(6) [OF f(9)] not_False_eq_True)
  with g have "grounded st u" by (simp add: ground_except_def)
  then show "grounded (removeDraggable t d st) u"
    by (rule grounded_move [OF _ inv d empty u]) (simp_all add: f)
qed

lemma add_ground:
  assumes inv: "graph_inv st" and d: "d \<in> set (draggables st)"
    and empty: "numDraggablesOnMe (dobj st d) = 0" and g: "ground_except d st"
    and t: "t \<in> set (targets st)" "t \<notin> set (targetField (dobj st d))"
  shows "ground_ok (addDraggable t d st)" (is "ground_ok ?st")
proof -
  note f = addDraggable_frame addDraggable_tobj addDraggable_dobj
  have gr: "grounded ?st u" if "u \<in> set (targets st)" "u \<notin> set (targetField (dobj st d))" for u
  proof -
    from g that have "grounded st u" by (simp add: ground_except_def)
    then show ?thesis
      by (rule grounded_move [OF _ inv d empty that]) (simp_all add: f)
  qed
  show ?thesis unfolding ground_ok_def
  proof
    fix u assume "u \<in> set (targets ?st)"
    then have u: "u \<in> set (targets st)" by (simp add: f)
    show "grounded ?st u"
    proof (cases "u \<in> set (targetField (dobj st d))")
      case False
      with u show ?thesis by (rule gr)
    next
      case True
      with inv u d have "draggableObj (tobj st u) = Some d"
        by (auto simp: graph_inv_def fields_ok_def)
      then have "draggableObj (tobj ?st u) = Some d" by (simp add: f)
      moreover have "onTarget (dobj ?st d) = Some t" by (simp add: f)
      ultimately show ?thesis using gr [OF t] by (rule grounded.layer)
    qed
  qed
qed


lemma addDraggable_situation:
  "situation (dobj (addDraggable t d st) e) = (let r = dobj st e in
     (isReusable r, isOriginal r, inContainer r, mousePressed r, if e = d then Some t else onTarget r,
      targetField r, numDraggablesOnMe r + (if counted_on st t = Some e then 1 else 0)))"
  by (simp add: situation_def Let_def addDraggable_dobj core_restD [OF addDraggable_dobj(1)])

lemma removeDraggable_situation:
  assumes "graph_inv st" and "d \<in> set (draggables st)" and "onTarget (dobj st d) = Some t"
  shows "situation (dobj (removeDraggable t d st) e) = (let r = dobj st e in
     (isReusable r, isOriginal r, inContainer r, mousePressed r, if e = d then None else onTarget r,
      targetField r, numDraggablesOnMe r - (if counted_on st t = Some e then 1 else 0)))"
  by (simp add: situation_def Let_def removeDraggable_fields [OF assms]
      core_restD [OF removeDraggable_fields(9) [OF assms]])

text \<open>Both keep the state in hand: only the draggable's target and the counters change.\<close>

lemma in_hand_transfer:
  assumes ih: "in_hand c d st"
    and frame: "config st' = config st" "draggables st' = draggables st" "targets st' = targets st"
      "uniqueId st' = uniqueId st" "numDraggablesInSlider st' = numDraggablesInSlider st"
      "tasks st' = tasks st"
    and sit: "\<And>e. e \<noteq> d \<Longrightarrow> \<exists>n. situation (dobj st' e) = (isReusable (dobj st e),
        isOriginal (dobj st e), inContainer (dobj st e), mousePressed (dobj st e), onTarget (dobj st e),
        targetField (dobj st e), numDraggablesOnMe (dobj st e) + n) \<and>
        (n = 0 \<or> targetField (dobj st e) \<noteq> [])"
    and d: "isReusable (dobj st' d) = isReusable (dobj st d)" "isOriginal (dobj st' d) = isOriginal (dobj st d)"
      "inContainer (dobj st' d) = inContainer (dobj st d)" "mousePressed (dobj st' d) = mousePressed (dobj st d)"
    and empty: "numDraggablesOnMe (dobj st' d) = 0"
    and g: "graph_inv st'" and gr: "ground_except d st'"
  shows "in_hand c d st'"
proof -
  have same: "isReusable (dobj st' e) = isReusable (dobj st e)" "isOriginal (dobj st' e) = isOriginal (dobj st e)"
    "inContainer (dobj st' e) = inContainer (dobj st e)" "mousePressed (dobj st' e) = mousePressed (dobj st e)"
    "e \<noteq> d \<Longrightarrow> onTarget (dobj st' e) = onTarget (dobj st e)"
    "e \<noteq> d \<Longrightarrow> targetField (dobj st' e) = targetField (dobj st e)"
    "e \<noteq> d \<Longrightarrow> targetField (dobj st e) = [] \<Longrightarrow> numDraggablesOnMe (dobj st' e) = numDraggablesOnMe (dobj st e)" for e
    using sit [of e] d by (cases "e = d"; auto simp: situation_def)+
  have calm: "calm st'" using ih by (simp add: in_hand_def calm_def frame same)
  then have "one_pressed st'" by (simp add: calm_def one_pressed_def)
  moreover have "slider_off c st'"
    using ih by (simp add: board_defs slider_off_def in_slider_def frame same)
  moreover have "fresh_copy (dobj st' n)" if "n \<in> set (waiting st) \<union> set (ready st)" for n
  proof -
    have fr: "fresh_copy (dobj st n)" using ih that by (auto simp: board_defs copies_ok_def)
    moreover from this ih have "n \<noteq> d" by (auto simp: in_hand_def fresh_copy_def)
    ultimately show ?thesis by (simp add: fresh_copy_def same)
  qed
  then have "copies_ok st'"
    using ih by (simp add: board_defs copies_ok_def waiting_def ready_def frame)
  moreover have "indiv st'" "targets_allocated st'"
    using ih by (simp_all add: board_defs indiv_def targets_allocated_def frame)
  moreover have "placed (dobj st' e)" if "e \<in> set (draggables st)" "e \<noteq> d" for e
  proof -
    have "placed (dobj st e)" "\<not> mousePressed (dobj st e)" using ih that by (auto simp: in_hand_def calm_def)
    with \<open>e \<noteq> d\<close> show ?thesis by (simp add: placed_def same)
  qed
  ultimately show ?thesis
    using ih calm g gr empty by (simp add: in_hand_def board_core_def frame d)
qed

lemma counted_field:
  "graph_inv st \<Longrightarrow> t \<in> set (targets st) \<Longrightarrow> counted_on st t = Some e \<Longrightarrow> targetField (dobj st e) \<noteq> []"
  by (auto simp: counted_on_field)

lemma remove_in_hand:
  assumes ih: "in_hand c d st" and on: "onTarget (dobj st d) = Some t"
  shows "in_hand c d (removeDraggable t d st)" (is "in_hand c d ?st")
    and "onTarget (dobj (removeDraggable t d st) d) = None"
proof -
  have inv: "graph_inv st" and d: "d \<in> set (draggables st)" and empty: "numDraggablesOnMe (dobj st d) = 0"
    and gr: "ground_except d st" using ih by (auto simp: board_defs)
  note f = removeDraggable_fields [OF inv d on]
  have t: "t \<in> set (targets st)" using graph_invD(5) [OF inv d on] by simp
  show "in_hand c d ?st"
  proof (rule in_hand_transfer [OF ih])
    fix e assume "e \<noteq> d"
    then show "\<exists>n. situation (dobj ?st e) = (isReusable (dobj st e),
        isOriginal (dobj st e), inContainer (dobj st e), mousePressed (dobj st e), onTarget (dobj st e),
        targetField (dobj st e), numDraggablesOnMe (dobj st e) + n) \<and>
        (n = 0 \<or> targetField (dobj st e) \<noteq> [])"
      using counted_field [OF inv t, of e]
      by (intro exI [of _ "- (if counted_on st t = Some e then 1 else 0)"])
        (auto simp: removeDraggable_situation [OF inv d on] Let_def)
  next
    show "numDraggablesOnMe (dobj ?st d) = 0"
      using not_on_own_field(2) [OF inv d on empty] empty by (simp add: f)
  qed (simp_all add: f(1-6) core_restD [OF f(9)] removeDraggable_inv [OF inv d on]
      remove_ground [OF inv d on empty gr])
  show "onTarget (dobj ?st d) = None" by (simp add: f)
qed

text \<open>Landing on a target that is not on the draggable itself.\<close>

lemma in_hand_settled:
  assumes ih: "in_hand c d st" and g: "ground_ok st" and on: "onTarget (dobj st d) \<noteq> None"
  shows "board_off c st"
proof -
  have "placed (dobj st d)" using ih on by (auto simp: in_hand_def calm_def placed_def)
  with ih have "place_ok st" by (auto simp: in_hand_def place_ok_def)
  with ih g show ?thesis by (simp add: board_off_def in_hand_def)
qed

lemma add_in_hand:
  assumes ih: "in_hand c d st" and off: "onTarget (dobj st d) = None"
    and t: "t \<in> set (targets st)" "draggableObj (tobj st t) \<noteq> Some d"
  shows "in_hand c d (addDraggable t d st)" (is "in_hand c d ?st")
    and "board_off c (addDraggable t d st)"
proof -
  have inv: "graph_inv st" and d: "d \<in> set (draggables st)" and empty: "numDraggablesOnMe (dobj st d) = 0"
    and gr: "ground_except d st" using ih by (auto simp: board_defs)
  have own: "t \<notin> set (targetField (dobj st d))"
    using inv t d by (auto simp: graph_inv_def fields_ok_def)
  have gnd: "ground_ok ?st" by (rule add_ground [OF inv d empty gr t(1) own])
  show hand: "in_hand c d ?st"
  proof (rule in_hand_transfer [OF ih])
    fix e assume "e \<noteq> d"
    then show "\<exists>n. situation (dobj ?st e) = (isReusable (dobj st e),
        isOriginal (dobj st e), inContainer (dobj st e), mousePressed (dobj st e), onTarget (dobj st e),
        targetField (dobj st e), numDraggablesOnMe (dobj st e) + n) \<and>
        (n = 0 \<or> targetField (dobj st e) \<noteq> [])"
      using counted_field [OF inv t(1), of e]
      by (intro exI [of _ "if counted_on st t = Some e then 1 else 0"])
        (auto simp: addDraggable_situation Let_def)
  next
    show "numDraggablesOnMe (dobj ?st d) = 0"
      using t(2) empty by (simp add: addDraggable_dobj counted_on_def)
  qed (simp_all add: addDraggable_frame core_restD [OF addDraggable_dobj(1)]
      addDraggable_inv [OF inv t(1) d off] ground_ok_except [OF gnd])
  show "board_off c ?st"
    by (rule in_hand_settled [OF hand gnd]) (simp add: addDraggable_dobj)
qed


section \<open>The target field of a draggable that has landed\<close>

lemma field_at_end_empty: "targetField (dobj st d) = [] \<Longrightarrow> field_at_end st d"
  by (auto simp: field_at_end_def block_of_def)

lemma create_board:
  assumes b: "board_off c st" and d: "d \<in> set (draggables st)" and on: "onTarget (dobj st d) = Some t"
    and nofield: "targetField (dobj st d) = []"
  shows "board_off c (create_targets (Some d) cs st)" (is "board_off c ?st")
proof -
  note f = create_field_frame [where owner = "Some d" and cs = cs and st = st]
  have inv: "graph_inv st" and al: "targets_allocated st" using b by (auto simp: board_defs)
  from create_field [OF inv al d field_at_end_empty [OF nofield], of cs]
  have "graph_inv ?st" "targets_allocated ?st" by auto
  have old: "u \<le> uniqueId st" if "u \<in> set (targets st)" for u
    using al that by (simp add: targets_allocated_def)
  have sel: "isReusable (dobj ?st e) = isReusable (dobj st e)" "isOriginal (dobj ?st e) = isOriginal (dobj st e)"
    "inContainer (dobj ?st e) = inContainer (dobj st e)" "mousePressed (dobj ?st e) = mousePressed (dobj st e)"
    "onTarget (dobj ?st e) = onTarget (dobj st e)"
    "e \<noteq> d \<Longrightarrow> targetField (dobj ?st e) = targetField (dobj st e)"
    "numDraggablesOnMe (dobj ?st e) = numDraggablesOnMe (dobj st e)" for e
    by (simp_all add: f)
  have "placed (dobj st d)" using b d by (simp add: board_off_def place_ok_def)
  with on have "\<not> inContainer (dobj st d)" by (auto simp: placed_def)
  have "placed (dobj ?st e)" if "e \<in> set (draggables st)" for e
  proof -
    have p: "placed (dobj st e)" using b that by (simp add: board_off_def place_ok_def)
    show ?thesis
    proof (cases "e = d")
      case True
      with p on have "placed (dobj st d)" "onTarget (dobj ?st d) = Some t" by (simp_all add: sel)
      with \<open>\<not> inContainer (dobj st d)\<close> have "placed (dobj ?st d)" by (simp add: placed_def sel)
      with True show ?thesis by simp
    next
      case False
      with p show ?thesis by (simp add: placed_def sel)
    qed
  qed
  then have place: "place_ok ?st" by (simp add: place_ok_def f(2))
  have old_ground: "grounded ?st u" if "grounded st u" "u \<in> set (targets st)" for u
    using that
  proof induction
    case (base u)
    then show ?case using old by (intro grounded.base) (simp add: f(7))
  next
    case (layer u e v)
    then have "e \<in> set (draggables st)" using inv by (auto simp: graph_inv_def fields_ok_def)
    from graph_invD(5) [OF inv this layer.hyps(2)] have "v \<in> set (targets st)" by simp
    with layer.IH have v: "grounded ?st v" .
    have "draggableObj (tobj ?st u) = Some e" "onTarget (dobj ?st e) = Some v"
      using layer.hyps layer.prems old by (simp_all add: f(7) sel)
    then show ?case using v by (rule grounded.layer)
  qed
  have ground: "ground_ok ?st" unfolding ground_ok_def
  proof
    fix u assume u: "u \<in> set (targets ?st)"
    show "grounded ?st u"
    proof (cases "u \<in> set (targets st)")
      case True
      then show ?thesis using b by (intro old_ground) (auto simp: board_off_def ground_ok_def)
    next
      case False
      with u have "uniqueId st < u" "u \<le> uniqueId st + length cs" by (auto simp: f(6))
      then have "draggableObj (tobj ?st u) = Some d" by (simp add: f(8))
      moreover have "onTarget (dobj ?st d) = Some t" using on by (simp add: sel)
      moreover have "t \<in> set (targets st)" using graph_invD(5) [OF inv d on] by simp
      then have "grounded ?st t" using b by (intro old_ground) (auto simp: board_off_def ground_ok_def)
      ultimately show ?thesis by (rule grounded.layer)
    qed
  qed
  have "fresh_copy (dobj ?st n)" if "n \<in> set (waiting st) \<union> set (ready st)" for n
  proof -
    have fr: "fresh_copy (dobj st n)" using b that by (auto simp: board_defs copies_ok_def)
    with \<open>\<not> inContainer (dobj st d)\<close> have "n \<noteq> d" by (auto simp: fresh_copy_def)
    with fr show ?thesis by (simp add: fresh_copy_def sel)
  qed
  moreover have "waiting ?st = waiting st" "ready ?st = ready st"
    by (simp_all add: waiting_def ready_def f(4))
  ultimately have "copies_ok ?st"
    using b by (simp add: board_off_def board_core_def copies_ok_def f(2,5) trans_le_add1)
  moreover have "indiv ?st" "one_pressed ?st" "slider_off c ?st"
    using b by (simp_all add: board_defs indiv_def one_pressed_def slider_off_def in_slider_def f(1-6) sel)
  ultimately show ?thesis
    using place ground \<open>graph_inv ?st\<close> \<open>targets_allocated ?st\<close> by (simp add: board_defs)
qed

lemma field_board:
  assumes "board_off c st" and "d \<in> set (draggables st)" and "onTarget (dobj st d) \<noteq> None"
  shows "board_off c (initializeTargetField d st)"
proof (cases "targetField (dobj st d) = []")
  case True
  with assms show ?thesis by (auto simp: initializeTargetField_def intro: create_board)
next
  case False
  from same_graph_board(6) [OF same_graph_refresh_field [OF False]] assms(1) show ?thesis by simp
qed

section \<open>Going back to the slider\<close>

text \<open>What is left after its field is destroyed.\<close>

lemma destroy_in_hand:
  assumes ih: "in_hand c d st" and off: "onTarget (dobj st d) = None"
  shows "in_hand c d (destroyTargetField d st)" (is "in_hand c d ?st")
    and "ground_ok (destroyTargetField d st)"
    and "targetField (dobj (destroyTargetField d st) d) = []"
    and "onTarget (dobj (destroyTargetField d st) d) = None"
    and "isOriginal (dobj (destroyTargetField d st) d) = isOriginal (dobj st d)"
    and "stateDraggablesIndex (dobj (destroyTargetField d st) d) = stateDraggablesIndex (dobj st d)"
    and "draggables (destroyTargetField d st) = draggables st"
proof -
  have inv: "graph_inv st" and d: "d \<in> set (draggables st)" and empty: "numDraggablesOnMe (dobj st d) = 0"
    and gr: "ground_except d st" using ih by (auto simp: board_defs)
  note f = destroyTargetField_effect [OF inv d]
  have sel: "isReusable (dobj ?st e) = isReusable (dobj st e)" "isOriginal (dobj ?st e) = isOriginal (dobj st e)"
    "inContainer (dobj ?st e) = inContainer (dobj st e)" "mousePressed (dobj ?st e) = mousePressed (dobj st e)"
    "onTarget (dobj ?st e) = onTarget (dobj st e)"
    "targetField (dobj ?st e) = (if e = d then [] else targetField (dobj st e))"
    "numDraggablesOnMe (dobj ?st e) = numDraggablesOnMe (dobj st e)" for e
    by (simp_all add: f)
  have same: "e \<noteq> d \<Longrightarrow> dobj ?st e = dobj st e" for e by (simp add: f)
  have g: "grounded ?st t" if "t \<in> set (targets st)" "t \<notin> set (targetField (dobj st d))" for t
  proof -
    from gr that have "grounded st t" by (simp add: ground_except_def)
    then show ?thesis by (rule grounded_transfer) (simp_all add: f(8-11) sel)
  qed
  then show go: "ground_ok ?st" by (simp add: ground_ok_def f(1))
  have "fresh_copy (dobj ?st n)" if "n \<in> set (waiting st) \<union> set (ready st)" for n
  proof -
    have fr: "fresh_copy (dobj st n)" using ih that by (auto simp: board_defs copies_ok_def)
    moreover from this ih have "n \<noteq> d" by (auto simp: in_hand_def fresh_copy_def)
    ultimately show ?thesis by (simp add: same)
  qed
  then have "copies_ok ?st"
    using ih by (simp add: board_defs copies_ok_def waiting_def ready_def f(2-6))
  moreover have "indiv ?st" "one_pressed ?st" "slider_off c ?st" "targets_allocated ?st" "calm ?st"
    using ih by (simp_all add: board_defs indiv_def one_pressed_def slider_off_def in_slider_def
        targets_allocated_def calm_def f(1-6) sel)
  ultimately show "in_hand c d ?st"
    using ih destroyTargetField_inv [OF inv d empty] ground_ok_except [OF go]
    by (simp add: in_hand_def board_core_def f(3) sel same)
qed (use ih destroyTargetField_effect [of st d] in \<open>simp_all add: board_defs off\<close>)

text \<open>Changes of a draggable that do not touch what the graph is made of.\<close>

lemma graph_inv_upd_d:
  assumes "stateDraggablesIndex (f (dobj st d)) = stateDraggablesIndex (dobj st d)"
    "onTarget (f (dobj st d)) = onTarget (dobj st d)" "onTargetIndex (f (dobj st d)) = onTargetIndex (dobj st d)"
    "targetField (f (dobj st d)) = targetField (dobj st d)"
    "numDraggablesOnMe (f (dobj st d)) = numDraggablesOnMe (dobj st d)"
  shows "graph_inv (upd_d d f st) = graph_inv st"
proof -
  let ?st = "upd_d d f st"
  have e: "stateDraggablesIndex (dobj ?st e) = stateDraggablesIndex (dobj st e)"
    "onTarget (dobj ?st e) = onTarget (dobj st e)" "onTargetIndex (dobj ?st e) = onTargetIndex (dobj st e)"
    "targetField (dobj ?st e) = targetField (dobj st e)"
    "numDraggablesOnMe (dobj ?st e) = numDraggablesOnMe (dobj st e)"
    "draggables ?st = draggables st" "targets ?st = targets st" "tobj ?st = tobj st" for e
    using assms by (simp_all add: upd_d_def)
  have "indexed onTargetIndex (dobj ?st) xs = indexed onTargetIndex (dobj st) xs"
    "indexed stateDraggablesIndex (dobj ?st) xs = indexed stateDraggablesIndex (dobj st) xs" for xs
    by (rule indexed_cong, simp add: e)+
  then show ?thesis by (simp add: graph_inv_defs e)
qed


lemma slider_look_fields [simp]:
  "stateDraggablesIndex (slider_look r) = stateDraggablesIndex r" "onTarget (slider_look r) = onTarget r"
  "onTargetIndex (slider_look r) = onTargetIndex r" "targetField (slider_look r) = targetField r"
  "numDraggablesOnMe (slider_look r) = numDraggablesOnMe r" "isOriginal (slider_look r) = isOriginal r"
  "isReusable (slider_look r) = isReusable r" "mousePressed (slider_look r) = mousePressed r"
  by (simp_all add: slider_look_def Let_def)

lemma not_ready: "copies_ok st \<Longrightarrow> \<not> fresh_copy (dobj st d) \<Longrightarrow> d \<notin> set (ready st)"
  by (auto simp: copies_ok_def)

text \<open>Changing only where one draggable is: what remains to be checked.\<close>

lemma core_upd_d:
  assumes b: "board_core c st" and d: "d \<in> set (draggables st)" and out: "d \<notin> set (ready st)"
    and same: "stateDraggablesIndex r = stateDraggablesIndex (dobj st d)"
    "onTarget r = onTarget (dobj st d)" "onTargetIndex r = onTargetIndex (dobj st d)"
    "targetField r = targetField (dobj st d)" "numDraggablesOnMe r = numDraggablesOnMe (dobj st d)"
    and one: "one_pressed (upd_d d (\<lambda>_. r) st)"
  shows "board_core (c + (if in_slider (dobj st d) then 1 else 0) - (if in_slider r then 1 else 0))
    (upd_d d (\<lambda>_. r) st)" (is "board_core ?c ?st")
proof -
  have e: "draggables ?st = draggables st" "targets ?st = targets st" "config ?st = config st"
    "tasks ?st = tasks st" "uniqueId ?st = uniqueId st" "numDraggablesInSlider ?st = numDraggablesInSlider st"
    by (simp_all add: upd_d_def)
  have o: "dobj ?st x = (if x = d then r else dobj st x)" for x by (simp add: upd_d_def)
  have "graph_inv ?st" using b graph_inv_upd_d [of "\<lambda>_. r" st d] same by (simp add: board_core_def)
  moreover have "slider_off ?c ?st"
  proof -
    have "distinct (draggables st)" using b graph_invD(2) [OF _ d] by (simp add: board_core_def)
    from length_filter_change [OF this d, of "\<lambda>x. in_slider (dobj ?st x)" "\<lambda>x. in_slider (dobj st x)"]
    show ?thesis using b by (simp add: board_core_def slider_off_def e o)
  qed
  moreover have "copies_ok ?st"
  proof -
    have "n \<noteq> d" if "n \<in> set (waiting st) \<union> set (ready st)" for n
      using b that out d by (auto simp: board_core_def copies_ok_def)
    then show ?thesis
      using b by (simp add: board_core_def copies_ok_def waiting_def ready_def e o)
  qed
  ultimately show ?thesis
    using b one by (simp add: board_core_def indiv_def targets_allocated_def e)
qed

lemma ground_upd_d:
  assumes "ground_ok st" and "onTarget r = onTarget (dobj st d)"
  shows "ground_ok (upd_d d (\<lambda>_. r) st)"
  unfolding ground_ok_def
proof
  fix t assume "t \<in> set (targets (upd_d d (\<lambda>_. r) st))"
  then have "grounded st t" using assms(1) by (simp add: ground_ok_def upd_d_def)
  then show "grounded (upd_d d (\<lambda>_. r) st) t"
    by (rule grounded_transfer) (simp_all add: upd_d_def assms(2))
qed

lemma upd_d_const: "upd_d d f st = upd_d d (\<lambda>_. f (dobj st d)) st"
  by (simp add: upd_d_def)

lemma slider_num_off:
  assumes "board_off c st"
  shows "board_off (c + k) (st\<lparr>numDraggablesInSlider := numDraggablesInSlider st + k\<rparr>)"
proof -
  let ?st = "st\<lparr>numDraggablesInSlider := numDraggablesInSlider st + k\<rparr>"
  have e: "draggables ?st = draggables st" "targets ?st = targets st" "config ?st = config st"
    "tasks ?st = tasks st" "uniqueId ?st = uniqueId st" "dobj ?st = dobj st" "tobj ?st = tobj st"
    by simp_all
  have "indexed f (dobj ?st) xs = indexed f (dobj st) xs" "indexed g (tobj ?st) xs = indexed g (tobj st) xs"
    for f g xs by (simp_all add: e)
  then have "graph_inv ?st = graph_inv st" by (simp add: graph_inv_defs e)
  moreover have "ground_ok ?st"
    unfolding ground_ok_def
  proof
    fix t assume "t \<in> set (targets ?st)"
    then have "grounded st t" using assms by (simp add: board_off_def ground_ok_def e)
    then show "grounded ?st t" by (rule grounded_transfer) (simp_all add: e)
  qed
  moreover have "slider_off (c + k) ?st"
    using assms by (simp add: board_off_def board_core_def slider_off_def)
  ultimately show ?thesis
    using assms by (simp add: board_off_def board_core_def indiv_def targets_allocated_def
        one_pressed_def copies_ok_def waiting_def ready_def place_ok_def e)
qed

lemma slider_count_off:
  "board_off c st \<Longrightarrow>
     board_off (c + (if isOriginal (dobj st d) then k else 0)) (slider_count k d st)"
  using slider_num_off [of c st k] by (simp add: slider_count_def)

text \<open>An original in hand goes back into the slider.\<close>

lemma put_back:
  assumes ih: "in_hand c d st" and go: "ground_ok st" and off: "onTarget (dobj st d) = None"
    and nofield: "targetField (dobj st d) = []" and orig: "isOriginal (dobj st d)"
  shows "board_off (c - 1) (upd_d d (\<lambda>r. (slider_look r)\<lparr>inContainer := True\<rparr>) st)" (is "board_off _ ?st")
proof -
  let ?r = "(slider_look (dobj st d))\<lparr>inContainer := True\<rparr>"
  have eq: "?st = upd_d d (\<lambda>_. ?r) st" by (rule upd_d_const)
  have d: "d \<in> set (draggables st)" and calm: "calm st" and b: "board_core c st"
    using ih by (auto simp: in_hand_def)
  have np: "\<not> mousePressed (dobj st d)" using calm d by (simp add: calm_def)
  have o: "dobj ?st x = (if x = d then ?r else dobj st x)" for x by (simp add: upd_d_def)
  have ds: "draggables ?st = draggables st" by (simp add: upd_d_def)
  have "one_pressed ?st" using calm np by (auto simp: one_pressed_def calm_def o ds)
  moreover have "d \<notin> set (ready st)"
    using ih by (intro not_ready) (simp_all add: in_hand_def board_core_def fresh_copy_def)
  moreover have "in_slider ?r" "\<not> in_slider (dobj st d)" using orig ih by (simp_all add: in_slider_def in_hand_def)
  ultimately have "board_core (c - 1) ?st"
    unfolding eq using core_upd_d [OF b d, of ?r] by simp
  moreover have "ground_ok ?st" unfolding eq by (rule ground_upd_d [OF go]) simp
  moreover have "place_ok ?st"
    using ih off nofield np by (auto simp: in_hand_def place_ok_def placed_def o ds)
  ultimately show ?thesis by (simp add: board_off_def)
qed


lemma shift_stateIndex_fields [simp]:
  "situation (shift_stateIndex k r) = situation r" "onTarget (shift_stateIndex k r) = onTarget r"
  "onTargetIndex (shift_stateIndex k r) = onTargetIndex r"
  "targetField (shift_stateIndex k r) = targetField r"
  "numDraggablesOnMe (shift_stateIndex k r) = numDraggablesOnMe r"
  by (simp_all add: shift_stateIndex_def situation_def)

text \<open>A copy in hand leaves \<open>state.draggables\<close>.\<close>

definition leave :: "nat \<Rightarrow> dnd \<Rightarrow> dnd" where
  "leave k st = (let ds = splice1 (draggables st) (int k)
     in st\<lparr>draggables := ds, dobj := (\<lambda>e. if e \<in> set ds then shift_stateIndex (int k) (dobj st e)
                                           else dobj st e)\<rparr>)"

lemma leave_board:
  assumes ih: "in_hand c d st" and go: "ground_ok st" and off: "onTarget (dobj st d) = None"
    and nofield: "targetField (dobj st d) = []" and copy: "\<not> isOriginal (dobj st d)"
    and k: "k < length (draggables st)" "draggables st ! k = d"
  shows "board_off c (leave k st)" (is "board_off _ ?st")
proof -
  have inv: "graph_inv st" and b: "board_core c st" using ih by (auto simp: board_defs)
  have dist: "distinct (draggables st)" using ih graph_invD(2) [OF inv] by (auto simp: in_hand_def)
  have ds: "draggables ?st = filter (\<lambda>x. x \<noteq> d) (draggables st)"
    using splice1_filter [OF dist k(1)] k(2) by (simp add: leave_def Let_def)
  have e: "targets ?st = targets st" "config ?st = config st" "tasks ?st = tasks st"
    "uniqueId ?st = uniqueId st" "tobj ?st = tobj st" "numDraggablesInSlider ?st = numDraggablesInSlider st"
    by (simp_all add: leave_def Let_def)
  have sit: "situation (dobj ?st x) = situation (dobj st x)" for x
    by (simp add: leave_def Let_def)
  note s = situationD [OF sit]
  have idx: "onTargetIndex (dobj ?st x) = onTargetIndex (dobj st x)" for x
    by (simp add: leave_def Let_def)
  have unlisted: "d \<notin> set (draggableList (tobj st t))" if "t \<in> set (targets st)" for t
    using inv off that by (auto simp: graph_inv_def links_ok_def)
  have "indexed onTargetIndex (dobj ?st) xs = indexed onTargetIndex (dobj st) xs" for xs
    by (rule indexed_cong) (simp add: idx)
  then have "links_ok ?st"
    using inv unlisted by (simp add: graph_inv_def links_ok_def e ds s) (metis (no_types, lifting))
  moreover have "closed_ok ?st" using inv by (auto simp: graph_inv_def closed_ok_def e ds s)
  moreover have "arrays_ok ?st"
  proof -
    have "indexed stateDraggablesIndex (dobj ?st) (splice1 (draggables st) (int k))"
      using inv k(1)
      by (intro in_state.remove_one [where h = "dobj st"])
        (simp_all add: graph_inv_def arrays_ok_def leave_def Let_def shift_state_def)
    then show ?thesis using inv
      by (simp add: graph_inv_def arrays_ok_def e leave_def Let_def)
  qed
  moreover have "fields_ok ?st"
  proof -
    have "draggableObj (tobj st t) \<noteq> Some d" if "t \<in> set (targets st)" for t
      using inv that nofield by (auto simp: graph_inv_def fields_ok_def)
    then show ?thesis
      using inv by (auto simp: graph_inv_def fields_ok_def e ds s)
  qed
  moreover have "counts_ok ?st" using inv by (simp add: graph_inv_def counts_ok_def field_load_def e ds s)
  ultimately have "graph_inv ?st" by (simp add: graph_inv_def)
  moreover have "ground_ok ?st" unfolding ground_ok_def
  proof
    fix t assume "t \<in> set (targets ?st)"
    then have "grounded st t" using go by (simp add: ground_ok_def e)
    then show "grounded ?st t" by (rule grounded_transfer) (simp_all add: e s)
  qed
  moreover have "place_ok ?st" using ih by (simp add: in_hand_def place_ok_def ds s)
  moreover have "slider_off c ?st"
  proof -
    have "filter (\<lambda>x. in_slider (dobj st x)) (filter (\<lambda>x. x \<noteq> d) (draggables st))
        = filter (\<lambda>x. in_slider (dobj st x)) (draggables st)"
      using copy by (auto simp: filter_filter in_slider_def intro!: filter_cong)
    then show ?thesis using b by (simp add: board_core_def slider_off_def e ds s)
  qed
  moreover have "copies_ok ?st"
  proof -
    have "d \<notin> set (ready st)" using ih by (auto simp: board_defs copies_ok_def fresh_copy_def)
    then show ?thesis
      using b by (auto simp: board_core_def copies_ok_def waiting_def ready_def e ds s)
  qed
  ultimately show ?thesis
    using b by (simp add: board_off_def board_core_def indiv_def targets_allocated_def one_pressed_def e ds s)
qed

lemma moveBack_board:
  assumes ih: "in_hand 0 d st" and off: "onTarget (dobj st d) = None"
  shows "board_inv (slider_count 1 d (moveBackToSlider d st))"
proof -
  let ?s1 = "destroyTargetField d st"
  note ds = destroy_in_hand [OF ih off]
  show ?thesis
  proof (cases "isOriginal (dobj st d)")
    case True
    then have m: "moveBackToSlider d st = upd_d d (\<lambda>r. (slider_look r)\<lparr>inContainer := True\<rparr>) ?s1"
      by (simp add: moveBackToSlider_def ds)
    from put_back [OF ds(1,2,4,3)] True ds(5)
    have "board_off (- 1) (moveBackToSlider d st)" by (simp add: m)
    from slider_count_off [OF this, of d 1] show ?thesis
      using True ds(5) by (simp add: board_inv_def m upd_d_def)
  next
    case False
    have inv: "graph_inv st" and d: "d \<in> set (draggables st)" using ih by (auto simp: board_defs)
    then have "indexed stateDraggablesIndex (dobj st) (draggables st)"
      by (simp add: graph_inv_def arrays_ok_def)
    from indexed_memD [OF this d] obtain k where k: "k < length (draggables st)" "draggables st ! k = d"
        "stateDraggablesIndex (dobj st d) = Some (int k)" by auto
    let ?s2 = "upd_d d (\<lambda>r. r\<lparr>iconPlace := Nowhere, labelPlace := Nowhere\<rparr>) ?s1"
    have sg: "same_graph ?s2 ?s1" by (rule same_graph_upd_d) (simp_all add: graph_fields)
    have ds2: "draggables ?s2 = draggables st" by (simp add: upd_d_def ds)
    have "distinct (splice1 (draggables st) (int k))"
      using distinct_splice1 [OF graph_invD(2) [OF inv d] k(1)] .
    then have m: "moveBackToSlider d st = leave k ?s2"
      using False k ds2 by (simp add: moveBackToSlider_def ds Let_def leave_def fold_upd_d js_index_def
          cong: if_cong)
    have "board_off 0 (leave k ?s2)"
    proof (rule leave_board)
      show "in_hand 0 d ?s2" "ground_ok ?s2" using ds(1,2) by (simp_all add: same_graph_board [OF sg])
    qed (use ds False k ds2 in \<open>simp_all add: same_graphD [OF sg]\<close>)
    moreover have "\<not> isOriginal (dobj (leave k ?s2) d)"
      using False ds(5) by (simp add: leave_def Let_def upd_d_def shift_stateIndex_def)
    ultimately show ?thesis by (simp add: m slider_count_def board_inv_def)
  qed
qed

end
