(* ===== verification/DndPath.thy ===== *)
theory DndPath
  imports DndBoard
begin

text \<open>
  What lies below a target: the chain of draggables down to a base target. Under the invariant
  it exists, is unique and does not repeat a draggable, so \<open>addTargetRecursively\<close> ends; the
  answer it writes is the nested object of that chain.
\<close>

section \<open>The draggables below a target\<close>

inductive below :: "dnd \<Rightarrow> nat \<Rightarrow> nat list \<Rightarrow> bool" for st where
  floor: "\<not> onDrag (tobj st t) \<Longrightarrow> below st t []"
| over: "onDrag (tobj st t) \<Longrightarrow> draggableObj (tobj st t) = Some b \<Longrightarrow>
    onTarget (dobj st b) = Some u \<Longrightarrow> below st u bs \<Longrightarrow> below st t (b # bs)"

inductive_simps below_Nil: "below st t []"
inductive_simps below_Cons: "below st t (b # bs)"
inductive_cases below_ConsE: "below st t (b # bs)"

lemma below_unique: "below st t bs \<Longrightarrow> below st t cs \<Longrightarrow> bs = cs"
proof (induction arbitrary: cs rule: below.induct)
  case (floor t)
  from floor.prems floor.hyps show ?case by (cases cs) (auto simp: below_Cons)
next
  case (over t b u bs)
  from over.prems over.hyps obtain ds where cs: "cs = b # ds" "below st u ds"
    by (cases cs) (auto simp: below_Nil below_Cons)
  with over.IH show ?case by simp
qed

lemma below_suffix:
  "below st t (xs @ b # ys) \<Longrightarrow> \<exists>u. onTarget (dobj st b) = Some u \<and> below st u ys"
  by (induction xs arbitrary: t) (auto simp: below_Cons)

lemma below_distinct: "below st t bs \<Longrightarrow> distinct bs"
proof (rule ccontr)
  assume b: "below st t bs" and "\<not> distinct bs"
  then obtain xs ys zs x where bs: "bs = xs @ [x] @ ys @ [x] @ zs"
    using not_distinct_decomp by blast
  from b bs have "below st t (xs @ x # (ys @ [x] @ zs))" "below st t ((xs @ x # ys) @ x # zs)" by simp_all
  from below_suffix [OF this(1)] below_suffix [OF this(2)]
  obtain u where "below st u (ys @ [x] @ zs)" "below st u zs" by auto
  from below_unique [OF this] show False by simp
qed

lemma grounded_below:
  assumes inv: "graph_inv st" and "grounded st t" and "t \<in> set (targets st)"
  shows "\<exists>bs. below st t bs \<and> set bs \<subseteq> set (draggables st)"
  using assms(2,3)
proof induction
  case (base t)
  then show ?case by (auto intro!: exI [of _ "[]"] below.floor)
next
  case (layer t b u)
  then have b: "b \<in> set (draggables st)" "onDrag (tobj st t)"
    using inv by (auto simp: graph_inv_def fields_ok_def)
  from graph_invD(5) [OF inv b(1) layer.hyps(2)] have "u \<in> set (targets st)" by simp
  with layer.IH obtain bs where "below st u bs" "set bs \<subseteq> set (draggables st)" by auto
  with layer.hyps b have "below st t (b # bs) \<and> set (b # bs) \<subseteq> set (draggables st)"
    by (auto intro: below.over)
  then show ?case ..
qed

lemma below_ex:
  assumes "board_off c st" and "t \<in> set (targets st)"
  shows "\<exists>bs. below st t bs \<and> length bs \<le> length (draggables st)"
proof -
  from assms obtain bs where b: "below st t bs" "set bs \<subseteq> set (draggables st)"
    using grounded_below by (force simp: board_off_def board_core_def ground_ok_def)
  have "length bs = card (set bs)" using below_distinct [OF b(1)] by (simp add: distinct_card)
  also have "\<dots> \<le> card (set (draggables st))" using b(2) by (simp add: card_mono)
  also have "\<dots> \<le> length (draggables st)" by (rule card_length)
  finally show ?thesis using b(1) by blast
qed

section \<open>The nested answer\<close>

text \<open>The answer for a draggable on a target, given the draggables below: one object for the base
  target, and two more for each layer.\<close>

fun nested :: "dnd \<Rightarrow> nat \<Rightarrow> nat \<Rightarrow> nat list \<Rightarrow> js" where
  "nested st d t [] = JObj [(d_id (dobj st d), JStr (t_id (tobj st t)))]"
| "nested st d t (b # bs) =
     JObj [(d_id (dobj st d), JObj [(t_id (tobj st t), nested st b (the (onTarget (dobj st b))) bs)])]"

lemma addTargetRecursively_below:
  "below st t bs \<Longrightarrow> length bs < fuel \<Longrightarrow> addTargetRecursively fuel st d (Some t) = Some (nested st d t bs)"
proof (induction arbitrary: d fuel rule: below.induct)
  case (floor t)
  then show ?case by (cases fuel) auto
next
  case (over t b u bs)
  then obtain n where n: "fuel = Suc n" "length bs < n" by (cases fuel) auto
  with over.IH [of n b] over.hyps show ?case by simp
qed

lemma target_entry_below:
  assumes "below st t bs" and "length bs \<le> length (draggables st)"
  shows "target_entry st t d = Some (nested st d t bs)"
proof (cases "onDrag (tobj st t)")
  case True
  moreover have "addTargetRecursively (length (draggables st) + 1) st d (Some t) = Some (nested st d t bs)"
    by (rule addTargetRecursively_below [OF assms(1)]) (use assms(2) in simp)
  ultimately show ?thesis by (simp add: target_entry_def del: addTargetRecursively.simps)
next
  case False
  with assms(1) show ?thesis by (cases rule: below.cases) (auto simp: target_entry_def)
qed

lemma option_list_map:
  "(\<And>x. x \<in> set xs \<Longrightarrow> f x = Some (g x)) \<Longrightarrow> option_list (map f xs) = Some (map g xs)"
  by (induction xs) auto

definition chain_below :: "dnd \<Rightarrow> nat \<Rightarrow> nat list" where
  "chain_below st t = (THE bs. below st t bs)"

lemma chain_below_eq: "below st t bs \<Longrightarrow> chain_below st t = bs"
  unfolding chain_below_def by (blast intro: below_unique)

text \<open>All entries of the answer, target by target.\<close>

lemma target_entries_board:
  assumes b: "board_off c st"
  shows "target_entries st = Some (concat (map (\<lambda>t. map (\<lambda>d. nested st d t (chain_below st t))
     (draggableList (tobj st t))) (targets st)))"
proof -
  have e: "target_entry st t d = Some (nested st d t (chain_below st t))" if "t \<in> set (targets st)" for t d
  proof -
    obtain bs where "below st t bs" "length bs \<le> length (draggables st)"
      using below_ex [OF b \<open>t \<in> _\<close>] by blast
    then show ?thesis by (simp add: target_entry_below chain_below_eq)
  qed
  have "target_entries st = option_list (map (\<lambda>(t, d). target_entry st t d)
      (concat (map (\<lambda>t. map (\<lambda>d. (t, d)) (draggableList (tobj st t))) (targets st))))"
    by (simp add: target_entries_def map_concat comp_def)
  also have "\<dots> = Some (map (\<lambda>(t, d). nested st d t (chain_below st t))
      (concat (map (\<lambda>t. map (\<lambda>d. (t, d)) (draggableList (tobj st t))) (targets st))))"
    using e by (intro option_list_map) auto
  finally show ?thesis by (simp add: map_concat comp_def)
qed

lemma update_board:
  "board_off c st \<Longrightarrow> \<exists>es. update st = Some (st\<lparr>inputVal := Some (JArr es)\<rparr>)"
  using target_entries_board [of c st] by (auto simp: update_def board_off_def board_core_def indiv_def)

section \<open>Its depth\<close>

lemma findDepth_nested: "findDepth (nested st d t bs) n = n + 1 + 2 * length bs"
  by (induction bs arbitrary: d t n) simp_all

lemma read_nested_base:
  "read_chain 1 (nested st d t []) = Some \<lparr> baseDraggableId = JStr (d_id (dobj st d)),
     baseTargetId = JStr (t_id (tobj st t)), layeredDraggableId = JNull, layeredTargetId = JNull \<rparr>"
  by (simp add: read_chain_def key_text_def)

lemma read_nested_layer:
  "onTarget (dobj st b) = Some u \<Longrightarrow>
   read_chain 3 (nested st d t [b]) = Some \<lparr> baseDraggableId = JStr (d_id (dobj st b)),
     baseTargetId = JStr (t_id (tobj st u)), layeredDraggableId = JStr (d_id (dobj st d)),
     layeredTargetId = JStr (t_id (tobj st t)) \<rparr>"
  by (simp add: read_chain_def key_text_def)

end
