(* ===== verification/DndMoves.thy ===== *)
theory DndMoves
  imports DndPath
begin

text \<open>
  The mouse events and the placing of a draggable preserve \<open>board_inv\<close>, and landing never
  throws.
\<close>

section \<open>Landing\<close>

definition accepts :: "dnd \<Rightarrow> nat \<Rightarrow> rat \<Rightarrow> rat \<Rightarrow> nat \<Rightarrow> bool" where
  "accepts st d posL posT t \<longleftrightarrow>
     target_free st d t \<and> \<not> (onDrag (tobj st t) \<and> draggableObj (tobj st t) = Some d) \<and>
     centre_in st d posL posT t"

definition put_on :: "nat \<Rightarrow> nat \<Rightarrow> dnd \<Rightarrow> dnd" where
  "put_on t d st = (case onTarget (dobj st d) of
       None \<Rightarrow> addDraggable t d st
     | Some t' \<Rightarrow> if t' \<noteq> t then addDraggable t d (removeDraggable t' d st) else st)"

lemma checkIfOnTarget_find:
  "checkIfOnTarget_from ts d posL posT st =
     (case find (accepts st d posL posT) ts of
        None \<Rightarrow> (False, st)
      | Some t \<Rightarrow> (True, snapToTarget t d (put_on t d st)))"
  by (induction ts) (auto simp: accepts_def put_on_def Let_def)

lemma correctZ_total:
  assumes "onTarget (dobj st d) \<noteq> None"
  shows "\<exists>st'. correctZIndexes d st = Some st'"
  using assms by (cases "individualTargets (config st) = Some True")
    (auto simp: correctZIndexes_def Let_def)

text \<open>Being on a target, \<open>d\<close> gets its z-index and its field.\<close>

lemma settle_board:
  assumes "board_off c st" and "d \<in> set (draggables st)" and "onTarget (dobj st d) = Some t"
  shows "\<exists>st1. correctZIndexes d st = Some st1 \<and> board_off c (initializeTargetField d st1)"
proof -
  from assms(3) correctZ_total [of st d] obtain st1 where z: "correctZIndexes d st = Some st1" by auto
  note sg = same_graph_correctZ [OF z]
  have "board_off c (initializeTargetField d st1)"
    using assms by (intro field_board) (simp_all add: same_graph_board [OF sg] same_graphD [OF sg])
  with z show ?thesis by blast
qed

lemma put_on_board:
  assumes ih: "in_hand c d st" and t: "t \<in> set (targets st)" and "draggableObj (tobj st t) \<noteq> Some d"
  shows "board_off c (put_on t d st)" "d \<in> set (draggables (put_on t d st))"
    "onTarget (dobj (put_on t d st) d) = Some t"
proof -
  have inv: "graph_inv st" and d: "d \<in> set (draggables st)" and gx: "ground_except d st"
    using ih by (auto simp: board_defs)
  show "board_off c (put_on t d st)"
  proof (cases "onTarget (dobj st d)")
    case None
    with add_in_hand(2) [OF ih None] assms show ?thesis by (simp add: put_on_def)
  next
    case (Some t')
    note f = removeDraggable_fields [OF inv d Some]
    show ?thesis
    proof (cases "t' = t")
      case True
      have "t \<notin> set (targetField (dobj st d))"
        using inv d t assms(3) by (auto simp: graph_inv_def fields_ok_def)
      with gx t have gt: "grounded st t" by (simp add: ground_except_def)
      have "ground_ok st" unfolding ground_ok_def
      proof
        fix u assume u: "u \<in> set (targets st)"
        show "grounded st u"
        proof (cases "u \<in> set (targetField (dobj st d))")
          case False
          with gx u show ?thesis by (simp add: ground_except_def)
        next
          case True
          with inv u d have "draggableObj (tobj st u) = Some d"
            by (auto simp: graph_inv_def fields_ok_def)
          from this Some gt \<open>t' = t\<close> show ?thesis by (auto intro: grounded.layer)
        qed
      qed
      with in_hand_settled [OF ih] Some True show ?thesis by (simp add: put_on_def)
    next
      case False
      have "board_off c (addDraggable t d (removeDraggable t' d st))"
        using add_in_hand(2) [OF remove_in_hand(1) [OF ih Some] remove_in_hand(2) [OF ih Some], of t] assms
        by (simp add: f(3,8))
      with Some False show ?thesis by (simp add: put_on_def)
    qed
  qed
  show "d \<in> set (draggables (put_on t d st))"
    using d by (auto simp: put_on_def addDraggable_frame removeDraggable_fields [OF inv d]
        split: option.splits)
  show "onTarget (dobj (put_on t d st) d) = Some t"
    by (auto simp: put_on_def addDraggable_dobj split: option.splits)
qed

lemma land_board:
  assumes ih: "in_hand 0 d st"
  shows "\<exists>st'. land_on_targets d posL posT st = Some st' \<and> board_inv st'"
proof (cases "find (accepts st d posL posT) (targets st)")
  case (Some t)
  then have t: "t \<in> set (targets st)" "accepts st d posL posT t"
    by (auto simp: find_Some_iff)
  have inv: "graph_inv st" using ih by (simp add: board_defs)
  with t have own: "draggableObj (tobj st t) \<noteq> Some d"
    by (auto simp: accepts_def graph_inv_def fields_ok_def)
  let ?s1 = "snapToTarget t d (put_on t d st)"
  note sg = same_graph_snap [of t d "put_on t d st"]
  note p = put_on_board [OF ih t(1) own]
  have "board_off 0 ?s1" "d \<in> set (draggables ?s1)" "onTarget (dobj ?s1 d) = Some t"
    using p by (simp_all add: same_graph_board [OF sg] same_graphD [OF sg])
  from settle_board [OF this] obtain s2 where
    "correctZIndexes d ?s1 = Some s2" "board_off 0 (initializeTargetField d s2)" by auto
  with Some show ?thesis
    by (simp add: land_on_targets_def checkIfOnTarget_def checkIfOnTarget_find board_inv_def)
next
  case None
  let ?s2 = "case onTarget (dobj st d) of None \<Rightarrow> st | Some t \<Rightarrow> removeDraggable t d st"
  have "in_hand 0 d ?s2" "onTarget (dobj ?s2 d) = None"
    using ih remove_in_hand [OF ih] by (auto split: option.splits)
  from moveBack_board [OF this] None show ?thesis
    by (simp add: land_on_targets_def checkIfOnTarget_def checkIfOnTarget_find)
qed

text \<open>A pressed draggable is in hand once it is released.\<close>

lemma release_in_hand:
  assumes b: "board_off c st" and d: "d \<in> set (draggables st)" and p: "mousePressed (dobj st d)"
  shows "in_hand c d (upd_d d (\<lambda>r. r\<lparr>mousePressed := False\<rparr>) st)" (is "in_hand c d ?st")
proof -
  let ?r = "(dobj st d)\<lparr>mousePressed := False\<rparr>"
  have eq: "?st = upd_d d (\<lambda>_. ?r) st" by (rule upd_d_const)
  have o: "dobj ?st x = (if x = d then ?r else dobj st x)" for x by (simp add: upd_d_def)
  have ds: "draggables ?st = draggables st" by (simp add: upd_d_def)
  have pl: "placed (dobj st d)" using b d by (simp add: board_off_def place_ok_def)
  have calm: "calm ?st" using b d p by (auto simp: board_off_def board_core_def one_pressed_def calm_def o ds)
  then have one: "one_pressed ?st" by (simp add: one_pressed_def calm_def)
  have core: "board_core c st" and go: "ground_ok st" using b by (auto simp: board_off_def)
  have "d \<notin> set (ready st)"
    using core p by (intro not_ready) (simp_all add: board_core_def fresh_copy_def)
  then have "board_core (c + (if in_slider (dobj st d) then 1 else 0) - (if in_slider ?r then 1 else 0)) ?st"
    unfolding eq by (rule core_upd_d [OF core d]) (use one eq in simp_all)
  moreover have "\<not> in_slider (dobj st d)" "\<not> in_slider ?r"
    using pl p by (auto simp: placed_def in_slider_def)
  ultimately have "board_core c ?st" by simp
  moreover have "ground_ok ?st" unfolding eq by (rule ground_upd_d [OF go]) simp
  ultimately show ?thesis
    using calm pl p b d
    by (auto simp: in_hand_def ground_ok_except ds o placed_def board_off_def place_ok_def)
qed

lemma same_graph_frame:
  "same_graph (st\<lparr>currentMovingDraggable := x\<rparr>) st"
  "same_graph (upd_d d (\<lambda>r. r\<lparr>grabbed := b\<rparr>) st) st"
  by (simp add: same_graph_def) (rule same_graph_upd_d; simp add: graph_fields)

lemma checkLanding_board:
  assumes "board_inv st" and "d \<in> set (draggables st)" and "mousePressed (dobj st d)"
  shows "\<exists>st'. checkLandingElement d st = Some st' \<and> board_inv st'"
proof -
  let ?s1 = "upd_d d (\<lambda>r. r\<lparr>mousePressed := False\<rparr>) st"
  have ih: "in_hand 0 d ?s1" using assms by (auto simp: board_inv_def intro: release_in_hand)
  then have i: "individualTargets (config ?s1) = Some True" by (simp add: board_defs indiv_def)
  obtain s2 where s2: "land_on_targets d (cssLeft (iconEl (dobj ?s1 d))) (cssTop (iconEl (dobj ?s1 d))) ?s1
      = Some s2" "board_inv s2" using land_board [OF ih] by blast
  let ?s3 = "arrows_if_original d s2"
  have b3: "board_inv ?s3" using s2(2) same_graph_board(7) [OF same_graph_arrows_if] by simp
  then obtain es where u: "update ?s3 = Some (?s3\<lparr>inputVal := Some (JArr es)\<rparr>)"
    using update_board by (auto simp: board_inv_def)
  from same_graph_update [OF u] b3 have "board_inv (?s3\<lparr>inputVal := Some (JArr es)\<rparr>)"
    by (simp add: same_graph_board)
  with i s2(1) u show ?thesis by (simp add: checkLandingElement_def Let_def)
qed

lemma mouseUp_board:
  assumes "board_inv st" and "d \<in> set (draggables st)"
  shows "\<exists>st'. mouseUp d st = Some st' \<and> board_inv st'"
proof (cases "mousePressed (dobj st d)")
  case False
  with assms show ?thesis by (simp add: mouseUp_def)
next
  case True
  let ?s0 = "upd_d d (\<lambda>r. r\<lparr>grabbed := False\<rparr>) (st\<lparr>currentMovingDraggable := None\<rparr>)"
  have sg: "same_graph ?s0 st" by (rule same_graph_trans [OF same_graph_frame(2) same_graph_frame(1)])
  have "board_inv ?s0" "d \<in> set (draggables ?s0)" "mousePressed (dobj ?s0 d)"
    using assms True by (simp_all add: same_graph_board [OF sg] same_graphD [OF sg])
  from checkLanding_board [OF this] obtain s1 where "checkLandingElement d ?s0 = Some s1" "board_inv s1"
    by blast
  with True show ?thesis
    by (simp add: mouseUp_def same_graph_board [OF same_graph_toggle])
qed

end
