(* ===== verification/DndTasks.thy ===== *)
theory DndTasks
  imports DndMoves
begin

text \<open>
  New draggables, pending work, and the operations that create them: \<open>makeDraggableCopy\<close>,
  \<open>mouseDown\<close>, \<open>moveDraggableTo\<close>.
\<close>

section \<open>Pending work\<close>

lemma tasks_board:
  assumes b: "board_off c st" and co: "copies_ok (st\<lparr>tasks := ts\<rparr>)"
  shows "board_off c (st\<lparr>tasks := ts\<rparr>)"
proof -
  let ?st = "st\<lparr>tasks := ts\<rparr>"
  have "graph_inv ?st = graph_inv st" by (simp add: graph_inv_defs)
  moreover have "ground_ok ?st"
    unfolding ground_ok_def
  proof
    fix t assume "t \<in> set (targets ?st)"
    then have "grounded st t" using b by (simp add: board_off_def ground_ok_def)
    then show "grounded ?st t" by (rule grounded_transfer) simp_all
  qed
  ultimately show ?thesis
    using b co by (simp add: board_off_def board_core_def indiv_def targets_allocated_def
        one_pressed_def slider_off_def place_ok_def)
qed

lemma later_copies:
  "waiting (later k st) = waiting st @ waiting_copy k" "ready (later k st) = ready st @ ready_copy k"
  by (simp_all add: waiting_def ready_def later_def)

lemma later_sel [simp]:
  "draggables (later k st) = draggables st" "targets (later k st) = targets st"
  "dobj (later k st) = dobj st" "tobj (later k st) = tobj st" "uniqueId (later k st) = uniqueId st"
  "tasks (later k st) = tasks st @ [k]" "config (later k st) = config st"
  by (simp_all add: later_def)

lemma later_board:
  assumes "board_off c st"
    and "\<And>n. n \<in> set (waiting_copy k) \<Longrightarrow>
      n \<notin> set (draggables st) \<and> n \<le> uniqueId st \<and> n \<notin> set (waiting st) \<and> fresh_copy (dobj st n)"
    and "\<And>n. n \<in> set (ready_copy k) \<Longrightarrow>
      n \<in> set (draggables st) \<and> n \<notin> set (ready st) \<and> fresh_copy (dobj st n)"
  shows "board_off c (later k st)"
proof -
  have co: "copies_ok st" using assms(1) by (simp add: board_off_def board_core_def)
  have "copies_ok (later k st)"
  proof (cases k)
    case (Retry d mv c')
    with co show ?thesis by (simp add: copies_ok_def later_copies)
  next
    case (OriginalImage n)
    with co show ?thesis by (simp add: copies_ok_def later_copies)
  next
    case (CopyImage n cb)
    with co assms(2) show ?thesis by (auto simp: copies_ok_def later_copies)
  next
    case (CopyReady n cb)
    with co assms(3) show ?thesis by (auto simp: copies_ok_def later_copies)
  qed
  then show ?thesis using tasks_board [OF assms(1)] by (simp add: later_def)
qed

lemma concat_map_drop:
  "i < length xs \<Longrightarrow> distinct (concat (map f xs)) \<Longrightarrow>
     distinct (concat (map f (take i xs @ drop (Suc i) xs))) \<and>
     set (concat (map f (take i xs @ drop (Suc i) xs))) = set (concat (map f xs)) - set (f (xs ! i))"
proof -
  assume i: "i < length xs" and d: "distinct (concat (map f xs))"
  have "xs = take i xs @ xs ! i # drop (Suc i) xs" using i by (rule id_take_nth_drop)
  then have "concat (map f xs) =
      concat (map f (take i xs)) @ f (xs ! i) @ concat (map f (drop (Suc i) xs))"
    by (metis concat.simps(2) concat_append list.map(2) map_append)
  with d show ?thesis by auto
qed

lemma drop_task_copies:
  assumes co: "copies_ok st" and i: "i < length (tasks st)"
  shows "copies_ok (drop_task i st)"
    "set (waiting (drop_task i st)) = set (waiting st) - set (waiting_copy (tasks st ! i))"
    "set (ready (drop_task i st)) = set (ready st) - set (ready_copy (tasks st ! i))"
proof -
  from concat_map_drop [OF i, of waiting_copy] concat_map_drop [OF i, of ready_copy] co
  show w: "set (waiting (drop_task i st)) = set (waiting st) - set (waiting_copy (tasks st ! i))"
    and r: "set (ready (drop_task i st)) = set (ready st) - set (ready_copy (tasks st ! i))"
    by (simp_all add: waiting_def ready_def drop_task_def copies_ok_def)
  have "distinct (waiting (drop_task i st))" "distinct (ready (drop_task i st))"
    using concat_map_drop [OF i, of waiting_copy] concat_map_drop [OF i, of ready_copy] co
    by (simp_all add: waiting_def ready_def drop_task_def copies_ok_def)
  with co show "copies_ok (drop_task i st)"
    unfolding copies_ok_def w r by (auto simp: drop_task_def)
qed

lemma drop_task_sel [simp]:
  "draggables (drop_task i st) = draggables st" "targets (drop_task i st) = targets st"
  "dobj (drop_task i st) = dobj st" "tobj (drop_task i st) = tobj st"
  "uniqueId (drop_task i st) = uniqueId st"
  by (simp_all add: drop_task_def)

lemma drop_task_board:
  "board_off c st \<Longrightarrow> i < length (tasks st) \<Longrightarrow> board_off c (drop_task i st)"
  using drop_task_copies(1) [of st i] tasks_board [of c st "take i (tasks st) @ drop (Suc i) (tasks st)"]
  by (simp add: board_off_def board_core_def drop_task_def)

section \<open>New draggables\<close>

lemma uniqueId_board:
  assumes b: "board_off c st" and le: "uniqueId st \<le> n"
  shows "board_off c (st\<lparr>uniqueId := n\<rparr>)"
proof -
  let ?st = "st\<lparr>uniqueId := n\<rparr>"
  have "graph_inv ?st = graph_inv st" by (simp add: graph_inv_defs)
  moreover have "ground_ok ?st"
    unfolding ground_ok_def
  proof
    fix t assume "t \<in> set (targets ?st)"
    then have "grounded st t" using b by (simp add: board_off_def ground_ok_def)
    then show "grounded ?st t" by (rule grounded_transfer) simp_all
  qed
  moreover have "waiting ?st = waiting st" "ready ?st = ready st" by (simp_all add: waiting_def ready_def)
  then have "copies_ok ?st" using b le by (force simp: board_off_def board_core_def copies_ok_def)
  moreover have "targets_allocated ?st"
    using b le by (auto simp: board_off_def board_core_def targets_allocated_def)
  ultimately show ?thesis
    using b by (simp add: board_off_def board_core_def indiv_def one_pressed_def slider_off_def place_ok_def)
qed

text \<open>An object that is in no array yet.\<close>

lemma new_object_board:
  assumes b: "board_off c st" and n: "n \<notin> set (draggables st)" "n \<notin> set (waiting st)"
  shows "board_off c (st\<lparr>dobj := (dobj st)(n := r)\<rparr>)" (is "board_off c ?st")
proof -
  have inv: "graph_inv st" and co: "copies_ok st" using b by (auto simp: board_off_def board_core_def)
  have keep: "dobj ?st d = dobj st d" if "d \<in> set (draggables st)" for d using n that by auto
  have listed: "d \<in> set (draggables st)" if "t \<in> set (targets st)" "d \<in> set (draggableList (tobj st t))" for t d
    using inv that by (simp add: graph_inv_def links_ok_def)
  have "links_ok ?st" unfolding links_ok_def
  proof (intro ballI conjI allI)
    fix t assume "t \<in> set (targets ?st)"
    then have t: "t \<in> set (targets st)" by simp
    have "indexed onTargetIndex (dobj ?st) (draggableList (tobj st t))
        = indexed onTargetIndex (dobj st) (draggableList (tobj st t))"
      using listed [OF t] keep by (intro indexed_cong) metis
    with inv t show "indexed onTargetIndex (dobj ?st) (draggableList (tobj ?st t))"
      by (simp add: graph_inv_def links_ok_def)
    show "(d \<in> set (draggableList (tobj ?st t))) =
        (d \<in> set (draggables ?st) \<and> onTarget (dobj ?st d) = Some t)" for d
      using inv t n(1) by (auto simp: graph_inv_def links_ok_def)
  qed
  moreover have "closed_ok ?st" using inv n by (auto simp: graph_inv_def closed_ok_def)
  moreover have "arrays_ok ?st"
  proof -
    have "indexed stateDraggablesIndex (dobj ?st) (draggables st)
        = indexed stateDraggablesIndex (dobj st) (draggables st)"
      using keep by (intro indexed_cong) metis
    with inv show ?thesis by (simp add: graph_inv_def arrays_ok_def)
  qed
  moreover have "fields_ok ?st" using inv n by (auto simp: graph_inv_def fields_ok_def)
  moreover have "counts_ok ?st" using inv n by (auto simp: graph_inv_def counts_ok_def field_load_def)
  ultimately have "graph_inv ?st" by (simp add: graph_inv_def)
  moreover have g: "grounded ?st t" if "grounded st t" "t \<in> set (targets st)" for t
    using that
  proof induction
    case (base t)
    then show ?case by (intro grounded.base) simp
  next
    case (layer t d u)
    then have d: "d \<in> set (draggables st)" using inv by (auto simp: graph_inv_def fields_ok_def)
    from graph_invD(5) [OF inv d layer.hyps(2)] have "u \<in> set (targets st)" by simp
    then have "grounded ?st u" by (rule layer.IH)
    have "draggableObj (tobj ?st t) = Some d" using layer.hyps(1) by simp
    moreover have "onTarget (dobj ?st d) = Some u" unfolding keep [OF d] by (rule layer.hyps(2))
    ultimately show ?case using \<open>grounded ?st u\<close> by (rule grounded.layer)
  qed
  then have "ground_ok ?st" using b by (simp add: board_off_def ground_ok_def)
  moreover have "place_ok ?st" "one_pressed ?st"
    using b n by (auto simp: board_off_def board_core_def place_ok_def one_pressed_def)
  moreover have "slider_off c ?st"
  proof -
    have "filter (\<lambda>d. in_slider (dobj ?st d)) (draggables st) = filter (\<lambda>d. in_slider (dobj st d)) (draggables st)"
      using n by (intro filter_cong) auto
    with b show ?thesis by (simp add: board_off_def board_core_def slider_off_def)
  qed
  moreover have "copies_ok ?st"
    using co n by (auto simp: copies_ok_def waiting_def ready_def)
  ultimately show ?thesis
    using b by (simp add: board_off_def board_core_def indiv_def targets_allocated_def)
qed

definition shelved :: "draggable \<Rightarrow> bool" where
  "shelved r \<longleftrightarrow> inContainer r \<and> onTarget r = None \<and> targetField r = [] \<and> \<not> mousePressed r \<and>
     numDraggablesOnMe r = 0"

lemma fresh_shelved: "fresh_copy r \<longleftrightarrow> \<not> isOriginal r \<and> shelved r"
  by (auto simp: fresh_copy_def shelved_def)

lemma push_sel [simp]:
  "targets (push_draggable n st) = targets st" "tobj (push_draggable n st) = tobj st"
  "draggables (push_draggable n st) = draggables st @ [n]" "config (push_draggable n st) = config st"
  "uniqueId (push_draggable n st) = uniqueId st" "tasks (push_draggable n st) = tasks st"
  "numDraggablesInSlider (push_draggable n st) = numDraggablesInSlider st"
  by (simp_all add: push_draggable_def upd_d_def)

lemma push_situation [simp]: "situation (dobj (push_draggable n st) d) = situation (dobj st d)"
  by (simp add: push_draggable_def upd_d_def situation_def)

lemma push_board:
  assumes b: "board_off c st" and n: "n \<notin> set (draggables st)" "n \<notin> set (waiting st)" "n \<le> uniqueId st"
    and s: "shelved (dobj st n)"
  shows "board_off (c - (if isOriginal (dobj st n) then 1 else 0)) (push_draggable n st)" (is "board_off ?c ?st")
proof -
  have inv: "graph_inv st" and co: "copies_ok st" using b by (auto simp: board_off_def board_core_def)
  note sit = situationD [OF push_situation]
  have idx: "onTargetIndex (dobj ?st d) = onTargetIndex (dobj st d)" for d
    by (simp add: push_draggable_def upd_d_def)
  have on: "onTarget (dobj st n) = None" "targetField (dobj st n) = []" "numDraggablesOnMe (dobj st n) = 0"
    "inContainer (dobj st n)" "\<not> mousePressed (dobj st n)" using s by (auto simp: shelved_def)
  have "indexed onTargetIndex (dobj ?st) xs = indexed onTargetIndex (dobj st) xs" for xs
    by (rule indexed_cong) (simp add: idx)
  then have "links_ok ?st" using inv on by (auto simp: graph_inv_def links_ok_def sit)
  moreover have "closed_ok ?st" using inv on by (auto simp: graph_inv_def closed_ok_def sit)
  moreover have "arrays_ok ?st"
    using inv n(1)
    by (auto simp: graph_inv_def arrays_ok_def push_draggable_def upd_d_def
        intro!: indexed_push [where h = "dobj st"])
  moreover have "fields_ok ?st"
    using inv n(1) on by (auto simp: graph_inv_def fields_ok_def sit block_of_def)
  moreover have "counts_ok ?st"
  proof -
    have "field_load ?st ts = field_load st ts" for ts by (simp add: field_load_def)
    then show ?thesis using inv on by (auto simp: graph_inv_def counts_ok_def sit)
  qed
  ultimately have "graph_inv ?st" by (simp add: graph_inv_def)
  moreover have "ground_ok ?st" unfolding ground_ok_def
  proof
    fix t assume "t \<in> set (targets ?st)"
    then have "grounded st t" using b by (simp add: board_off_def ground_ok_def)
    then show "grounded ?st t" by (rule grounded_transfer) (simp_all add: sit)
  qed
  moreover have "place_ok ?st" using b on by (auto simp: board_off_def place_ok_def sit placed_def)
  moreover have "one_pressed ?st"
    using b on by (auto simp: board_off_def board_core_def one_pressed_def sit)
  moreover have "slider_off ?c ?st"
    using b on by (auto simp: board_off_def board_core_def slider_off_def sit in_slider_def)
  moreover have "copies_ok ?st"
    using co n by (auto simp: copies_ok_def waiting_def ready_def sit)
  ultimately show ?thesis
    using b by (simp add: board_off_def board_core_def indiv_def targets_allocated_def)
qed

end
