(* ===== verification/DndEvents.thy ===== *)
theory DndEvents
  imports DndTasks
begin

text \<open>
  \<open>makeDraggableCopy\<close>, the load of a copy's image, \<open>mouseDown\<close> and \<open>moveDraggableTo\<close>
  preserve the invariant.
\<close>

section \<open>Copies\<close>

lemma upd_d_sel [simp]:
  "draggables (upd_d d f st) = draggables st" "targets (upd_d d f st) = targets st"
  "tobj (upd_d d f st) = tobj st" "config (upd_d d f st) = config st" "tasks (upd_d d f st) = tasks st"
  "uniqueId (upd_d d f st) = uniqueId st"
  "numDraggablesInSlider (upd_d d f st) = numDraggablesInSlider st"
  "dobj (upd_d d f st) e = (if e = d then f (dobj st d) else dobj st e)"
  by (simp_all add: upd_d_def)

definition copy_tasks :: "nat \<Rightarrow> copy_callback \<Rightarrow> task list" where
  "copy_tasks n cb = [CopyImage n cb, CopyReady n cb]"

lemma fresh_new:
  assumes "board_off c st"
  shows "Suc (uniqueId st) \<notin> set (draggables st)" "Suc (uniqueId st) \<notin> set (waiting st)"
    "Suc (uniqueId st) \<notin> set (ready st)"
  using assms by (force simp: board_off_def board_core_def copies_ok_def)+

lemma makeDraggableCopy_board:
  assumes b: "board_off c st" and d: "d \<in> set (draggables st)" and inC: "inContainer (dobj st d)"
  shows "board_off c (makeDraggableCopy d cb st)"
    "calm st \<Longrightarrow> calm (makeDraggableCopy d cb st)"
    "targets (makeDraggableCopy d cb st) = targets st"
    "\<exists>ks. tasks (makeDraggableCopy d cb st) = tasks st @ ks \<and>
       (ks = [] \<or> (\<exists>k \<in> set (copy_tasks (Suc (uniqueId st)) cb). ks = [k]))"
    "set (draggables st) \<subseteq> set (draggables (makeDraggableCopy d cb st))"
proof -
  let ?n = "Suc (uniqueId st)"
  let ?st1 = "st\<lparr>uniqueId := ?n\<rparr>"
  note new = fresh_new [OF b]
  have "placed (dobj st d)" using b d by (simp add: board_off_def place_ok_def)
  with inC have pl: "onTarget (dobj st d) = None" "targetField (dobj st d) = []"
    "\<not> mousePressed (dobj st d)" by (auto simp: placed_def)
  moreover have "numDraggablesOnMe (dobj st d) = 0"
    using b d pl by (simp add: board_off_def board_core_def graph_inv_def counts_ok_def)
  ultimately have sh: "shelved (dobj st d)" using inC by (simp add: shelved_def)
  have w: "waiting ?st1 = waiting st" "ready ?st1 = ready st" by (simp_all add: waiting_def ready_def)
  have with_obj: "board_off c (?st1\<lparr>dobj := (dobj st)(?n := r)\<rparr>)" for r
    using new_object_board [OF uniqueId_board [OF b, of ?n], of ?n r] new by (simp add: w)
  define copy where "copy = (dobj st d)\<lparr>isOriginal := False, stateDraggablesIndex := None,
    containerShown := False, iconEl := blank_css, iconPlace := Nowhere, hasImg := False,
    labelEl := blank_css, labelPlace := Nowhere, hasLabel := False, targetField := []\<rparr>"
  have fr: "fresh_copy copy" "fresh_copy (copy\<lparr>hasImg := x\<rparr>)" "fresh_copy (copy\<lparr>iconEl := y\<rparr>)" for x y
    using sh by (simp_all add: copy_def fresh_copy_def shelved_def)
  let ?img = "?st1\<lparr>dobj := (dobj st)(?n := copy\<lparr>hasImg := True\<rparr>)\<rparr>"
  let ?lab = "?st1\<lparr>dobj := (dobj st)(?n := copy\<lparr>iconEl := blank_css
      \<lparr>cssLeft := 50 - iconWidthSmall (dobj st d) / 2, cssTop := 50 - iconHeightSmall (dobj st d) / 2\<rparr>\<rparr>)\<rparr>"
  have eq: "makeDraggableCopy d cb st =
    (if dc_icon (originalConf (dobj st d)) \<noteq> [] then later (CopyImage ?n cb) ?img
     else if dc_label (originalConf (dobj st d)) \<noteq> [] then later (CopyReady ?n cb) (push_draggable ?n ?lab)
     else ?st1)"
    by (simp add: makeDraggableCopy_def getUniqueId_def Let_def copy_def)
  have wl: "waiting (?st1\<lparr>dobj := h\<rparr>) = waiting st" "ready (?st1\<lparr>dobj := h\<rparr>) = ready st" for h
    by (simp_all add: waiting_def ready_def)
  have pushed: "board_off c (push_draggable ?n ?lab)"
    using push_board [OF with_obj, of ?n "copy\<lparr>iconEl := blank_css
      \<lparr>cssLeft := 50 - iconWidthSmall (dobj st d) / 2, cssTop := 50 - iconHeightSmall (dobj st d) / 2\<rparr>\<rparr>"]
      new fr by (simp add: fresh_shelved wl)
  have fresh_pushed: "fresh_copy (dobj (push_draggable ?n ?lab) ?n)"
    using fr by (simp add: situationD(3) [OF push_situation])
  have wp: "ready (push_draggable ?n ?lab) = ready st" by (simp add: ready_def)
  show "board_off c (makeDraggableCopy d cb st)"
  proof (cases "dc_icon (originalConf (dobj st d)) \<noteq> []")
    case True
    have "board_off c (later (CopyImage ?n cb) ?img)"
      by (rule later_board [OF with_obj]) (use new fr wl in simp_all)
    with True show ?thesis by (simp add: eq)
  next
    case False
    have "board_off c (later (CopyReady ?n cb) (push_draggable ?n ?lab))"
      by (rule later_board [OF pushed]) (use new fresh_pushed wp in simp_all)
    with False uniqueId_board [OF b, of ?n] show ?thesis by (simp add: eq)
  qed
  show "calm (makeDraggableCopy d cb st)" if "calm st"
    using that new(1) fr by (auto simp: eq calm_def fresh_copy_def push_draggable_def)
  show "targets (makeDraggableCopy d cb st) = targets st" by (simp add: eq)
  show "\<exists>ks. tasks (makeDraggableCopy d cb st) = tasks st @ ks \<and>
       (ks = [] \<or> (\<exists>k \<in> set (copy_tasks ?n cb). ks = [k]))"
    by (simp add: eq copy_tasks_def)
  show "set (draggables st) \<subseteq> set (draggables (makeDraggableCopy d cb st))"
    by (auto simp: eq)
qed

lemma copyImageLoaded_board:
  assumes b: "board_off c st" and n: "n \<notin> set (draggables st)" "n \<notin> set (waiting st)"
    "n \<notin> set (ready st)" "n \<le> uniqueId st" and fr: "fresh_copy (dobj st n)"
  shows "board_off c (copyImageLoaded n cb st)"
    "calm st \<Longrightarrow> calm (copyImageLoaded n cb st)"
    "targets (copyImageLoaded n cb st) = targets st"
    "tasks (copyImageLoaded n cb st) = tasks st @ [CopyReady n cb]"
    "draggables (copyImageLoaded n cb st) = draggables st @ [n]"
proof -
  define f :: "draggable \<Rightarrow> draggable" where "f = (\<lambda>d. let lab = dc_label (originalConf d);
            d1 = d\<lparr>iconEl := (iconEl d)\<lparr>cssWidth := iconWidthSmall d,
                      cssHeight := iconHeightSmall d, cssLeft := 50 - iconWidthSmall d / 2,
                      cssTop := (if lab \<noteq> [] then 5 else 50 - iconHeightSmall d / 2)\<rparr>,
                   imgWidth := iconWidthSmall d, imgHeight := iconHeightSmall d\<rparr>
        in if lab \<noteq> []
           then d1\<lparr>hasLabel := True,
                   labelEl := blank_css\<lparr>cssLeft := 50 - labelWidth d / 2,
                                        cssTop := 5 + iconHeightSmall d + 5\<rparr>\<rparr>
           else d1)"
  let ?s1 = "upd_d n f st"
  have eq: "copyImageLoaded n cb st = later (CopyReady n cb) (push_draggable n ?s1)"
    by (simp add: copyImageLoaded_def Let_def f_def)
  have sg: "same_graph ?s1 st"
    by (rule same_graph_upd_d) (simp_all add: f_def Let_def graph_fields)
  note sit = situationD [OF same_graph_situation [OF sg]]
  have wr: "waiting ?s1 = waiting st" "ready (push_draggable n ?s1) = ready st"
    by (simp_all add: waiting_def ready_def)
  have "fresh_copy (dobj ?s1 n)" using fr sit(3) [of n] by simp
  then have "shelved (dobj ?s1 n)" "\<not> isOriginal (dobj ?s1 n)" unfolding fresh_shelved by auto
  then have p: "board_off c (push_draggable n ?s1)"
    using push_board [of c ?s1 n] n b wr by (simp add: same_graph_board(6) [OF sg])
  have "fresh_copy (dobj (push_draggable n ?s1) n)"
    using \<open>fresh_copy (dobj ?s1 n)\<close> by (simp only: situationD(3) [OF push_situation])
  with later_board [OF p, of "CopyReady n cb"] n wr show "board_off c (copyImageLoaded n cb st)"
    by (simp add: eq)
  show "calm (copyImageLoaded n cb st)" if "calm st"
  proof -
    have "\<not> mousePressed (dobj (push_draggable n ?s1) n)"
      using \<open>shelved (dobj ?s1 n)\<close> by (simp only: situationD(4) [OF push_situation] shelved_def) simp
    moreover have "mousePressed (dobj (push_draggable n ?s1) d) = mousePressed (dobj st d)" for d
      by (simp only: situationD(4) [OF push_situation] sit(4))
    ultimately show ?thesis using that by (auto simp: eq calm_def)
  qed
qed (simp_all add: copyImageLoaded_def Let_def)

section \<open>The start of a drag\<close>

lemma look_fields [simp]:
  "stateDraggablesIndex (base_look s r) = stateDraggablesIndex r" "onTarget (base_look s r) = onTarget r"
  "onTargetIndex (base_look s r) = onTargetIndex r" "targetField (base_look s r) = targetField r"
  "numDraggablesOnMe (base_look s r) = numDraggablesOnMe r" "isOriginal (base_look s r) = isOriginal r"
  "isReusable (base_look s r) = isReusable r" "mousePressed (base_look s r) = mousePressed r"
  "inContainer (base_look s r) = False"
  by (simp_all add: base_look_def Let_def)

lemma page_fields [simp]:
  "core_rest (follow_mouse s x y r) = core_rest r" "links (follow_mouse s x y r) = links r"
  by simp_all

lemma follow_fields [simp]:
  "stateDraggablesIndex (follow_mouse s x y r) = stateDraggablesIndex r"
  "onTarget (follow_mouse s x y r) = onTarget r" "onTargetIndex (follow_mouse s x y r) = onTargetIndex r"
  "targetField (follow_mouse s x y r) = targetField r"
  "numDraggablesOnMe (follow_mouse s x y r) = numDraggablesOnMe r"
  "isOriginal (follow_mouse s x y r) = isOriginal r" "isReusable (follow_mouse s x y r) = isReusable r"
  "mousePressed (follow_mouse s x y r) = mousePressed r" "inContainer (follow_mouse s x y r) = inContainer r"
  by (simp_all add: follow_mouse_def set_label_pos_def set_icon_pos_def)

lemma set_z_fields [simp]:
  "stateDraggablesIndex (set_z z r) = stateDraggablesIndex r"
  "onTarget (set_z z r) = onTarget r" "onTargetIndex (set_z z r) = onTargetIndex r"
  "targetField (set_z z r) = targetField r" "numDraggablesOnMe (set_z z r) = numDraggablesOnMe r"
  "isOriginal (set_z z r) = isOriginal r" "isReusable (set_z z r) = isReusable r"
  "mousePressed (set_z z r) = mousePressed r" "inContainer (set_z z r) = inContainer r"
  by (simp_all add: set_z_def Let_def)

lemma press_board:
  assumes b: "board_off c st" and d: "d \<in> set (draggables st)" and calm: "calm st"
    and unready: "d \<notin> set (ready st)" and empty: "numDraggablesOnMe (dobj st d) = 0"
    and same: "stateDraggablesIndex r = stateDraggablesIndex (dobj st d)"
    "onTarget r = onTarget (dobj st d)" "onTargetIndex r = onTargetIndex (dobj st d)"
    "targetField r = targetField (dobj st d)" "numDraggablesOnMe r = numDraggablesOnMe (dobj st d)"
    "isOriginal r = isOriginal (dobj st d)" "isReusable r = isReusable (dobj st d)"
    and out: "\<not> inContainer r" "\<not> (isReusable r \<and> isOriginal r)" "mousePressed r"
  shows "board_off (c + (if in_slider (dobj st d) then 1 else 0)) (upd_d d (\<lambda>_. r) st)" (is "board_off ?c ?st")
proof -
  have core: "board_core c st" and go: "ground_ok st" and pl: "place_ok st"
    using b by (auto simp: board_off_def)
  have "one_pressed ?st" using calm by (auto simp: one_pressed_def calm_def)
  from core_upd_d [OF core d unready same(1-5) this] out(1)
  have "board_core ?c ?st" by (simp add: in_slider_def)
  moreover have "ground_ok ?st" by (rule ground_upd_d [OF go same(2)])
  moreover have "place_ok ?st"
  proof -
    have "placed (dobj st d)" using pl d by (simp add: place_ok_def)
    then have "placed r" using out empty by (auto simp: placed_def same)
    with pl show ?thesis by (simp add: place_ok_def)
  qed
  ultimately show ?thesis by (simp add: board_off_def)
qed

lemma slider_count_sel [simp]:
  "draggables (slider_count k d st) = draggables st" "targets (slider_count k d st) = targets st"
  "dobj (slider_count k d st) = dobj st" "tobj (slider_count k d st) = tobj st"
  "tasks (slider_count k d st) = tasks st" "config (slider_count k d st) = config st"
  by (simp_all add: slider_count_def)

definition grabbed_look :: "draggable \<Rightarrow> draggable" where
  "grabbed_look r = (set_z 1000 r)\<lparr>grabbed := True, mousePressed := True\<rparr>"

lemma grab_page: "same_graph (grab d st) (upd_d d grabbed_look st)"
proof -
  have "same_graph (grab d st) (toggleTargets True (upd_d d grabbed_look st))"
    by (simp add: grab_def grabbed_look_def [abs_def] same_graph_def)
  then show ?thesis by (rule same_graph_trans [OF _ same_graph_toggle])
qed

lemma mouseDown_board:
  assumes b: "board_inv st" and d: "d \<in> set (draggables st)" and calm: "calm st"
    and unready: "d \<notin> set (ready st)"
  shows "board_inv (mouseDown d x y st)"
    "\<exists>ks. tasks (mouseDown d x y st) = tasks st @ ks \<and>
       (ks = [] \<or> (\<exists>k \<in> set (copy_tasks (Suc (uniqueId st)) (CbMouseDown x y)). ks = [k]))"
proof -
  have b0: "board_off 0 st" using b by (simp add: board_inv_def)
  have pl: "placed (dobj st d)" using b0 d by (simp add: board_off_def place_ok_def)
  have np: "\<not> mousePressed (dobj st d)" using calm d by (simp add: calm_def)
  have count: "numDraggablesOnMe (dobj st d) \<ge> 0"
    using b0 d by (simp add: board_off_def board_core_def graph_inv_def counts_ok_def field_load_def)
  have "board_inv (mouseDown d x y st) \<and> (\<exists>ks. tasks (mouseDown d x y st) = tasks st @ ks \<and>
       (ks = [] \<or> (\<exists>k \<in> set (copy_tasks (Suc (uniqueId st)) (CbMouseDown x y)). ks = [k])))"
  proof (cases "numDraggablesOnMe (dobj st d) > 0")
    case True
    with b np show ?thesis by (simp add: mouseDown_def)
  next
    case False
    with count have empty: "numDraggablesOnMe (dobj st d) = 0" by simp
    show ?thesis
    proof (cases "inContainer (dobj st d)")
      case out: False
      let ?s = "upd_d d grabbed_look st"
      have "board_off 0 ?s"
        using press_board [OF b0 d calm unready empty, of "grabbed_look (dobj st d)"] out pl
        by (simp add: upd_d_const [of d grabbed_look] grabbed_look_def placed_def in_slider_def)
      then have "board_inv (grab d st)" by (simp add: board_inv_def same_graph_board(6) [OF grab_page])
      moreover have "tasks (grab d st) = tasks st" using same_graphD(6) [OF grab_page] by simp
      ultimately show ?thesis using False np out by (simp add: mouseDown_def)
    next
      case inC: True
      show ?thesis
      proof (cases "isReusable (dobj st d) \<and> isOriginal (dobj st d)")
        case True
        with makeDraggableCopy_board(1,4) [OF b0 d inC, of "CbMouseDown x y"] False np inC
        show ?thesis by (simp add: mouseDown_def board_inv_def)
      next
        case own: False
        let ?l = "\<lambda>r. follow_mouse st x y (base_look st r)"
        let ?s1 = "slider_count (- 1) d (upd_d d ?l st)"
        let ?s2 = "upd_d d grabbed_look ?s1"
        have eq: "?s2 = slider_count (- 1) d (upd_d d (\<lambda>_. grabbed_look (?l (dobj st d))) st)"
          by (auto simp: slider_count_def upd_d_def grabbed_look_def)
        have "board_off (if in_slider (dobj st d) then 1 else 0)
            (upd_d d (\<lambda>_. grabbed_look (?l (dobj st d))) st)"
          using press_board [OF b0 d calm unready empty, of "grabbed_look (?l (dobj st d))"] own
          by (simp add: grabbed_look_def)
        from slider_count_off [OF this, of d "- 1"] inC have "board_off 0 ?s2"
          unfolding eq by (simp add: grabbed_look_def in_slider_def split: if_splits)
        then have "board_inv (grab d ?s1)" by (simp add: board_inv_def same_graph_board(6) [OF grab_page])
        moreover have "tasks (grab d ?s1) = tasks st" using same_graphD(6) [OF grab_page, of d ?s1] by simp
        ultimately show ?thesis using False np own inC by (auto simp: mouseDown_def)
      qed
    qed
  qed
  then show "board_inv (mouseDown d x y st)"
    "\<exists>ks. tasks (mouseDown d x y st) = tasks st @ ks \<and>
       (ks = [] \<or> (\<exists>k \<in> set (copy_tasks (Suc (uniqueId st)) (CbMouseDown x y)). ks = [k]))" by auto
qed

section \<open>Placing a draggable of a saved answer\<close>

text \<open>A draggable of the slider whose look has changed to that outside of it.\<close>

lemma unshelve_in_hand:
  assumes b: "board_off c st" and d: "d \<in> set (draggables st)" and calm: "calm st"
    and unready: "d \<notin> set (ready st)" and inC: "inContainer (dobj st d)"
    and own: "\<not> (isReusable (dobj st d) \<and> isOriginal (dobj st d))"
  shows "in_hand (c + (if isOriginal (dobj st d) then 1 else 0)) d (upd_d d (base_look s) st)"
    (is "in_hand ?c d ?st")
proof -
  have core: "board_core c st" and go: "ground_ok st" and pl: "place_ok st"
    using b by (auto simp: board_off_def)
  have pd: "onTarget (dobj st d) = None" "targetField (dobj st d) = []" "\<not> mousePressed (dobj st d)"
    using pl d inC by (auto simp: place_ok_def placed_def)
  then have "numDraggablesOnMe (dobj st d) = 0"
    using core d by (simp add: board_core_def graph_inv_def counts_ok_def)
  moreover have calm': "calm ?st" using calm by (simp add: calm_def)
  then have "one_pressed ?st" by (simp add: one_pressed_def calm_def)
  then have one: "one_pressed (upd_d d (\<lambda>_. base_look s (dobj st d)) st)"
    by (simp add: upd_d_const [of d "base_look s"])
  have "board_core ?c ?st"
    using core_upd_d [OF core d unready _ _ _ _ _ one] inC
    by (simp add: upd_d_const [of d "base_look s"] in_slider_def)
  moreover have "ground_ok ?st"
    unfolding upd_d_const [of d "base_look s"] by (rule ground_upd_d [OF go]) simp
  ultimately show ?thesis
    using calm' pl d own by (auto simp: in_hand_def ground_ok_except place_ok_def)
qed

text \<open>What \<open>initializeTargetField\<close> leaves as it is.\<close>

lemma field_frame:
  "draggables (initializeTargetField d st) = draggables st" "tasks (initializeTargetField d st) = tasks st"
  "set (targets st) \<subseteq> set (targets (initializeTargetField d st))"
  "isOriginal (dobj (initializeTargetField d st) e) = isOriginal (dobj st e)"
  "mousePressed (dobj (initializeTargetField d st) e) = mousePressed (dobj st e)"
proof -
  have "draggables (initializeTargetField d st) = draggables st \<and> tasks (initializeTargetField d st) = tasks st \<and>
    set (targets st) \<subseteq> set (targets (initializeTargetField d st)) \<and>
    isOriginal (dobj (initializeTargetField d st) e) = isOriginal (dobj st e) \<and>
    mousePressed (dobj (initializeTargetField d st) e) = mousePressed (dobj st e)"
  proof (cases "targetField (dobj st d) = []")
    case True
    then show ?thesis by (simp add: initializeTargetField_def create_field_frame)
  next
    case False
    from same_graphD(2,3,6,9,11) [OF same_graph_refresh_field [OF False]] show ?thesis by simp
  qed
  then show "draggables (initializeTargetField d st) = draggables st"
    "tasks (initializeTargetField d st) = tasks st"
    "set (targets st) \<subseteq> set (targets (initializeTargetField d st))"
    "isOriginal (dobj (initializeTargetField d st) e) = isOriginal (dobj st e)"
    "mousePressed (dobj (initializeTargetField d st) e) = mousePressed (dobj st e)" by auto
qed

lemma place_board:
  assumes b: "board_inv st" and d: "d \<in> set (draggables st)" and calm: "calm st"
    and unready: "d \<notin> set (ready st)" and inC: "inContainer (dobj st d)"
    and own: "\<not> (isReusable (dobj st d) \<and> isOriginal (dobj st d))"
    and loaded: "hasLoaded (dobj st d)" and t: "t \<in> set (targets st)"
  shows "\<exists>st'. moveDraggableTo d (MoveTarget t) k st = Some (k, st') \<and> board_inv st' \<and> calm st' \<and>
    draggables st' = draggables st \<and> tasks st' = tasks st \<and> set (targets st) \<subseteq> set (targets st')"
proof -
  let ?o = "if isOriginal (dobj st d) then 1 else (0::int)"
  let ?s1 = "upd_d d (base_look st) st"
  let ?s1' = "snapToTarget t d ?s1"
  have pd: "onTarget (dobj st d) = None" "targetField (dobj st d) = []"
    using b d inC by (auto simp: board_inv_def board_off_def place_ok_def placed_def)
  have sg1: "same_graph ?s1' ?s1" by (rule same_graph_snap)
  have "in_hand ?o d ?s1"
    using unshelve_in_hand [OF _ d calm unready inC own, of 0 st] b by (simp add: board_inv_def)
  then have ih: "in_hand ?o d ?s1'" by (simp only: same_graph_board(5) [OF sg1])
  have own_t: "draggableObj (tobj st t) \<noteq> Some d"
    using b t pd by (auto simp: board_inv_def board_off_def board_core_def graph_inv_def fields_ok_def)
  have off: "onTarget (dobj ?s1' d) = None" and t': "t \<in> set (targets ?s1')"
    "draggableObj (tobj ?s1' t) \<noteq> Some d"
    using pd t own_t by (simp_all add: same_graphD [OF sg1])
  let ?s2 = "addDraggable t d ?s1'"
  note added = add_in_hand [OF ih off t']
  let ?s3 = "upd_d d (\<lambda>r. r\<lparr>zIndex := 1000\<rparr>) ?s2"
  have sg3: "same_graph ?s3 ?s2" by (rule same_graph_upd_d) (simp_all add: graph_fields)
  have b3: "board_off ?o ?s3" using added(2) by (simp only: same_graph_board(6) [OF sg3])
  have on3: "d \<in> set (draggables ?s3)" "onTarget (dobj ?s3 d) = Some t"
    using d by (simp_all add: addDraggable_frame addDraggable_dobj same_graphD [OF sg1])
  from settle_board [OF b3 on3] obtain s4 where
    z: "correctZIndexes d ?s3 = Some s4" and b5: "board_off ?o (initializeTargetField d s4)" by auto
  let ?s5 = "initializeTargetField d s4"
  note g4 = same_graphD [OF same_graph_correctZ [OF z]]
  note core = core_restD [OF addDraggable_dobj(1)]
  have orig: "isOriginal (dobj ?s5 d) = isOriginal (dobj st d)"
    by (simp only: field_frame g4 same_graphD [OF sg3] core same_graphD [OF sg1]) simp
  have pressed: "mousePressed (dobj ?s5 e) = mousePressed (dobj st e)" for e
    by (simp only: field_frame g4 same_graphD [OF sg3] core same_graphD [OF sg1]) simp
  have fr: "draggables ?s5 = draggables st" "tasks ?s5 = tasks st" "set (targets st) \<subseteq> set (targets ?s5)"
    using field_frame(3) [of s4 d]
    by (simp_all add: field_frame g4 addDraggable_frame same_graphD [OF sg1])
  let ?s6 = "if isOriginal (dobj ?s5 d) then updateArrowOpacity (slider_count (- 1) d ?s5) else ?s5"
  have "board_inv ?s6"
    using slider_count_off [OF b5, of d "- 1"] b5 orig
    by (cases "isOriginal (dobj st d)")
      (simp_all add: board_inv_def same_graph_board(6) [OF same_graph_arrows])
  moreover have "calm ?s6" using calm by (simp add: calm_def pressed fr updateArrowOpacity_def)
  moreover have "draggables ?s6 = draggables st" "tasks ?s6 = tasks st" "set (targets st) \<subseteq> set (targets ?s6)"
    using fr by (simp_all add: updateArrowOpacity_def)
  moreover have "moveDraggableTo d (MoveTarget t) k st = Some (k, ?s6)"
    using loaded own z by (auto simp: moveDraggableTo_def Let_def)
  ultimately show ?thesis by blast
qed

end
