(* ===== verification/DndReach.thy ===== *)
theory DndReach
  imports DndEvents
begin

text \<open>
  Restoring a saved answer and the reachable states of a drag-and-drop problem: the steps the
  reader and the browser can make, and the theorem that they all keep \<open>board_inv\<close>.
\<close>

section \<open>The restoring of an answer\<close>

fun restoring_task :: "task \<Rightarrow> bool" where
  "restoring_task (Retry d mv k) = True"
| "restoring_task (CopyImage n (CbMove mv k)) = True"
| "restoring_task (CopyReady n (CbMove mv k)) = True"
| "restoring_task _ = False"

fun image_task :: "task \<Rightarrow> bool" where
  "image_task (OriginalImage n) = True"
| "image_task _ = False"

definition restoring :: "dnd \<Rightarrow> bool" where
  "restoring st \<longleftrightarrow> (\<exists>k \<in> set (tasks st). restoring_task k)"

text \<open>No draggable is held and no copy is under way.\<close>

definition quiet :: "dnd \<Rightarrow> bool" where
  "quiet st \<longleftrightarrow> calm st \<and> (\<forall>k \<in> set (tasks st). image_task k)"

fun cont_ok :: "dnd \<Rightarrow> cont \<Rightarrow> bool" where
  "cont_ok st (KCheckLayered ans depth i ch b) = (b \<in> set (draggables st))"
| "cont_ok st _ = True"

text \<open>A readable answer: each chain is an object of the expected shape.\<close>

definition readable :: "answers \<Rightarrow> bool" where
  "readable ans \<longleftrightarrow> (\<forall>depth cs. map_of ans depth = Some cs \<longrightarrow>
      (\<forall>c \<in> set cs. read_chain depth c \<noteq> None))"

fun cont_answers :: "cont \<Rightarrow> answers" where
  "cont_answers KDone = []"
| "cont_answers (KProcess ans depth i) = ans"
| "cont_answers (KCheckBase ans depth i ch) = ans"
| "cont_answers (KAfterBase ans depth i ch) = ans"
| "cont_answers (KCheckLayered ans depth i ch b) = ans"

fun move_ok :: "dnd \<Rightarrow> movement \<Rightarrow> bool" where
  "move_ok st (MoveTarget t) = (t \<in> set (targets st))"
| "move_ok st (MoveXY x y) = False"

fun task_ok :: "dnd \<Rightarrow> task \<Rightarrow> bool" where
  "task_ok st (Retry d mv k) \<longleftrightarrow>
     d \<in> set (draggables st) \<and> inContainer (dobj st d) \<and> move_ok st mv \<and> cont_ok st k \<and>
     readable (cont_answers k)"
| "task_ok st (CopyImage n (CbMove mv k)) \<longleftrightarrow>
     move_ok st mv \<and> cont_ok st k \<and> readable (cont_answers k)"
| "task_ok st (CopyReady n (CbMove mv k)) \<longleftrightarrow>
     move_ok st mv \<and> cont_ok st k \<and> readable (cont_answers k)"
| "task_ok st _ = True"

text \<open>While an answer is being restored, its next step is the only pending work but for the loads of
  images.\<close>

definition restore_ok :: "dnd \<Rightarrow> bool" where
  "restore_ok st \<longleftrightarrow>
     (restoring st \<longrightarrow> calm st \<and>
       (\<exists>k. filter (\<lambda>l. \<not> image_task l) (tasks st) = [k] \<and> task_ok st k))"

lemma image_not_restoring: "image_task k \<Longrightarrow> \<not> restoring_task k"
  by (cases k) auto

lemma quiet_restore_ok: "quiet st \<Longrightarrow> \<not> restoring st \<and> restore_ok st"
  by (auto simp: quiet_def restore_ok_def restoring_def dest: image_not_restoring)

lemma quiet_copies: "quiet st \<Longrightarrow> waiting st = [] \<and> ready st = []"
proof -
  assume "quiet st"
  then have "waiting_copy k = [] \<and> ready_copy k = []" if "k \<in> set (tasks st)" for k
    using that by (cases k) (auto simp: quiet_def)
  then show ?thesis by (simp add: waiting_def ready_def)
qed

lemma quiet_append:
  assumes "quiet st" and "calm st'" and "tasks st' = tasks st @ [k]" and "task_ok st' k"
  shows "restore_ok st'"
proof (cases "image_task k")
  case True
  then have "\<not> restoring st'"
    using assms(1,3) by (auto simp: restoring_def quiet_def dest: image_not_restoring)
  then show ?thesis by (simp add: restore_ok_def)
next
  case False
  then have "filter (\<lambda>l. \<not> image_task l) (tasks st') = [k]"
    using assms(1,3) by (simp add: quiet_def filter_empty_conv)
  with assms(2,4) show ?thesis by (simp add: restore_ok_def)
qed

text \<open>The next step of a restoring, in the three cases of \<open>moveDraggableTo\<close>.\<close>

definition step_ok :: "cont \<Rightarrow> dnd \<Rightarrow> bool" where
  "step_ok k st \<longleftrightarrow> board_inv st \<and> (quiet st \<and> cont_ok st k \<or> k = KDone \<and> restore_ok st)"

lemma cont_ok_mono: "cont_ok st k \<Longrightarrow> set (draggables st) \<subseteq> set (draggables st') \<Longrightarrow> cont_ok st' k"
  by (cases k) auto

lemma move_restores:
  assumes b: "board_inv st" and q: "quiet st" and d: "d \<in> set (draggables st)"
    and inC: "inContainer (dobj st d)" and t: "t \<in> set (targets st)" and k: "cont_ok st k"
    and rd: "readable (cont_answers k)"
  shows "\<exists>k' st'. moveDraggableTo d (MoveTarget t) k st = Some (k', st') \<and> step_ok k' st'"
proof -
  have calm: "calm st" and unready: "d \<notin> set (ready st)" using q quiet_copies [OF q] by (simp_all add: quiet_def)
  have b0: "board_off 0 st" using b by (simp add: board_inv_def)
  consider (wait) "\<not> hasLoaded (dobj st d)"
    | (copy) "hasLoaded (dobj st d)" "isReusable (dobj st d) \<and> isOriginal (dobj st d)"
    | (move) "hasLoaded (dobj st d)" "\<not> (isReusable (dobj st d) \<and> isOriginal (dobj st d))"
    by blast
  then show ?thesis
  proof cases
    case wait
    let ?k = "Retry d (MoveTarget t) k"
    have "calm (later ?k st)" using calm by (simp add: calm_def)
    moreover have "cont_ok (later ?k st) k" by (rule cont_ok_mono [OF k]) simp
    ultimately have "restore_ok (later ?k st)"
      using d inC t rd by (intro quiet_append [OF q, of "later ?k st" ?k]) simp_all
    moreover have "board_inv (later ?k st)" using later_board [OF b0, of ?k] by (simp add: board_inv_def)
    ultimately show ?thesis using wait by (simp add: moveDraggableTo_def step_ok_def)
  next
    case copy
    let ?cb = "CbMove (MoveTarget t) k"
    let ?s = "makeDraggableCopy d ?cb st"
    note m = makeDraggableCopy_board [OF b0 d inC, of ?cb]
    have sub: "cont_ok ?s k" using k m(5) by (rule cont_ok_mono)
    from m(4) obtain ks where ks: "tasks ?s = tasks st @ ks"
      "ks = [] \<or> (\<exists>l \<in> set (copy_tasks (Suc (uniqueId st)) ?cb). ks = [l])" by blast
    have "restore_ok ?s"
    proof (cases "ks = []")
      case True
      with ks(1) q m(2) [OF calm] have "quiet ?s" by (simp add: quiet_def)
      then show ?thesis using quiet_restore_ok by blast
    next
      case False
      with ks(2) obtain l where l: "l \<in> set (copy_tasks (Suc (uniqueId st)) ?cb)" "ks = [l]" by blast
      then have "task_ok ?s l" using t sub m(3) rd by (auto simp: copy_tasks_def)
      with l ks(1) m(2) [OF calm] show ?thesis using quiet_append [OF q] by simp
    qed
    with m(1) copy show ?thesis by (simp add: moveDraggableTo_def step_ok_def board_inv_def)
  next
    case move
    from place_board [OF b d calm unready inC move(2,1) t, of k] obtain st' where s:
      "moveDraggableTo d (MoveTarget t) k st = Some (k, st')" "board_inv st'" "calm st'"
      "draggables st' = draggables st" "tasks st' = tasks st" by blast
    then have "quiet st'" "cont_ok st' k" using q cont_ok_mono [OF k, of st'] by (simp_all add: quiet_def)
    with s show ?thesis by (auto simp: step_ok_def)
  qed
qed

section \<open>Looking draggables and targets up\<close>

lemma find_first_some:
  "find_first p xs = Some (Some x) \<Longrightarrow> x \<in> set xs \<and> p x = Some True"
  by (induction xs) (auto simp: bind_eq_Some_conv split: if_splits)

lemma find_first_total:
  "(\<And>x. x \<in> set xs \<Longrightarrow> p x \<noteq> None) \<Longrightarrow> \<exists>r. find_first p xs = Some r"
  by (induction xs) (fastforce split: Option.bind_splits)+

lemma getById_draggable_in:
  "getById_draggable st i b t x y = Some (Some d) \<Longrightarrow>
     d \<in> set (draggables st) \<and> inContainer (dobj st d) = b"
  unfolding getById_draggable_def
  by (drule find_first_some) (auto simp: draggable_matches_def split: if_splits)

text \<open>On a calm board the lookup never reads the target of a draggable that has none.\<close>

lemma getById_draggable_total:
  assumes b: "board_inv st" and calm: "calm st"
  shows "\<exists>r. getById_draggable st i s t x y = Some r"
  unfolding getById_draggable_def
proof (rule find_first_total)
  fix d assume d: "d \<in> set (draggables st)"
  have inv: "graph_inv st" and pl: "place_ok st" using b by (auto simp: board_defs)
  have on: "onTarget (dobj st e) \<noteq> None" if "e \<in> set (draggables st)" "\<not> inContainer (dobj st e)" for e
    using pl calm that by (auto simp: place_ok_def placed_def calm_def)
  have field_on: "onTarget (dobj st e) \<noteq> None" if "e \<in> set (draggables st)" "targetField (dobj st e) \<noteq> []" for e
    using pl that by (auto simp: place_ok_def placed_def)
  show "draggable_matches st i s t x y d \<noteq> None"
  proof (cases "inContainer (dobj st d)")
    case True
    then show ?thesis by (auto simp: draggable_matches_def)
  next
    case False
    then obtain u where u: "onTarget (dobj st d) = Some u" using on [OF d] by blast
    from graph_invD(5) [OF inv d u] have ut: "u \<in> set (targets st)" by simp
    have "on_target_with_id st d t \<noteq> None" using u by (simp add: on_target_with_id_def)
    moreover have "on_layer_with_ids st d t x y \<noteq> None"
    proof (cases "onDrag (tobj st u)")
      case nodrag: False
      then show ?thesis using u by (simp add: on_layer_with_ids_def on_target_with_id_def)
    next
      case True
      with inv ut obtain e where e: "draggableObj (tobj st u) = Some e" "e \<in> set (draggables st)"
          "u \<in> set (targetField (dobj st e))"
        by (auto simp: graph_inv_def fields_ok_def)
      then have "onTarget (dobj st e) \<noteq> None" using field_on [OF e(2)] by (metis empty_iff list.set(1))
      then have "on_target_with_id st e y \<noteq> None" by (auto simp: on_target_with_id_def)
      then show ?thesis using u e(1) by (auto simp: on_layer_with_ids_def on_target_with_id_def)
    qed
    ultimately show ?thesis by (simp add: draggable_matches_def del: not_None_eq)
  qed
qed

lemma getById_target_in: "getById_target st i b = Some t \<Longrightarrow> t \<in> set (targets st)"
  unfolding getById_target_def by (auto simp: find_Some_iff)

lemma layered_target_in: "layered_target st b i = Some t \<Longrightarrow> t \<in> set (targetField (dobj st b))"
proof -
  have "fold (\<lambda>t found. if JStr (t_id (tobj st t)) = i then Some t else found) ts r = Some t \<Longrightarrow>
      t \<in> set ts \<or> r = Some t" for ts r
    by (induction ts arbitrary: r) (auto split: if_splits)
  from this [of "targetField (dobj st b)" None]
  show "layered_target st b i = Some t \<Longrightarrow> t \<in> set (targetField (dobj st b))"
    by (simp add: layered_target_def)
qed

section \<open>The steps of \<open>processAnswerTargets\<close>\<close>

lemma cont_answers_after [simp]: "cont_answers (after_base ans depth i ch b) = ans"
  by (simp add: after_base_def)

lemma createBase_answers:
  "createBaseDraggableOnTarget i t k st = Some (k', st') \<Longrightarrow> k' = KDone \<or> cont_answers k' = cont_answers k"
  by (auto dest: createBase_cont)

lemma answer_step_answers:
  assumes "answer_step k st = Some (k', st')"
  shows "k' = KDone \<or> cont_answers k' = cont_answers k"
proof (cases k)
  case (KProcess ans depth i)
  with assms show ?thesis
    by (auto simp: processAnswerTargets_def bind_eq_Some_conv split: if_splits option.splits)
next
  case (KCheckBase ans depth i ch)
  with assms show ?thesis
    by (auto simp: checkBaseDraggable_def bind_eq_Some_conv split: option.splits
        dest: createBase_answers)
next
  case (KAfterBase ans depth i ch)
  with assms show ?thesis
    by (auto simp: baseCreated_def bind_eq_Some_conv split: option.splits)
next
  case (KCheckLayered ans depth i ch b)
  with assms have "k' \<in> {KDone, KProcess ans depth (i + 1)}"
    by (auto simp: checklayeredDraggable_def bind_eq_Some_conv split: option.splits
        dest: moveDraggableTo_cont)
  with KCheckLayered show ?thesis by auto
qed (use assms in simp)

lemma createBase_ok:
  assumes b: "board_inv st" and q: "quiet st" and k: "cont_ok st k" and rd: "readable (cont_answers k)"
  shows "\<exists>k' st'. createBaseDraggableOnTarget i t k st = Some (k', st') \<and> step_ok k' st'"
proof -
  have calm: "calm st" using q by (simp add: quiet_def)
  obtain r where r: "getById_draggable st i True JUndef JUndef JUndef = Some r"
    using getById_draggable_total [OF b calm] by blast
  have stop: "step_ok KDone st" using b quiet_restore_ok [OF q] by (simp add: step_ok_def)
  show ?thesis
  proof (cases r)
    case None
    with r stop show ?thesis by (simp add: createBaseDraggableOnTarget_def)
  next
    case (Some d)
    show ?thesis
    proof (cases "getById_target st t False")
      case None
      with r Some stop show ?thesis by (simp add: createBaseDraggableOnTarget_def)
    next
      case (Some u)
      with move_restores [OF b q, of d u k] getById_draggable_in [of st i True] r \<open>r = Some d\<close> k rd
        getById_target_in [OF Some]
      show ?thesis by (simp add: createBaseDraggableOnTarget_def)
    qed
  qed
qed

lemma answer_step_ok:
  assumes b: "board_inv st" and q: "quiet st" and k: "cont_ok st k" and rd: "readable (cont_answers k)"
  shows "\<exists>k' st'. answer_step k st = Some (k', st') \<and> step_ok k' st'"
proof -
  have calm: "calm st" using q by (simp add: quiet_def)
  have go: "step_ok k' st" if "cont_ok st k'" for k' using b q that by (simp add: step_ok_def)
  note total = getById_draggable_total [OF b calm]
  show ?thesis
  proof (cases k)
    case KDone
    then show ?thesis using go by simp
  next
    case (KProcess ans depth i)
    show ?thesis
    proof (cases "depth = 0 \<or> map_of ans depth = None \<or> length (the (map_of ans depth)) \<le> i")
      case True
      with KProcess go show ?thesis
        by (auto simp: processAnswerTargets_def split: option.splits)
    next
      case False
      then obtain cs where cs: "map_of ans depth = Some cs" "i < length cs" "depth \<noteq> 0" by auto
      with rd KProcess have "read_chain depth (cs ! i) \<noteq> None" by (simp add: readable_def)
      then obtain ch where "read_chain depth (cs ! i) = Some ch" by blast
      with cs KProcess go show ?thesis by (simp add: processAnswerTargets_def)
    qed
  next
    case (KCheckBase ans depth i ch)
    obtain r where r: "getById_draggable st (baseDraggableId ch) False (baseTargetId ch) JUndef JUndef = Some r"
      using total by blast
    show ?thesis
    proof (cases r)
      case None
      with createBase_ok [OF b q, of "KAfterBase ans depth i ch"] r rd KCheckBase
      show ?thesis by (simp add: checkBaseDraggable_def)
    next
      case (Some e)
      with getById_draggable_in r have "cont_ok st (after_base ans depth i ch e)"
        by (auto simp: after_base_def)
      with go Some r KCheckBase show ?thesis by (simp add: checkBaseDraggable_def)
    qed
  next
    case (KAfterBase ans depth i ch)
    obtain r where r: "getById_draggable st (baseDraggableId ch) False (baseTargetId ch) JUndef JUndef = Some r"
      using total by blast
    show ?thesis
    proof (cases r)
      case None
      with go r KAfterBase show ?thesis by (simp add: baseCreated_def)
    next
      case (Some e)
      with getById_draggable_in r have "cont_ok st (after_base ans depth i ch e)"
        by (auto simp: after_base_def)
      with go Some r KAfterBase show ?thesis by (simp add: baseCreated_def)
    qed
  next
    case (KCheckLayered ans depth i ch e)
    obtain r where r: "getById_draggable st (layeredDraggableId ch) False (layeredTargetId ch)
        (baseDraggableId ch) (baseTargetId ch) = Some r" using total by blast
    obtain l where l: "getById_draggable st (layeredDraggableId ch) True JUndef JUndef JUndef = Some l"
      using total by blast
    show ?thesis
    proof (cases "r \<noteq> None \<or> l = None \<or> layered_target st e (layeredTargetId ch) = None")
      case True
      with go r l KCheckLayered show ?thesis
        by (auto simp: checklayeredDraggable_def split: option.splits)
    next
      case False
      then obtain d t where dt: "l = Some d" "layered_target st e (layeredTargetId ch) = Some t" "r = None" by auto
      have inv: "graph_inv st" using b by (simp add: board_defs)
      from k KCheckLayered have e: "e \<in> set (draggables st)" by simp
      have "t \<in> set (targets st)"
        using layered_target_in [OF dt(2)] graph_invD(3) [OF inv e] by auto
      with move_restores [OF b q, of d t "KProcess ans depth (i + 1)"] getById_draggable_in [of st _ True]
        l dt r rd KCheckLayered
      show ?thesis by (simp add: checklayeredDraggable_def)
    qed
  qed
qed


lemma run_cont_ok:
  assumes "step_ok k st" and "readable (cont_answers k)"
  shows "\<exists>st'. run_cont k st = Some st' \<and> board_inv st' \<and> restore_ok st'"
  using assms
proof (induction k st rule: run_cont.induct)
  case (1 k st)
  show ?case
  proof (cases "k = KDone")
    case True
    with 1 quiet_restore_ok [of st] show ?thesis by (auto simp: run_cont.simps step_ok_def)
  next
    case False
    with 1 have b: "board_inv st" and q: "quiet st" and k: "cont_ok st k" by (auto simp: step_ok_def)
    obtain k' st' where s: "answer_step k st = Some (k', st')" "step_ok k' st'"
      using answer_step_ok [OF b q k 1(3)] by blast
    have "readable (cont_answers k')"
      using answer_step_answers [OF s(1)] 1(3) by (cases "k' = KDone") (auto simp: readable_def)
    with 1(1) [OF False s(1) refl] s(2) False s(1) show ?thesis by (simp add: run_cont.simps [of k])
  qed
qed

end
