(* ===== verification/DndSteps.thy ===== *)
theory DndSteps
  imports DndReach
begin

text \<open>
  The start of a drag-and-drop problem, the steps of its event loop, and the states they reach.
\<close>

section \<open>The start\<close>

definition empty_inv :: "dnd \<Rightarrow> bool" where
  "empty_inv st \<longleftrightarrow> indiv st \<and> graph_inv st \<and> targets_allocated st \<and> draggables st = [] \<and>
     tasks st = [] \<and> numDraggablesInSlider st = 0"

lemma empty_board:
  assumes "empty_inv st"
  shows "board_inv st" "quiet st"
proof -
  have "grounded st t" if "t \<in> set (targets st)" for t
  proof -
    have "draggableObj (tobj st t) = None"
      using assms that by (cases "draggableObj (tobj st t)") (auto simp: empty_inv_def graph_inv_def fields_ok_def)
    then have "\<not> onDrag (tobj st t)" using assms that by (auto simp: empty_inv_def graph_inv_def fields_ok_def)
    then show ?thesis by (rule grounded.base)
  qed
  with assms show "board_inv st"
    by (simp add: empty_inv_def board_inv_def board_off_def board_core_def ground_ok_def place_ok_def
        one_pressed_def slider_off_def copies_ok_def waiting_def ready_def)
  from assms show "quiet st" by (simp add: empty_inv_def quiet_def calm_def)
qed

lemma base_targets_empty: "empty_inv st \<Longrightarrow> empty_inv (initializeBaseTargets st)"
proof -
  have step: "empty_inv (processTarget c None st)" if "empty_inv st" for c st
    using that processTarget_inv(1,2) [of st None c]
    by (simp add: empty_inv_def processTarget_frame indiv_def)
  have "empty_inv (fold (\<lambda>c. processTarget (target_conf c) None) cs st)" if "empty_inv st" for cs
    using that by (induction cs arbitrary: st) (simp_all add: step)
  then show "empty_inv st \<Longrightarrow> empty_inv (initializeBaseTargets st)"
    by (simp add: initializeBaseTargets_def)
qed

lemma new_state_empty:
  "individualTargets c = Some True \<Longrightarrow> empty_inv (new_state c v pos dims ts)"
  by (simp add: new_state_def empty_inv_def indiv_def graph_inv_defs targets_allocated_def)

lemma slider_num_calm: "calm (st\<lparr>numDraggablesInSlider := n\<rparr>) = calm st"
  by (simp add: calm_def)

text \<open>One draggable joins the board.\<close>

lemma add_original:
  assumes b: "board_inv st" and q: "quiet st" and sh: "shelved r" and orig: "isOriginal r"
    and w: "\<forall>k \<in> set ks. image_task k"
    and eq: "st' = st\<lparr>uniqueId := Suc (uniqueId st), tasks := tasks st @ ks\<rparr>"
    and new: "st'' = push_draggable (Suc (uniqueId st)) (st'\<lparr>dobj := (dobj st')(Suc (uniqueId st) := r),
      numDraggablesInSlider := numDraggablesInSlider st' + 1\<rparr>)"
  shows "board_inv st'' \<and> quiet st''"
proof -
  let ?n = "Suc (uniqueId st)"
  have b0: "board_off 0 st" using b by (simp add: board_inv_def)
  note fresh = fresh_new [OF b0]
  have image: "waiting_copy k = [] \<and> ready_copy k = []" if "image_task k" for k using that by (cases k) auto
  let ?u = "st\<lparr>uniqueId := ?n\<rparr>"
  have bu: "board_off 0 ?u" using uniqueId_board [OF b0, of ?n] by simp
  have wr: "waiting st' = waiting ?u" "ready st' = ready ?u" using w image
    by (auto simp: eq waiting_def ready_def)
  have "copies_ok ?u" using bu by (simp add: board_off_def board_core_def)
  then have "copies_ok (?u\<lparr>tasks := tasks st @ ks\<rparr>)"
    using wr by (simp add: copies_ok_def eq)
  from tasks_board [OF bu this] have b': "board_off 0 st'" by (simp add: eq)
  have n': "?n \<notin> set (draggables st')" "?n \<notin> set (waiting st')"
    using fresh wr by (simp_all add: eq waiting_def)
  let ?o = "st'\<lparr>dobj := (dobj st')(?n := r)\<rparr>"
  have bo: "board_off 0 ?o" by (rule new_object_board [OF b' n'])
  let ?c = "?o\<lparr>numDraggablesInSlider := numDraggablesInSlider ?o + 1\<rparr>"
  have bc: "board_off 1 ?c" using slider_num_off [OF bo, of 1] by simp
  have wc: "waiting ?c = waiting st'" by (simp add: waiting_def)
  have "board_off (1 - (if isOriginal (dobj ?c ?n) then 1 else 0)) (push_draggable ?n ?c)"
    by (rule push_board [OF bc]) (use n' wc sh in \<open>simp_all add: eq\<close>)
  then have "board_inv st''" using orig by (simp add: board_inv_def new)
  moreover have "calm st''" using q fresh sh
    by (auto simp: quiet_def calm_def push_draggable_def eq shelved_def new)
  moreover have "tasks st'' = tasks st @ ks" by (simp add: eq new)
  ultimately show ?thesis using q w by (auto simp: quiet_def)
qed

lemma new_draggable_shelved:
  "shelved (new_draggable obj)" "isOriginal (new_draggable obj)"
  by (simp_all add: new_draggable_def shelved_def)

lemma processDraggable_board:
  assumes b: "board_inv st" and q: "quiet st"
  shows "board_inv (processDraggable obj st) \<and> quiet (processDraggable obj st)"
proof -
  let ?n = "Suc (uniqueId st)"
  consider (icon) "dc_icon obj \<noteq> []" | (label) "dc_icon obj = []" "dc_label obj \<noteq> []"
    | (none) "dc_icon obj = []" "dc_label obj = []" by blast
  then show ?thesis
  proof cases
    case icon
    let ?st' = "st\<lparr>uniqueId := ?n, tasks := tasks st @ [OriginalImage ?n]\<rparr>"
    have eq: "processDraggable obj st = push_draggable ?n (?st'\<lparr>dobj := (dobj ?st')(?n :=
          (new_draggable obj)\<lparr>iconElBGColor := ''transparent'', iconElPadding := 0,
                    iconElBorder := ''none'', iconElLeftOffset := 0, hasImg := True\<rparr>),
        numDraggablesInSlider := numDraggablesInSlider ?st' + 1\<rparr>)"
      using icon by (simp add: processDraggable_def getUniqueId_def Let_def later_def)
    show ?thesis
      by (rule add_original [OF b q _ _ _ _ eq, where ks = "[OriginalImage ?n]"])
        (use new_draggable_shelved [of obj] in \<open>simp_all add: shelved_def\<close>)
  next
    case label
    let ?st' = "st\<lparr>uniqueId := ?n\<rparr>"
    let ?w = "fst (textSize st (dc_label obj)) + 1" and ?h = "snd (textSize st (dc_label obj))"
    have eq: "processDraggable obj st = push_draggable ?n (?st'\<lparr>dobj := (dobj ?st')(?n :=
          (new_draggable obj)\<lparr>iconElBGColor := labelBgColor (config st),
                    iconElPadding := 8, iconElBorder := ''1px solid black'',
                    iconElLeftOffset := 9, iconPlace := InSlider,
                    iconWidth := ?w, iconHeight := ?h, iconWidthSmall := ?w, iconHeightSmall := ?h,
                    iconEl := blank_css\<lparr>cssLeft := 50 - ?w / 2, cssTop := 50 - ?h / 2\<rparr>,
                    hasLoaded := True\<rparr>),
        numDraggablesInSlider := numDraggablesInSlider ?st' + 1\<rparr>)"
      using label by (simp add: processDraggable_def getUniqueId_def Let_def)
    show ?thesis
      by (rule add_original [OF b q _ _ _ _ eq, where ks = "[]"])
        (use new_draggable_shelved [of obj] in \<open>simp_all add: shelved_def\<close>)
  next
    case none
    then have "processDraggable obj st = st\<lparr>uniqueId := ?n\<rparr>"
      by (simp add: processDraggable_def getUniqueId_def Let_def)
    with b q uniqueId_board [of 0 st ?n] show ?thesis
      by (simp add: board_inv_def quiet_def calm_def)
  qed
qed

lemma init_board:
  assumes "board_inv st" and "quiet st"
  shows "board_inv (init st) \<and> quiet (init st)"
proof -
  have "board_inv (fold (\<lambda>d. processDraggable (draggable_conf d)) ds st) \<and>
      quiet (fold (\<lambda>d. processDraggable (draggable_conf d)) ds st)" for ds
    using assms
  proof (induction ds arbitrary: st)
    case Nil
    then show ?case by simp
  next
    case (Cons d ds)
    with processDraggable_board [OF Cons.prems] show ?case by simp
  qed
  then show ?thesis by (simp add: init_def)
qed

lemma quiet_same_graph: "same_graph st' st \<Longrightarrow> quiet st' = quiet st"
  by (simp add: quiet_def same_graph_board(8) same_graphD(6))

text \<open>An answer in the input element that can be read: the chains of each depth are readable.\<close>

definition answer_readable :: "js \<Rightarrow> bool" where
  "answer_readable v = (case v of JArr cs \<Rightarrow> readable (sort_by_depth cs) | _ \<Rightarrow> False)"

lemma reposition_ok:
  assumes b: "board_inv st" and q: "quiet st" and rd: "answer_readable v"
  shows "\<exists>st'. repositionDraggables v st = Some st' \<and> board_inv st' \<and> restore_ok st'"
proof -
  obtain cs where v: "v = JArr cs" using rd by (cases v) (auto simp: answer_readable_def)
  have same: "\<exists>st'. Some st = Some st' \<and> board_inv st' \<and> restore_ok st'"
    using b quiet_restore_ok [OF q] by blast
  have "\<exists>st'. run_cont (KProcess (sort_by_depth cs) (maxDepth cs) 0) st = Some st' \<and>
      board_inv st' \<and> restore_ok st'"
    using b q rd v by (intro run_cont_ok) (simp_all add: step_ok_def answer_readable_def)
  moreover have "individualTargets (config st) = Some True" using b by (simp add: board_defs indiv_def)
  ultimately show ?thesis using same by (simp add: v repositionDraggables_def)
qed

lemma start_inputVal:
  "inputVal (updateArrowOpacity (init
     ((initializeBaseTargets (new_state c v pos dims ts))\<lparr>showElLeftMargin := 0\<rparr>))) = v"
proof -
  have t: "inputVal (processTarget c' None s) = inputVal s" for c' s
    by (simp add: processTarget_def getUniqueId_def Let_def)
  have ts: "inputVal (fold (\<lambda>c. processTarget (target_conf c) None) cs s) = inputVal s" for cs s
    by (induction cs arbitrary: s) (simp_all add: t)
  have d: "inputVal (processDraggable obj s) = inputVal s" for obj s
    by (auto simp: processDraggable_def getUniqueId_def Let_def push_draggable_def upd_d_def later_def)
  have ds: "inputVal (fold (\<lambda>d. processDraggable (draggable_conf d)) cs s) = inputVal s" for cs s
    by (induction cs arbitrary: s) (simp_all add: d)
  show ?thesis
    by (simp add: updateArrowOpacity_def init_def ds initializeBaseTargets_def ts new_state_def)
qed

lemma addContent_ok:
  assumes c: "individualTargets c = Some True" and rd: "\<And>w. v = Some w \<Longrightarrow> answer_readable w"
  shows "\<exists>st. addContent (new_state c v pos dims ts) = Some st \<and> board_inv st \<and> restore_ok st"
proof -
  let ?s0 = "(initializeBaseTargets (new_state c v pos dims ts))\<lparr>showElLeftMargin := 0\<rparr>"
  let ?s1 = "updateArrowOpacity (init ?s0)"
  have e: "empty_inv (initializeBaseTargets (new_state c v pos dims ts))"
    by (rule base_targets_empty [OF new_state_empty [OF c]])
  have sg: "same_graph ?s0 (initializeBaseTargets (new_state c v pos dims ts))" by (simp add: same_graph_def)
  have "board_inv ?s0" "quiet ?s0"
    using empty_board [OF e] by (simp_all only: same_graph_board(7) [OF sg] quiet_same_graph [OF sg])
  from init_board [OF this] have b1: "board_inv ?s1" and q1: "quiet ?s1"
    by (simp_all add: same_graph_board(7) [OF same_graph_arrows] quiet_same_graph [OF same_graph_arrows])
  have iv: "inputVal ?s1 = v" by (rule start_inputVal)
  show ?thesis
  proof (cases v)
    case None
    obtain es where u: "update ?s1 = Some (?s1\<lparr>inputVal := Some (JArr es)\<rparr>)"
      using update_board [of 0 ?s1] b1 by (auto simp: board_inv_def)
    note sg = same_graph_update [OF u]
    have "board_inv (?s1\<lparr>inputVal := Some (JArr es)\<rparr>)" "quiet (?s1\<lparr>inputVal := Some (JArr es)\<rparr>)"
      using b1 q1 by (simp_all only: same_graph_board(7) [OF sg] quiet_same_graph [OF sg])
    with u None iv quiet_restore_ok show ?thesis by (auto simp: addContent_def check_def)
  next
    case (Some w)
    from reposition_ok [OF b1 q1 rd [OF Some]] Some iv show ?thesis
      by (auto simp: addContent_def check_def)
  qed
qed

section \<open>The steps\<close>

text \<open>
  The events of a problem with one pointer: a button goes down on a draggable only while none is
  held, and not while the saved answer is still being restored. A copy gets its elements when
  its callback runs, so it receives no event before. \<open>Left\<close> and \<open>Right\<close> are the arrows of the
  slider, \<open>Cycle\<close> a click on the number of a target.
\<close>

inductive dnd_step :: "dnd \<Rightarrow> dnd \<Rightarrow> bool" where
  Down: "d \<in> set (draggables st) \<Longrightarrow> d \<notin> set (ready st) \<Longrightarrow> hasLoaded (dobj st d) \<Longrightarrow> calm st \<Longrightarrow>
    \<not> restoring st \<Longrightarrow> dnd_step st (mouseDown d x y st)"
| Up: "d \<in> set (draggables st) \<Longrightarrow> \<not> restoring st \<Longrightarrow> mouseUp d st = Some st' \<Longrightarrow> dnd_step st st'"
| Move: "dnd_step st (mouseMove d x y st)"
| DocMove: "dnd_step st (documentMouseMove st x y)"
| Left: "dnd_step st (moveLeft st)"
| Right: "dnd_step st (moveRight st)"
| Cycle: "dnd_step st (cycleDraggableOrder t st)"
| Task: "i < length (tasks st) \<Longrightarrow> (\<And>n x y. tasks st ! i = CopyReady n (CbMouseDown x y) \<Longrightarrow> calm st) \<Longrightarrow>
    run_task (tasks st ! i) w h (drop_task i st) = Some st' \<Longrightarrow> dnd_step st st'"

inductive dnd_reach :: "conf \<Rightarrow> js option \<Rightarrow> dnd \<Rightarrow> bool" for c v where
  Start: "addContent (new_state c v pos dims ts) = Some st \<Longrightarrow> dnd_reach c v st"
| Step: "dnd_reach c v st \<Longrightarrow> dnd_step st st' \<Longrightarrow> dnd_reach c v st'"


section \<open>Every step keeps the invariant\<close>

lemma tasks_fold:
  assumes "\<And>x s. tasks (f x s) = tasks s"
  shows "tasks (fold f xs st) = tasks st"
  by (induction xs arbitrary: st) (simp_all add: assms)

lemma tasks_upd_t [simp]: "tasks (upd_t t f st) = tasks st"
  by (simp add: upd_t_def)

lemma tasks_targets:
  "tasks (addDraggable t d st) = tasks st" "tasks (removeDraggable t d st) = tasks st"
  "tasks (destroyTargetField d st) = tasks st" "tasks (toggleTargets b st) = tasks st"
proof -
  have num: "tasks (numDraggables_add k u s) = tasks s" for k u s
    by (simp add: numDraggables_add_eq)
  show "tasks (addDraggable t d st) = tasks st" by (rule addDraggable_frame)
  show "tasks (removeDraggable t d st) = tasks st"
    by (simp add: removeDraggable_def Let_def updateNumTextEl_def num tasks_fold)
  have r: "tasks (snd (snd (remove_field_targets ts a lo s))) = tasks s" for ts a lo s
    by (induction ts a lo s rule: remove_field_targets.induct) (auto simp: Let_def)
  show "tasks (destroyTargetField d st) = tasks st"
    using r [of "targetField (dobj st d)" 0 "int (length (targets st)) + 1" st]
    by (auto simp: destroyTargetField_def tasks_fold split: prod.splits)
  show "tasks (toggleTargets b st) = tasks st"
    using same_graphD(6) [OF same_graph_toggle] .
qed

lemma tasks_land: "land_on_targets d l t st = Some st' \<Longrightarrow> tasks st' = tasks st"
proof -
  assume land: "land_on_targets d l t st = Some st'"
  have put: "tasks (snapToTarget u d (put_on u d st)) = tasks st" for u
    by (auto simp: same_graphD(6) [OF same_graph_snap] put_on_def tasks_targets split: option.splits)
  have slid: "tasks (moveBackToSlider d s) = tasks s" for s
    by (simp add: moveBackToSlider_def Let_def tasks_targets tasks_fold)
  show ?thesis
  proof (cases "find (accepts st d l t) (targets st)")
    case None
    with land show ?thesis
      by (auto simp: land_on_targets_def checkIfOnTarget_def checkIfOnTarget_find slid tasks_targets
          split: option.splits)
  next
    case (Some u)
    with land obtain s1 where "correctZIndexes d (snapToTarget u d (put_on u d st)) = Some s1"
        "st' = initializeTargetField d s1"
      by (auto simp: land_on_targets_def checkIfOnTarget_def checkIfOnTarget_find bind_eq_Some_conv)
    then show ?thesis by (simp add: field_frame(2) same_graphD(6) [OF same_graph_correctZ] put)
  qed
qed

lemma tasks_mouseUp:
  assumes b: "board_inv st" and up: "mouseUp d st = Some st'"
  shows "tasks st' = tasks st"
proof (cases "mousePressed (dobj st d)")
  case False
  with up show ?thesis by (simp add: mouseUp_def)
next
  case True
  let ?s0 = "upd_d d (\<lambda>r. r\<lparr>grabbed := False\<rparr>) (st\<lparr>currentMovingDraggable := None\<rparr>)"
  from True up obtain s1 where s1: "checkLandingElement d ?s0 = Some s1" "st' = toggleTargets False s1"
    by (auto simp: mouseUp_def bind_eq_Some_conv)
  have i: "individualTargets (config ?s0) = Some True" using b by (simp add: board_defs indiv_def)
  obtain s2 l t where "land_on_targets d l t (upd_d d (\<lambda>r. r\<lparr>mousePressed := False\<rparr>) ?s0) = Some s2"
      "update (arrows_if_original d s2) = Some s1"
    using s1(1) i by (auto simp: checkLandingElement_def Let_def bind_eq_Some_conv)
  from tasks_land [OF this(1)] same_graphD(6) [OF same_graph_update [OF this(2)]]
    same_graphD(6) [OF same_graph_arrows_if [of d s2]] s1(2)
  show ?thesis by (simp add: tasks_targets)
qed

lemma task_ok_cong:
  assumes "task_ok st k" and "set (draggables st) \<subseteq> set (draggables st')" and "set (targets st) \<subseteq> set (targets st')"
    and "\<And>d. inContainer (dobj st' d) = inContainer (dobj st d)"
  shows "task_ok st' k"
proof -
  have mv: "move_ok st' mv" if "move_ok st mv" for mv using that assms(3) by (cases mv) auto
  have "cont_ok st' c" if "cont_ok st c" for c using that assms(2) by (rule cont_ok_mono)
  with mv assms show ?thesis
    by (cases k rule: restoring_task.cases) auto
qed

lemma restore_ok_same_graph:
  assumes sg: "same_graph st' st" and ok: "restore_ok st"
  shows "restore_ok st'"
proof -
  note e = same_graphD [OF sg]
  have "task_ok st' k" if "task_ok st k" for k
    by (rule task_ok_cong [OF that]) (simp_all add: e)
  with ok show ?thesis
    by (auto simp: restore_ok_def restoring_def e same_graph_board(8) [OF sg])
qed

lemma filter_drop_nth:
  assumes "i < length xs"
  shows "filter P xs = filter P (take i xs) @ (if P (xs ! i) then [xs ! i] else []) @ filter P (drop (Suc i) xs)"
    "filter P (take i xs @ drop (Suc i) xs) = filter P (take i xs) @ filter P (drop (Suc i) xs)"
proof -
  have "filter P xs = filter P (take i xs @ xs ! i # drop (Suc i) xs)"
    using id_take_nth_drop [OF assms] by simp
  then show "filter P xs = filter P (take i xs) @ (if P (xs ! i) then [xs ! i] else []) @ filter P (drop (Suc i) xs)"
    by simp
qed simp

lemma append_Cons_single: "xs @ y # zs = [k] \<Longrightarrow> xs = [] \<and> y = k \<and> zs = []"
  by (cases xs) auto

lemma drop_task_restore:
  assumes ok: "restore_ok st" and i: "i < length (tasks st)"
  shows "restoring_task (tasks st ! i) \<Longrightarrow> quiet (drop_task i st) \<and> task_ok st (tasks st ! i)"
    "\<not> restoring_task (tasks st ! i) \<Longrightarrow> restore_ok (drop_task i st) \<and>
       (restoring (drop_task i st) = restoring st)"
proof -
  note f = filter_drop_nth [OF i, of "\<lambda>l. \<not> image_task l"]
  have t: "tasks (drop_task i st) = take i (tasks st) @ drop (Suc i) (tasks st)" by (simp add: drop_task_def)
  show "quiet (drop_task i st) \<and> task_ok st (tasks st ! i)" if r: "restoring_task (tasks st ! i)"
  proof -
    from r i have "restoring st" by (auto simp: restoring_def)
    with ok obtain k where k: "calm st" "filter (\<lambda>l. \<not> image_task l) (tasks st) = [k]" "task_ok st k"
      by (auto simp: restore_ok_def)
    have "\<not> image_task (tasks st ! i)" using r image_not_restoring by blast
    with f(1) k(2) have "filter (\<lambda>l. \<not> image_task l) (take i (tasks st)) @ tasks st ! i #
        filter (\<lambda>l. \<not> image_task l) (drop (Suc i) (tasks st)) = [k]" by simp
    from append_Cons_single [OF this]
    have "filter (\<lambda>l. \<not> image_task l) (tasks (drop_task i st)) = []" "tasks st ! i = k"
      by (simp_all add: t f(2))
    with k show ?thesis by (simp add: quiet_def filter_empty_conv calm_def)
  qed
  show "restore_ok (drop_task i st) \<and> (restoring (drop_task i st) = restoring st)"
    if r: "\<not> restoring_task (tasks st ! i)"
  proof -
    have "set (tasks st) = insert (tasks st ! i) (set (tasks (drop_task i st)))"
      unfolding t by (metis id_take_nth_drop [OF i] insert_is_Un list.simps(15) set_append Un_left_commute)
    with r have eq: "restoring (drop_task i st) = restoring st" by (auto simp: restoring_def)
    have "restore_ok (drop_task i st)"
    proof (cases "restoring st")
      case False
      with eq show ?thesis by (simp add: restore_ok_def)
    next
      case True
      with ok obtain k where k: "calm st" "filter (\<lambda>l. \<not> image_task l) (tasks st) = [k]" "task_ok st k"
        by (auto simp: restore_ok_def)
      from True obtain l where l: "l \<in> set (tasks st)" "restoring_task l" by (auto simp: restoring_def)
      then have "l \<in> set (filter (\<lambda>l. \<not> image_task l) (tasks st))" using image_not_restoring by auto
      with k(2) have "l = k" by simp
      have "image_task (tasks st ! i)"
      proof (rule ccontr)
        assume "\<not> image_task (tasks st ! i)"
        then have "tasks st ! i \<in> set (filter (\<lambda>l. \<not> image_task l) (tasks st))" using i by simp
        with k(2) \<open>l = k\<close> l(2) r show False by simp
      qed
      with f k(2) have "filter (\<lambda>l. \<not> image_task l) (tasks (drop_task i st)) = [k]" by (simp add: t)
      moreover have "task_ok (drop_task i st) k" by (rule task_ok_cong [OF k(3)]) simp_all
      ultimately show ?thesis using k(1) by (simp add: restore_ok_def calm_def)
    qed
    with eq show ?thesis by simp
  qed
qed


text \<open>Work that belongs to a drag is not pending while an answer is being restored.\<close>

lemma drag_task_alone:
  assumes ok: "restore_ok st" and k: "k \<in> set (tasks st)" "\<not> image_task k" "\<not> restoring_task k"
  shows "\<not> restoring st"
proof
  assume r: "restoring st"
  with ok obtain l where l: "filter (\<lambda>l. \<not> image_task l) (tasks st) = [l]" by (auto simp: restore_ok_def)
  from r obtain m where m: "m \<in> set (tasks st)" "restoring_task m" by (auto simp: restoring_def)
  then have "m \<in> set (filter (\<lambda>l. \<not> image_task l) (tasks st))" using image_not_restoring by auto
  moreover have "k \<in> set (filter (\<lambda>l. \<not> image_task l) (tasks st))" using k by simp
  ultimately show False using l m k(3) by auto
qed

lemma mouseDown_restore:
  assumes "board_inv st" and "d \<in> set (draggables st)" and "calm st" and "d \<notin> set (ready st)"
    and nr: "\<not> restoring st"
  shows "restore_ok (mouseDown d x y st)"
proof -
  from mouseDown_board(2) [OF assms(1-4), of x y] obtain ks where
    "tasks (mouseDown d x y st) = tasks st @ ks"
    "ks = [] \<or> (\<exists>k \<in> set (copy_tasks (Suc (uniqueId st)) (CbMouseDown x y)). ks = [k])" by blast
  with nr have "\<not> restoring (mouseDown d x y st)" by (auto simp: restoring_def copy_tasks_def)
  then show ?thesis by (simp add: restore_ok_def)
qed

lemma move_and_run:
  assumes b: "board_inv st" and q: "quiet st" and d: "d \<in> set (draggables st)"
    and inC: "inContainer (dobj st d)" and mv: "move_ok st mv" and k: "cont_ok st k"
    and rd: "readable (cont_answers k)"
  shows "\<exists>st'. do { (k', s') \<leftarrow> moveDraggableTo d mv k st; run_cont k' s' } = Some st' \<and>
    board_inv st' \<and> restore_ok st'"
proof -
  obtain t where t: "mv = MoveTarget t" "t \<in> set (targets st)" using mv by (cases mv) auto
  from move_restores [OF b q d inC t(2) k rd] obtain k' s' where
    m: "moveDraggableTo d mv k st = Some (k', s')" "step_ok k' s'" unfolding t by blast
  have "readable (cont_answers k')"
    using moveDraggableTo_cont [OF m(1)] rd by (auto simp: readable_def)
  from run_cont_ok [OF m(2) this] m(1) show ?thesis by simp
qed

lemma run_task_ok:
  assumes b: "board_inv st" and ok: "restore_ok st" and i: "i < length (tasks st)"
    and one: "\<And>n x y. tasks st ! i = CopyReady n (CbMouseDown x y) \<Longrightarrow> calm st"
  shows "\<exists>st'. run_task (tasks st ! i) w h (drop_task i st) = Some st' \<and> board_inv st' \<and> restore_ok st'"
proof -
  let ?s = "drop_task i st" and ?k = "tasks st ! i"
  have b0: "board_off 0 ?s" and bs: "board_inv ?s"
    using drop_task_board [OF _ i, of 0] b by (simp_all add: board_inv_def)
  have co: "copies_ok st" using b by (simp add: board_defs)
  note drop = drop_task_copies [OF co i]
  have mem: "?k \<in> set (tasks st)" using i by simp
  have w: "n \<in> set (waiting st)" if "?k = CopyImage n cb" for n cb
    using mem unfolding that waiting_def by force
  have r: "n \<in> set (ready st)" if "?k = CopyReady n cb" for n cb
    using mem unfolding that ready_def by force
  have mv: "move_ok ?s mv = move_ok st mv" for mv by (cases mv) simp_all
  have c: "cont_ok ?s k = cont_ok st k" for k by (cases k) simp_all
  show ?thesis
  proof (cases ?k)
    case (Retry d mv k)
    with drop_task_restore(1) [OF ok i] have "quiet ?s" "task_ok st ?k" by simp_all
    with Retry move_and_run [OF bs, of d mv k] show ?thesis by (simp add: run_task_def mv c)
  next
    case (OriginalImage n)
    note sg = same_graph_imageLoaded [of n w h ?s]
    have "restore_ok ?s" using drop_task_restore(2) [OF ok i] OriginalImage by simp
    with restore_ok_same_graph [OF sg] same_graph_board(7) [OF sg] bs OriginalImage
    show ?thesis by (simp add: run_task_def)
  next
    case (CopyImage n cb)
    note n = w [OF CopyImage]
    have facts: "n \<notin> set (draggables ?s)" "n \<notin> set (waiting ?s)" "n \<notin> set (ready ?s)"
      "n \<le> uniqueId ?s" "fresh_copy (dobj ?s n)"
      using co n drop CopyImage by (auto simp: copies_ok_def)
    note l = copyImageLoaded_board [OF b0 facts, of cb]
    have "restore_ok (copyImageLoaded n cb ?s)"
    proof (cases cb)
      case (CbMove mv k)
      with drop_task_restore(1) [OF ok i] CopyImage have q: "quiet ?s" and t: "task_ok st ?k" by simp_all
      have "cont_ok (copyImageLoaded n cb ?s) k" if "cont_ok st k"
        using that by (rule cont_ok_mono) (auto simp: l)
      moreover have "move_ok (copyImageLoaded n cb ?s) mv = move_ok st mv" by (cases mv) (simp_all add: l)
      ultimately have "task_ok (copyImageLoaded n cb ?s) (CopyReady n cb)"
        using t CopyImage CbMove by simp
      with quiet_append [OF q _ l(4)] l(2) q show ?thesis by (simp add: quiet_def)
    next
      case (CbMouseDown x y)
      with drag_task_alone [OF ok mem] CopyImage have "\<not> restoring st" by simp
      with drop_task_restore(2) [OF ok i] CopyImage CbMouseDown have "\<not> restoring ?s" by simp
      with l(4) CbMouseDown have "\<not> restoring (copyImageLoaded n cb ?s)" by (simp add: restoring_def)
      then show ?thesis by (simp add: restore_ok_def)
    qed
    with l(1) CopyImage show ?thesis by (simp add: run_task_def board_inv_def)
  next
    case (CopyReady n cb)
    note n = r [OF CopyReady]
    have facts: "n \<in> set (draggables ?s)" "n \<notin> set (ready ?s)" "inContainer (dobj ?s n)"
      using co n drop CopyReady by (auto simp: copies_ok_def fresh_copy_def)
    show ?thesis
    proof (cases cb)
      case (CbMove mv k)
      with drop_task_restore(1) [OF ok i] CopyReady have "quiet ?s" "task_ok st ?k" by simp_all
      with CopyReady CbMove move_and_run [OF bs _ facts(1,3), of mv k]
      show ?thesis by (simp add: run_task_def run_callback_def mv c)
    next
      case (CbMouseDown x y)
      with one CopyReady have calm: "calm ?s" by (simp add: calm_def)
      from CbMouseDown drag_task_alone [OF ok mem] CopyReady have "\<not> restoring st" by simp
      with drop_task_restore(2) [OF ok i] CopyReady CbMouseDown have nr: "\<not> restoring ?s" by simp
      from mouseDown_board(1) [OF bs facts(1) calm facts(2)] mouseDown_restore [OF bs facts(1) calm facts(2) nr]
        CopyReady CbMouseDown
      show ?thesis by (simp add: run_task_def run_callback_def)
    qed
  qed
qed

lemma dnd_step_ok:
  assumes "dnd_step st st'" and "board_inv st" and "restore_ok st"
  shows "board_inv st' \<and> restore_ok st'"
proof -
  have page: "board_inv s' \<and> restore_ok s'" if "same_graph s' s" "board_inv s" "restore_ok s" for s s'
    using that same_graph_board(7) restore_ok_same_graph by blast
  show ?thesis
    using assms
  proof cases
    case (Down d x y)
    with assms mouseDown_board(1) mouseDown_restore show ?thesis by simp
  next
    case (Up d)
    with mouseUp_board [OF assms(2), of d] have "board_inv st'" by auto
    moreover have "\<not> restoring st'"
      using Up tasks_mouseUp [OF assms(2) Up(3)] by (simp add: restoring_def)
    ultimately show ?thesis by (simp add: restore_ok_def)
  next
    case (Move d x y)
    with page [OF same_graph_mouseMove] assms show ?thesis by simp
  next
    case (DocMove x y)
    with page [OF same_graph_documentMouseMove] assms show ?thesis by simp
  next
    case Left
    with page [OF same_graph_scroll(1)] assms show ?thesis by simp
  next
    case Right
    with page [OF same_graph_scroll(2)] assms show ?thesis by simp
  next
    case (Cycle t)
    with page [OF same_graph_cycle] assms show ?thesis by simp
  next
    case (Task i w h)
    with run_task_ok [OF assms(2,3) Task(1), of w h] show ?thesis by auto
  qed
qed

lemma dnd_reach_ok:
  assumes "dnd_reach c v st" and "individualTargets c = Some True"
    and "\<And>w. v = Some w \<Longrightarrow> answer_readable w"
  shows "board_inv st \<and> restore_ok st"
  using assms
proof (induction rule: dnd_reach.induct)
  case (Start pos dims ts st)
  with addContent_ok [of c v pos dims ts] show ?case by auto
next
  case (Step st st')
  with dnd_step_ok show ?case by blast
qed

end
