(* ===== verification/DndLanding.thy ===== *)
theory DndLanding
  imports DndSteps
begin

text \<open>
  Where a released draggable ends: on the first target that accepts it, centred on it, or back in
  the slider. With one draggable per target allowed, no drop puts a second one on a target. The
  input element holds the answer of the resulting board.
\<close>

section \<open>What the page shows is kept\<close>

definition look :: "draggable \<Rightarrow> css \<times> rat \<times> rat \<times> rat" where
  "look r = (iconEl r, iconWidth r, iconHeight r, iconElLeftOffset r)"

definition geometry :: "target \<Rightarrow> rat \<times> rat \<times> rat \<times> rat \<times> string \<times> bool \<times> nat option" where
  "geometry r = (t_w r, t_h r, offLeft r, offTop r, t_id r, onDrag r, draggableObj r)"

lemma lookD:
  assumes "look r' = look r"
  shows "iconEl r' = iconEl r" "iconWidth r' = iconWidth r" "iconHeight r' = iconHeight r"
    "iconElLeftOffset r' = iconElLeftOffset r"
  using assms by (simp_all add: look_def)

lemma geometryD:
  assumes "geometry r' = geometry r"
  shows "t_w r' = t_w r" "t_h r' = t_h r" "offLeft r' = offLeft r" "offTop r' = offTop r"
    "onDrag r' = onDrag r" "draggableObj r' = draggableObj r" "t_id r' = t_id r"
  using assms by (simp_all add: geometry_def)

definition same_page :: "dnd \<Rightarrow> dnd \<Rightarrow> bool" where
  "same_page st' st \<longleftrightarrow> config st' = config st \<and>
     (\<forall>e. look (dobj st' e) = look (dobj st e)) \<and> (\<forall>u. geometry (tobj st' u) = geometry (tobj st u))"

lemma same_page_refl [simp]: "same_page st st"
  by (simp add: same_page_def)

lemma same_page_trans: "same_page s3 s2 \<Longrightarrow> same_page s2 s1 \<Longrightarrow> same_page s3 s1"
  by (simp add: same_page_def)

lemma same_page_upd_d: "look (f (dobj st d)) = look (dobj st d) \<Longrightarrow> same_page (upd_d d f st) st"
  by (simp add: same_page_def)

lemma same_page_upd_t: "geometry (f (tobj st t)) = geometry (tobj st t) \<Longrightarrow> same_page (upd_t t f st) st"
  by (simp add: same_page_def upd_t_def)

lemma same_page_fold: "(\<And>x s. same_page (f x s) s) \<Longrightarrow> same_page (fold f xs st) st"
  by (induction xs arbitrary: st) (auto intro: same_page_trans)

lemma same_page_num: "same_page (updateNumTextEl t st) st" "same_page (numDraggables_add k t st) st"
proof -
  show "same_page (updateNumTextEl t st) st"
    unfolding updateNumTextEl_def by (rule same_page_upd_t) (simp add: geometry_def)
  show "same_page (numDraggables_add k t st) st"
    by (simp add: numDraggables_add_eq same_page_def look_def)
qed

lemma add_page: "same_page (addDraggable t d st) st"
proof -
  let ?s1 = "upd_d d (\<lambda>r. r\<lparr>onTarget := Some t, onTargetIndex := Some (int (length (draggableList (tobj st t))))\<rparr>) st"
  let ?s2 = "upd_t t (\<lambda>r. r\<lparr>draggableList := draggableList r @ [d]\<rparr>) ?s1"
  have "same_page ?s1 st" by (rule same_page_upd_d) (simp add: look_def)
  moreover have "same_page ?s2 ?s1" by (rule same_page_upd_t) (simp add: geometry_def)
  ultimately show ?thesis
    unfolding addDraggable_def Let_def
    by (intro same_page_trans [OF same_page_num(1)] same_page_trans [OF same_page_num(2)]) (rule same_page_trans)
qed

lemma remove_page: "same_page (removeDraggable t d st) st"
proof -
  let ?k = "js_index (onTargetIndex (dobj st d))"
  let ?s1 = "upd_t t (\<lambda>r. r\<lparr>draggableList := splice1 (draggableList r) ?k\<rparr>) st"
  let ?s2 = "fold (\<lambda>e. upd_d e (shift_onTargetIndex ?k)) (draggableList (tobj ?s1 t)) ?s1"
  let ?s3 = "upd_d d (\<lambda>r. r\<lparr>onTarget := None, onTargetIndex := None\<rparr>) ?s2"
  have "same_page ?s1 st" by (rule same_page_upd_t) (simp add: geometry_def)
  moreover have "same_page ?s2 ?s1"
    by (rule same_page_fold, rule same_page_upd_d) (simp add: look_def shift_onTargetIndex_def)
  moreover have "same_page ?s3 ?s2" by (rule same_page_upd_d) (simp add: look_def)
  ultimately have "same_page ?s3 st" by (blast intro: same_page_trans)
  then show ?thesis
    unfolding removeDraggable_def Let_def
    by (intro same_page_trans [OF same_page_num(1)] same_page_trans [OF same_page_num(2)])
qed

lemma put_on_page: "same_page (put_on t d st) st"
  by (auto simp: put_on_def add_page split: option.splits
      intro: same_page_trans [OF add_page remove_page])

text \<open>Where the centre of a draggable is, and where the code wants it on a target.\<close>

definition centre_x :: "draggable \<Rightarrow> rat" where
  "centre_x r = cssLeft (iconEl r) + iconElLeftOffset r + iconWidth r / 2"

definition centre_y :: "draggable \<Rightarrow> rat" where
  "centre_y r = cssTop (iconEl r) + iconHeight r / 2"

definition centred_on :: "dnd \<Rightarrow> nat \<Rightarrow> nat \<Rightarrow> bool" where
  "centred_on st d t \<longleftrightarrow>
     centre_x (dobj st d) = offLeft (tobj st t) + t_w (tobj st t) / 2 + outline_offset st \<and>
     centre_y (dobj st d) = offTop (tobj st t) + t_h (tobj st t) / 2 + outline_offset st"

lemma snap_centred: "centred_on (snapToTarget t d st) d t"
  by (simp add: centred_on_def snapToTarget_def Let_def centre_x_def centre_y_def outline_offset_def
      set_label_pos_def set_icon_pos_def upd_d_def)

lemma correctZ_centre:
  "correctZIndexes d st = Some st' \<Longrightarrow>
     tobj st' = tobj st \<and> config st' = config st \<and> centre_x (dobj st' e) = centre_x (dobj st e) \<and>
     centre_y (dobj st' e) = centre_y (dobj st e)"
  by (auto simp: correctZIndexes_def bind_eq_Some_conv Let_def upd_d_def centre_x_def centre_y_def set_z_def)

text \<open>The creation or refresh of the field of \<open>d\<close> does not move \<open>d\<close>, nor a target of another field.\<close>

lemma field_centre:
  assumes "targets_allocated st" and "t \<in> set (targets st)" and "t \<notin> set (targetField (dobj st d))"
  shows "tobj (initializeTargetField d st) t = tobj st t"
    "config (initializeTargetField d st) = config st"
    "centre_x (dobj (initializeTargetField d st) e) = centre_x (dobj st e)"
    "centre_y (dobj (initializeTargetField d st) e) = centre_y (dobj st e)"
    "onTarget (dobj (initializeTargetField d st) e) = onTarget (dobj st e)"
proof -
  have fold_keep: "tobj (fold (\<lambda>u. upd_t u f) us s) t = tobj s t \<and>
      dobj (fold (\<lambda>u. upd_t u f) us s) = dobj s \<and> config (fold (\<lambda>u. upd_t u f) us s) = config s"
    if "t \<notin> set us" for us s f
    using that by (induction us arbitrary: s) (auto simp: upd_t_def)
  have "t \<le> uniqueId st" using assms(1,2) by (simp add: targets_allocated_def)
  then have "tobj (initializeTargetField d st) t = tobj st t \<and>
    config (initializeTargetField d st) = config st \<and>
    centre_x (dobj (initializeTargetField d st) e) = centre_x (dobj st e) \<and>
    centre_y (dobj (initializeTargetField d st) e) = centre_y (dobj st e) \<and>
    onTarget (dobj (initializeTargetField d st) e) = onTarget (dobj st e)"
    using assms(3) fold_keep
    by (cases "targetField (dobj st d) = []")
      (simp_all add: initializeTargetField_def create_field_frame centre_x_def centre_y_def)
  then show "tobj (initializeTargetField d st) t = tobj st t"
    "config (initializeTargetField d st) = config st"
    "centre_x (dobj (initializeTargetField d st) e) = centre_x (dobj st e)"
    "centre_y (dobj (initializeTargetField d st) e) = centre_y (dobj st e)"
    "onTarget (dobj (initializeTargetField d st) e) = onTarget (dobj st e)" by auto
qed

section \<open>Landing\<close>

text \<open>What landing promises for a draggable whose icon is at \<open>(l, tp)\<close>.\<close>

definition landed :: "dnd \<Rightarrow> nat \<Rightarrow> rat \<Rightarrow> rat \<Rightarrow> dnd \<Rightarrow> bool" where
  "landed st d l tp st' \<longleftrightarrow>
     (case find (accepts st d l tp) (targets st) of
        Some t \<Rightarrow> d \<in> set (draggables st') \<and> onTarget (dobj st' d) = Some t \<and> centred_on st' d t
      | None \<Rightarrow>
          if isOriginal (dobj st d)
          then d \<in> set (draggables st') \<and> inContainer (dobj st' d) \<and> onTarget (dobj st' d) = None
          else d \<notin> set (draggables st'))"

lemma land_landed:
  assumes ih: "in_hand 0 d st" and land: "land_on_targets d l tp st = Some st'"
  shows "landed st d l tp st'"
proof (cases "find (accepts st d l tp) (targets st)")
  case (Some t)
  then have t: "t \<in> set (targets st)" "accepts st d l tp t" by (auto simp: find_Some_iff)
  have inv: "graph_inv st" using ih by (simp add: board_defs)
  with t have own: "draggableObj (tobj st t) \<noteq> Some d"
    by (auto simp: accepts_def graph_inv_def fields_ok_def)
  let ?p = "put_on t d st"
  let ?s1 = "snapToTarget t d ?p"
  note p = put_on_board [OF ih t(1) own]
  note sg = same_graph_snap [of t d ?p]
  from Some land obtain s2 where s2: "correctZIndexes d ?s1 = Some s2" "st' = initializeTargetField d s2"
    by (auto simp: land_on_targets_def checkIfOnTarget_def checkIfOnTarget_find bind_eq_Some_conv)
  note z = correctZ_centre [OF s2(1)] same_graphD [OF same_graph_correctZ [OF s2(1)]]
  have "draggableObj (tobj s2 t) = draggableObj (tobj st t)"
    using put_on_page [of t d st] by (simp add: z same_graphD [OF sg] same_page_def geometry_def)
  moreover have b2: "board_off 0 s2"
    using p(1) by (simp only: same_graph_board(6) [OF sg] same_graph_board(6) [OF same_graph_correctZ [OF s2(1)]])
  have t2: "t \<in> set (targets s2)"
  proof -
    have "targets ?p = targets st"
      using ih removeDraggable_fields(3) [OF inv]
      by (auto simp: put_on_def addDraggable_frame in_hand_def split: option.splits)
    then show ?thesis using t(1) by (simp add: z same_graphD [OF sg])
  qed
  ultimately have notown: "t \<notin> set (targetField (dobj s2 d))"
    using own b2 p(2) by (auto simp: board_off_def board_core_def graph_inv_def fields_ok_def z same_graphD [OF sg])
  have al: "targets_allocated s2" using b2 by (simp add: board_off_def board_core_def)
  note f = field_centre [OF al t2 notown]
  have "centred_on s2 d t" using snap_centred [of t d ?p] by (simp add: centred_on_def z outline_offset_def)
  then have "centred_on st' d t" by (simp add: centred_on_def s2(2) f outline_offset_def)
  moreover have "d \<in> set (draggables st')" "onTarget (dobj st' d) = Some t"
    using p by (simp_all add: s2(2) field_frame f z same_graphD [OF sg])
  ultimately show ?thesis using Some by (simp add: landed_def)
next
  case None
  let ?s2 = "case onTarget (dobj st d) of None \<Rightarrow> st | Some t \<Rightarrow> removeDraggable t d st"
  have h: "in_hand 0 d ?s2" "onTarget (dobj ?s2 d) = None"
    using ih remove_in_hand [OF ih] by (auto split: option.splits)
  have inv: "graph_inv st" and d: "d \<in> set (draggables st)" using ih by (auto simp: board_defs)
  have orig: "isOriginal (dobj ?s2 d) = isOriginal (dobj st d)" and ds2: "draggables ?s2 = draggables st"
    using removeDraggable_fields [OF inv d] core_restD [OF removeDraggable_fields(9) [OF inv d]]
    by (auto split: option.splits)
  from None land have st': "st' = slider_count 1 d (moveBackToSlider d ?s2)"
    by (simp add: land_on_targets_def checkIfOnTarget_def checkIfOnTarget_find)
  note ds = destroy_in_hand [OF h]
  show ?thesis
  proof (cases "isOriginal (dobj st d)")
    case True
    then have "moveBackToSlider d ?s2 =
        upd_d d (\<lambda>r. (slider_look r)\<lparr>inContainer := True\<rparr>) (destroyTargetField d ?s2)"
      by (simp add: moveBackToSlider_def ds orig)
    with True None d show ?thesis by (simp add: landed_def st' ds ds2)
  next
    case False
    have inv2: "graph_inv ?s2" and d2: "d \<in> set (draggables ?s2)" using h by (auto simp: board_defs)
    then have "indexed stateDraggablesIndex (dobj ?s2) (draggables ?s2)"
      by (simp add: graph_inv_def arrays_ok_def)
    from indexed_memD [OF this d2] obtain k where k: "k < length (draggables ?s2)" "draggables ?s2 ! k = d"
        "stateDraggablesIndex (dobj ?s2 d) = Some (int k)" by auto
    have "d \<notin> set (splice1 (draggables ?s2) (int k))"
      using set_splice1_distinct [OF graph_invD(2) [OF inv2 d2] k(1)] k(2) by simp
    moreover have "draggables (fold (\<lambda>e. upd_d e f) xs s) = draggables s" for f xs s
      by (induction xs arbitrary: s) simp_all
    ultimately have "d \<notin> set (draggables (moveBackToSlider d ?s2))"
      using False k(3) by (simp add: moveBackToSlider_def Let_def ds orig js_index_def)
    with False None show ?thesis by (simp add: landed_def st')
  qed
qed


section \<open>\<open>mouseUp\<close>\<close>

lemma accepts_cong:
  assumes "config st' = config st" "tobj st' = tobj st" "iconWidth (dobj st' d) = iconWidth (dobj st d)"
    "iconHeight (dobj st' d) = iconHeight (dobj st d)"
  shows "accepts st' d l tp = accepts st d l tp"
  using assms by (simp add: fun_eq_iff accepts_def target_free_def centre_in_def Let_def)

text \<open>Releasing the button: the landing, then only the page and the input element change.\<close>

lemma mouseUp_split:
  assumes b: "board_inv st" and d: "d \<in> set (draggables st)" and p: "mousePressed (dobj st d)"
    and up: "mouseUp d st = Some st'"
  obtains s1 s2 s3 where "in_hand 0 d s1"
    "land_on_targets d (cssLeft (iconEl (dobj st d))) (cssTop (iconEl (dobj st d))) s1 = Some s2"
    "update (arrows_if_original d s2) = Some s3" "st' = toggleTargets False s3"
    "config s1 = config st" "tobj s1 = tobj st" "targets s1 = targets st" "draggables s1 = draggables st"
    "iconWidth (dobj s1 d) = iconWidth (dobj st d)" "iconHeight (dobj s1 d) = iconHeight (dobj st d)"
    "isOriginal (dobj s1 d) = isOriginal (dobj st d)"
proof -
  let ?s0 = "upd_d d (\<lambda>r. r\<lparr>grabbed := False\<rparr>) (st\<lparr>currentMovingDraggable := None\<rparr>)"
  let ?s1 = "upd_d d (\<lambda>r. r\<lparr>mousePressed := False\<rparr>) ?s0"
  have sg: "same_graph ?s0 st" by (rule same_graph_trans [OF same_graph_frame(2) same_graph_frame(1)])
  have "in_hand 0 d ?s1"
    using b d p
    by (intro release_in_hand) (simp_all add: board_inv_def same_graph_board [OF sg] same_graphD [OF sg])
  moreover from p up obtain s3 where s3: "checkLandingElement d ?s0 = Some s3" "st' = toggleTargets False s3"
    by (auto simp: mouseUp_def bind_eq_Some_conv)
  have i: "individualTargets (config ?s1) = Some True" using b by (simp add: board_defs indiv_def)
  from s3(1) i obtain s2 where
    "land_on_targets d (cssLeft (iconEl (dobj st d))) (cssTop (iconEl (dobj st d))) ?s1 = Some s2"
    "update (arrows_if_original d s2) = Some s3"
    by (auto simp: checkLandingElement_def Let_def bind_eq_Some_conv)
  ultimately show ?thesis by (intro that [of ?s1 s2 s3]) (use s3(2) in simp_all)
qed

lemma toggle_keep:
  "dobj (toggleTargets b st) = dobj st" "draggables (toggleTargets b st) = draggables st"
  "config (toggleTargets b st) = config st" "inputVal (toggleTargets b st) = inputVal st"
  "targets (toggleTargets b st) = targets st" "geometry (tobj (toggleTargets b st) t) = geometry (tobj st t)"
proof -
  have "dobj (fold (\<lambda>t. upd_t t (\<lambda>r. r\<lparr>dropEffect := b\<rparr>)) ts s) = dobj s \<and>
    inputVal (fold (\<lambda>t. upd_t t (\<lambda>r. r\<lparr>dropEffect := b\<rparr>)) ts s) = inputVal s \<and>
    geometry (tobj (fold (\<lambda>t. upd_t t (\<lambda>r. r\<lparr>dropEffect := b\<rparr>)) ts s) t) = geometry (tobj s t)" for ts s
    by (induction ts arbitrary: s) (simp_all add: upd_t_def geometry_def)
  from this [of "targets st" "st\<lparr>baseDropEffect := b\<rparr>"]
  show "dobj (toggleTargets b st) = dobj st" "inputVal (toggleTargets b st) = inputVal st"
    "geometry (tobj (toggleTargets b st) t) = geometry (tobj st t)"
    by (simp_all add: toggleTargets_def)
qed (simp_all add: same_graphD [OF same_graph_toggle])

lemma update_keep:
  "update st = Some st' \<Longrightarrow> \<exists>v. st' = st\<lparr>inputVal := v\<rparr>"
  by (auto simp: update_def bind_eq_Some_conv split: if_splits)

lemma landed_page:
  assumes "landed st d l tp s" and "dobj s' = dobj s" "draggables s' = draggables s" "config s' = config s"
    and g: "\<And>t. geometry (tobj s' t) = geometry (tobj s t)"
  shows "landed st d l tp s'"
proof -
  have "centred_on s' d t = centred_on s d t" for t
    using geometryD [OF g [of t]] assms(2,4) by (simp add: centred_on_def outline_offset_def)
  with assms show ?thesis by (simp add: landed_def split: option.splits)
qed

lemma mouseUp_landed:
  assumes b: "board_inv st" and d: "d \<in> set (draggables st)" and p: "mousePressed (dobj st d)"
    and up: "mouseUp d st = Some st'"
  shows "landed st d (cssLeft (iconEl (dobj st d))) (cssTop (iconEl (dobj st d))) st'"
proof -
  obtain s1 s2 s3 where ih: "in_hand 0 d s1"
    and land: "land_on_targets d (cssLeft (iconEl (dobj st d))) (cssTop (iconEl (dobj st d))) s1 = Some s2"
    and u: "update (arrows_if_original d s2) = Some s3" and st': "st' = toggleTargets False s3"
    and e: "config s1 = config st" "tobj s1 = tobj st" "targets s1 = targets st"
      "iconWidth (dobj s1 d) = iconWidth (dobj st d)" "iconHeight (dobj s1 d) = iconHeight (dobj st d)"
      "isOriginal (dobj s1 d) = isOriginal (dobj st d)"
    by (rule mouseUp_split [OF b d p up]) blast
  let ?l = "cssLeft (iconEl (dobj st d))" and ?t = "cssTop (iconEl (dobj st d))"
  have "landed s1 d ?l ?t s2" by (rule land_landed [OF ih land])
  then have "landed st d ?l ?t s2"
    using e by (simp add: landed_def accepts_cong [OF e(1,2,4,5)] split: option.splits)
  moreover obtain v where s3: "s3 = (arrows_if_original d s2)\<lparr>inputVal := v\<rparr>" using update_keep [OF u] by blast
  ultimately show ?thesis
    by (elim landed_page)
      (simp_all add: st' toggle_keep s3 arrows_if_original_def updateArrowOpacity_def)
qed

text \<open>The answer is a function of the object graph and the ids.\<close>

lemma nested_cong:
  assumes "\<And>d. d_id (dobj st' d) = d_id (dobj st d)" "\<And>t. t_id (tobj st' t) = t_id (tobj st t)"
    "\<And>d. onTarget (dobj st' d) = onTarget (dobj st d)"
  shows "nested st' d t bs = nested st d t bs"
  by (induction bs arbitrary: d t) (simp_all add: assms)

lemma update_same_graph:
  assumes sg: "same_graph st' st" and b: "board_off c st"
  shows "target_entries st' = target_entries st"
proof -
  note e = same_graphD [OF sg]
  have b': "board_off c st'" using b by (simp only: same_graph_board(6) [OF sg])
  have "below st' t bs" if "below st t bs" for t bs
    using that by induction (auto intro: below.intros simp: e)
  then have ch: "chain_below st' t = chain_below st t" if "t \<in> set (targets st)" for t
    using below_ex [OF b that] by (metis chain_below_eq)
  have n: "nested st' d t bs = nested st d t bs" for d t bs by (rule nested_cong) (simp_all add: e)
  show ?thesis
    unfolding target_entries_board [OF b] target_entries_board [OF b']
    by (simp add: e n ch cong: map_cong)
qed

lemma mouseUp_input:
  assumes b: "board_inv st" and d: "d \<in> set (draggables st)" and p: "mousePressed (dobj st d)"
    and up: "mouseUp d st = Some st'"
  shows "\<exists>es. target_entries st' = Some es \<and> inputVal st' = Some (JArr es)"
proof -
  obtain s1 s2 s3 where ih: "in_hand 0 d s1"
    and land: "land_on_targets d (cssLeft (iconEl (dobj st d))) (cssTop (iconEl (dobj st d))) s1 = Some s2"
    and u: "update (arrows_if_original d s2) = Some s3" and st': "st' = toggleTargets False s3"
    by (rule mouseUp_split [OF b d p up]) blast
  from land_board [OF ih, of "cssLeft (iconEl (dobj st d))" "cssTop (iconEl (dobj st d))"] land
  have "board_inv s2" by auto
  then have b2: "board_inv (arrows_if_original d s2)" by (simp only: same_graph_board(7) [OF same_graph_arrows_if])
  then have "individualTargets (config (arrows_if_original d s2)) = Some True" by (simp add: board_defs indiv_def)
  with u obtain es where es: "target_entries (arrows_if_original d s2) = Some es"
      "s3 = (arrows_if_original d s2)\<lparr>inputVal := Some (JArr es)\<rparr>"
    by (auto simp: update_def bind_eq_Some_conv)
  have "same_graph st' (arrows_if_original d s2)"
    unfolding st' by (rule same_graph_trans [OF same_graph_toggle same_graph_update [OF u]])
  from update_same_graph [OF this, of 0] b2 es show ?thesis
    by (simp add: board_inv_def st' toggle_keep)
qed

end
