(* ===== verification/DndSingle.thy ===== *)
theory DndSingle
  imports DndLanding
begin

text \<open>
  \<open>one_per_target\<close>: in a problem that starts without a saved answer, the reader never gets two
  draggables onto one target.
\<close>

definition single_ok :: "dnd \<Rightarrow> bool" where
  "single_ok st \<longleftrightarrow> (onePerTarget (config st) = Some True \<longrightarrow>
     (\<forall>t \<in> set (targets st). length (draggableList (tobj st t)) \<le> 1))"

lemma single_same_lists:
  assumes "single_ok st" and "config st' = config st" and "set (targets st') \<subseteq> set (targets st)"
    and "\<And>t. draggableList (tobj st' t) = draggableList (tobj st t)"
  shows "single_ok st'"
  using assms by (auto simp: single_ok_def)

lemma single_same_graph: "same_graph st' st \<Longrightarrow> single_ok st \<Longrightarrow> single_ok st'"
  by (rule single_same_lists) (simp_all add: same_graphD)

lemma free_empty:
  assumes "single_ok st" and "onePerTarget (config st) = Some True" and "t \<in> set (targets st)"
    and "target_free st d t" and "d \<notin> set (draggableList (tobj st t))"
  shows "draggableList (tobj st t) = []"
proof (rule ccontr)
  assume ne: "draggableList (tobj st t) \<noteq> []"
  with assms(1-3) have "length (draggableList (tobj st t)) = 1"
    by (auto simp: single_ok_def le_Suc_eq)
  with ne assms(2,4,5) show False
    by (cases "draggableList (tobj st t)") (auto simp: target_free_def)
qed

lemma put_on_single:
  assumes ih: "in_hand c d st" and s: "single_ok st" and t: "t \<in> set (targets st)" and free: "target_free st d t"
  shows "single_ok (put_on t d st)"
  unfolding single_ok_def
proof (intro impI ballI)
  fix u assume one: "onePerTarget (config (put_on t d st)) = Some True" and u: "u \<in> set (targets (put_on t d st))"
  have inv: "graph_inv st" and d: "d \<in> set (draggables st)" using ih by (auto simp: board_defs)
  have frame: "config (put_on t d st) = config st" "targets (put_on t d st) = targets st"
    by (auto simp: put_on_def addDraggable_frame removeDraggable_fields [OF inv d] split: option.splits)
  have short: "length (draggableList (tobj st v)) \<le> 1" if "v \<in> set (targets st)" for v
    using s one that by (simp add: single_ok_def frame)
  show "length (draggableList (tobj (put_on t d st) u)) \<le> 1"
  proof (cases "onTarget (dobj st d)")
    case None
    have "d \<notin> set (draggableList (tobj st t))" using inv t None by (simp add: graph_inv_def links_ok_def)
    with free_empty [OF s _ t free] one have "draggableList (tobj st t) = []" by (simp add: frame)
    with None short u show ?thesis by (simp add: put_on_def addDraggable_tobj addDraggable_frame)
  next
    case (Some t')
    show ?thesis
    proof (cases "t' = t")
      case True
      with Some short u show ?thesis by (simp add: put_on_def frame)
    next
      case False
      obtain k where k: "k < length (draggableList (tobj st t'))" "distinct (draggableList (tobj st t'))"
          "onTargetIndex (dobj st d) = Some (int k)"
        using graph_inv_position [OF inv d Some] by auto
      have rl: "draggableList (tobj (removeDraggable t' d st) v) =
          (if v = t' then splice1 (draggableList (tobj st t')) (int k) else draggableList (tobj st v))" for v
        by (rule removeDraggable_tobj [OF k(2) _ k(1)]) (simp add: k(3) js_index_def)
      have "d \<notin> set (draggableList (tobj st t))" using inv t Some False by (simp add: graph_inv_def links_ok_def)
      with free_empty [OF s _ t free] one have "draggableList (tobj st t) = []" by (simp add: frame)
      with Some False short u show ?thesis
        using length_splice1 [OF k(1)] short [of t']
        by (auto simp: put_on_def addDraggable_tobj rl addDraggable_frame removeDraggable_fields [OF inv d Some])
    qed
  qed
qed

lemma field_single:
  assumes "single_ok st" and "targets_allocated st"
  shows "single_ok (initializeTargetField d st)"
proof (cases "targetField (dobj st d) = []")
  case True
  let ?cs = "dc_fields (originalConf (dobj st d))"
  note f = create_field_frame [where owner = "Some d" and cs = ?cs and st = st]
  have "length (draggableList (tobj (create_targets (Some d) ?cs st) u)) \<le> 1"
    if "u \<in> set (targets (create_targets (Some d) ?cs st))" "onePerTarget (config st) = Some True" for u
  proof (cases "u \<in> set (targets st)")
    case True
    with assms that(2) show ?thesis by (simp add: f(7) targets_allocated_def single_ok_def)
  next
    case False
    with that(1) have "uniqueId st < u" "u \<le> uniqueId st + length ?cs" by (auto simp: f(6))
    then show ?thesis by (simp add: f(8))
  qed
  with True show ?thesis by (simp add: initializeTargetField_def single_ok_def f(1))
next
  case False
  from single_same_graph [OF same_graph_refresh_field [OF False] assms(1)] show ?thesis .
qed

lemma moveBack_lists:
  assumes h: "in_hand c d st" and off: "onTarget (dobj st d) = None"
  shows "config (moveBackToSlider d st) = config st" "set (targets (moveBackToSlider d st)) \<subseteq> set (targets st)"
    "draggableList (tobj (moveBackToSlider d st) t) = draggableList (tobj st t)"
proof -
  have inv: "graph_inv st" and d: "d \<in> set (draggables st)" using h by (auto simp: board_defs)
  note f = destroyTargetField_effect [OF inv d]
  have fold_keep: "tobj (fold (\<lambda>e. upd_d e g) xs s) = tobj s \<and> targets (fold (\<lambda>e. upd_d e g) xs s) = targets s \<and>
    config (fold (\<lambda>e. upd_d e g) xs s) = config s" for g xs s
    by (induction xs arbitrary: s) simp_all
  show "config (moveBackToSlider d st) = config st" "set (targets (moveBackToSlider d st)) \<subseteq> set (targets st)"
    "draggableList (tobj (moveBackToSlider d st) t) = draggableList (tobj st t)"
    using f by (auto simp: moveBackToSlider_def Let_def fold_keep)
qed

lemma land_single:
  assumes ih: "in_hand 0 d st" and s: "single_ok st" and land: "land_on_targets d l tp st = Some st'"
  shows "single_ok st'"
proof (cases "find (accepts st d l tp) (targets st)")
  case (Some t)
  then have t: "t \<in> set (targets st)" "accepts st d l tp t" by (auto simp: find_Some_iff)
  have inv: "graph_inv st" using ih by (simp add: board_defs)
  with t have own: "draggableObj (tobj st t) \<noteq> Some d"
    by (auto simp: accepts_def graph_inv_def fields_ok_def)
  from Some land obtain s2 where s2: "correctZIndexes d (snapToTarget t d (put_on t d st)) = Some s2"
      "st' = initializeTargetField d s2"
    by (auto simp: land_on_targets_def checkIfOnTarget_def checkIfOnTarget_find bind_eq_Some_conv)
  have sg: "same_graph s2 (put_on t d st)"
    by (rule same_graph_trans [OF same_graph_correctZ [OF s2(1)] same_graph_snap])
  have "single_ok (put_on t d st)" using t by (intro put_on_single [OF ih s]) (simp_all add: accepts_def)
  then have "single_ok s2" by (rule single_same_graph [OF sg])
  moreover have "board_off 0 s2" using put_on_board(1) [OF ih t(1) own] by (simp only: same_graph_board(6) [OF sg])
  ultimately show ?thesis unfolding s2(2) by (intro field_single) (simp_all add: board_off_def board_core_def)
next
  case None
  let ?s2 = "case onTarget (dobj st d) of None \<Rightarrow> st | Some t \<Rightarrow> removeDraggable t d st"
  have inv: "graph_inv st" and d: "d \<in> set (draggables st)" using ih by (auto simp: board_defs)
  have h: "in_hand 0 d ?s2" "onTarget (dobj ?s2 d) = None"
    using ih remove_in_hand [OF ih] by (auto split: option.splits)
  have s2: "single_ok ?s2"
  proof (cases "onTarget (dobj st d)")
    case (Some t)
    obtain k where k: "k < length (draggableList (tobj st t))" "distinct (draggableList (tobj st t))"
        "onTargetIndex (dobj st d) = Some (int k)"
      using graph_inv_position [OF inv d Some] by auto
    have rl: "draggableList (tobj (removeDraggable t d st) v) =
        (if v = t then splice1 (draggableList (tobj st t)) (int k) else draggableList (tobj st v))" for v
      by (rule removeDraggable_tobj [OF k(2) _ k(1)]) (simp add: k(3) js_index_def)
    show ?thesis using s Some length_splice1 [OF k(1)]
      by (auto simp: single_ok_def rl removeDraggable_fields [OF inv d Some])
  qed (use s in simp)
  from None land have st': "st' = slider_count 1 d (moveBackToSlider d ?s2)"
    by (simp add: land_on_targets_def checkIfOnTarget_def checkIfOnTarget_find)
  show ?thesis
    by (rule single_same_lists [OF s2]) (use moveBack_lists [OF h] in \<open>simp_all add: st'\<close>)
qed

lemma mouseUp_single:
  assumes b: "board_inv st" and s: "single_ok st" and d: "d \<in> set (draggables st)" and up: "mouseUp d st = Some st'"
  shows "single_ok st'"
proof (cases "mousePressed (dobj st d)")
  case False
  with s up show ?thesis by (simp add: mouseUp_def)
next
  case True
  obtain s1 s2 s3 where ih: "in_hand 0 d s1"
    and land: "land_on_targets d (cssLeft (iconEl (dobj st d))) (cssTop (iconEl (dobj st d))) s1 = Some s2"
    and u: "update (arrows_if_original d s2) = Some s3" and st': "st' = toggleTargets False s3"
    and e: "config s1 = config st" "tobj s1 = tobj st" "targets s1 = targets st"
    by (rule mouseUp_split [OF b d True up]) blast
  have "single_ok s1" using s e by (simp add: single_ok_def)
  from land_single [OF ih this land] have "single_ok s2" .
  moreover have "same_graph st' s2"
    unfolding st'
    by (rule same_graph_trans [OF same_graph_toggle same_graph_trans [OF same_graph_update [OF u] same_graph_arrows_if]])
  ultimately show ?thesis by (rule single_same_graph [rotated])
qed

lemma copy_lists:
  "draggableList (tobj (makeDraggableCopy d cb st) t) = draggableList (tobj st t)"
  "targets (makeDraggableCopy d cb st) = targets st" "config (makeDraggableCopy d cb st) = config st"
  by (simp_all add: makeDraggableCopy_def getUniqueId_def Let_def)

lemma mouseDown_single:
  assumes "single_ok st" shows "single_ok (mouseDown d x y st)"
proof -
  have g: "draggableList (tobj (grab d s) t) = draggableList (tobj s t)" "targets (grab d s) = targets s"
    "config (grab d s) = config s" for s t
    using same_graphD [OF grab_page, of d s] by simp_all
  show ?thesis
    by (rule single_same_lists [OF assms]) (simp_all add: mouseDown_def g copy_lists)
qed

lemma copyLoaded_lists:
  "draggableList (tobj (copyImageLoaded n cb st) t) = draggableList (tobj st t)"
  "targets (copyImageLoaded n cb st) = targets st" "config (copyImageLoaded n cb st) = config st"
  by (simp_all add: copyImageLoaded_def Let_def)

section \<open>A run without a saved answer\<close>

definition drag_run :: "dnd \<Rightarrow> bool" where
  "drag_run st \<longleftrightarrow> board_inv st \<and> restore_ok st \<and> \<not> restoring st \<and> single_ok st"

lemma drag_run_task:
  assumes r: "drag_run st" and i: "i < length (tasks st)"
    and one: "\<And>n x y. tasks st ! i = CopyReady n (CbMouseDown x y) \<Longrightarrow> calm st"
    and run: "run_task (tasks st ! i) w h (drop_task i st) = Some st'"
  shows "\<not> restoring st' \<and> single_ok st'"
proof -
  let ?s = "drop_task i st" and ?k = "tasks st ! i"
  have ok: "restore_ok st" and b: "board_inv st" and nr: "\<not> restoring st" using r by (auto simp: drag_run_def)
  have nk: "\<not> restoring_task ?k" using nr i by (auto simp: restoring_def)
  have ns: "\<not> restoring ?s" using drop_task_restore(2) [OF ok i nk] nr by simp
  have s: "single_ok ?s" using r by (simp add: drag_run_def single_ok_def drop_task_def)
  have bs: "board_inv ?s" using drop_task_board [OF _ i, of 0] b by (simp add: board_inv_def)
  have co: "copies_ok st" using b by (simp add: board_defs)
  note drop = drop_task_copies [OF co i]
  show ?thesis
  proof (cases ?k)
    case (Retry d mv k)
    with nk show ?thesis by simp
  next
    case (OriginalImage n)
    with run have st': "st' = originalImageLoaded n w h ?s" by (simp add: run_task_def)
    note sg = same_graph_imageLoaded [of n w h ?s]
    show ?thesis
      using ns single_same_graph [OF sg s] by (simp add: st' restoring_def same_graphD(6) [OF sg])
  next
    case (CopyImage n cb)
    with nk obtain x y where cb: "cb = CbMouseDown x y" by (cases cb) auto
    from CopyImage run have st': "st' = copyImageLoaded n cb ?s" by (simp add: run_task_def)
    have "tasks st' = tasks ?s @ [CopyReady n cb]" by (simp add: st' copyImageLoaded_def Let_def)
    with ns cb have "\<not> restoring st'" by (simp add: restoring_def)
    moreover have "single_ok st'" unfolding st' by (rule single_same_lists [OF s]) (simp_all add: copyLoaded_lists)
    ultimately show ?thesis by simp
  next
    case (CopyReady n cb)
    with nk obtain x y where cb: "cb = CbMouseDown x y" by (cases cb) auto
    have mem: "?k \<in> set (tasks st)" using i by simp
    then have "n \<in> set (ready st)" unfolding CopyReady ready_def by force
    then have facts: "n \<in> set (draggables ?s)" "n \<notin> set (ready ?s)"
      using co drop CopyReady by (auto simp: copies_ok_def)
    have calm: "calm ?s" using one CopyReady cb by (simp add: calm_def)
    from CopyReady cb run have st': "st' = mouseDown n x y ?s" by (simp add: run_task_def run_callback_def)
    from mouseDown_board(2) [OF bs facts(1) calm facts(2), of x y] obtain ks where
      "tasks st' = tasks ?s @ ks"
      "ks = [] \<or> (\<exists>k \<in> set (copy_tasks (Suc (uniqueId ?s)) (CbMouseDown x y)). ks = [k])"
      unfolding st' by blast
    with ns have "\<not> restoring st'" by (auto simp: restoring_def copy_tasks_def)
    with mouseDown_single [OF s] show ?thesis by (simp add: st')
  qed
qed

lemma drag_run_step:
  assumes r: "drag_run st" and step: "dnd_step st st'"
  shows "drag_run st'"
proof -
  have b: "board_inv st" and ok: "restore_ok st" and nr: "\<not> restoring st" and s: "single_ok st"
    using r by (auto simp: drag_run_def)
  have page: "\<not> restoring s' \<and> single_ok s'" if "same_graph s' st" for s'
    using that nr single_same_graph [OF that s] by (simp add: restoring_def same_graphD(6) [OF that])
  have "\<not> restoring st' \<and> single_ok st'"
    using step
  proof cases
    case (Down d x y)
    from mouseDown_board(2) [OF b Down(2) Down(5) Down(3), of x y] obtain ks where
      "tasks st' = tasks st @ ks"
      "ks = [] \<or> (\<exists>k \<in> set (copy_tasks (Suc (uniqueId st)) (CbMouseDown x y)). ks = [k])"
      unfolding Down by blast
    with nr have "\<not> restoring st'" by (auto simp: restoring_def copy_tasks_def)
    with mouseDown_single [OF s] show ?thesis by (simp add: Down)
  next
    case (Up d)
    with tasks_mouseUp [OF b Up(3)] mouseUp_single [OF b s Up(1,3)] nr show ?thesis
      by (simp add: restoring_def)
  next
    case (Move d x y)
    with page [OF same_graph_mouseMove] show ?thesis by simp
  next
    case (DocMove x y)
    with page [OF same_graph_documentMouseMove] show ?thesis by simp
  next
    case Left
    with page [OF same_graph_scroll(1)] show ?thesis by simp
  next
    case Right
    with page [OF same_graph_scroll(2)] show ?thesis by simp
  next
    case (Cycle t)
    with page [OF same_graph_cycle] show ?thesis by simp
  next
    case (Task i w h)
    from drag_run_task [OF r Task(1) Task(2) Task(3)] show ?thesis by simp
  qed
  with dnd_step_ok [OF step b ok] show ?thesis by (simp add: drag_run_def)
qed


lemma addContent_drag_run:
  assumes c: "individualTargets c = Some True" and start: "addContent (new_state c None pos dims ts) = Some st"
  shows "drag_run st"
proof -
  let ?s0 = "(initializeBaseTargets (new_state c None pos dims ts))\<lparr>showElLeftMargin := 0\<rparr>"
  let ?s1 = "updateArrowOpacity (init ?s0)"
  have e: "empty_inv (initializeBaseTargets (new_state c None pos dims ts))"
    by (rule base_targets_empty [OF new_state_empty [OF c]])
  have sg: "same_graph ?s0 (initializeBaseTargets (new_state c None pos dims ts))" by (simp add: same_graph_def)
  have "board_inv ?s0" "quiet ?s0"
    using empty_board [OF e] by (simp_all only: same_graph_board(7) [OF sg] quiet_same_graph [OF sg])
  from init_board [OF this] have q1: "quiet ?s1" by (simp add: quiet_same_graph [OF same_graph_arrows])
  have lists: "\<forall>t. draggableList (tobj ?s1 t) = []"
  proof -
    have "\<forall>t. draggableList (tobj (processTarget c' None s) t) = []"
      if "\<forall>t. draggableList (tobj s t) = []" for c' s
      using that by (auto simp: processTarget_def getUniqueId_def Let_def)
    then have ts: "\<forall>t. draggableList (tobj (fold (\<lambda>c. processTarget (target_conf c) None) cs s) t) = []"
      if "\<forall>t. draggableList (tobj s t) = []" for cs s
      using that by (induction cs arbitrary: s) simp_all
    have "tobj (processDraggable obj s) = tobj s" for obj s
      by (auto simp: processDraggable_def getUniqueId_def Let_def)
    then have ds: "tobj (fold (\<lambda>d. processDraggable (draggable_conf d)) cs s) = tobj s" for cs s
      by (induction cs arbitrary: s) simp_all
    show ?thesis
      by (simp add: updateArrowOpacity_def init_def ds initializeBaseTargets_def ts new_state_def)
  qed
  then have s1: "single_ok ?s1" by (simp add: single_ok_def)
  have iv: "inputVal ?s1 = None" by (rule start_inputVal)
  with start have "update ?s1 = Some st" by (simp add: addContent_def check_def)
  note sg = same_graph_update [OF this]
  have "\<not> restoring st" using q1 quiet_restore_ok by (auto simp: quiet_same_graph [OF sg, symmetric])
  moreover have "single_ok st" by (rule single_same_graph [OF sg s1])
  ultimately show ?thesis using addContent_ok [OF c, of None pos dims ts] start by (auto simp: drag_run_def)
qed

end
