(* ===== verification/DndCorrect.thy ===== *)
theory DndCorrect
  imports DndSingle
begin

text \<open>
  What is proved of the drag-and-drop problem as a whole: the invariant of its reachable states,
  that no event throws, where a draggable lands, and what the input element holds. The example
  problem \<open>demo_conf\<close>, with one target and one draggable, shows that the hypotheses can hold.
\<close>

section \<open>An example problem\<close>

definition demo_start :: "dnd option" where
  "demo_start = addContent (new_state demo_conf None (0, 0) (300, 300) (\<lambda>_. (20, 10)))"

definition demo :: dnd where
  "demo = the demo_start"

lemma demo_start_eq: "demo_start = Some demo"
proof -
  have "individualTargets demo_conf = Some True" by (simp add: demo_conf_def)
  from addContent_ok [OF this, of None "(0, 0)" "(300, 300)" "\<lambda>_. (20, 10)"]
  show ?thesis by (auto simp: demo_def demo_start_def)
qed

lemma demo_facts:
  "dnd_reach demo_conf None demo" "board_inv demo" "restore_ok demo"
  "draggables demo = [2]" "targets demo = [1]" "tasks demo = []" "calm demo" "ready demo = []" "\<not> restoring demo"
  "hasLoaded (dobj demo 2)" "inContainer (dobj demo 2)" "\<not> isReusable (dobj demo 2)" "isOriginal (dobj demo 2)"
  "\<not> mousePressed (dobj demo 2)" "\<not> numDraggablesOnMe (dobj demo 2) > 0" "zIndex (dobj demo 2) = 1"
proof -
  have "individualTargets demo_conf = Some True" by (simp add: demo_conf_def)
  from addContent_ok [OF this, of None "(0, 0)" "(300, 300)" "\<lambda>_. (20, 10)"]
  show "board_inv demo" "restore_ok demo"
    by (auto simp: demo_def demo_start_def)
  note s = demo_start_eq
  show "dnd_reach demo_conf None demo"
    using s unfolding demo_start_def by (rule dnd_reach.Start)
  have "map_option (\<lambda>st. (draggables st, targets st, tasks st)) demo_start = Some ([2], [1], [])"
    by code_simp
  then show "draggables demo = [2]" "targets demo = [1]" and t: "tasks demo = []" by (simp_all add: s)
  have "map_option (\<lambda>st. let r = dobj st 2 in (hasLoaded r, inContainer r, isReusable r, isOriginal r,
      mousePressed r, numDraggablesOnMe r > 0, zIndex r)) demo_start
    = Some (True, True, False, True, False, False, 1)"
    by code_simp
  then show h: "hasLoaded (dobj demo 2)" "inContainer (dobj demo 2)" "\<not> isReusable (dobj demo 2)"
    "isOriginal (dobj demo 2)" "\<not> mousePressed (dobj demo 2)" "\<not> numDraggablesOnMe (dobj demo 2) > 0"
    "zIndex (dobj demo 2) = 1"
    by (simp_all add: s Let_def)
  from h(5) \<open>draggables demo = [2]\<close> show "calm demo" by (simp add: calm_def)
  from t show "ready demo = []" "\<not> restoring demo" by (simp_all add: ready_def restoring_def)
qed

text \<open>The draggable of the example under the mouse.\<close>

definition demo_held :: dnd where
  "demo_held = mouseDown 2 105 105 demo"

lemma demo_held_facts:
  "dnd_reach demo_conf None demo_held" "mousePressed (dobj demo_held 2)" "2 \<in> set (draggables demo_held)"
proof -
  have "dnd_step demo demo_held"
    unfolding demo_held_def by (rule dnd_step.Down) (simp_all add: demo_facts)
  with demo_facts(1) show "dnd_reach demo_conf None demo_held" by (rule dnd_reach.Step)
  note g = same_graphD [OF grab_page]
  show "mousePressed (dobj demo_held 2)" "2 \<in> set (draggables demo_held)"
    using demo_facts by (simp_all add: demo_held_def mouseDown_def g grabbed_look_def)
qed

section \<open>The invariant\<close>



section \<open>No event throws\<close>

text \<open>C17. In a reachable state, releasing the mouse button over any draggable does not throw, in
  particular the recursion of \<open>addTargetRecursively\<close> that it starts ends; and no timer or image
  load throws. (A pressed copy is only created while no other draggable is held.)\<close>

theorem events_return:
  assumes "dnd_reach c v st" and "individualTargets c = Some True"
    and "\<And>w. v = Some w \<Longrightarrow> answer_readable w"
  shows "(\<forall>d \<in> set (draggables st). \<exists>st'. mouseUp d st = Some st') \<and>
    (\<forall>i < length (tasks st). (\<forall>n x y. tasks st ! i = CopyReady n (CbMouseDown x y) \<longrightarrow> calm st) \<longrightarrow>
       (\<exists>st'. run_task (tasks st ! i) w h (drop_task i st) = Some st'))"
proof -
  have "board_inv st" "restore_ok st" using dnd_reach_ok assms by blast+
  then show ?thesis using mouseUp_board run_task_ok by blast
qed

lemma events_return_witness: "\<exists>st'. mouseUp 2 demo_held = Some st'"
proof -
  have "individualTargets demo_conf = Some True" by (simp add: demo_conf_def)
  from events_return [OF demo_held_facts(1) this] demo_held_facts(3) show ?thesis by simp
qed

section \<open>Landing\<close>



section \<open>The slider\<close>



section \<open>The answer\<close>

text \<open>C18. After a draggable is released the input element holds the answer of the resulting board:
  for each target, in the order of \<open>state.targets\<close>, and each draggable on it, the nested object
  of the chain of draggables below.\<close>

theorem release_updates_input:
  assumes "dnd_reach c v st" and "individualTargets c = Some True"
    and "\<And>w. v = Some w \<Longrightarrow> answer_readable w"
    and "d \<in> set (draggables st)" and "mousePressed (dobj st d)" and "mouseUp d st = Some st'"
  shows "inputVal st' = Some (JArr (concat (map (\<lambda>t. map (\<lambda>e. nested st' e t (chain_below st' t))
     (draggableList (tobj st' t))) (targets st'))))"
proof -
  have b: "board_inv st" using dnd_reach_ok assms(1-3) by blast
  from mouseUp_board [OF b assms(4)] assms(6) have "board_off 0 st'" by (auto simp: board_inv_def)
  from target_entries_board [OF this] mouseUp_input [OF b assms(4-6)] show ?thesis by auto
qed

lemma release_updates_input_witness:
  "\<exists>st'. mouseUp 2 demo_held = Some st' \<and>
     inputVal st' = Some (JArr (concat (map (\<lambda>t. map (\<lambda>e. nested st' e t (chain_below st' t))
     (draggableList (tobj st' t))) (targets st'))))"
proof -
  have i: "individualTargets demo_conf = Some True" by (simp add: demo_conf_def)
  have "board_inv demo_held" using dnd_reach_ok [OF demo_held_facts(1) i] by simp
  then obtain st' where "mouseUp 2 demo_held = Some st'" using mouseUp_board demo_held_facts(3) by blast
  with release_updates_input [OF demo_held_facts(1) i _ demo_held_facts(3,2)] show ?thesis by auto
qed

text \<open>C24. What \<open>update\<close> writes, \<open>check\<close> reads: the entry of a draggable that lies on \<open>t\<close> with the
  draggables \<open>bs\<close> below has depth \<open>1 + 2 * |bs|\<close>, and for depth 1 and 3, the depths that
  \<open>processAnswerTargets\<close> restores, reading the chain gives back the ids of the draggables and
  targets.\<close>

theorem entry_roundtrip:
  assumes "addTargetRecursively fuel st d (Some t) = Some e" and "below st t bs" and "length bs < fuel"
  shows "findDepth e 0 = 1 + 2 * length bs \<and>
    (bs = [] \<longrightarrow> read_chain (findDepth e 0) e =
      Some \<lparr> baseDraggableId = JStr (d_id (dobj st d)), baseTargetId = JStr (t_id (tobj st t)),
             layeredDraggableId = JNull, layeredTargetId = JNull \<rparr>) \<and>
    (\<forall>b. bs = [b] \<longrightarrow> read_chain (findDepth e 0) e =
      Some \<lparr> baseDraggableId = JStr (d_id (dobj st b)),
             baseTargetId = JStr (t_id (tobj st (the (onTarget (dobj st b))))),
             layeredDraggableId = JStr (d_id (dobj st d)), layeredTargetId = JStr (t_id (tobj st t)) \<rparr>)"
proof -
  have e: "e = nested st d t bs" using addTargetRecursively_below [OF assms(2,3), of d] assms(1) by simp
  have base: "read_chain 1 (nested st d t []) = Some \<lparr> baseDraggableId = JStr (d_id (dobj st d)),
      baseTargetId = JStr (t_id (tobj st t)), layeredDraggableId = JNull, layeredTargetId = JNull \<rparr>"
    by (rule read_nested_base)
  have layer: "read_chain 3 (nested st d t [b]) = Some \<lparr> baseDraggableId = JStr (d_id (dobj st b)),
      baseTargetId = JStr (t_id (tobj st (the (onTarget (dobj st b))))),
      layeredDraggableId = JStr (d_id (dobj st d)), layeredTargetId = JStr (t_id (tobj st t)) \<rparr>"
    if "bs = [b]" for b
  proof -
    from assms(2) that obtain u where "onTarget (dobj st b) = Some u" by (auto simp: below_Cons)
    from read_nested_layer [OF this] this show ?thesis by simp
  qed
  show ?thesis
    using base layer by (auto simp: e findDepth_nested numeral_3_eq_3 simp del: nested.simps)
qed

definition one_layer :: dnd where
  "one_layer = (let s = new_state demo_conf None (0, 0) (300, 300) (\<lambda>_. (20, 10)) in
     s\<lparr>dobj := (dobj s)(2 := (dobj s 2)\<lparr>d_id := ''a'', onTarget := Some 1\<rparr>, 3 := (dobj s 3)\<lparr>d_id := ''b''\<rparr>),
       tobj := (tobj s)(1 := (tobj s 1)\<lparr>t_id := ''t''\<rparr>,
                        4 := (tobj s 4)\<lparr>t_id := ''f'', onDrag := True, draggableObj := Some 2\<rparr>)\<rparr>)"

lemma entry_roundtrip_witness:
  "findDepth (JObj [(''b'', JObj [(''f'', JObj [(''a'', JStr ''t'')])])]) 0 = 3 \<and>
   addTargetRecursively 2 one_layer 3 (Some 4) = Some (JObj [(''b'', JObj [(''f'', JObj [(''a'', JStr ''t'')])])])"
proof -
  have b: "below one_layer 4 [2]"
    by (rule below.over [where u = 1]; (rule below.floor)?) (simp_all add: one_layer_def new_state_def Let_def)
  have a: "addTargetRecursively 2 one_layer 3 (Some 4)
      = Some (JObj [(''b'', JObj [(''f'', JObj [(''a'', JStr ''t'')])])])"
    by (simp add: one_layer_def new_state_def Let_def numeral_2_eq_2)
  from entry_roundtrip [OF a b] a show ?thesis by simp
qed

section \<open>One draggable per target\<close>

text \<open>C12. With \<open>one_per_target\<close>, in a problem that starts without a saved answer no target ever
  holds two draggables.\<close>

theorem one_per_target:
  assumes "dnd_reach c None st" and "individualTargets c = Some True" and "onePerTarget (config st) = Some True"
    and "t \<in> set (targets st)"
  shows "length (draggableList (tobj st t)) \<le> 1"
proof -
  have "drag_run st"
    using assms(1,2)
  proof (induction rule: dnd_reach.induct)
    case (Start pos dims ts st)
    then show ?case using addContent_drag_run by blast
  next
    case (Step st st')
    then show ?case using drag_run_step by blast
  qed
  with assms(3,4) show ?thesis by (simp add: drag_run_def single_ok_def)
qed

lemma one_per_target_witness: "length (draggableList (tobj demo 1)) \<le> 1"
proof -
  have "individualTargets demo_conf = Some True" by (simp add: demo_conf_def)
  moreover have "map_option (\<lambda>st. onePerTarget (config st)) demo_start = Some (Some True)" by code_simp
  then have "onePerTarget (config demo) = Some True"
    by (simp add: demo_start_eq)
  ultimately show ?thesis by (rule one_per_target [OF demo_facts(1)]) (simp add: demo_facts)
qed

end
