(* ===== verification/DndOrder.thy ===== *)
theory DndOrder
  imports DndCorrect
begin

text \<open>
  The visible order of the draggables on a target (\<open>correctZIndexes\<close>, \<open>cycleDraggableOrder\<close>),
  and where the test of \<open>checkIfOnTarget\<close> looks for the centre of a draggable.
\<close>

section \<open>On top after a drop\<close>

lemma highest_z_bounds:
  "-10000 \<le> highest_z st ds \<and> (\<forall>e \<in> set ds. zIndex (dobj st e) \<noteq> 1000 \<longrightarrow> zIndex (dobj st e) \<le> highest_z st ds)"
proof -
  let ?f = "\<lambda>d hi. if zIndex (dobj st d) > hi \<and> zIndex (dobj st d) \<noteq> 1000 then zIndex (dobj st d) else hi"
  have "hi \<le> fold ?f ds hi \<and>
    (\<forall>e \<in> set ds. zIndex (dobj st e) \<noteq> 1000 \<longrightarrow> zIndex (dobj st e) \<le> fold ?f ds hi)" for hi
  proof (induction ds arbitrary: hi)
    case Nil
    then show ?case by simp
  next
    case (Cons d ds)
    from Cons [of "?f d hi"] show ?case by (auto split: if_splits)
  qed
  then show ?thesis by (simp add: highest_z_def)
qed


definition two_on_target :: dnd where
  "two_on_target = (let s = new_state demo_conf None (0, 0) (300, 300) (\<lambda>_. (20, 10)) in
     s\<lparr>dobj := (dobj s)(2 := (dobj s 2)\<lparr>onTarget := Some 1, zIndex := 1\<rparr>,
                        3 := (dobj s 3)\<lparr>onTarget := Some 1, zIndex := 2\<rparr>),
       tobj := (tobj s)(1 := (tobj s 1)\<lparr>draggableList := [2, 3]\<rparr>)\<rparr>)"


section \<open>A click on the number of a target\<close>

lemma fold_lowest:
  "fold (\<lambda>z lo. if z < lo then z else lo) zs (lo::int) = Min (set (lo # zs))"
proof (induction zs arbitrary: lo)
  case Nil
  then show ?case by simp
next
  case (Cons z zs)
  have "min (Min (set zs \<union> {lo})) z = Min (insert z (set zs \<union> {lo}))" for z :: int and lo :: int
    by (simp add: min.commute)
  with Cons show ?case by (cases "zs = []") (auto simp: min_def)
qed

lemma fold_highest:
  "fold (\<lambda>z hi. if z > hi then z else hi) zs (hi::int) = Max (set (hi # zs))"
proof (induction zs arbitrary: hi)
  case Nil
  then show ?case by simp
next
  case (Cons z zs)
  then show ?case by (cases "zs = []") (auto simp: max_def)
qed

text \<open>C27. A click on the number shown at a target brings its bottom-most draggable to the top and
  keeps the order of the others, as long as the z-indices are within the bounds the loop starts
  from: the bottom-most gets the highest z-index, every other one moves down by one, and the
  element's CSS agrees.\<close>

theorem cycle_rotates:
  fixes st :: dnd and t :: nat
  defines "ds \<equiv> draggableList (tobj st t)" and "st' \<equiv> cycleDraggableOrder t st"
  assumes "distinct ds" and "2 \<le> length ds"
    and "\<forall>d \<in> set ds. -10000 < zIndex (dobj st d) \<and> zIndex (dobj st d) < 10000"
    and "b \<in> set ds" and "\<forall>d \<in> set ds. zIndex (dobj st b) \<le> zIndex (dobj st d)"
  shows "(\<forall>d \<in> set ds. zIndex (dobj st d) \<noteq> zIndex (dobj st b) \<longrightarrow>
      zIndex (dobj st' d) = zIndex (dobj st d) - 1 \<and> zIndex (dobj st' d) < zIndex (dobj st' b)) \<and>
    zIndex (dobj st' b) = Max ((\<lambda>d. zIndex (dobj st d)) ` set ds) \<and>
    (\<forall>d \<in> set ds. cssZ (iconEl (dobj st' d)) = zIndex (dobj st' d)) \<and>
    (\<forall>d. d \<notin> set ds \<longrightarrow> dobj st' d = dobj st d)"
proof -
  let ?z = "\<lambda>d. zIndex (dobj st d)"
  have ne: "set ds \<noteq> {}" using assms(4) by auto
  have "Min (?z ` set ds) = ?z b"
    using assms(6,7) by (intro Min_eqI) auto
  then have low: "fold (\<lambda>z lo. if z < lo then z else lo) (map ?z ds) 10000 = ?z b"
    using ne assms(5,6) by (simp add: fold_lowest)
  have mx: "Max (?z ` set ds) \<in> ?z ` set ds" using ne by (intro Max_in) auto
  with assms(5) have "-10000 < Max (?z ` set ds)" by auto
  then have high: "fold (\<lambda>z hi. if z > hi then z else hi) (map ?z ds) (-10000) = Max (?z ` set ds)"
    using ne by (simp add: fold_highest)
  have st': "st' = fold (\<lambda>d. upd_d d (\<lambda>r. set_z (if zIndex r = ?z b then Max (?z ` set ds) else zIndex r - 1) r)) ds st"
    using assms(4) low high by (simp add: st'_def cycleDraggableOrder_def ds_def Let_def cong: if_cong)
  then have o: "dobj st' d = (if d \<in> set ds then set_z (if ?z d = ?z b then Max (?z ` set ds) else ?z d - 1) (dobj st d)
      else dobj st d)" for d
    using assms(3) by (simp add: fold_upd_d)
  have z: "zIndex (set_z k r) = k" "cssZ (iconEl (set_z k r)) = k" for k r
    by (simp_all add: set_z_def Let_def)
  have "?z d - 1 < Max (?z ` set ds)" if "d \<in> set ds" for d
  proof -
    have "?z d \<le> Max (?z ` set ds)" using that by simp
    then show ?thesis by simp
  qed
  then show ?thesis using assms(6) by (simp add: o z)
qed

lemma cycle_rotates_witness:
  "zIndex (dobj (cycleDraggableOrder 1 two_on_target) 3) < zIndex (dobj (cycleDraggableOrder 1 two_on_target) 2)"
proof -
  have l: "draggableList (tobj two_on_target 1) = [2, 3]" and z: "zIndex (dobj two_on_target 2) = 1"
    "zIndex (dobj two_on_target 3) = 2"
    by (simp_all add: two_on_target_def Let_def new_state_def)
  from cycle_rotates [of two_on_target 1 2] show ?thesis by (simp add: l z del: One_nat_def)
qed

section \<open>Where the centre is looked for\<close>

text \<open>The centre that \<open>checkIfOnTarget\<close> tests is that of the icon without its padding and border, so
  it is \<open>iconElLeftOffset\<close> to the left of the point that \<open>snapToTarget\<close> and the mouse handlers treat
  as the centre: 9 pixels for a draggable that has only a label.\<close>

lemma centre_test_shifted:
  "centre_in st d (cssLeft (iconEl (dobj st d))) (cssTop (iconEl (dobj st d))) t \<longleftrightarrow>
     (let r = tobj st t; x = centre_x (dobj st d) - iconElLeftOffset (dobj st d); y = centre_y (dobj st d)
      in offLeft r \<le> x \<and> x \<le> offLeft r + t_w r \<and> offTop r \<le> y \<and> y \<le> offTop r + t_h r)"
  by (auto simp: centre_in_def centre_x_def centre_y_def Let_def)

lemma follow_mouse_centre:
  "centre_x (follow_mouse st x y r) = x - baseLeft st" "centre_y (follow_mouse st x y r) = y - baseTop st"
  by (simp_all add: follow_mouse_def set_label_pos_def set_icon_pos_def centre_x_def centre_y_def)

text \<open>A label dropped with the pointer on the left edge of a target misses it.\<close>

theorem label_misses_left_edge:
  assumes "dobj st d = follow_mouse st x y r" and "iconElLeftOffset r = 9"
    and "x - baseLeft st < offLeft (tobj st t) + 9"
  shows "\<not> centre_in st d (cssLeft (iconEl (dobj st d))) (cssTop (iconEl (dobj st d))) t"
proof -
  have "iconElLeftOffset (dobj st d) = 9"
    using assms(1,2) by (simp add: follow_mouse_def set_label_pos_def set_icon_pos_def)
  then show ?thesis
    unfolding centre_test_shifted using assms(1,3) by (simp add: Let_def follow_mouse_centre)
qed

end
