(* ===== verification/VidData.thy ===== *)
theory VidData
  imports EdxPrelude
begin

text \<open>
  The data structures of the video player, under \<open>common/lib/xmodule/xmodule/js/src/\<close>:
  \<open>video/00_iterator.js\<close> (a ring of elements), \<open>video/00_sjson.js\<close> (the captions and their
  binary search), \<open>video/00_async_process.js\<close> (a list processed in slices of time) and
  \<open>time.js\<close> (clock texts).
\<close>

section \<open>\<open>Iterator\<close>\<close>

record 'a iterator =
  it_list :: "'a list"
  it_index :: rat
  it_size :: nat
  lastIndex :: int

definition new_iterator :: "'a list \<Rightarrow> 'a iterator" where
  "new_iterator xs = \<lparr> it_list = xs, it_index = 0, it_size = length xs, lastIndex = int (length xs) - 1 \<rparr>"

text \<open>\<open>list[i]\<close>; \<open>undefined\<close> out of range or between two positions.\<close>

definition js_at :: "'a list \<Rightarrow> rat \<Rightarrow> 'a option" where
  "js_at xs q = (if q = of_int \<lfloor>q\<rfloor> \<and> 0 \<le> q \<and> q < of_nat (length xs) then Some (xs ! nat \<lfloor>q\<rfloor>) else None)"

definition isValid :: "'a iterator \<Rightarrow> js \<Rightarrow> bool" where
  "isValid it i = (case i of JNum q \<Rightarrow> q < of_nat (it_size it) \<and> 0 \<le> q | _ \<Rightarrow> False)"

definition start_index :: "'a iterator \<Rightarrow> js \<Rightarrow> rat" where
  "start_index it i = (if isValid it i then (case i of JNum q \<Rightarrow> q | _ \<Rightarrow> it_index it) else it_index it)"

definition it_next :: "'a iterator \<Rightarrow> js \<Rightarrow> 'a option \<times> 'a iterator" where
  "it_next it i =
     (let k = start_index it i;
          k' = (if k \<ge> of_int (lastIndex it) then 0 else k + 1)
      in (js_at (it_list it) k', it\<lparr>it_index := k'\<rparr>))"

definition it_prev :: "'a iterator \<Rightarrow> js \<Rightarrow> 'a option \<times> 'a iterator" where
  "it_prev it i =
     (let k = start_index it i;
          k' = (if k < 1 then of_int (lastIndex it) else k - 1)
      in (js_at (it_list it) k', it\<lparr>it_index := k'\<rparr>))"

definition it_last :: "'a iterator \<Rightarrow> 'a option" where
  "it_last it = js_at (it_list it) (of_int (lastIndex it))"

definition it_first :: "'a iterator \<Rightarrow> 'a option" where
  "it_first it = js_at (it_list it) 0"

definition isEnd :: "'a iterator \<Rightarrow> bool" where
  "isEnd it \<longleftrightarrow> it_index it = of_int (lastIndex it)"

text \<open>An iterator over \<open>xs\<close> whose position is \<open>k\<close>.\<close>

definition at_pos :: "'a iterator \<Rightarrow> 'a list \<Rightarrow> nat \<Rightarrow> bool" where
  "at_pos it xs k \<longleftrightarrow> it_list it = xs \<and> it_size it = length xs \<and> lastIndex it = int (length xs) - 1 \<and>
     it_index it = of_nat k \<and> k < length xs"

lemma js_at_nat [simp]: "js_at xs (of_nat k) = (if k < length xs then Some (xs ! k) else None)"
  by (simp add: js_at_def)

lemma at_pos_new: "xs \<noteq> [] \<Longrightarrow> at_pos (new_iterator xs) xs 0"
  by (simp add: at_pos_def new_iterator_def)

lemma next_pos:
  assumes "at_pos it xs k"
  shows "fst (it_next it JUndef) = Some (xs ! (Suc k mod length xs))"
    "at_pos (snd (it_next it JUndef)) xs (Suc k mod length xs)"
proof -
  have n: "k < length xs" using assms by (simp add: at_pos_def)
  let ?k = "if of_nat k \<ge> (of_int (lastIndex it) :: rat) then 0 else of_nat k + 1 :: rat"
  have "(of_nat k \<ge> (of_int (int (length xs) - 1) :: rat)) = (Suc k = length xs)"
    using n by (metis Suc_le_eq Suc_lessI add.commute add_diff_cancel_right' antisym_conv2 leI
        less_irrefl_nat of_int_le_iff of_int_of_nat_eq of_nat_Suc of_nat_le_iff le_diff_eq plus_1_eq_Suc zle_diff1_eq linorder_not_less)
  then have k: "?k = of_nat (Suc k mod length xs)"
    using assms n by (auto simp: at_pos_def mod_less)
  have m: "Suc k mod length xs < length xs" using n by (intro mod_less_divisor) auto
  have e: "it_next it JUndef = (js_at (it_list it) ?k, it\<lparr>it_index := ?k\<rparr>)"
    using assms by (simp add: it_next_def Let_def start_index_def isValid_def at_pos_def)
  show "fst (it_next it JUndef) = Some (xs ! (Suc k mod length xs))"
    unfolding e k using assms m by (simp add: at_pos_def)
  show "at_pos (snd (it_next it JUndef)) xs (Suc k mod length xs)"
    unfolding e k using assms m by (simp add: at_pos_def)
qed

lemma prev_pos:
  assumes "at_pos it xs k"
  shows "fst (it_prev it JUndef) = Some (xs ! ((k + length xs - 1) mod length xs))"
    "at_pos (snd (it_prev it JUndef)) xs ((k + length xs - 1) mod length xs)"
proof -
  have n: "k < length xs" using assms by (simp add: at_pos_def)
  let ?k = "if (of_nat k :: rat) < 1 then of_int (lastIndex it) else of_nat k - 1 :: rat"
  have k: "?k = of_nat ((k + length xs - 1) mod length xs)"
  proof (cases k)
    case 0
    with n assms show ?thesis by (cases xs) (simp_all add: at_pos_def)
  next
    case (Suc j)
    with n have "(k + length xs - 1) mod length xs = j" by simp
    with Suc show ?thesis by simp
  qed
  have m: "(k + length xs - 1) mod length xs < length xs" using n by (intro mod_less_divisor) auto
  have e: "it_prev it JUndef = (js_at (it_list it) ?k, it\<lparr>it_index := ?k\<rparr>)"
    using assms by (simp add: it_prev_def Let_def start_index_def isValid_def at_pos_def)
  show "fst (it_prev it JUndef) = Some (xs ! ((k + length xs - 1) mod length xs))"
    unfolding e k using assms m by (simp add: at_pos_def)
  show "at_pos (snd (it_prev it JUndef)) xs ((k + length xs - 1) mod length xs)"
    unfolding e k using assms m by (simp add: at_pos_def)
qed

section \<open>\<open>Sjson\<close>\<close>

record sjson =
  sj_start :: "rat list"
  sj_text :: "string list"

definition sj_size :: "sjson \<Rightarrow> nat" where
  "sj_size sj = length (sj_text sj)"

text \<open>The captions that start in a window; \<open>None\<close> for a caption is \<open>undefined\<close>, and for the end of
  the window \<open>null\<close>.\<close>

definition sj_filter :: "sjson \<Rightarrow> rat \<Rightarrow> rat option \<Rightarrow> rat list \<times> string option list" where
  "sj_filter sj s e =
     (let e' = (case e of
                  Some x \<Rightarrow> x
                | None \<Rightarrow> if sj_start sj \<noteq> [] then last (sj_start sj) else 0);
          ps = filter (\<lambda>(t, i). s \<le> t \<and> t \<le> e') (zip (sj_start sj) [0 ..< length (sj_start sj)])
      in (map fst ps, map (\<lambda>(t, i). if i < length (sj_text sj) then Some (sj_text sj ! i) else None) ps))"

text \<open>Comparing a time, \<open>None\<close> for \<open>NaN\<close>, with an entry that may be \<open>undefined\<close>.\<close>

definition before :: "rat option \<Rightarrow> rat option \<Rightarrow> bool" where
  "before t x = (case (t, x) of (Some a, Some b) \<Rightarrow> a < b | _ \<Rightarrow> False)"

definition reached :: "rat option \<Rightarrow> rat option \<Rightarrow> bool" where
  "reached t x = (case (t, x) of (Some a, Some b) \<Rightarrow> b \<le> a | _ \<Rightarrow> False)"

definition entry :: "rat list \<Rightarrow> int \<Rightarrow> rat option" where
  "entry xs i = (if 0 \<le> i \<and> i < int (length xs) then Some (xs ! nat i) else None)"

text \<open>The loop; \<open>None\<close> when it does not end.\<close>

partial_function (option) search_loop :: "rat option \<Rightarrow> rat list \<Rightarrow> int \<Rightarrow> int \<Rightarrow> int option" where
  "search_loop t xs lo hi =
     (if lo < hi then
        (let i = (hi + lo + 1) div 2;
             hi' = (if before t (entry xs i) then i - 1 else hi);
             lo' = (if reached t (entry xs i) then i else lo)
         in search_loop t xs lo' hi')
      else Some lo)"

text \<open>\<open>search\<close>; the window is given when both of its ends are defined.\<close>

definition sj_search :: "sjson \<Rightarrow> rat option \<Rightarrow> (rat \<times> rat option) option \<Rightarrow> int option" where
  "sj_search sj t window =
     (case window of
        None \<Rightarrow> search_loop t (sj_start sj) 0 (int (sj_size sj) - 1)
      | Some (s, e) \<Rightarrow>
          (let (starts, captions) = sj_filter sj s e
           in search_loop t starts 0 (int (length captions) - 1)))"

lemma search_mid:
  assumes "lo < (hi::int)"
  shows "lo < (hi + lo + 1) div 2" "(hi + lo + 1) div 2 \<le> hi"
  using assms by linarith+

lemma search_loop_spec:
  assumes "0 \<le> lo" and "lo \<le> hi" and "hi < int (length xs)" and "sorted xs"
    and "lo = 0 \<or> xs ! nat lo \<le> t" and "\<forall>j. hi < int j \<and> j < length xs \<longrightarrow> t < xs ! j"
  shows "\<exists>r. search_loop (Some t) xs lo hi = Some (int r) \<and> r < length xs \<and> (r = 0 \<or> xs ! r \<le> t) \<and>
    (\<forall>j. r < j \<and> j < length xs \<longrightarrow> t < xs ! j)"
  using assms
proof (induction "nat (hi - lo)" arbitrary: lo hi rule: less_induct)
  case less
  show ?case
  proof (cases "lo < hi")
    case False
    with less.prems have "hi = lo" by simp
    with less.prems show ?thesis
      by (intro exI [of _ "nat lo"]) (auto simp: search_loop.simps [of _ _ lo])
  next
    case True
    define i where "i = (hi + lo + 1) div 2"
    have i: "lo < i" "i \<le> hi" using search_mid [OF True] by (simp_all add: i_def)
    with less.prems have e: "entry xs i = Some (xs ! nat i)" by (simp add: entry_def)
    show ?thesis
    proof (cases "t < xs ! nat i")
      case lt: True
      have "t < xs ! j" if "i - 1 < int j" "j < length xs" for j
      proof -
        from that have "nat i \<le> j" by linarith
        with less.prems(4) that(2) have "xs ! nat i \<le> xs ! j" by (simp add: sorted_nth_mono)
        with lt show ?thesis by simp
      qed
      with less.hyps [of "i - 1" lo] less.prems i obtain r where
        "search_loop (Some t) xs lo (i - 1) = Some (int r)" "r < length xs" "r = 0 \<or> xs ! r \<le> t"
        "\<forall>j. r < j \<and> j < length xs \<longrightarrow> t < xs ! j"
        by auto
      moreover have "search_loop (Some t) xs lo hi = search_loop (Some t) xs lo (i - 1)"
        using True lt e
        by (subst search_loop.simps) (simp add: Let_def i_def [symmetric] before_def reached_def)
      ultimately show ?thesis by auto
    next
      case ge: False
      with less.hyps [of hi i] less.prems i obtain r where
        "search_loop (Some t) xs i hi = Some (int r)" "r < length xs" "r = 0 \<or> xs ! r \<le> t"
        "\<forall>j. r < j \<and> j < length xs \<longrightarrow> t < xs ! j"
        by auto
      moreover have "search_loop (Some t) xs lo hi = search_loop (Some t) xs i hi"
        using True ge e
        by (subst search_loop.simps) (simp add: Let_def i_def [symmetric] before_def reached_def)
      ultimately show ?thesis by auto
    qed
  qed
qed

text \<open>A time that is not a number never ends the loop.\<close>

lemma search_loop_nan:
  assumes "search_loop None xs lo hi = Some r"
  shows "hi \<le> lo"
proof -
  have "(None :: rat option) = None \<longrightarrow> hi \<le> lo"
  proof (rule search_loop.raw_induct [where P = "\<lambda>t xs lo hi r. t = None \<longrightarrow> hi \<le> lo", OF _ assms])
    fix f :: "rat option \<Rightarrow> rat list \<Rightarrow> int \<Rightarrow> int \<Rightarrow> int option" and t xs lo hi r
    assume ih: "\<And>t xs lo hi r. f t xs lo hi = Some r \<Longrightarrow> t = None \<longrightarrow> hi \<le> lo"
      and body: "(if lo < hi then
        (let i = (hi + lo + 1) div 2;
             hi' = (if before t (entry xs i) then i - 1 else hi);
             lo' = (if reached t (entry xs i) then i else lo)
         in f t xs lo' hi') else Some lo) = Some r"
    show "t = None \<longrightarrow> hi \<le> lo"
    proof
      assume t: "t = None"
      show "hi \<le> lo"
      proof (rule ccontr)
        assume "\<not> hi \<le> lo"
        with body t have "f None xs lo hi = Some r" by (simp add: Let_def before_def reached_def)
        with ih \<open>\<not> hi \<le> lo\<close> show False by blast
      qed
    qed
  qed
  then show ?thesis by simp
qed


section \<open>\<open>AsyncProcess\<close>\<close>

text \<open>The clock gives the time of its \<open>n\<close>-th reading; a handler runs until 50 milliseconds have
  passed since its start, and at least once. \<open>handler f xs clock n start i r\<close> is at element \<open>i\<close>
  with the results \<open>r\<close>.\<close>

function handler :: "('a \<Rightarrow> nat \<Rightarrow> 'b) \<Rightarrow> 'a list \<Rightarrow> (nat \<Rightarrow> int) \<Rightarrow> nat \<Rightarrow> int \<Rightarrow> nat \<Rightarrow> 'b list \<Rightarrow>
    nat \<times> nat \<times> 'b list" where
  "handler f xs clock n start i r =
     (if length xs \<le> i then (n, i, r)
      else
        (let r' = r @ [f (xs ! i) i]
         in if i + 1 < length xs \<and> clock n - start < 50
            then handler f xs clock (n + 1) start (i + 1) r'
            else ((if i + 1 < length xs then n + 1 else n), i + 1, r')))"
  by pat_completeness auto
termination by (relation "measure (\<lambda>(f, xs, clock, n, start, i, r). length xs - i)") auto

declare handler.simps [simp del]

lemma handler_progress:
  "i < length xs \<Longrightarrow> i < fst (snd (handler f xs clock n start i r)) \<and>
     fst (snd (handler f xs clock n start i r)) \<le> length xs"
proof (induction f xs clock n start i r rule: handler.induct)
  case (1 f xs clock n start i r)
  show ?case
  proof (cases "i + 1 < length xs \<and> clock n - start < 50")
    case True
    from 1(1) [of "r @ [f (xs ! i) i]"] True have
      "i + 1 < fst (snd (handler f xs clock (n + 1) start (i + 1) (r @ [f (xs ! i) i]))) \<and>
       fst (snd (handler f xs clock (n + 1) start (i + 1) (r @ [f (xs ! i) i]))) \<le> length xs" by simp
    moreover have "handler f xs clock n start i r
        = handler f xs clock (n + 1) start (i + 1) (r @ [f (xs ! i) i])"
      using True by (simp add: handler.simps [of f xs clock n] Let_def)
    ultimately show ?thesis by simp
  next
    case False
    with 1(2) show ?thesis by (auto simp: handler.simps [of f xs clock n] Let_def)
  qed
qed

lemma handler_results:
  "i \<le> length xs \<Longrightarrow> r = map (\<lambda>j. f (xs ! j) j) [0 ..< i] \<Longrightarrow>
     snd (snd (handler f xs clock n start i r)) =
       map (\<lambda>j. f (xs ! j) j) [0 ..< fst (snd (handler f xs clock n start i r))]"
proof (induction f xs clock n start i r rule: handler.induct)
  case (1 f xs clock n start i r)
  show ?case
  proof (cases "i < length xs \<and> i + 1 < length xs \<and> clock n - start < 50")
    case True
    from 1(1) [of "r @ [f (xs ! i) i]"] True 1(3) have
      "snd (snd (handler f xs clock (n + 1) start (i + 1) (r @ [f (xs ! i) i]))) =
       map (\<lambda>j. f (xs ! j) j) [0 ..< fst (snd (handler f xs clock (n + 1) start (i + 1) (r @ [f (xs ! i) i])))]"
      by simp
    moreover have "handler f xs clock n start i r
        = handler f xs clock (n + 1) start (i + 1) (r @ [f (xs ! i) i])"
      using True by (simp add: handler.simps [of f xs clock n] Let_def)
    ultimately show ?thesis by simp
  next
    case False
    with 1(2,3) show ?thesis by (auto simp: handler.simps [of f xs clock n] Let_def)
  qed
qed

text \<open>The handlers that the timer runs one after the other, until the promise is resolved.\<close>

function run_handlers :: "('a \<Rightarrow> nat \<Rightarrow> 'b) \<Rightarrow> 'a list \<Rightarrow> (nat \<Rightarrow> int) \<Rightarrow> nat \<Rightarrow> nat \<Rightarrow> 'b list \<Rightarrow> 'b list" where
  "run_handlers f xs clock n i r =
     (if length xs \<le> i then r
      else (case handler f xs clock (n + 1) (clock n) i r of
              (n', i', r') \<Rightarrow> if i' < length xs then run_handlers f xs clock n' i' r' else r'))"
  by pat_completeness auto
termination
proof (relation "measure (\<lambda>(f, xs, clock, n, i, r). length xs - i)", goal_cases)
  case (2 f xs clock n i r n' p i' r')
  then have h: "handler f xs clock (n + 1) (clock n) i r = (n', i', r')" by simp
  from handler_progress [of i xs f clock "n + 1" "clock n" r] 2(1) h show ?case
    by (simp add: diff_less_mono2)
qed simp

declare run_handlers.simps [simp del]

text \<open>\<open>AsyncProcess.array\<close>: rejected for what is not an array, resolved at once with the list itself
  when there is no function or nothing to do.\<close>

datatype 'b promise = Rejected | Resolved 'b

definition async_array :: "'a list option \<Rightarrow> ('a \<Rightarrow> nat \<Rightarrow> 'a) option \<Rightarrow> (nat \<Rightarrow> int) \<Rightarrow> 'a list promise" where
  "async_array xs f clock =
     (case xs of
        None \<Rightarrow> Rejected
      | Some l \<Rightarrow>
          (case f of
             None \<Rightarrow> Resolved l
           | Some g \<Rightarrow> if l = [] then Resolved l else Resolved (run_handlers g l clock 0 0 [])))"

lemma run_handlers_results:
  "i < length xs \<Longrightarrow> r = map (\<lambda>j. f (xs ! j) j) [0 ..< i] \<Longrightarrow>
     run_handlers f xs clock n i r = map (\<lambda>j. f (xs ! j) j) [0 ..< length xs]"
proof (induction f xs clock n i r rule: run_handlers.induct)
  case (1 f xs clock n i r)
  obtain n' i' r' where h: "handler f xs clock (n + 1) (clock n) i r = (n', i', r')" by (metis prod_cases3)
  have p: "i < i'" "i' \<le> length xs"
    using handler_progress [of i xs f clock "n + 1" "clock n" r] 1(2) h by simp_all
  have r': "r' = map (\<lambda>j. f (xs ! j) j) [0 ..< i']"
    using handler_results [of i xs r f clock "n + 1" "clock n"] 1(2,3) h by simp
  show ?case
  proof (cases "i' < length xs")
    case True
    with 1(1) [OF _ h [symmetric] refl _ _ r'] 1(2) h show ?thesis
      by (simp add: run_handlers.simps [of f xs clock n])
  next
    case False
    with p r' 1(2) h show ?thesis by (simp add: run_handlers.simps [of f xs clock n])
  qed
qed

section \<open>\<open>Time\<close>\<close>

definition pad :: "nat \<Rightarrow> string" where
  "pad n = (if n < 10 then ''0'' @ nat_text n else nat_text n)"

text \<open>The time is \<open>None\<close> when it is not finite.\<close>

definition time_format :: "rat option \<Rightarrow> bool \<Rightarrow> string" where
  "time_format time full =
     (let t = (case time of None \<Rightarrow> 0 | Some q \<Rightarrow> if q < 0 then 0 else q);
          s0 = nat \<lfloor>t\<rfloor>; m0 = s0 div 60; hours = m0 div 60;
          seconds = s0 mod 60; minutes = m0 mod 60
      in if full then pad hours @ '':'' @ pad minutes @ '':'' @ pad (seconds mod 60)
         else if hours \<noteq> 0 then nat_text hours @ '':'' @ pad minutes @ '':'' @ pad (seconds mod 60)
         else nat_text minutes @ '':'' @ pad (seconds mod 60))"

definition formatFull :: "rat option \<Rightarrow> string" where
  "formatFull time = time_format time True"

text \<open>\<open>q.toFixed(3)\<close> as a number of thousandths; a tie goes away from zero.\<close>

definition to_fixed3 :: "rat \<Rightarrow> int" where
  "to_fixed3 q = (if q < 0 then - \<lfloor>- q * 1000 + 1 / 2\<rfloor> else \<lfloor>q * 1000 + 1 / 2\<rfloor>)"

definition time_convert :: "rat \<Rightarrow> rat \<Rightarrow> rat \<Rightarrow> int" where
  "time_convert time oldSpeed newSpeed = to_fixed3 (time * oldSpeed / newSpeed)"

text \<open>Reading a clock text.\<close>

definition clock_step :: "nat \<times> nat \<Rightarrow> char \<Rightarrow> nat \<times> nat" where
  "clock_step p c = (case p of (d, k) \<Rightarrow>
     if c = CHR '':'' then (60 * (d + k), 0)
     else (d, 10 * k + (case digit_val c of None \<Rightarrow> 0 | Some v \<Rightarrow> v)))"

definition read_clock :: "string \<Rightarrow> nat" where
  "read_clock s = (case foldl clock_step (0, 0) s of (d, k) \<Rightarrow> d + k)"

lemma digit_char_facts: "n < 10 \<Longrightarrow> digit_val (digit_char n) = Some n \<and> digit_char n \<noteq> CHR '':''"
proof -
  assume "n < 10"
  then have "n \<in> {0, 1, 2, 3, 4, 5, 6, 7, 8, 9}" by auto
  then show ?thesis by (auto simp: digit_char_def digit_val_def)
qed

lemma clock_nat_text: "foldl clock_step (d, 0) (nat_text n) = (d, n)"
proof (induction n rule: nat_text.induct)
  case (1 n)
  show ?case
  proof (cases "n < 10")
    case True
    then show ?thesis using digit_char_facts [OF True]
      by (simp add: nat_text.simps [of n] clock_step_def)
  next
    case False
    with 1 digit_char_facts [of "n mod 10"] show ?thesis
      by (simp add: nat_text.simps [of n] clock_step_def)
  qed
qed

lemma clock_pad: "foldl clock_step (d, 0) (pad n) = (d, n)"
proof -
  have "clock_step (d, 0) (CHR ''0'') = (d, 0)" by (simp add: clock_step_def digit_val_def)
  then show ?thesis by (simp add: pad_def clock_nat_text)
qed

lemma clock_colon: "foldl clock_step (d, k) '':'' = (60 * (d + k), 0)"
  by (simp add: clock_step_def)

lemma read_clock_format:
  "read_clock (time_format time full) =
     nat \<lfloor>case time of None \<Rightarrow> 0 | Some q \<Rightarrow> if q < 0 then 0 else q\<rfloor>"
proof -
  define s0 where "s0 = nat \<lfloor>case time of None \<Rightarrow> 0 | Some q \<Rightarrow> if q < 0 then 0 else q\<rfloor>"
  have "s0 = 60 * (60 * (s0 div 60 div 60) + s0 div 60 mod 60) + s0 mod 60"
    by (simp add: div_mult_mod_eq)
  moreover have "s0 div 60 div 60 = 0 \<Longrightarrow> s0 = 60 * (s0 div 60 mod 60) + s0 mod 60"
    using calculation by simp
  ultimately show ?thesis
    unfolding time_format_def Let_def s0_def [symmetric]
    by (simp add: read_clock_def foldl_append clock_pad clock_nat_text clock_colon
        del: append.simps foldl.simps append_Cons)
qed


section \<open>What is proved\<close>

text \<open>The iterator is a ring: on a non-empty list, going forward and back (or back and forward)
  returns to the element and the position it left, and as many steps as the list is long
  return to the start.\<close>

theorem iterator_ring:
  assumes "at_pos it xs k"
  shows "fst (it_prev (snd (it_next it JUndef)) JUndef) = Some (xs ! k) \<and>
    it_index (snd (it_prev (snd (it_next it JUndef)) JUndef)) = it_index it \<and>
    fst (it_next (snd (it_prev it JUndef)) JUndef) = Some (xs ! k) \<and>
    it_index (snd (it_next (snd (it_prev it JUndef)) JUndef)) = it_index it \<and>
    it_index (((\<lambda>i. snd (it_next i JUndef)) ^^ length xs) it) = it_index it"
proof -
  have n: "k < length xs" and idx: "it_index it = of_nat k" using assms by (auto simp: at_pos_def)
  have undo: "(Suc k mod length xs + length xs - 1) mod length xs = k"
  proof (cases "Suc k = length xs")
    case False
    with n have "Suc k < length xs" by simp
    with n show ?thesis by simp
  qed (use n in simp)
  have forth: "Suc ((k + length xs - 1) mod length xs) mod length xs = k"
    using n by (cases k) (simp_all add: mod_Suc)
  have "at_pos (((\<lambda>i. snd (it_next i JUndef)) ^^ m) it) xs ((k + m) mod length xs)" for m
  proof (induction m)
    case 0
    with assms n show ?case by simp
  next
    case (Suc m)
    from next_pos(2) [OF Suc] show ?case by (simp add: mod_Suc_eq)
  qed
  from this [of "length xs"] n have "it_index (((\<lambda>i. snd (it_next i JUndef)) ^^ length xs) it) = of_nat k"
    by (simp add: at_pos_def)
  with prev_pos [OF next_pos(2) [OF assms]] next_pos [OF prev_pos(2) [OF assms]] undo forth idx
  show ?thesis by (simp add: at_pos_def)
qed

lemma iterator_ring_witness:
  "it_index (((\<lambda>i. snd (it_next i JUndef)) ^^ 3) (new_iterator [10::nat, 20, 30])) = 0"
proof -
  have "at_pos (new_iterator [10::nat, 20, 30]) [10, 20, 30] 0" by (rule at_pos_new) simp
  from iterator_ring [OF this] show ?thesis by (simp add: new_iterator_def numeral_3_eq_3)
qed



text \<open>C28. \<open>search\<close> never returns when the time is not a number and there are two captions to choose
  from: neither comparison of the loop holds, so its bounds do not change. The callers must not pass
  such a time.\<close>

theorem search_diverges_on_nan:
  assumes "2 \<le> sj_size sj"
  shows "sj_search sj None None = None"
proof (cases "sj_search sj None None")
  case (Some r)
  with search_loop_nan [of "sj_start sj" 0 "int (sj_size sj) - 1" r] assms show ?thesis
    by (simp add: sj_search_def)
qed simp

lemma search_diverges_on_nan_witness:
  "sj_search \<lparr> sj_start = [0, 5], sj_text = [''a'', ''b''] \<rparr> None None = None"
  by (rule search_diverges_on_nan) (simp add: sj_size_def)

text \<open>C25. The result of \<open>AsyncProcess.array\<close> does not depend on how the browser schedules its
  slices: the promise is resolved with \<open>process(list[i], i)\<close> for each \<open>i\<close>, in order, whatever the
  clock shows.\<close>

theorem async_result:
  "async_array (Some xs) (Some f) clock = Resolved (map (\<lambda>i. f (xs ! i) i) [0 ..< length xs])"
  using run_handlers_results [of 0 xs "[]" f clock 0] by (cases xs) (simp_all add: async_array_def)

text \<open>A formatted time reads back as the whole seconds of the time, for the short and the full
  form; a time that is negative or not finite is shown as zero.\<close>

theorem time_format_reads_back:
  "read_clock (time_format time full) =
     (case time of None \<Rightarrow> 0 | Some q \<Rightarrow> if q < 0 then 0 else nat \<lfloor>q\<rfloor>)"
  unfolding read_clock_format by (auto split: option.splits)

text \<open>Converting a time to another playback speed and back loses at most a rounding error:
  \<open>convert\<close> is within half a thousandth of the exact value.\<close>

theorem convert_error:
  "\<bar>of_int (time_convert t s s') / 1000 - t * s / s'\<bar> \<le> 1 / 2000"
proof -
  have pos: "\<bar>of_int \<lfloor>q * 1000 + 1 / 2\<rfloor> / 1000 - q\<bar> \<le> 1 / 2000" for q :: rat
  proof -
    have "of_int \<lfloor>q * 1000 + 1 / 2\<rfloor> \<le> q * 1000 + 1 / 2" "q * 1000 + 1 / 2 < of_int \<lfloor>q * 1000 + 1 / 2\<rfloor> + 1"
      using floor_correct [of "q * 1000 + 1 / 2"] by simp_all
    then show ?thesis by (simp add: abs_if field_simps)
  qed
  show ?thesis
  proof (cases "t * s / s' < 0")
    case True
    have "\<bar>- of_int \<lfloor>- (t * s / s') * 1000 + 1 / 2\<rfloor> / 1000 - t * s / s'\<bar> \<le> 1 / 2000"
      using pos [of "- (t * s / s')"] by linarith
    then show ?thesis using True unfolding time_convert_def to_fixed3_def by simp
  next
    case False
    then show ?thesis using pos [of "t * s / s'"] unfolding time_convert_def to_fixed3_def by simp
  qed
qed

end
