(* ===== verification/VidVolume.thy ===== *)
theory VidVolume
  imports EdxPrelude
begin

text \<open>
  The volume control of the video player, \<open>video/07_video_volume_control.js\<close>: the control, its
  accessibility helper, its cookie, and what it shares with the player (\<open>video/03_video_player.js\<close>
  is told each new volume once it is ready) and with the menu command \<open>toggleMute\<close>
  (\<open>video/10_commands.js\<close>).
\<close>

section \<open>State\<close>

text \<open>The one-shot handler of \<open>volumechange.is-muted\<close>: absent, waiting, or already run and still
  attached.\<close>

datatype watch = NoWatch | Armed | Fired

text \<open>The object and what it keeps on the page: the value of the slider, the attribute
  \<open>aria-valuenow\<close>, the text of the live region, the classes of the control and of its icon, the
  cookie. \<open>player_volume\<close> is the last volume the player was given.\<close>

record volume_control =
  i18n :: "string \<Rightarrow> string"
  vol :: int
  storedVolume :: int
  cookie :: "string option"
  slider_value :: int
  aria_now :: "int option"
  live_text :: string
  is_muted :: bool
  icon_off :: bool
  is_opened :: bool
  aria_expanded :: bool
  watcher :: watch
  play_pending :: bool
  player_ready :: bool
  player_volume :: "int option"
  bound :: bool

definition vol_min :: int where "vol_min = 0"
definition vol_max :: int where "vol_max = 100"
definition vol_step :: int where "vol_step = 20"

section \<open>\<open>Accessibility\<close> and \<open>CookieManager\<close>\<close>

definition getVolumeDescription :: "int \<Rightarrow> string" where
  "getVolumeDescription v =
     (if v = 0 then ''Muted''
      else if v \<le> 20 then ''Very low''
      else if v \<le> 40 then ''Low''
      else if v \<le> 60 then ''Average''
      else if v \<le> 80 then ''Loud''
      else if v \<le> 99 then ''Very loud''
      else ''Maximum'')"

definition a11y_update :: "int \<Rightarrow> volume_control \<Rightarrow> volume_control" where
  "a11y_update v s = s\<lparr>
     live_text := i18n s (getVolumeDescription v) @ '' '' @ i18n s ''Volume'' @ ''.'',
     aria_now := Some v\<rparr>"

definition cookie_getVolume :: "string option \<Rightarrow> int" where
  "cookie_getVolume c =
     (case Option.bind c parse_int_text of
        Some v \<Rightarrow> if finite_double v then min (max v vol_min) vol_max else vol_max
      | None \<Rightarrow> vol_max)"

definition cookie_setVolume :: "int \<Rightarrow> volume_control \<Rightarrow> volume_control" where
  "cookie_setVolume v s = s\<lparr>cookie := Some (int_text v)\<rparr>"

section \<open>Operations\<close>

definition updateMuteButtonView :: "bool \<Rightarrow> volume_control \<Rightarrow> volume_control" where
  "updateMuteButtonView m s = s\<lparr>is_muted := m, icon_off := m\<rparr>"

definition checkMuteButtonStatus :: "int \<Rightarrow> volume_control \<Rightarrow> volume_control" where
  "checkMuteButtonStatus v s =
     (if v \<le> vol_min then (updateMuteButtonView True s)\<lparr>watcher := Armed\<rparr> else s)"

definition onVolumeChange :: "int \<Rightarrow> volume_control \<Rightarrow> volume_control" where
  "onVolumeChange v s = (if player_ready s then s\<lparr>player_volume := Some v\<rparr> else s)"

text \<open>The event \<open>volumechange\<close>. jQuery calls the handlers attached when the event is triggered: a
  one-shot handler that is waiting then runs even when \<open>checkMuteButtonStatus\<close> has just replaced
  it by a new one.\<close>

definition trigger_volumechange :: "int \<Rightarrow> volume_control \<Rightarrow> volume_control" where
  "trigger_volumechange v s =
     (let s1 = checkMuteButtonStatus v s;
          s2 = (if watcher s = Armed then updateMuteButtonView False s1 else s1);
          s3 = (if watcher s = Armed \<and> \<not> v \<le> vol_min then s2\<lparr>watcher := Fired\<rparr> else s2)
      in onVolumeChange v s3)"

definition updateSliderView :: "int \<Rightarrow> volume_control \<Rightarrow> volume_control" where
  "updateSliderView v s = s\<lparr>slider_value := v, aria_now := Some v\<rparr>"

definition write_volume :: "int \<Rightarrow> bool \<Rightarrow> bool \<Rightarrow> volume_control \<Rightarrow> volume_control" where
  "write_volume v silent withoutSlider s =
     (let s1 = a11y_update v (s\<lparr>vol := v\<rparr>);
          s2 = (if withoutSlider then s1 else updateSliderView v s1)
      in if silent then s2 else trigger_volumechange v (cookie_setVolume v s2))"

definition setVolume :: "int \<Rightarrow> bool \<Rightarrow> bool \<Rightarrow> volume_control \<Rightarrow> volume_control" where
  "setVolume v silent withoutSlider s =
     (if v = vol s then s else write_volume v silent withoutSlider s)"

definition increaseVolume :: "volume_control \<Rightarrow> volume_control" where
  "increaseVolume s =
     (let v = min (vol s + vol_step) vol_max in (setVolume v False False s)\<lparr>aria_now := Some v\<rparr>)"

definition decreaseVolume :: "volume_control \<Rightarrow> volume_control" where
  "decreaseVolume s =
     (let v = max (vol s - vol_step) vol_min in (setVolume v False False s)\<lparr>aria_now := Some v\<rparr>)"

definition getMuteStatus :: "volume_control \<Rightarrow> bool" where
  "getMuteStatus s \<longleftrightarrow> vol s = 0"

definition mute :: "bool \<Rightarrow> volume_control \<Rightarrow> volume_control" where
  "mute m s =
     (let s1 = updateMuteButtonView m s;
          s2 = (if m then s1\<lparr>storedVolume := (if vol s1 = 0 then vol_max else vol s1)\<rparr> else s1);
          v = (if m then 0 else storedVolume s2)
      in (setVolume v False False s2)\<lparr>aria_now := Some v\<rparr>)"

definition toggleMute :: "volume_control \<Rightarrow> volume_control" where
  "toggleMute s = mute (\<not> getMuteStatus s) s"

definition openMenu :: "volume_control \<Rightarrow> volume_control" where
  "openMenu s = s\<lparr>is_opened := True, aria_expanded := True\<rparr>"

definition closeMenu :: "volume_control \<Rightarrow> volume_control" where
  "closeMenu s = s\<lparr>is_opened := False, aria_expanded := False\<rparr>"

text \<open>\<open>updateVolumeSilently\<close> runs once, at the first \<open>play\<close>.\<close>

definition updateVolumeSilently :: "volume_control \<Rightarrow> volume_control" where
  "updateVolumeSilently s = onVolumeChange (vol s) s"

definition play_event :: "volume_control \<Rightarrow> volume_control" where
  "play_event s = (if play_pending s then (updateVolumeSilently s)\<lparr>play_pending := False\<rparr> else s)"

text \<open>The key handler of the button: the flags tell whether Alt and Shift are down and whether the
  target is the handle of the slider. The result says whether the event goes on.\<close>

definition keyDownHandler :: "nat \<Rightarrow> bool \<Rightarrow> bool \<Rightarrow> bool \<Rightarrow> volume_control \<Rightarrow> bool \<times> volume_control" where
  "keyDownHandler key alt shift onHandle s =
     (if alt then (True, s)
      else if onHandle then (True, s)
      else if key = 38 then (if shift then (True, s) else (False, increaseVolume s))
      else if key = 40 then (if shift then (True, s) else (False, decreaseVolume s))
      else if key = 32 \<or> key = 13 then (if shift then (True, s) else (False, toggleMute s))
      else (True, s))"

definition keyDownButtonHandler :: "nat \<Rightarrow> bool \<Rightarrow> volume_control \<Rightarrow> bool \<times> volume_control" where
  "keyDownButtonHandler key alt s =
     (if alt then (True, s)
      else if key = 13 \<or> key = 32 then (False, toggleMute s)
      else (True, s))"

text \<open>Dragging the handle: jQuery UI moves it and calls \<open>onSlideHandler\<close>. The attribute it then sets
  to \<open>ui.volume\<close>, a property that does not exist, stays as it is.\<close>

definition onSlideHandler :: "int \<Rightarrow> volume_control \<Rightarrow> volume_control" where
  "onSlideHandler v s = setVolume v False True (s\<lparr>slider_value := v\<rparr>)"

definition destroy_volume :: "volume_control \<Rightarrow> volume_control" where
  "destroy_volume s = (closeMenu s)\<lparr>play_pending := False, bound := False\<rparr>"

text \<open>\<open>initialize\<close>; a touch device gets no control. The first volume is written whatever it is, as
  \<open>this.volume\<close> is still \<open>undefined\<close>.\<close>

definition initialize_volume :: "bool \<Rightarrow> string option \<Rightarrow> (string \<Rightarrow> string) \<Rightarrow> volume_control option" where
  "initialize_volume isTouch c tr =
     (if isTouch then None
      else let v = cookie_getVolume c;
               s = \<lparr> i18n = tr, vol = v, storedVolume = vol_max, cookie = c, slider_value = vol_min,
                     aria_now = None, live_text = '''', is_muted = False, icon_off = False,
                     is_opened = False, aria_expanded = False, watcher = NoWatch,
                     play_pending = True, player_ready = False, player_volume = None, bound = True \<rparr>
           in Some (checkMuteButtonStatus v (write_volume v True False s)))"

section \<open>Events\<close>

datatype volume_event =
    KeyDown nat bool bool bool
  | MouseDown
  | ToggleCommand
  | Slide int
  | Enter
  | Leave
  | Play
  | PlayerReady

definition volume_step :: "volume_event \<Rightarrow> volume_control \<Rightarrow> volume_control" where
  "volume_step e s =
     (case e of
        KeyDown key alt shift onHandle \<Rightarrow> snd (keyDownHandler key alt shift onHandle s)
      | MouseDown \<Rightarrow> toggleMute s
      | ToggleCommand \<Rightarrow> toggleMute s
      | Slide v \<Rightarrow> onSlideHandler v s
      | Enter \<Rightarrow> openMenu s
      | Leave \<Rightarrow> closeMenu s
      | Play \<Rightarrow> play_event s
      | PlayerReady \<Rightarrow> s\<lparr>player_ready := True\<rparr>)"

text \<open>The slider of jQuery UI reports values between its minimum and its maximum.\<close>

definition slide_in_range :: "volume_event \<Rightarrow> bool" where
  "slide_in_range e = (case e of Slide v \<Rightarrow> vol_min \<le> v \<and> v \<le> vol_max | _ \<Rightarrow> True)"

inductive volume_reach :: "volume_control \<Rightarrow> bool" where
  start: "initialize_volume isTouch c tr = Some s \<Longrightarrow> volume_reach s"
| event: "volume_reach s \<Longrightarrow> slide_in_range e \<Longrightarrow> volume_reach (volume_step e s)"

section \<open>The views agree\<close>

definition view_ok :: "volume_control \<Rightarrow> bool" where
  "view_ok s \<longleftrightarrow> slider_value s = vol s \<and> aria_now s = Some (vol s) \<and>
     is_muted s = (vol s = 0) \<and> icon_off s = (vol s = 0) \<and> is_opened s = aria_expanded s \<and>
     live_text s = i18n s (getVolumeDescription (vol s)) @ '' '' @ i18n s ''Volume'' @ ''.''"

definition volume_ok :: "volume_control \<Rightarrow> bool" where
  "volume_ok s \<longleftrightarrow> 0 \<le> vol s \<and> vol s \<le> 100 \<and> 0 < storedVolume s \<and> storedVolume s \<le> 100 \<and>
     view_ok s \<and> cookie_getVolume (cookie s) = vol s \<and>
     (watcher s = Armed) = (vol s = 0) \<and> (player_volume s = None \<or> player_ready s \<and> player_volume s = Some (vol s))"

lemmas volume_bounds = vol_min_def vol_max_def vol_step_def

lemmas volume_writes = setVolume_def write_volume_def a11y_update_def updateSliderView_def
  trigger_volumechange_def cookie_setVolume_def checkMuteButtonStatus_def onVolumeChange_def
  updateMuteButtonView_def Let_def volume_bounds

lemma finite_double_small: "\<bar>v\<bar> \<le> 100 \<Longrightarrow> finite_double v"
proof -
  assume "\<bar>v\<bar> \<le> 100"
  moreover have "(100::int) < 2 ^ 1024 - 2 ^ 970" by simp
  ultimately show ?thesis unfolding finite_double_def by linarith
qed

lemma cookie_reads_back: "0 \<le> v \<Longrightarrow> v \<le> 100 \<Longrightarrow> cookie_getVolume (Some (int_text v)) = v"
  by (simp add: cookie_getVolume_def finite_double_small volume_bounds)

lemma cookie_range: "0 \<le> cookie_getVolume c \<and> cookie_getVolume c \<le> 100"
  by (simp add: cookie_getVolume_def volume_bounds split: option.split)

lemma initialize_ok: "initialize_volume isTouch c tr = Some s \<Longrightarrow> volume_ok s"
  using cookie_range [of c]
  by (auto simp: initialize_volume_def volume_ok_def view_ok_def volume_writes split: if_splits)

text \<open>What a new volume, audible or not, makes of a consistent control; the views of the mute state
  may be ahead of the volume, as \<open>mute\<close> changes them first.\<close>

lemma setVolume_ok:
  assumes "volume_ok s" "0 \<le> v" "v \<le> 100"
    and "t = s\<lparr>is_muted := m, icon_off := m, storedVolume := w\<rparr>" "m = (v = 0) \<or> m = (vol s = 0)" "v = vol s \<longrightarrow> m = (vol s = 0)"
    and "0 < w" "w \<le> 100"
  shows "volume_ok (setVolume v False False t)" "vol (setVolume v False False t) = v"
  using assms cookie_reads_back [of v]
  by (auto simp: volume_ok_def view_ok_def volume_writes)

lemma aria_same: "volume_ok s \<Longrightarrow> v = vol s \<Longrightarrow> s\<lparr>aria_now := Some v\<rparr> = s"
  by (cases s) (simp add: volume_ok_def view_ok_def)

lemma plain_fields: "s\<lparr>is_muted := is_muted s, icon_off := icon_off s, storedVolume := storedVolume s\<rparr> = s"
  by (cases s) simp

text \<open>Setting a volume with no change of view before it, as the keys do.\<close>

lemma setVolume_plain:
  assumes "volume_ok s" "0 \<le> v" "v \<le> 100"
  shows "volume_ok (setVolume v False False s)" "vol (setVolume v False False s) = v"
proof -
  let ?t = "s\<lparr>is_muted := (vol s = 0), icon_off := (vol s = 0), storedVolume := storedVolume s\<rparr>"
  have t: "?t = s" using assms(1) plain_fields [of s] by (simp add: volume_ok_def view_ok_def)
  have w: "0 < storedVolume s" "storedVolume s \<le> 100" using assms(1) by (auto simp: volume_ok_def)
  show "volume_ok (setVolume v False False s)"
    using setVolume_ok(1) [OF assms refl _ _ w, of "vol s = 0"] t by simp
  show "vol (setVolume v False False s) = v"
    using setVolume_ok(2) [OF assms refl _ _ w, of "vol s = 0"] t by simp
qed

lemma increase_ok:
  assumes "volume_ok s"
  shows "volume_ok (increaseVolume s)" "vol (increaseVolume s) = min (vol s + 20) 100"
proof -
  have "0 \<le> min (vol s + 20) 100" "min (vol s + 20) 100 \<le> 100"
    using assms by (auto simp: volume_ok_def)
  note k = setVolume_plain [OF assms this]
  show "volume_ok (increaseVolume s)" "vol (increaseVolume s) = min (vol s + 20) 100"
    unfolding increaseVolume_def Let_def volume_bounds
    using aria_same [OF k(1) k(2) [symmetric]] k by simp_all
qed

lemma decrease_ok:
  assumes "volume_ok s"
  shows "volume_ok (decreaseVolume s)" "vol (decreaseVolume s) = max (vol s - 20) 0"
proof -
  have "0 \<le> max (vol s - 20) 0" "max (vol s - 20) 0 \<le> 100"
    using assms by (auto simp: volume_ok_def)
  note k = setVolume_plain [OF assms this]
  show "volume_ok (decreaseVolume s)" "vol (decreaseVolume s) = max (vol s - 20) 0"
    unfolding decreaseVolume_def Let_def volume_bounds
    using aria_same [OF k(1) k(2) [symmetric]] k by simp_all
qed

lemma setVolume_stored [simp]: "storedVolume (setVolume v a b s) = storedVolume s"
  by (simp add: volume_writes)

lemma toggle_ok:
  assumes "volume_ok s"
  shows "volume_ok (toggleMute s)"
    "vol (toggleMute s) = (if vol s = 0 then storedVolume s else 0)"
    "storedVolume (toggleMute s) = (if vol s = 0 then storedVolume s else vol s)"
proof -
  let ?m = "vol s \<noteq> 0"
  let ?w = "if ?m then vol s else storedVolume s"
  let ?v = "if ?m then 0 else storedVolume s"
  let ?t = "s\<lparr>is_muted := ?m, icon_off := ?m, storedVolume := ?w\<rparr>"
  have b: "0 \<le> ?v" "?v \<le> 100" "?m = (?v = 0) \<or> ?m = (vol s = 0)" "?v = vol s \<longrightarrow> ?m = (vol s = 0)"
    "0 < ?w" "?w \<le> 100"
    using assms by (auto simp: volume_ok_def)
  note k = setVolume_ok [OF assms b(1,2) refl b(3-6)]
  have e: "toggleMute s = (setVolume ?v False False ?t)\<lparr>aria_now := Some ?v\<rparr>"
    by (cases s) (auto simp: toggleMute_def mute_def getMuteStatus_def updateMuteButtonView_def Let_def)
  also have "\<dots> = setVolume ?v False False ?t" by (rule aria_same [OF k(1) k(2) [symmetric]])
  finally have e: "toggleMute s = setVolume ?v False False ?t" .
  show "volume_ok (toggleMute s)" using k(1) by (simp only: e)
  show "vol (toggleMute s) = (if vol s = 0 then storedVolume s else 0)"
    using k(2) by (simp only: e) simp
  show "storedVolume (toggleMute s) = (if vol s = 0 then storedVolume s else vol s)"
    by (simp add: e)
qed

lemma slide_ok:
  assumes "volume_ok s" "0 \<le> v" "v \<le> 100"
  shows "volume_ok (onSlideHandler v s)"
  using assms cookie_reads_back [of v]
  by (auto simp: onSlideHandler_def volume_ok_def view_ok_def volume_writes)

lemma step_ok:
  assumes "volume_ok s" "slide_in_range e"
  shows "volume_ok (volume_step e s)"
proof (cases e)
  case (KeyDown key alt shift onHandle)
  with assms show ?thesis
    by (simp add: volume_step_def keyDownHandler_def increase_ok decrease_ok toggle_ok)
next
  case (Slide v)
  with assms show ?thesis by (simp add: volume_step_def slide_in_range_def volume_bounds slide_ok)
next
  case Enter
  with assms show ?thesis by (simp add: volume_step_def openMenu_def volume_ok_def view_ok_def)
next
  case Leave
  with assms show ?thesis by (simp add: volume_step_def closeMenu_def volume_ok_def view_ok_def)
next
  case Play
  with assms show ?thesis
    by (auto simp add: volume_step_def play_event_def updateVolumeSilently_def onVolumeChange_def
        volume_ok_def view_ok_def)
next
  case PlayerReady
  with assms show ?thesis by (auto simp: volume_step_def volume_ok_def view_ok_def)
qed (use assms in \<open>simp_all add: volume_step_def toggle_ok(1)\<close>)

lemma reach_ok: "volume_reach s \<Longrightarrow> volume_ok s"
  by (induction rule: volume_reach.induct) (auto intro: initialize_ok step_ok)

text \<open>C15. Whatever the user does, the parts of the volume control agree. In every state reached
  from its initialisation, whatever the cookie held, the volume is between 0 and 100; the slider,
  the accessible value and the spoken text show it; the button looks muted exactly when it is 0,
  although \<open>mute\<close> changes the look before the volume and a one-shot handler changes it back; the
  volume to return to is audible; and the cookie and the player have that volume, the player as
  soon as it has been told one.\<close>

theorem volume_control_consistent:
  assumes "volume_reach s"
  shows "0 \<le> vol s \<and> vol s \<le> 100 \<and> 0 < storedVolume s \<and> storedVolume s \<le> 100 \<and>
    slider_value s = vol s \<and> aria_now s = Some (vol s) \<and> is_muted s = (vol s = 0) \<and>
    icon_off s = (vol s = 0) \<and> is_opened s = aria_expanded s \<and>
    live_text s = i18n s (getVolumeDescription (vol s)) @ '' '' @ i18n s ''Volume'' @ ''.'' \<and>
    cookie_getVolume (cookie s) = vol s \<and>
    (watcher s = Armed) = (vol s = 0) \<and>
    (player_volume s = None \<or> player_ready s \<and> player_volume s = Some (vol s))"
  using reach_ok [OF assms] by (simp add: volume_ok_def view_ok_def)

lemma ok_range:
  "volume_ok s \<Longrightarrow> 0 \<le> vol s \<and> vol s \<le> 100 \<and> 0 < storedVolume s \<and> storedVolume s \<le> 100"
  by (simp add: volume_ok_def)

lemma increase_pow:
  "volume_ok s \<Longrightarrow> volume_ok ((increaseVolume ^^ n) s) \<and>
     vol ((increaseVolume ^^ n) s) = min (vol s + 20 * int n) 100"
proof (induction n)
  case 0
  then show ?case using ok_range [of s] by simp
next
  case (Suc n)
  then have "volume_ok ((increaseVolume ^^ n) s)" "vol ((increaseVolume ^^ n) s) = min (vol s + 20 * int n) 100"
    by auto
  with increase_ok [OF this(1)] show ?case by simp
qed

lemma decrease_pow:
  "volume_ok s \<Longrightarrow> volume_ok ((decreaseVolume ^^ n) s) \<and>
     vol ((decreaseVolume ^^ n) s) = max (vol s - 20 * int n) 0"
proof (induction n)
  case 0
  then show ?case using ok_range [of s] by simp
next
  case (Suc n)
  then have "volume_ok ((decreaseVolume ^^ n) s)" "vol ((decreaseVolume ^^ n) s) = max (vol s - 20 * int n) 0"
    by auto
  with decrease_ok [OF this(1)] show ?case by simp
qed

text \<open>Pressing the mute button twice gives the volume back, and the keys move it by 20 without
  leaving the range: in every reachable state, toggling changes silence and sound, toggling twice
  restores the volume, and \<open>n\<close> presses of Up (of Down) add (take away) \<open>20 n\<close> up to 100 (down to
  0).\<close>

theorem mute_and_keys:
  assumes "volume_reach s"
  shows "(vol (toggleMute s) = 0) = (vol s \<noteq> 0) \<and>
    vol (toggleMute (toggleMute s)) = vol s \<and>
    vol ((increaseVolume ^^ n) s) = min (vol s + 20 * int n) 100 \<and>
    vol ((decreaseVolume ^^ n) s) = max (vol s - 20 * int n) 0"
proof -
  note ok = reach_ok [OF assms]
  note r = ok_range [OF ok]
  note two = toggle_ok [OF toggle_ok(1) [OF ok]]
  show ?thesis
    using r toggle_ok(2,3) [OF ok] two(2) increase_pow [OF ok, of n] decrease_pow [OF ok, of n]
    by auto
qed

lemma volume_example:
  "volume_reach (volume_step MouseDown (the (initialize_volume False (Some ''40'') id)))"
  by (rule volume_reach.event, rule volume_reach.start [of False "Some ''40''" id])
    (simp_all add: initialize_volume_def slide_in_range_def Let_def)

theorem volume_control_consistent_witness:
  "let s = volume_step MouseDown (the (initialize_volume False (Some ''40'') id))
   in is_muted s = (vol s = 0) \<and> cookie_getVolume (cookie s) = vol s"
  using volume_control_consistent [OF volume_example] by (simp only: Let_def simp_thms)

theorem mute_and_keys_witness:
  "let s = volume_step MouseDown (the (initialize_volume False (Some ''40'') id))
   in vol (toggleMute (toggleMute s)) = vol s"
  using mute_and_keys [OF volume_example, of 0] by (simp only: Let_def simp_thms)

end
