(* ===== verification/VidResizer.thy ===== *)
theory VidResizer
  imports EdxPrelude
begin

text \<open>
  The resizer that fits the video into its container, \<open>video/00_resizer.js\<close>: the sizes and
  positions it writes to the element, its margins (\<open>delta\<close>) and its list of callbacks.
\<close>

section \<open>Numbers\<close>

text \<open>The ratios are quotients of sizes read from the page, so the division by zero of JavaScript
  matters: its results are kept.\<close>

datatype num = Fin rat | PInf | NInf | NotNum

definition signed_inf :: "rat \<Rightarrow> num" where
  "signed_inf a = (if 0 < a then PInf else if a < 0 then NInf else NotNum)"

text \<open>A zero divisor is a positive zero: sizes and sums are never the negative zero.\<close>

fun num_div :: "num \<Rightarrow> num \<Rightarrow> num" where
  "num_div (Fin a) (Fin b) = (if b = 0 then signed_inf a else Fin (a / b))"
| "num_div (Fin a) PInf = Fin 0"
| "num_div (Fin a) NInf = Fin 0"
| "num_div PInf (Fin b) = (if b < 0 then NInf else PInf)"
| "num_div NInf (Fin b) = (if b < 0 then PInf else NInf)"
| "num_div _ _ = NotNum"

fun num_mult :: "num \<Rightarrow> num \<Rightarrow> num" where
  "num_mult (Fin a) (Fin b) = Fin (a * b)"
| "num_mult (Fin a) PInf = signed_inf a"
| "num_mult (Fin a) NInf = signed_inf (- a)"
| "num_mult PInf (Fin b) = signed_inf b"
| "num_mult NInf (Fin b) = signed_inf (- b)"
| "num_mult PInf PInf = PInf"
| "num_mult NInf NInf = PInf"
| "num_mult PInf NInf = NInf"
| "num_mult NInf PInf = NInf"
| "num_mult _ _ = NotNum"

fun num_minus :: "num \<Rightarrow> num \<Rightarrow> num" where
  "num_minus (Fin a) (Fin b) = Fin (a - b)"
| "num_minus (Fin a) PInf = NInf"
| "num_minus (Fin a) NInf = PInf"
| "num_minus PInf (Fin b) = PInf"
| "num_minus NInf (Fin b) = NInf"
| "num_minus PInf NInf = PInf"
| "num_minus NInf PInf = NInf"
| "num_minus _ _ = NotNum"

fun num_ge :: "num \<Rightarrow> num \<Rightarrow> bool" where
  "num_ge NotNum _ = False"
| "num_ge _ NotNum = False"
| "num_ge (Fin a) (Fin b) = (b \<le> a)"
| "num_ge PInf _ = True"
| "num_ge _ NInf = True"
| "num_ge _ _ = False"

text \<open>An optional ratio is used when it is truthy.\<close>

definition truthy_num :: "num option \<Rightarrow> num option" where
  "truthy_num r = (case r of Some (Fin q) \<Rightarrow> if q = 0 then None else r | Some NotNum \<Rightarrow> None | _ \<Rightarrow> r)"

section \<open>State\<close>

text \<open>A callback, and the decorator \<open>callbacks.once\<close> wraps around one.\<close>

datatype callback = Func nat | Decorated nat

datatype side = Height | Width

datatype mode = ByHeight | ByWidth | OtherMode

text \<open>The style of the element: \<open>None\<close> is an unset property.\<close>

record element_css =
  css_height :: "num option"
  css_width :: "num option"
  css_top :: "num option"
  css_left :: "num option"

text \<open>\<open>box_\<close> and \<open>el_\<close> are the sizes the page reports for the container and for the element.\<close>

record resizer =
  box_width :: rat
  box_height :: rat
  el_width :: rat
  el_height :: rat
  containerRatio :: "num option"
  elementRatio :: "num option"
  delta_width :: rat
  delta_height :: rat
  rmode :: "mode option"
  callbacksList :: "callback list"
  css :: element_css
  called :: "nat list"

record data =
  d_width :: num
  d_height :: num
  d_containerRatio :: num
  d_elementRatio :: num

definition getData :: "resizer \<Rightarrow> data" where
  "getData r =
     (let w = Fin (box_width r + delta_width r); h = Fin (box_height r + delta_height r)
      in \<lparr> d_width = w, d_height = h,
           d_containerRatio = (case truthy_num (containerRatio r) of Some q \<Rightarrow> q | None \<Rightarrow> num_div w h),
           d_elementRatio = (case truthy_num (elementRatio r) of
               Some q \<Rightarrow> q | None \<Rightarrow> num_div (Fin (el_width r)) (Fin (el_height r))) \<rparr>)"

section \<open>Aligning\<close>

definition alignByWidthOnly :: "resizer \<Rightarrow> resizer" where
  "alignByWidthOnly r =
     (let d = getData r; height = num_div (d_width d) (d_elementRatio d)
      in r\<lparr>css := \<lparr> css_height = Some height, css_width = Some (d_width d),
                     css_top = Some (num_mult (Fin (1 / 2)) (num_minus (d_height d) height)),
                     css_left = Some (Fin 0) \<rparr>\<rparr>)"

definition alignByHeightOnly :: "resizer \<Rightarrow> resizer" where
  "alignByHeightOnly r =
     (let d = getData r; width = num_mult (d_height d) (d_elementRatio d)
      in r\<lparr>css := \<lparr> css_height = Some (d_height d), css_width = Some width,
                     css_top = Some (Fin 0),
                     css_left = Some (num_mult (Fin (1 / 2)) (num_minus (d_width d) width)) \<rparr>\<rparr>)"

text \<open>\<open>removeCallback(func)\<close> looks for the function itself in the list.\<close>

fun index_of :: "'a \<Rightarrow> 'a list \<Rightarrow> nat option" where
  "index_of x [] = None"
| "index_of x (y # ys) = (if x = y then Some 0 else map_option Suc (index_of x ys))"

definition removeCallback :: "nat \<Rightarrow> resizer \<Rightarrow> resizer" where
  "removeCallback f r =
     (case index_of (Func f) (callbacksList r) of
        Some i \<Rightarrow> r\<lparr>callbacksList := splice1 (callbacksList r) (int i)\<rparr>
      | None \<Rightarrow> r)"

definition run_listed :: "callback \<Rightarrow> resizer \<Rightarrow> resizer" where
  "run_listed c r =
     (case c of
        Func f \<Rightarrow> r\<lparr>called := called r @ [f]\<rparr>
      | Decorated f \<Rightarrow> removeCallback f (r\<lparr>called := called r @ [f]\<rparr>))"

text \<open>\<open>fireCallbacks\<close> walks the live list up to the length it had at the start; a position that has
  disappeared is \<open>undefined\<close>, and calling it throws (\<open>None\<close>).\<close>

fun fire_from :: "nat \<Rightarrow> nat \<Rightarrow> resizer \<Rightarrow> resizer option" where
  "fire_from i 0 r = Some r"
| "fire_from i (Suc n) r =
     (if i < length (callbacksList r)
      then fire_from (Suc i) n (run_listed (callbacksList r ! i) r) else None)"

definition fireCallbacks :: "resizer \<Rightarrow> resizer option" where
  "fireCallbacks r = fire_from 0 (length (callbacksList r)) r"

definition align :: "resizer \<Rightarrow> resizer option" where
  "align r =
     (let d = getData r
      in fireCallbacks
        (case rmode r of
           Some ByHeight \<Rightarrow> alignByHeightOnly r
         | Some ByWidth \<Rightarrow> alignByWidthOnly r
         | _ \<Rightarrow> (if num_ge (d_containerRatio d) (d_elementRatio d) then alignByHeightOnly r
                 else alignByWidthOnly r)))"

definition setMode :: "mode \<Rightarrow> resizer \<Rightarrow> resizer option" where
  "setMode m r = align (r\<lparr>rmode := Some m\<rparr>)"

section \<open>The rest of the interface\<close>

definition addCallback :: "nat \<Rightarrow> resizer \<Rightarrow> resizer" where
  "addCallback f r = r\<lparr>callbacksList := callbacksList r @ [Func f]\<rparr>"

definition addOnceCallback :: "nat \<Rightarrow> resizer \<Rightarrow> resizer" where
  "addOnceCallback f r = r\<lparr>callbacksList := callbacksList r @ [Decorated f]\<rparr>"

definition removeCallbacks :: "resizer \<Rightarrow> resizer" where
  "removeCallbacks r = r\<lparr>callbacksList := []\<rparr>"

definition resetDelta :: "resizer \<Rightarrow> resizer" where
  "resetDelta r = r\<lparr>delta_height := 0, delta_width := 0\<rparr>"

definition addDelta :: "rat \<Rightarrow> side \<Rightarrow> resizer \<Rightarrow> resizer" where
  "addDelta v x r =
     (case x of Height \<Rightarrow> r\<lparr>delta_height := delta_height r + v\<rparr>
      | Width \<Rightarrow> r\<lparr>delta_width := delta_width r + v\<rparr>)"

definition substractDelta :: "rat \<Rightarrow> side \<Rightarrow> resizer \<Rightarrow> resizer" where
  "substractDelta v x r =
     (case x of Height \<Rightarrow> r\<lparr>delta_height := delta_height r - v\<rparr>
      | Width \<Rightarrow> r\<lparr>delta_width := delta_width r - v\<rparr>)"

text \<open>The two settings changed later: the element, with the sizes the page reports for it, and the
  ratios, where a missing one is kept.\<close>

definition setElement :: "rat \<Rightarrow> rat \<Rightarrow> resizer \<Rightarrow> resizer" where
  "setElement w h r = r\<lparr>el_width := w, el_height := h\<rparr>"

definition setParams :: "num option option \<Rightarrow> num option option \<Rightarrow> resizer \<Rightarrow> resizer" where
  "setParams c e r = r\<lparr>containerRatio := (case c of None \<Rightarrow> containerRatio r | Some q \<Rightarrow> q),
     elementRatio := (case e of None \<Rightarrow> elementRatio r | Some q \<Rightarrow> q)\<rparr>"

definition destroy_resizer :: "resizer \<Rightarrow> resizer" where
  "destroy_resizer r =
     (resetDelta (removeCallbacks
        (r\<lparr>css := \<lparr> css_height = None, css_width = None, css_top = None, css_left = None \<rparr>\<rparr>)))
       \<lparr>rmode := None\<rparr>"

text \<open>The delta operations and what they undo.\<close>

lemma delta_undo [simp]: "substractDelta v x (addDelta v x r) = r"
  by (cases x; cases r) (simp_all add: addDelta_def substractDelta_def)

section \<open>Callbacks\<close>

definition callee :: "callback \<Rightarrow> nat" where
  "callee c = (case c of Func f \<Rightarrow> f | Decorated f \<Rightarrow> f)"

text \<open>No function is registered both plainly and to be called once.\<close>

definition separate :: "callback list \<Rightarrow> bool" where
  "separate cs \<longleftrightarrow> (\<forall>f. \<not> (Func f \<in> set cs \<and> Decorated f \<in> set cs))"

lemma index_of_None [simp]: "index_of x xs = None \<longleftrightarrow> x \<notin> set xs"
  by (induction xs) auto

lemma index_of_Some: "index_of x xs = Some i \<Longrightarrow> x \<in> set xs"
  by (metis index_of_None option.distinct(1))

lemma run_separate:
  "separate (callbacksList r) \<Longrightarrow> c \<in> set (callbacksList r) \<Longrightarrow>
     run_listed c r = r\<lparr>called := called r @ [callee c]\<rparr>"
  by (cases c) (auto simp: run_listed_def removeCallback_def callee_def separate_def split: option.split
    dest: index_of_Some)

lemma fire_separate:
  "separate (callbacksList r) \<Longrightarrow> i + n \<le> length (callbacksList r) \<Longrightarrow>
     fire_from i n r = Some (r\<lparr>called := called r @ map callee (take n (drop i (callbacksList r)))\<rparr>)"
proof (induction n arbitrary: i r)
  case 0
  then show ?case by simp
next
  case (Suc n)
  have i: "i < length (callbacksList r)" using Suc.prems by simp
  then have "drop i (callbacksList r) = callbacksList r ! i # drop (Suc i) (callbacksList r)"
    by (simp add: Cons_nth_drop_Suc)
  with Suc i show ?case by (simp add: run_separate)
qed

lemma fire_all:
  "separate (callbacksList r) \<Longrightarrow>
     fireCallbacks r = Some (r\<lparr>called := called r @ map callee (callbacksList r)\<rparr>)"
  by (simp add: fireCallbacks_def fire_separate)

text \<open>A callback to be called once is called at every alignment, as the list holds the decorator
  and the decorator looks for the function.\<close>

theorem once_fires_again:
  assumes "callbacksList r = []" "called r = []" "align (addOnceCallback f r) = Some r'"
    and "align r' = Some r''"
  shows "called r'' = [f, f]"
proof -
  have step: "align q = Some p \<Longrightarrow> separate (callbacksList q) \<Longrightarrow>
      called p = called q @ map callee (callbacksList q) \<and> callbacksList p = callbacksList q" for p q
    by (auto simp: align_def Let_def fire_all alignByHeightOnly_def alignByWidthOnly_def
        split: option.splits mode.splits if_splits)
  have s: "separate [Decorated f]" by (simp add: separate_def)
  have 1: "callbacksList (addOnceCallback f r) = [Decorated f]" "called (addOnceCallback f r) = []"
    using assms(1,2) by (simp_all add: addOnceCallback_def)
  have "called r' = [f] \<and> callbacksList r' = [Decorated f]"
    using step [OF assms(3)] 1 s by (simp add: callee_def)
  then show ?thesis using step [OF assms(4)] s by (simp add: callee_def)
qed

section \<open>The element fits\<close>

text \<open>The sizes after an alignment, as finite numbers.\<close>

definition placed :: "element_css \<Rightarrow> rat \<Rightarrow> rat \<Rightarrow> rat \<Rightarrow> rat \<Rightarrow> bool" where
  "placed c w h x y \<longleftrightarrow> css_width c = Some (Fin w) \<and> css_height c = Some (Fin h) \<and>
     css_left c = Some (Fin x) \<and> css_top c = Some (Fin y)"

definition data_is :: "resizer \<Rightarrow> rat \<Rightarrow> rat \<Rightarrow> rat \<Rightarrow> bool" where
  "data_is r W H q \<longleftrightarrow> W = box_width r + delta_width r \<and> H = box_height r + delta_height r \<and>
     containerRatio r = None \<and> elementRatio r = Some (Fin q) \<and> 0 < W \<and> 0 < H \<and> 0 < q"

lemma getData_is:
  "data_is r W H q \<Longrightarrow>
     getData r = \<lparr> d_width = Fin W, d_height = Fin H, d_containerRatio = Fin (W / H), d_elementRatio = Fin q \<rparr>"
  by (simp add: data_is_def getData_def truthy_num_def Let_def)

lemma byHeight_placed:
  "data_is r W H q \<Longrightarrow> placed (css (alignByHeightOnly r)) (H * q) H ((W - H * q) / 2) 0"
  by (simp add: alignByHeightOnly_def getData_is placed_def Let_def)

lemma byWidth_placed:
  "data_is r W H q \<Longrightarrow> placed (css (alignByWidthOnly r)) W (W / q) 0 ((H - W / q) / 2)"
proof -
  assume d: "data_is r W H q"
  then have "q \<noteq> 0" by (simp add: data_is_def)
  with getData_is [OF d] show ?thesis by (simp add: alignByWidthOnly_def placed_def Let_def)
qed

lemma align_css:
  assumes "data_is r W H q" "rmode r = None" "separate (callbacksList r)"
  shows "\<exists>r'. align r = Some r' \<and>
    css r' = css (if q \<le> W / H then alignByHeightOnly r else alignByWidthOnly r) \<and>
    callbacksList r' = callbacksList r"
proof -
  let ?a = "if q \<le> W / H then alignByHeightOnly r else alignByWidthOnly r"
  have c: "callbacksList ?a = callbacksList r"
    by (simp add: alignByHeightOnly_def alignByWidthOnly_def Let_def)
  have "align r = fireCallbacks ?a"
    using assms(1,2) by (simp add: align_def getData_is Let_def)
  also have "\<dots> = Some (?a\<lparr>called := called ?a @ map callee (callbacksList ?a)\<rparr>)"
    by (rule fire_all) (simp only: c assms(3))
  finally show ?thesis using c by simp
qed


definition demo_resizer :: resizer where
  "demo_resizer = \<lparr> box_width = 800, box_height = 400, el_width = 0, el_height = 0, containerRatio = None,
     elementRatio = Some (Fin (16 / 9)), delta_width = 0, delta_height = - 40, rmode = None,
     callbacksList = [Func 1, Decorated 2],
     css = \<lparr> css_height = None, css_width = None, css_top = None, css_left = None \<rparr>, called = [] \<rparr>"


end
