(* ===== verification/VidPlayer.thy ===== *)
theory VidPlayer
  imports VidData
begin

text \<open>
  The player of the video module: \<open>video/03_video_player.js\<close>, with the parts of
  \<open>video/06_video_progress_slider.js\<close>, \<open>video/04_video_control.js\<close> and
  \<open>video/01_initialize.js\<close> it works with (position slider, clock, configuration and speed).

  The native player (the YouTube one, or the \<open>video\<close> element behind \<open>02_html5_video.js\<close>) is not modelled. Its state,
  position and duration are fields of the model that change by events of their own, and the calls
  made to it are kept in a list. Events triggered on the page element are kept in another list.
\<close>

section \<open>State\<close>

datatype pstate = Unstarted | Ended | Playing | Paused | Buffering | Cued

text \<open>\<open>CueVideo\<close> and \<open>LoadVideo\<close> keep the speed \<open>youtubeId\<close> is asked for, if any. A time held by \<open>videoPlayer.currentTime\<close>: a number, the text \<open>toFixed\<close> returns, or not a
  finite number.\<close>

datatype ptime = TNum rat | TText rat | TNaN

definition time_val :: "ptime \<Rightarrow> rat option" where
  "time_val t = (case t of TNum q \<Rightarrow> Some q | TText q \<Rightarrow> Some q | TNaN \<Rightarrow> None)"

datatype native =
    PauseVideo
  | PlayVideo
  | NativeSeek rat
  | CueVideo "rat option" ptime
  | LoadVideo "rat option" ptime
  | NativeRate rat
  | DestroyNative
  | NewNative

datatype emitted =
    Stop
  | TimeUpdate ptime
  | SeekEvent rat ptime
  | PauseEvent
  | PlayEvent
  | EndedEvent
  | BufferingEvent
  | ReadyEvent
  | CaptionUpdate ptime
  | SpeedRender
  | SpeedSet

record video =
  c_start :: int
  c_end :: "int option"
  c_saved :: rat
  c_autoplay :: bool
  flash :: bool
  youtube :: bool
  touch :: bool
  firefox :: bool
  safari :: bool
  speeds :: "rat list"
  speed :: rat
  words :: "string \<Rightarrow> int option \<Rightarrow> string"
  n_state :: pstate
  n_time :: "rat option"
  n_duration :: "rat option"
  meta_duration :: "rat option"
  metadata_received :: bool
  currentTime :: ptime
  startTime :: rat
  endTime :: "rat option"
  goToStartTime :: bool
  updateInterval :: "nat option"
  timers :: "nat list"
  next_timer :: nat
  ready_once :: bool
  play_seek :: "rat option"
  debounced :: "rat option"
  el_class :: "pstate option"
  sl_max :: "rat option"
  sl_value :: "int option"
  frozen :: bool
  lastSeekValue :: "rat option"
  aria_max :: "rat option"
  aria_value :: "int option"
  aria_text :: string
  title_ended :: bool
  vcr :: string
  calls :: "native list"
  events :: "emitted list"
  alive :: bool

definition call :: "native \<Rightarrow> video \<Rightarrow> video" where
  "call c s = s\<lparr>calls := calls s @ [c]\<rparr>"

definition emit :: "emitted \<Rightarrow> video \<Rightarrow> video" where
  "emit e s = s\<lparr>events := events s @ [e]\<rparr>"

section \<open>Configuration and speed\<close>

text \<open>The conversions of \<open>start\<close> and \<open>end\<close>, and the check of \<open>initialize\<close>: an end before the start,
  or missing (\<open>null\<close> compares as 0), is no end.\<close>

definition conf_start :: "js \<Rightarrow> int" where
  "conf_start v = (case js_parse_int v of Some i \<Rightarrow> if \<not> finite_double i \<or> i < 0 then 0 else i | None \<Rightarrow> 0)"

definition conf_end :: "js \<Rightarrow> int option" where
  "conf_end v = (case js_parse_int v of Some i \<Rightarrow> if \<not> finite_double i \<or> i = 0 then None else Some i | None \<Rightarrow> None)"

definition conf_range :: "js \<Rightarrow> js \<Rightarrow> int \<times> int option" where
  "conf_range a b =
     (let s = conf_start a; e = conf_end b
      in (s, if (case e of None \<Rightarrow> 0 | Some x \<Rightarrow> x) < s then None else e))"

definition speed_map :: "rat \<Rightarrow> rat option" where
  "speed_map v =
     (if v = 1 / 4 then Some (3 / 4)
      else if v = 1 / 2 then Some (3 / 4)
      else if v = 3 / 4 then Some (1 / 2)
      else if v = 5 / 4 then Some (3 / 2)
      else if v = 2 then Some (3 / 2)
      else None)"

text \<open>A speed stands for its text with two decimals.\<close>

definition speedToString :: "rat \<Rightarrow> rat" where
  "speedToString q = of_int \<lfloor>q * 100 + 1 / 2\<rfloor> / 100"

definition setSpeed :: "rat \<Rightarrow> video \<Rightarrow> video" where
  "setSpeed v s =
     (if v \<in> set (speeds s) then s\<lparr>speed := v\<rparr>
      else s\<lparr>speed := (case speed_map v of
                         Some w \<Rightarrow> if w \<in> set (speeds s) then w else 1
                       | None \<Rightarrow> 1)\<rparr>)"

section \<open>Duration and times\<close>

definition duration :: "video \<Rightarrow> int" where
  "duration s =
     (let bad = (\<lambda>d :: rat option. case d of None \<Rightarrow> True | Some q \<Rightarrow> q \<le> 0);
          d1 = (if bad (n_duration s) \<and> youtube s then meta_duration s else n_duration s);
          d2 = (if bad d1 then Some 0 else d1)
      in (case d2 of Some q \<Rightarrow> \<lfloor>q\<rfloor> | None \<Rightarrow> 0))"

definition figureOutStartEndTime :: "int \<Rightarrow> video \<Rightarrow> video" where
  "figureOutStartEndTime d s =
     (let st = (if of_int d \<le> (of_int (c_start s) :: rat) then 0
                else if flash s then of_int (c_start s) / speed s else of_int (c_start s));
          en = (case c_end s of
                  None \<Rightarrow> None
                | Some e \<Rightarrow> if of_int e \<le> st \<or> d \<le> e then None
                            else if flash s then Some (of_int e / speed s) else Some (of_int e))
      in s\<lparr>startTime := st, endTime := en\<rparr>)"

definition saved_fits :: "int \<Rightarrow> video \<Rightarrow> bool" where
  "saved_fits d s \<longleftrightarrow>
     (case endTime s of None \<Rightarrow> True | Some e \<Rightarrow> c_saved s < e) \<and> c_saved s < of_int d - 1"

definition figureOutStartingTime :: "int \<Rightarrow> video \<Rightarrow> rat \<times> video" where
  "figureOutStartingTime d s0 =
     (let s = figureOutStartEndTime d s0
      in (if 0 < startTime s
          then (if startTime s < c_saved s \<and> saved_fits d s then c_saved s else startTime s)
          else if 0 < c_saved s \<and> saved_fits d s then c_saved s else 0,
          s))"

section \<open>Slider and clock\<close>

definition floor_time :: "ptime \<Rightarrow> int option" where
  "floor_time t = map_option floor (time_val t)"

definition min_end :: "int option \<Rightarrow> rat \<Rightarrow> rat" where
  "min_end e d = (case e of None \<Rightarrow> d | Some x \<Rightarrow> min (of_int x) d)"

definition slider_updatePlayTime :: "ptime \<Rightarrow> rat \<Rightarrow> video \<Rightarrow> video" where
  "slider_updatePlayTime t d s =
     (let m = min_end (c_end s) (of_int \<lfloor>d\<rfloor>);
          s1 = (if frozen s then s else s\<lparr>sl_max := Some m, sl_value := floor_time t\<rparr>)
      in s1\<lparr>aria_max := Some m, aria_value := floor_time t\<rparr>)"

definition updateVcrVidTime :: "ptime \<Rightarrow> rat \<Rightarrow> video \<Rightarrow> video" where
  "updateVcrVidTime t d s =
     s\<lparr>vcr := time_format (time_val t) False @ '' / '' @ time_format (Some (min_end (c_end s) d)) False\<rparr>"

text \<open>An end time of 0 is falsy, and then the duration is taken.\<close>

definition shown_end :: "video \<Rightarrow> rat" where
  "shown_end s = (case c_end s of
       Some e \<Rightarrow> if e = 0 then of_int (duration s) else min (of_int e) (of_int (duration s))
     | None \<Rightarrow> of_int (duration s))"

definition updatePlayTime :: "ptime \<Rightarrow> video \<Rightarrow> video" where
  "updatePlayTime t s =
     (let e = shown_end s
      in emit (CaptionUpdate t) (updateVcrVidTime t e (slider_updatePlayTime t e s)))"

definition notifyThroughHandleEnd :: "bool \<Rightarrow> video \<Rightarrow> video" where
  "notifyThroughHandleEnd e s = s\<lparr>title_ended := e\<rparr>"

definition getTimeDescription :: "(string \<Rightarrow> int option \<Rightarrow> string) \<Rightarrow> rat option \<Rightarrow> string" where
  "getTimeDescription w t =
     (case t of
        None \<Rightarrow> w ''second'' None
      | Some q \<Rightarrow>
          (let s0 = \<lfloor>q\<rfloor>; m0 = \<lfloor>of_int s0 / 60 :: rat\<rfloor>; h = \<lfloor>of_int m0 / 60 :: rat\<rfloor>;
               r = (\<lambda>x :: int. sgn x * (\<bar>x\<bar> mod 60))
           in if h \<noteq> 0 then w ''hour'' (Some h) @ '' '' @ w ''minute'' (Some (r m0)) @ '' '' @ w ''second'' (Some (r s0))
              else if r m0 \<noteq> 0 then w ''minute'' (Some (r m0)) @ '' '' @ w ''second'' (Some (r s0))
              else w ''second'' (Some (r s0))))"

text \<open>\<open>updateStartEndTimeRegion\<close> computes the left edge and the width of the region, in percent, and
  drops them; \<open>None\<close> is an early return.\<close>

definition getRangeParams :: "rat \<Rightarrow> rat \<Rightarrow> rat \<Rightarrow> rat \<times> rat" where
  "getRangeParams a b d = (let st = 100 / d; left = a * st in (left, b * st - left))"

definition region :: "int \<Rightarrow> video \<Rightarrow> (rat \<times> rat) option" where
  "region d s =
     (if d = 0 then None
      else let a = (if d < c_start s then 0
                    else if flash s then of_int (c_start s) / speed s else of_int (c_start s));
               b = (case c_end s of
                      None \<Rightarrow> of_int d
                    | Some e \<Rightarrow> if d < e then of_int d else if flash s then of_int e / speed s else of_int e)
           in if a = 0 \<and> b = of_int d then None else Some (getRangeParams a b (of_int d)))"

definition updateStartEndTimeRegion :: "int \<Rightarrow> video \<Rightarrow> video" where
  "updateStartEndTimeRegion d s = (case region d s of None \<Rightarrow> s | Some p \<Rightarrow> s)"

definition updateVcrAndRegion :: "video \<Rightarrow> video" where
  "updateVcrAndRegion s =
     (let d = duration s; (t, s1) = figureOutStartingTime d s
      in slider_updatePlayTime (TNum t) (of_int d)
           (updateStartEndTimeRegion d (updateVcrVidTime (TNum t) (of_int d) s1)))"

section \<open>Playing\<close>

definition isPlaying :: "video \<Rightarrow> bool" where "isPlaying s \<longleftrightarrow> n_state s = Playing"

definition pause_video :: "video \<Rightarrow> video" where "pause_video s = call PauseVideo s"

definition play_video :: "video \<Rightarrow> video" where
  "play_video s = call PlayVideo (if n_state s = Ended then s\<lparr>goToStartTime := True\<rparr> else s)"

definition update_video :: "video \<Rightarrow> video" where
  "update_video s0 =
     (let s = s0\<lparr>currentTime := (case n_time s0 of Some q \<Rightarrow> TNum q | None \<Rightarrow> TNaN)\<rparr>
      in case n_time s of
           None \<Rightarrow> s
         | Some q \<Rightarrow>
             (let s1 = updatePlayTime (TNum q) s;
                  s2 = (case endTime s1 of
                          None \<Rightarrow> s1
                        | Some e \<Rightarrow> if e \<le> q then emit Stop (notifyThroughHandleEnd True (pause_video s1)) else s1)
              in emit (TimeUpdate (TNum q)) s2))"

definition runTimer :: "video \<Rightarrow> video" where
  "runTimer s =
     (case updateInterval s of
        None \<Rightarrow> update_video (s\<lparr>updateInterval := Some (next_timer s),
                  timers := timers s @ [next_timer s], next_timer := Suc (next_timer s)\<rparr>)
      | Some i \<Rightarrow> s)"

definition stopTimer :: "video \<Rightarrow> video" where
  "stopTimer s =
     (case updateInterval s of
        None \<Rightarrow> s
      | Some i \<Rightarrow> s\<lparr>timers := filter (\<lambda>j. j \<noteq> i) (timers s), updateInterval := None\<rparr>)"

text \<open>\<open>seekTo\<close> (never called with \<open>NaN\<close>): a time that is not a number, or not within the video, is refused. While a YouTube
  video is buffering the native seek is left to a handler of \<open>play\<close>.\<close>

definition seekTo :: "ptime \<Rightarrow> video \<Rightarrow> video" where
  "seekTo t s =
     (case t of
        TNum q \<Rightarrow>
          (if of_int (duration s) < q \<or> q < 0 then s
           else
             let s1 = s\<lparr>play_seek := None\<rparr>;
                 s2 = (if isPlaying s1 then stopTimer s1 else s1);
                 s3 = (if (n_state s2 = Unstarted \<or> n_state s2 = Cued) \<and> youtube s2 then call (CueVideo None t) s2
                       else if youtube s2 \<and> n_state s2 = Buffering then s2\<lparr>play_seek := Some q\<rparr>
                       else call (NativeSeek q) s2);
                 s4 = updatePlayTime t s3;
                 s5 = (if isPlaying s4 then runTimer s4 else s4)
             in s5\<lparr>currentTime := t\<rparr>)
      | _ \<Rightarrow> s)"

definition onSeek :: "rat \<Rightarrow> video \<Rightarrow> video" where
  "onSeek q s =
     (let old = currentTime s
      in emit (SeekEvent q old) (seekTo (TNum q) (s\<lparr>goToStartTime := False\<rparr>)))"

definition setPlaybackRate :: "rat \<Rightarrow> bool \<Rightarrow> video \<Rightarrow> video" where
  "setPlaybackRate v useCue s =
     (if \<not> flash s \<and> \<not> (firefox s \<and> (useCue \<or> v = 1) \<and> youtube s) then call (NativeRate v) s
      else
        let d = duration s; t = currentTime s;
            s1 = (if isPlaying s then call (LoadVideo (Some v) t) s else call (CueVideo (Some v) t) s);
            s2 = updatePlayTime t s1;
            s3 = (if (case time_val t of Some q \<Rightarrow> 0 < q | None \<Rightarrow> False) \<and> flash s2
                  then updateStartEndTimeRegion d (seekTo t s2) else s2)
        in if \<not> flash s3 \<and> v \<noteq> 1 then call (NativeRate v) s3 else s3)"

definition onSpeedChange :: "rat \<Rightarrow> video \<Rightarrow> video" where
  "onSpeedChange v s =
     (let s1 = (if flash s
                then s\<lparr>currentTime := (case time_val (currentTime s) of
                     Some q \<Rightarrow> TText (of_int (time_convert q (speed s) v) / 1000) | None \<Rightarrow> TNaN)\<rparr>
                else s);
          w = speedToString v
      in setPlaybackRate w False (setSpeed w s1))"

section \<open>Events of the native player\<close>

definition ready_first :: "video \<Rightarrow> video" where
  "ready_first s =
     (if ready_once s then s
      else let s1 = s\<lparr>ready_once := True\<rparr>
           in if \<not> flash s1 \<and> speed s1 \<noteq> 1
              then let s2 = (if safari s1 \<and> youtube s1 then setPlaybackRate 1 False s1 else s1)
                   in setPlaybackRate (speed s2) True s2
              else s1)"

text \<open>The event \<open>play\<close> runs the handler a seek during buffering has left.\<close>

definition trigger_play :: "video \<Rightarrow> video" where
  "trigger_play s =
     (let s1 = emit PlayEvent s
      in case play_seek s1 of Some q \<Rightarrow> call (NativeSeek q) s1 | None \<Rightarrow> s1)"

definition onPlay :: "video \<Rightarrow> video" where
  "onPlay s = trigger_play (ready_first (notifyThroughHandleEnd False (runTimer s)))"

definition onPause :: "video \<Rightarrow> video" where
  "onPause s = emit PauseEvent (stopTimer s)"

definition onEnded :: "video \<Rightarrow> video" where
  "onEnded s =
     (let d = duration s;
          s1 = updatePlayTime (TNum (of_int d)) (notifyThroughHandleEnd True s);
          s2 = (if youtube s1 then emit PauseEvent s1 else s1)
      in emit EndedEvent s2)"

definition onStateChange :: "pstate \<Rightarrow> video \<Rightarrow> video" where
  "onStateChange p s0 =
     (let s = s0\<lparr>el_class := Some p\<rparr>
      in case p of
           Unstarted \<Rightarrow> s
         | Playing \<Rightarrow> onPlay s
         | Paused \<Rightarrow> onPause s
         | Buffering \<Rightarrow> emit BufferingEvent s
         | Ended \<Rightarrow> onEnded s
         | Cued \<Rightarrow> (if flash s then play_video s else s))"

definition restartUsingFlash :: "video \<Rightarrow> video" where
  "restartUsingFlash s =
     (let s1 = call NewNative ((call DestroyNative s)\<lparr>flash := True\<rparr>)
      in if metadata_received s1 then updateVcrAndRegion s1 else s1)"

text \<open>\<open>onReady\<close>, given the playback rates the native player offers.\<close>

definition onReady :: "rat list \<Rightarrow> video \<Rightarrow> video" where
  "onReady available s =
     (let rates = filter (\<lambda>r. 1 / 4 < r \<and> r \<le> 5) available
      in if (\<not> flash s \<or> 1 < length rates) \<and> youtube s \<and> length rates = 1 \<and> \<not> touch s
         then restartUsingFlash s
         else
           let s1 = (if (\<not> flash s \<or> 1 < length rates) \<and> youtube s \<and> 1 < length rates
                     then emit SpeedRender (setSpeed (speed s)
                            (s\<lparr>flash := False, speeds := map speedToString rates\<rparr>))
                     else s);
               s2 = (if flash s1 then emit SpeedSet (setSpeed (speed s1) s1) else s1);
               s3 = (if flash s2 then s2 else call (NativeRate (speed s2)) s2);
               (t, s4) = figureOutStartingTime (duration s3) s3;
               s5 = (if 0 < t \<and> goToStartTime s4 then seekTo (TNum t) s4 else s4);
               s6 = emit ReadyEvent s5
           in if c_autoplay s6 then play_video s6 else s6)"

text \<open>\<open>destroy\<close> takes the handlers off the element, \<open>play_seek\<close> among them.\<close>

definition destroy_player :: "video \<Rightarrow> video" where
  "destroy_player s =
     call DestroyNative ((stopTimer (s\<lparr>el_class := None, play_seek := None\<rparr>))\<lparr>alive := False\<rparr>)"

section \<open>The slider\<close>

text \<open>\<open>onSlideSeek\<close> is debounced: of the seeks asked for within 300 ms the last one is made.\<close>

definition onSlide :: "rat \<Rightarrow> video \<Rightarrow> video" where
  "onSlide q s =
     (let s1 = updateVcrVidTime (TNum q) (shown_end s) (s\<lparr>frozen := True, lastSeekValue := Some q\<rparr>);
          s2 = s1\<lparr>debounced := Some q\<rparr>
      in s2\<lparr>aria_text := getTimeDescription (words s2) (time_val (currentTime s2))\<rparr>)"

definition onStop :: "rat \<Rightarrow> video \<Rightarrow> video" where
  "onStop q s =
     (let s1 = s\<lparr>frozen := True\<rparr>;
          s2 = (if lastSeekValue s1 = Some q then s1 else s1\<lparr>debounced := Some q\<rparr>)
      in s2\<lparr>aria_text := getTimeDescription (words s2) (time_val (currentTime s2))\<rparr>)"

definition debounce_fires :: "video \<Rightarrow> video" where
  "debounce_fires s =
     (case debounced s of
        None \<Rightarrow> s
      | Some q \<Rightarrow> (if alive s then onSeek q (s\<lparr>debounced := None\<rparr>) else s\<lparr>debounced := None\<rparr>))"

section \<open>Steps\<close>

datatype video_event =
    NativeState pstate
  | StateChange pstate
  | NativeClock "rat option" "rat option"
  | Metadata "rat option"
  | Tick
  | Ready "rat list"
  | PlayCommand
  | PauseCommand
  | SpeedChange rat
  | SlideTo rat
  | SlideStop rat
  | CaptionSeek rat
  | Unfreeze
  | Debounce
  | Destroy

text \<open>A tick of the interval timer calls \<open>update\<close> once for each timer that is running. After
  \<open>destroy\<close> only the pending seek of the slider and the timers can still happen. \<open>Metadata\<close> is the
  arrival of the duration and the video's size, from either native player.\<close>

definition video_step :: "video_event \<Rightarrow> video \<Rightarrow> video" where
  "video_step e s =
     (case e of
        Tick \<Rightarrow> fold (\<lambda>_. update_video) (timers s) s
      | Debounce \<Rightarrow> debounce_fires s
      | _ \<Rightarrow>
        (if \<not> alive s then s
         else case e of
           NativeState p \<Rightarrow> s\<lparr>n_state := p\<rparr>
         | StateChange p \<Rightarrow> onStateChange p (s\<lparr>n_state := p\<rparr>)
         | NativeClock t d \<Rightarrow> s\<lparr>n_time := t, n_duration := d\<rparr>
         | Metadata d \<Rightarrow> updateVcrAndRegion (s\<lparr>meta_duration := d, metadata_received := True\<rparr>)
         | Ready rates \<Rightarrow> onReady rates s
         | PlayCommand \<Rightarrow> play_video s
         | PauseCommand \<Rightarrow> pause_video s
         | SpeedChange v \<Rightarrow> onSpeedChange v s
         | SlideTo q \<Rightarrow> onSlide q s
         | SlideStop q \<Rightarrow> onStop q s
         | CaptionSeek q \<Rightarrow> s\<lparr>debounced := Some q\<rparr>
         | Unfreeze \<Rightarrow> s\<lparr>frozen := False\<rparr>
         | Destroy \<Rightarrow> destroy_player s
         | _ \<Rightarrow> s))"

definition initial_video :: "js \<Rightarrow> js \<Rightarrow> rat \<Rightarrow> bool \<Rightarrow> bool \<Rightarrow> bool \<Rightarrow> bool \<Rightarrow> bool \<Rightarrow> bool \<Rightarrow>
    rat list \<Rightarrow> rat \<Rightarrow> (string \<Rightarrow> int option \<Rightarrow> string) \<Rightarrow> video" where
  "initial_video a b saved auto fl yt tc ff sf sps sp w =
     \<lparr> c_start = fst (conf_range a b), c_end = snd (conf_range a b), c_saved = saved, c_autoplay = auto,
       flash = fl, youtube = yt, touch = tc, firefox = ff, safari = sf, speeds = sps, speed = sp, words = w,
       n_state = Unstarted, n_time = Some 0, n_duration = None, meta_duration = None, metadata_received = False,
       currentTime = TNum 0, startTime = 0, endTime = None, goToStartTime = True,
       updateInterval = None, timers = [], next_timer = 1, ready_once = False, play_seek = None, debounced = None,
       el_class = None, sl_max = map_option of_int (snd (conf_range a b)), sl_value = Some 0, frozen = False,
       lastSeekValue = None, aria_max = Some 0, aria_value = Some 0, aria_text = getTimeDescription w (Some 0),
       title_ended = False, vcr = '''', calls = [], events = [], alive = True \<rparr>"

text \<open>Flash plays YouTube videos only; the \<open>video\<close> element has no \<open>cueVideoById\<close>.\<close>

inductive video_reach :: "video \<Rightarrow> bool" where
  start: "(fl \<longrightarrow> yt) \<Longrightarrow> video_reach (initial_video a b saved auto fl yt tc ff sf sps sp w)"
| event: "video_reach s \<Longrightarrow> video_reach (video_step e s)"

end
