(* ===== verification/VidStore.thy ===== *)
theory VidStore
  imports VidPlayer
begin

text \<open>
  The settings of the video player that outlive a page element: the storage
  (\<open>video/00_video_storage.js\<close>), the module that fills it and posts the state to the server
  (\<open>video/09_save_state_plugin.js\<close>), and the settings read back when a video is initialised
  (\<open>video/01_initialize.js\<close>). A speed is a \<open>JNum\<close> that stands for its text with two decimals.
\<close>

section \<open>\<open>VideoStorage\<close>\<close>

text \<open>The object \<open>window[namespace]\<close>: its properties are values, except that a video's own storage is
  an object in it, under the video's id. \<open>None\<close> is a thrown \<open>TypeError\<close>.\<close>

datatype cell = Val js | Own "(string \<times> js) list"

type_synonym store = "string \<Rightarrow> cell option"

definition storage_initialize :: "string \<Rightarrow> store \<Rightarrow> store" where
  "storage_initialize vid s = (case s vid of None \<Rightarrow> s(vid := Some (Own [])) | Some c \<Rightarrow> s)"

definition setItem :: "string \<Rightarrow> string \<Rightarrow> js \<Rightarrow> bool \<Rightarrow> store \<Rightarrow> store option" where
  "setItem vid name v own s =
     (if name = [] then Some s
      else if own
        then (case s vid of Some (Own kvs) \<Rightarrow> Some (s(vid := Some (Own (kv_put name v kvs)))) | _ \<Rightarrow> None)
      else Some (s(name := Some (Val v))))"

definition getItem :: "string \<Rightarrow> string \<Rightarrow> bool \<Rightarrow> store \<Rightarrow> js option" where
  "getItem vid name own s =
     (if own then (case s vid of
          Some (Own kvs) \<Rightarrow> Some (js_get (JObj kvs) name)
        | Some (Val v) \<Rightarrow> if v = JUndef \<or> v = JNull then None else Some (js_get v name)
        | None \<Rightarrow> None)
      else Some (case s name of Some (Val v) \<Rightarrow> v | Some (Own kvs) \<Rightarrow> JObj kvs | None \<Rightarrow> JUndef))"

definition removeItem :: "string \<Rightarrow> string \<Rightarrow> bool \<Rightarrow> store \<Rightarrow> store option" where
  "removeItem vid name own s =
     (if own then (case s vid of
          Some (Own kvs) \<Rightarrow> Some (s(vid := Some (Own (filter (\<lambda>(k, v). k \<noteq> name) kvs))))
        | Some (Val v) \<Rightarrow> None
        | None \<Rightarrow> None)
      else Some (s(name := None)))"

definition clear :: "string \<Rightarrow> store \<Rightarrow> store" where
  "clear vid s = (\<lambda>_. None)(vid := Some (Own []))"

section \<open>\<open>SaveStatePlugin\<close>\<close>

text \<open>What is posted to the server, and whether asynchronously.\<close>

datatype post = PostSpeed js bool | PostPosition string bool | PostYoutube bool bool

record saver =
  sv_id :: string
  sv_store :: store
  sv_posts :: "post list"
  recordedYoutube :: bool
  unload_bound :: bool

text \<open>\<open>saveState\<close> with a speed, with the availability of YouTube, or with the position.\<close>

definition saveState_speed :: "bool \<Rightarrow> js \<Rightarrow> saver \<Rightarrow> saver option" where
  "saveState_speed asy v s =
     (case setItem (sv_id s) ''speed'' v True (sv_store s) of
        None \<Rightarrow> None
      | Some st \<Rightarrow> Some (s\<lparr>sv_store := st, sv_posts := sv_posts s @ [PostSpeed v asy]\<rparr>))"

definition saveState_position :: "bool \<Rightarrow> rat \<Rightarrow> saver \<Rightarrow> saver option" where
  "saveState_position asy t s =
     (case setItem (sv_id s) ''savedVideoPosition'' (JNum t) True (sv_store s) of
        None \<Rightarrow> None
      | Some st \<Rightarrow> Some (s\<lparr>sv_store := st, sv_posts := sv_posts s @ [PostPosition (formatFull (Some t)) asy]\<rparr>))"

definition save_onSpeedChange :: "rat \<Rightarrow> saver \<Rightarrow> saver option" where
  "save_onSpeedChange v s =
     do { s1 \<leftarrow> saveState_speed True (JNum v) s;
          st1 \<leftarrow> setItem (sv_id s1) ''speed'' (JNum v) True (sv_store s1);
          st2 \<leftarrow> setItem (sv_id s1) ''general_speed'' (JNum v) False st1;
          Some (s1\<lparr>sv_store := st2\<rparr>) }"

definition saveStateHandler :: "rat \<Rightarrow> saver \<Rightarrow> saver option" where
  "saveStateHandler t s = saveState_position True t s"

text \<open>\<open>bindUnloadHandler\<close> is a \<open>_.once\<close> function of the prototype, so all videos of the page share it:
  the flag says whether one has called it already.\<close>

definition bindUnloadHandler :: "bool \<Rightarrow> saver \<Rightarrow> bool \<times> saver" where
  "bindUnloadHandler called s = (True, if called then s else s\<lparr>unload_bound := True\<rparr>)"

definition onUnload :: "rat \<Rightarrow> saver \<Rightarrow> saver option" where
  "onUnload t s = (if unload_bound s then saveState_position False t s else Some s)"

text \<open>The second video to be played does not save its position when the page is left.\<close>

lemma second_video_not_saved:
  assumes "\<not> unload_bound s"
  shows "onUnload t (snd (bindUnloadHandler True s)) = Some s"
  using assms by (simp add: bindUnloadHandler_def onUnload_def)

definition onLanguageChange :: "string \<Rightarrow> saver \<Rightarrow> saver option" where
  "onLanguageChange l s =
     (case setItem (sv_id s) ''language'' (JStr l) False (sv_store s) of
        None \<Rightarrow> None | Some st \<Rightarrow> Some (s\<lparr>sv_store := st\<rparr>))"

definition onYoutubeAvailability :: "bool \<Rightarrow> saver \<Rightarrow> saver" where
  "onYoutubeAvailability b s =
     (if b \<noteq> recordedYoutube s then s\<lparr>sv_posts := sv_posts s @ [PostYoutube b True]\<rparr> else s)"

section \<open>Reading the settings\<close>

definition js_truthy :: "js \<Rightarrow> bool" where
  "js_truthy v = (case v of JUndef \<Rightarrow> False | JNull \<Rightarrow> False | JBool b \<Rightarrow> b | JNum q \<Rightarrow> q \<noteq> 0
     | JStr t \<Rightarrow> t \<noteq> [] | _ \<Rightarrow> True)"

definition js_or :: "js \<Rightarrow> js \<Rightarrow> js" where
  "js_or v w = (if js_truthy v then v else w)"

text \<open>The conversions of the settings; the arguments are the values the server sent.\<close>

definition conv_speed :: "string \<Rightarrow> js \<Rightarrow> store \<Rightarrow> js option" where
  "conv_speed vid v s = map_option (\<lambda>x. js_or x v) (getItem vid ''speed'' True s)"

definition conv_generalSpeed :: "string \<Rightarrow> js \<Rightarrow> store \<Rightarrow> js option" where
  "conv_generalSpeed vid v s =
     map_option (\<lambda>x. js_or (js_or x v) (JNum 1)) (getItem vid ''general_speed'' False s)"

definition conv_language :: "string \<Rightarrow> js \<Rightarrow> store \<Rightarrow> js option" where
  "conv_language vid v s =
     map_option (\<lambda>x. js_or (js_or x v) (JStr ''en'')) (getItem vid ''language'' False s)"

text \<open>The saved position the server sent is read as a number, \<open>None\<close> if it is none.\<close>

definition conv_position :: "string \<Rightarrow> rat option \<Rightarrow> store \<Rightarrow> js option" where
  "conv_position vid v s =
     map_option (\<lambda>x. js_or (js_or x (case v of Some q \<Rightarrow> JNum q | None \<Rightarrow> JUndef)) (JNum 0))
       (getItem vid ''savedVideoPosition'' True s)"

definition initial_speed :: "string \<Rightarrow> js \<Rightarrow> js \<Rightarrow> store \<Rightarrow> rat option" where
  "initial_speed vid sp gen s =
     do { a \<leftarrow> conv_speed vid sp s;
          b \<leftarrow> conv_generalSpeed vid gen s;
          (case js_or a b of JNum q \<Rightarrow> Some (speedToString q) | _ \<Rightarrow> None) }"

section \<open>What is set is got\<close>

definition has_own :: "string \<Rightarrow> store \<Rightarrow> bool" where
  "has_own vid s \<longleftrightarrow> (case s vid of Some (Own kvs) \<Rightarrow> True | _ \<Rightarrow> False)"

lemma has_own_init: "s vid = None \<Longrightarrow> has_own vid (storage_initialize vid s)"
  by (simp add: has_own_def storage_initialize_def)

lemma set_own:
  "has_own vid s \<Longrightarrow> name \<noteq> [] \<Longrightarrow>
     \<exists>s'. setItem vid name v True s = Some s' \<and> has_own vid s' \<and> (\<forall>k. k \<noteq> vid \<longrightarrow> s' k = s k) \<and>
       (\<forall>n. getItem vid n True s' = (if n = name then Some v else getItem vid n True s))"
proof -
  assume "has_own vid s" "name \<noteq> []"
  then obtain kvs where k: "s vid = Some (Own kvs)"
    by (auto simp: has_own_def split: option.splits cell.splits)
  let ?s = "s(vid := Some (Own (kv_put name v kvs)))"
  have "setItem vid name v True s = Some ?s" using \<open>name \<noteq> []\<close> k by (simp add: setItem_def)
  moreover have "has_own vid ?s" by (simp add: has_own_def)
  moreover have "getItem vid n True ?s = (if n = name then Some v else getItem vid n True s)" for n
    using k by (simp add: getItem_def)
  ultimately show ?thesis by auto
qed

lemma set_general:
  "name \<noteq> [] \<Longrightarrow> name \<noteq> vid \<Longrightarrow>
     \<exists>s'. setItem vid name v False s = Some s' \<and> s' name = Some (Val v) \<and> (\<forall>k. k \<noteq> name \<longrightarrow> s' k = s k)"
  by (simp add: setItem_def)

lemma getItem_own_cong: "s' vid = s vid \<Longrightarrow> getItem vid n True s' = getItem vid n True s"
  by (simp add: getItem_def)

lemma has_own_cong: "s' vid = s vid \<Longrightarrow> has_own vid s' = has_own vid s"
  by (simp add: has_own_def)

text \<open>What a change of speed leaves in the storage.\<close>

lemma speed_stored:
  assumes "has_own (sv_id s) (sv_store s)" "sv_id s \<noteq> ''general_speed''"
  shows "\<exists>s'. save_onSpeedChange v s = Some s' \<and> sv_id s' = sv_id s \<and>
    sv_posts s' = sv_posts s @ [PostSpeed (JNum v) True] \<and>
    getItem (sv_id s) ''speed'' True (sv_store s') = Some (JNum v) \<and>
    sv_store s' ''general_speed'' = Some (Val (JNum v)) \<and>
    (\<forall>k. k \<noteq> sv_id s \<and> k \<noteq> ''general_speed'' \<longrightarrow> sv_store s' k = sv_store s k)"
proof -
  obtain s1 where s1: "setItem (sv_id s) ''speed'' (JNum v) True (sv_store s) = Some s1"
    "has_own (sv_id s) s1" "\<forall>k. k \<noteq> sv_id s \<longrightarrow> s1 k = sv_store s k"
    using set_own [OF assms(1), of "''speed''" "JNum v"] by auto
  obtain s2 where s2: "setItem (sv_id s) ''speed'' (JNum v) True s1 = Some s2"
    "\<forall>k. k \<noteq> sv_id s \<longrightarrow> s2 k = s1 k" "getItem (sv_id s) ''speed'' True s2 = Some (JNum v)"
    using set_own [OF s1(2), of "''speed''" "JNum v"] by auto
  obtain s3 where s3: "setItem (sv_id s) ''general_speed'' (JNum v) False s2 = Some s3"
    "s3 ''general_speed'' = Some (Val (JNum v))" "\<forall>k. k \<noteq> ''general_speed'' \<longrightarrow> s3 k = s2 k"
    using set_general [of "''general_speed''" "sv_id s" "JNum v" s2] assms(2) by auto
  have "getItem (sv_id s) ''speed'' True s3 = Some (JNum v)"
    using s2(3) s3(3) assms(2) getItem_own_cong [of s3 "sv_id s" s2] by simp
  with s1 s2 s3 show ?thesis
    by (auto simp: save_onSpeedChange_def saveState_speed_def)
qed


definition demo_saver :: saver where
  "demo_saver = \<lparr> sv_id = ''v1'', sv_store = storage_initialize ''v2'' (storage_initialize ''v1'' (\<lambda>_. None)),
     sv_posts = [], recordedYoutube = True, unload_bound = False \<rparr>"


end
