(* ===== verification/VidSpeed.thy ===== *)
theory VidSpeed
  imports VidStore
begin

text \<open>
  The speed menu of the video player, \<open>video/08_video_speed_control.js\<close>: its entries, which the
  keyboard walks through the iterator of \<open>VidData\<close>, its look, and the event \<open>speedchange\<close> that the
  player (\<open>VidPlayer\<close>) and the saved state (\<open>VidStore\<close>) answer. A speed stands for its text with two
  decimals, as in \<open>VidPlayer\<close>. \<open>None\<close> is a thrown \<open>TypeError\<close>.
\<close>

section \<open>State\<close>

datatype focus = NoFocus | OnButton | OnEntry nat

text \<open>\<open>m_entries\<close> are the speeds of the entries from the top, \<open>m_links\<close> the iterator over their
  buttons; \<open>m_window\<close> counts the click handlers left on the window, \<open>m_closing\<close> says that the timer
  of the TAB key runs; \<open>m_text\<close> and \<open>m_title\<close> are the speeds the button and its title show; the
  events \<open>speedchange\<close> are listed in order.\<close>

record menu =
  m_entries :: "rat list"
  m_links :: "nat iterator"
  m_focus :: focus
  m_opened :: bool
  m_tabbable :: bool
  m_expanded :: bool
  m_window :: nat
  m_closing :: bool
  m_current :: "rat option"
  m_text :: "rat option"
  m_title :: rat
  m_active :: "bool list"
  m_changes :: "rat list"

section \<open>Operations\<close>

definition resetActiveSpeed :: "menu \<Rightarrow> menu" where
  "resetActiveSpeed s = s\<lparr>m_active := map (\<lambda>_. False) (m_entries s)\<rparr>"

definition setActiveSpeed :: "rat \<Rightarrow> menu \<Rightarrow> menu" where
  "setActiveSpeed v s =
     s\<lparr>m_active := map2 (\<lambda>a e. a \<or> e = v) (m_active s) (m_entries s), m_title := v\<rparr>"

definition openMenu_speed :: "bool \<Rightarrow> menu \<Rightarrow> menu" where
  "openMenu_speed bindEvent s =
     s\<lparr>m_window := (if bindEvent then Suc (m_window s) else m_window s),
       m_opened := True, m_tabbable := False, m_expanded := True\<rparr>"

definition closeMenu_speed :: "bool \<Rightarrow> menu \<Rightarrow> menu" where
  "closeMenu_speed unBindEvent s =
     s\<lparr>m_window := (if unBindEvent then 0 else m_window s),
       m_opened := False, m_tabbable := True, m_expanded := False\<rparr>"

definition setSpeed_menu :: "rat \<Rightarrow> bool \<Rightarrow> bool \<Rightarrow> menu \<Rightarrow> menu" where
  "setSpeed_menu v silent forceUpdate s =
     (let s1 = (if m_current s \<noteq> Some v \<or> forceUpdate
                then s\<lparr>m_text := Some v, m_current := Some v,
                       m_changes := (if silent then m_changes s else m_changes s @ [v])\<rparr>
                else s)
      in setActiveSpeed v (resetActiveSpeed s1))"

text \<open>\<open>render\<close> builds the entries anew, the highest speed first; \<open>this.currentSpeed\<close> and the text of
  the button stay.\<close>

definition render :: "rat list \<Rightarrow> rat \<Rightarrow> menu \<Rightarrow> menu" where
  "render vs v s =
     setActiveSpeed v
       (s\<lparr>m_entries := rev vs, m_links := new_iterator [0 ..< length vs],
          m_active := map (\<lambda>_. False) vs,
          m_focus := (case m_focus s of OnEntry k \<Rightarrow> NoFocus | f \<Rightarrow> f)\<rparr>)"

definition onSetSpeed :: "rat \<Rightarrow> menu \<Rightarrow> menu" where
  "onSetSpeed v s = setSpeed_menu v True False s"

definition onRenderSpeed :: "rat list \<Rightarrow> rat \<Rightarrow> menu \<Rightarrow> menu" where
  "onRenderSpeed vs v s = render vs v s"

definition initialize_speed :: "bool \<Rightarrow> bool \<Rightarrow> bool \<Rightarrow> rat list \<Rightarrow> rat \<Rightarrow> menu option" where
  "initialize_speed isTouch html5 playbackRate vs v =
     (if \<not> isTouch \<or> (html5 \<and> \<not> playbackRate)
      then Some (setSpeed_menu v True True (render vs v
             \<lparr> m_entries = [], m_links = new_iterator [], m_focus = NoFocus, m_opened = False,
               m_tabbable = True, m_expanded = False, m_window = 0, m_closing = False, m_current = None,
               m_text = None, m_title = v, m_active = [], m_changes = [] \<rparr>))
      else None)"

definition focus_link :: "nat option \<times> nat iterator \<Rightarrow> menu \<Rightarrow> menu option" where
  "focus_link r s = (case r of (None, it) \<Rightarrow> None | (Some k, it) \<Rightarrow> Some (s\<lparr>m_links := it, m_focus := OnEntry k\<rparr>))"

definition clickMenuHandler :: "menu \<Rightarrow> menu" where
  "clickMenuHandler s = closeMenu_speed False s"

definition clickLinkHandler :: "nat \<Rightarrow> menu \<Rightarrow> menu" where
  "clickLinkHandler k s =
     (let v = m_entries s ! k; s1 = setActiveSpeed v (resetActiveSpeed s)
      in closeMenu_speed True (setSpeed_menu (speedToString v) False False s1))"

definition mouseEnterHandler :: "menu \<Rightarrow> menu" where
  "mouseEnterHandler s = openMenu_speed False s"

definition mouseLeaveHandler :: "menu \<Rightarrow> menu" where
  "mouseLeaveHandler s = (case m_focus s of OnEntry k \<Rightarrow> s | _ \<Rightarrow> closeMenu_speed False s)"

text \<open>The keys: 13 ENTER, 32 SPACE, 38 UP, 40 DOWN, 27 ESCAPE, 9 TAB. The results say whether the
  event goes on.\<close>

definition keyDownMenuHandler :: "nat \<Rightarrow> menu \<Rightarrow> (bool \<times> menu) option" where
  "keyDownMenuHandler key s =
     map_option (Pair (key = 9))
       (if key = 13 \<or> key = 32 \<or> key = 38
        then (let s1 = openMenu_speed True s in focus_link (it_last (m_links s1), m_links s1) s1)
        else if key = 27 then Some (closeMenu_speed True s)
        else Some s)"

definition keyDownLinkHandler :: "nat \<Rightarrow> nat \<Rightarrow> bool \<Rightarrow> bool \<Rightarrow> menu \<Rightarrow> (bool \<times> menu) option" where
  "keyDownLinkHandler k key alt shift s =
     (if alt then Some (True, s)
      else if key = 9 then Some (True, s\<lparr>m_closing := True\<rparr>)
      else if key = 27 then Some (False, (closeMenu_speed True s)\<lparr>m_focus := OnButton\<rparr>)
      else if key = 38
        then (if shift then Some (True, s)
              else map_option (Pair False) (focus_link (it_prev (m_links s) (JNum (of_nat k))) s))
      else if key = 40
        then (if shift then Some (True, s)
              else map_option (Pair False) (focus_link (it_next (m_links s) (JNum (of_nat k))) s))
      else if key = 13 \<or> key = 32
        then Some (False, setSpeed_menu (speedToString (m_entries s ! k)) False False
                            ((closeMenu_speed True s)\<lparr>m_focus := OnButton\<rparr>))
      else Some (True, s))"

text \<open>A key on an entry reaches the menu too when the entry lets it go on. Clicking on the menu outside
  an entry calls \<open>openMenu\<close> with the page element for \<open>this\<close>, and throws.\<close>

definition key_on_entry :: "nat \<Rightarrow> nat \<Rightarrow> bool \<Rightarrow> bool \<Rightarrow> menu \<Rightarrow> menu option" where
  "key_on_entry k key alt shift s =
     (case keyDownLinkHandler k key alt shift s of
        None \<Rightarrow> None
      | Some (False, s1) \<Rightarrow> Some s1
      | Some (True, s1) \<Rightarrow> map_option snd (keyDownMenuHandler key s1))"

definition click_on_menu :: "menu \<Rightarrow> menu option" where
  "click_on_menu s = None"

definition window_click :: "menu \<Rightarrow> menu" where
  "window_click s = (if 0 < m_window s then clickMenuHandler s else s)"

definition closing_timer :: "menu \<Rightarrow> menu" where
  "closing_timer s = (if m_closing s then (closeMenu_speed True s)\<lparr>m_closing := False\<rparr> else s)"

definition destroy_speed :: "menu \<Rightarrow> menu" where
  "destroy_speed s = closeMenu_speed True s"

section \<open>Events\<close>

datatype menu_event =
    EntryKey nat bool bool
  | ButtonKey nat
  | ClickEntry nat
  | WindowClick
  | MouseIn
  | MouseOut
  | Closing
  | SpeedIs rat
  | NewSpeeds "rat list" rat

text \<open>A key goes to the entry that has the focus.\<close>

definition menu_step :: "menu_event \<Rightarrow> menu \<Rightarrow> menu option" where
  "menu_step e s =
     (case e of
        EntryKey key alt shift \<Rightarrow>
          (case m_focus s of OnEntry k \<Rightarrow> key_on_entry k key alt shift s | _ \<Rightarrow> Some s)
      | ButtonKey key \<Rightarrow> map_option snd (keyDownMenuHandler key s)
      | ClickEntry k \<Rightarrow> Some (if k < length (m_entries s) then clickLinkHandler k s else s)
      | WindowClick \<Rightarrow> Some (window_click s)
      | MouseIn \<Rightarrow> Some (mouseEnterHandler s)
      | MouseOut \<Rightarrow> Some (mouseLeaveHandler s)
      | Closing \<Rightarrow> Some (closing_timer s)
      | SpeedIs v \<Rightarrow> Some (onSetSpeed v s)
      | NewSpeeds vs v \<Rightarrow> Some (onRenderSpeed vs v s))"

inductive menu_reach :: "menu \<Rightarrow> bool" where
  start: "initialize_speed isTouch html5 rate vs v = Some s \<Longrightarrow> vs \<noteq> [] \<Longrightarrow>
     list_all (\<lambda>x. speedToString x = x) vs \<Longrightarrow> menu_reach s"
| event: "menu_reach s \<Longrightarrow> menu_step e s = Some s' \<Longrightarrow>
     (case e of NewSpeeds vs v \<Rightarrow> vs \<noteq> [] \<and> list_all (\<lambda>x. speedToString x = x) vs | _ \<Rightarrow> True) \<Longrightarrow> menu_reach s'"

section \<open>What holds of the menu\<close>

text \<open>The iterator's position is not used when the index is given.\<close>

definition links_ok :: "nat iterator \<Rightarrow> nat \<Rightarrow> bool" where
  "links_ok it n \<longleftrightarrow> it_list it = [0 ..< n] \<and> it_size it = n \<and> lastIndex it = int n - 1"

fun focus_in :: "focus \<Rightarrow> nat \<Rightarrow> bool" where
  "focus_in (OnEntry k) n = (k < n)"
| "focus_in _ n = True"

definition menu_ok :: "menu \<Rightarrow> bool" where
  "menu_ok s \<longleftrightarrow> m_entries s \<noteq> [] \<and> links_ok (m_links s) (length (m_entries s)) \<and>
     list_all (\<lambda>x. speedToString x = x) (m_entries s) \<and>
     m_active s = map (\<lambda>e. e = m_title s) (m_entries s) \<and>
     m_opened s = m_expanded s \<and> m_tabbable s = (\<not> m_opened s) \<and> m_text s = m_current s \<and>
     focus_in (m_focus s) (length (m_entries s))"

lemma links_at: "links_ok it n \<Longrightarrow> k < n \<Longrightarrow> at_pos (it\<lparr>it_index := of_nat k\<rparr>) [0 ..< n] k"
  by (simp add: links_ok_def at_pos_def)

lemma link_given:
  assumes "links_ok it n" "k < n"
  shows "it_next it (JNum (of_nat k)) = it_next (it\<lparr>it_index := of_nat k\<rparr>) JUndef"
    "it_prev it (JNum (of_nat k)) = it_prev (it\<lparr>it_index := of_nat k\<rparr>) JUndef"
  using assms by (simp_all add: it_next_def it_prev_def start_index_def isValid_def links_ok_def Let_def)

lemma links_next:
  assumes "links_ok it n" "k < n"
  shows "fst (it_next it (JNum (of_nat k))) = Some (Suc k mod n)" "links_ok (snd (it_next it (JNum (of_nat k)))) n"
proof -
  from assms have "Suc k mod n < n" by simp
  with next_pos [OF links_at [OF assms]]
  show "fst (it_next it (JNum (of_nat k))) = Some (Suc k mod n)" "links_ok (snd (it_next it (JNum (of_nat k)))) n"
    by (simp_all add: link_given [OF assms] at_pos_def links_ok_def)
qed

lemma links_prev:
  assumes "links_ok it n" "k < n"
  shows "fst (it_prev it (JNum (of_nat k))) = Some ((k + n - 1) mod n)" "links_ok (snd (it_prev it (JNum (of_nat k)))) n"
proof -
  from assms have "(k + n - 1) mod n < n" by simp
  with prev_pos [OF links_at [OF assms]]
  show "fst (it_prev it (JNum (of_nat k))) = Some ((k + n - 1) mod n)" "links_ok (snd (it_prev it (JNum (of_nat k)))) n"
    by (simp_all add: link_given [OF assms] at_pos_def links_ok_def)
qed

lemma links_last: "links_ok it n \<Longrightarrow> 0 < n \<Longrightarrow> it_last it = Some (n - 1)"
proof -
  assume a: "links_ok it n" "0 < n"
  then have "lastIndex it = int (n - 1)" by (simp add: links_ok_def of_nat_diff)
  then have "(of_int (lastIndex it) :: rat) = of_nat (n - 1)" by (simp only: of_int_of_nat_eq)
  then have "it_last it = js_at [0 ..< n] (of_nat (n - 1))" using a(1) by (simp only: it_last_def links_ok_def)
  with a(2) show ?thesis by (simp only: js_at_nat) simp
qed

lemma map2_const: "length xs = length ys \<Longrightarrow> map2 (\<lambda>a e. a \<or> e = v) (map (\<lambda>_. False) xs) ys = map (\<lambda>e. e = v) ys"
  by (induction xs ys rule: list_induct2) auto

lemma setActive_reset [simp]:
  "setActiveSpeed v (resetActiveSpeed s) = s\<lparr>m_active := map (\<lambda>e. e = v) (m_entries s), m_title := v\<rparr>"
  by (simp add: setActiveSpeed_def resetActiveSpeed_def map2_const)

lemma set_ok: "menu_ok s \<Longrightarrow> menu_ok (setSpeed_menu v silent force s)"
  by (auto simp: menu_ok_def setSpeed_menu_def Let_def)

lemma open_ok: "menu_ok s \<Longrightarrow> menu_ok (openMenu_speed b s)" "menu_ok s \<Longrightarrow> menu_ok (closeMenu_speed b s)"
  by (simp_all add: menu_ok_def openMenu_speed_def closeMenu_speed_def)

lemma small_ok: "menu_ok s \<Longrightarrow> menu_ok (s\<lparr>m_focus := OnButton\<rparr>)" "menu_ok s \<Longrightarrow> menu_ok (s\<lparr>m_closing := b\<rparr>)"
  "menu_ok s \<Longrightarrow> menu_ok (s\<lparr>m_active := map (\<lambda>e. e = v) (m_entries s), m_title := v\<rparr>)"
  by (simp_all add: menu_ok_def)

lemma render_ok:
  "m_opened s = m_expanded s \<Longrightarrow> m_tabbable s = (\<not> m_opened s) \<Longrightarrow> m_text s = m_current s \<Longrightarrow> vs \<noteq> [] \<Longrightarrow>
   list_all (\<lambda>x. speedToString x = x) vs \<Longrightarrow> menu_ok (render vs v s)"
  by (auto simp: menu_ok_def render_def setActiveSpeed_def map2_const links_ok_def new_iterator_def list_all_iff
      split: focus.split focus.splits)

lemma focus_ok: "menu_ok s \<Longrightarrow> links_ok it (length (m_entries s)) \<Longrightarrow> k < length (m_entries s) \<Longrightarrow>
     menu_ok (s\<lparr>m_links := it, m_focus := OnEntry k\<rparr>)"
  by (simp add: menu_ok_def)

lemma menuHandler_ok: "menu_ok s \<Longrightarrow> keyDownMenuHandler key s = Some (b, s') \<Longrightarrow> menu_ok s'"
proof -
  assume ok: "menu_ok s" and r: "keyDownMenuHandler key s = Some (b, s')"
  have o: "menu_ok (openMenu_speed True s)" by (rule open_ok(1) [OF ok])
  then have l: "links_ok (m_links (openMenu_speed True s)) (length (m_entries (openMenu_speed True s)))"
    "0 < length (m_entries (openMenu_speed True s))" by (auto simp: menu_ok_def)
  note last = links_last [OF l]
  show ?thesis
    using r ok focus_ok [OF o l(1), of "length (m_entries (openMenu_speed True s)) - 1"] l(2)
    by (auto simp: keyDownMenuHandler_def Let_def focus_link_def last open_ok split: if_splits)
qed

lemma linkHandler_ok:
  assumes "menu_ok s" "k < length (m_entries s)" "keyDownLinkHandler k key alt shift s = Some (b, s')"
  shows "menu_ok s'"
proof -
  let ?n = "length (m_entries s)"
  have l: "links_ok (m_links s) ?n" using assms(1) by (simp add: menu_ok_def)
  have "0 < ?n" using assms(2) by (cases "m_entries s") simp_all
  then have m: "Suc k mod ?n < ?n" "(k + ?n - 1) mod ?n < ?n" by (simp_all del: length_greater_0_conv)
  obtain it where n: "it_next (m_links s) (JNum (of_nat k)) = (Some (Suc k mod ?n), it)" "links_ok it ?n"
    using links_next [OF l assms(2)] by (metis prod.collapse)
  obtain it' where p: "it_prev (m_links s) (JNum (of_nat k)) = (Some ((k + ?n - 1) mod ?n), it')" "links_ok it' ?n"
    using links_prev [OF l assms(2)] by (metis prod.collapse)
  show ?thesis
    using assms(3) assms(1) focus_ok [OF assms(1) n(2) m(1)] focus_ok [OF assms(1) p(2) m(2)]
    by (auto simp: keyDownLinkHandler_def focus_link_def n(1) p(1) intro: set_ok open_ok small_ok split: if_splits)
qed

lemma step_ok_menu:
  assumes "menu_ok s" "menu_step e s = Some s'"
    "case e of NewSpeeds vs v \<Rightarrow> vs \<noteq> [] \<and> list_all (\<lambda>x. speedToString x = x) vs | _ \<Rightarrow> True"
  shows "menu_ok s'"
proof (cases e)
  case (EntryKey key alt shift)
  show ?thesis
  proof (cases "m_focus s")
    case (OnEntry k)
    with assms(1) have k: "k < length (m_entries s)" by (simp add: menu_ok_def)
    obtain b s1 where s1: "keyDownLinkHandler k key alt shift s = Some (b, s1)"
      using assms(2) EntryKey OnEntry by (auto simp: menu_step_def key_on_entry_def split: option.splits)
    then have ok1: "menu_ok s1" by (rule linkHandler_ok [OF assms(1) k])
    show ?thesis
    proof (cases b)
      case True
      then obtain b' where "keyDownMenuHandler key s1 = Some (b', s')"
        using assms(2) EntryKey OnEntry s1 by (auto simp: menu_step_def key_on_entry_def)
      then show ?thesis by (rule menuHandler_ok [OF ok1])
    next
      case False
      then show ?thesis using assms(2) EntryKey OnEntry s1 ok1 by (auto simp: menu_step_def key_on_entry_def)
    qed
  qed (use assms EntryKey in \<open>auto simp: menu_step_def\<close>)
next
  case (ButtonKey key)
  with assms menuHandler_ok show ?thesis by (auto simp: menu_step_def)
next
  case (ClickEntry k)
  with assms show ?thesis
    by (auto simp: menu_step_def clickLinkHandler_def Let_def intro!: open_ok(2) set_ok small_ok(3))
next
  case (NewSpeeds vs v)
  have "m_opened s = m_expanded s" "m_tabbable s = (\<not> m_opened s)" "m_text s = m_current s"
    using assms(1) by (auto simp: menu_ok_def)
  from render_ok [OF this, of vs v] assms(2,3) NewSpeeds show ?thesis
    by (simp add: menu_step_def onRenderSpeed_def)
next
  case Closing
  have "menu_ok ((closeMenu_speed True s)\<lparr>m_closing := False\<rparr>)"
    by (rule small_ok(2) [OF open_ok(2) [OF assms(1)]])
  with assms Closing show ?thesis by (auto simp: menu_step_def closing_timer_def)
qed (use assms in \<open>auto simp: menu_step_def window_click_def clickMenuHandler_def mouseEnterHandler_def
       mouseLeaveHandler_def onSetSpeed_def intro: open_ok set_ok small_ok split: focus.splits\<close>)

lemma menu_reach_ok: "menu_reach s \<Longrightarrow> menu_ok s"
proof (induction rule: menu_reach.induct)
  case (start isTouch html5 rate vs v s)
  then show ?case
    by (auto simp: initialize_speed_def intro!: set_ok render_ok split: if_splits)
next
  case (event s e s')
  then show ?case by (blast intro: step_ok_menu)
qed

section \<open>The keyboard\<close>

text \<open>Presses of one key, none of which may throw.\<close>

fun presses :: "nat \<Rightarrow> nat \<Rightarrow> menu \<Rightarrow> menu option" where
  "presses key 0 s = Some s"
| "presses key (Suc j) s = Option.bind (menu_step (EntryKey key False False) s) (presses key j)"

lemma down_step:
  assumes "menu_ok s" "m_focus s = OnEntry k"
  shows "\<exists>it. menu_step (EntryKey 40 False False) s =
      Some (s\<lparr>m_links := it, m_focus := OnEntry (Suc k mod length (m_entries s))\<rparr>) \<and> links_ok it (length (m_entries s))"
proof -
  from assms have k: "k < length (m_entries s)" "links_ok (m_links s) (length (m_entries s))"
    by (auto simp: menu_ok_def)
  obtain it where "it_next (m_links s) (JNum (of_nat k)) = (Some (Suc k mod length (m_entries s)), it)"
    "links_ok it (length (m_entries s))" using links_next [OF k(2,1)] by (metis prod.collapse)
  with assms(2) show ?thesis
    by (auto simp: menu_step_def key_on_entry_def keyDownLinkHandler_def focus_link_def)
qed

lemma up_step:
  assumes "menu_ok s" "m_focus s = OnEntry k"
  shows "\<exists>it. menu_step (EntryKey 38 False False) s =
      Some (s\<lparr>m_links := it, m_focus := OnEntry ((k + length (m_entries s) - 1) mod length (m_entries s))\<rparr>) \<and>
      links_ok it (length (m_entries s))"
proof -
  from assms have k: "k < length (m_entries s)" "links_ok (m_links s) (length (m_entries s))"
    by (auto simp: menu_ok_def)
  obtain it where "it_prev (m_links s) (JNum (of_nat k)) = (Some ((k + length (m_entries s) - 1) mod length (m_entries s)), it)"
    "links_ok it (length (m_entries s))" using links_prev [OF k(2,1)] by (metis prod.collapse)
  with assms(2) show ?thesis
    by (auto simp: menu_step_def key_on_entry_def keyDownLinkHandler_def focus_link_def)
qed

lemma downs:
  "menu_ok s \<Longrightarrow> m_focus s = OnEntry k \<Longrightarrow>
   \<exists>it. presses 40 j s = Some (s\<lparr>m_links := it, m_focus := OnEntry ((k + j) mod length (m_entries s))\<rparr>) \<and>
     links_ok it (length (m_entries s))"
proof (induction j arbitrary: s k)
  case 0
  then have "k < length (m_entries s)" "links_ok (m_links s) (length (m_entries s))" by (auto simp: menu_ok_def)
  with 0 show ?case by (intro exI [of _ "m_links s"]) (cases s; simp)
next
  case (Suc j)
  let ?n = "length (m_entries s)"
  obtain it where it: "menu_step (EntryKey 40 False False) s = Some (s\<lparr>m_links := it, m_focus := OnEntry (Suc k mod ?n)\<rparr>)"
    "links_ok it ?n" using down_step [OF Suc.prems] by blast
  have "?n > 0" using Suc.prems(1) by (auto simp: menu_ok_def)
  then have "menu_ok (s\<lparr>m_links := it, m_focus := OnEntry (Suc k mod ?n)\<rparr>)"
    by (intro focus_ok Suc.prems(1) it(2)) simp
  from Suc.IH [OF this, of "Suc k mod ?n"] it(1) show ?case by (simp add: mod_add_left_eq)
qed

text \<open>C29. The speed menu works from the keyboard. In every reachable state in which entry \<open>k\<close> of \<open>n\<close>
  has the focus, \<open>j\<close> presses of DOWN focus entry \<open>(k + j) mod n\<close>, UP undoes DOWN, and ENTER then
  closes the menu, gives the button the focus and selects the entry's speed: the button, its title and
  the marks of the entries show exactly that speed, and \<open>speedchange\<close> is triggered once if it is new
  and not at all otherwise. No key throws.\<close>

theorem keyboard_selects:
  assumes "menu_reach s" "m_focus s = OnEntry k" "n = length (m_entries s)" "v = m_entries s ! ((k + j) mod n)"
  shows "\<exists>s1 s2 s3. presses 40 j s = Some s1 \<and> m_focus s1 = OnEntry ((k + j) mod n) \<and>
    menu_step (EntryKey 40 False False) s = Some s2 \<and>
    (\<exists>s4. menu_step (EntryKey 38 False False) s2 = Some s4 \<and> m_focus s4 = OnEntry k) \<and>
    menu_step (EntryKey 13 False False) s1 = Some s3 \<and>
    \<not> m_opened s3 \<and> \<not> m_expanded s3 \<and> m_focus s3 = OnButton \<and> m_current s3 = Some v \<and> m_text s3 = Some v \<and>
    m_title s3 = v \<and> m_active s3 = map (\<lambda>e. e = v) (m_entries s) \<and>
    m_changes s3 = m_changes s @ (if m_current s = Some v then [] else [v])"
proof -
  have ok: "menu_ok s" by (rule menu_reach_ok [OF assms(1)])
  obtain it where s1: "presses 40 j s = Some (s\<lparr>m_links := it, m_focus := OnEntry ((k + j) mod n)\<rparr>)" (is "_ = Some ?s1")
    using downs [OF ok assms(2), of j] assms(3) by blast
  have n: "0 < n" "k < n" using ok assms(2,3) by (auto simp: menu_ok_def)
  have v: "speedToString v = v"
    using ok n(1) assms(3,4) by (auto simp: menu_ok_def list_all_iff)
  obtain it2 where it2: "menu_step (EntryKey 40 False False) s = Some (s\<lparr>m_links := it2, m_focus := OnEntry (Suc k mod n)\<rparr>)"
    "links_ok it2 n" using down_step [OF ok assms(2)] assms(3) by auto
  let ?s2 = "s\<lparr>m_links := it2, m_focus := OnEntry (Suc k mod n)\<rparr>"
  have ok2: "menu_ok ?s2" using focus_ok [OF ok, of it2 "Suc k mod n"] it2(2) n assms(3) by simp
  have "(Suc k mod n + n - 1) mod n = k"
  proof (cases "Suc k = n")
    case False
    with n have "Suc k mod n = Suc k" by simp
    with n show ?thesis by simp
  qed (use n in auto)
  then have up: "\<exists>s4. menu_step (EntryKey 38 False False) ?s2 = Some s4 \<and> m_focus s4 = OnEntry k"
    using up_step [OF ok2, of "Suc k mod n"] assms(3) by auto
  have "menu_step (EntryKey 13 False False) ?s1 =
      Some (setSpeed_menu v False False ((closeMenu_speed True ?s1)\<lparr>m_focus := OnButton\<rparr>))"
    using v assms(4) by (simp add: menu_step_def key_on_entry_def keyDownLinkHandler_def closeMenu_speed_def)
  then show ?thesis
    using s1 it2(1) up ok
    by (intro exI [of _ ?s1] exI [of _ ?s2] exI [of _ "setSpeed_menu v False False ((closeMenu_speed True ?s1)\<lparr>m_focus := OnButton\<rparr>)"])
      (auto simp: setSpeed_menu_def closeMenu_speed_def menu_ok_def Let_def)
qed

definition demo_menu :: menu where
  "demo_menu = the (Option.bind (initialize_speed False True True [3/4, 1, 5/4, 3/2] 1) (menu_step (ButtonKey 38)))"

lemma demo_menu_reach: "menu_reach demo_menu" "m_focus demo_menu = OnEntry 3" "m_entries demo_menu = [3/2, 5/4, 1, 3/4]"
proof -
  obtain s0 where s0: "initialize_speed False True True [3/4, 1, 5/4, 3/2] 1 = Some s0" by (simp add: initialize_speed_def)
  have c: "list_all (\<lambda>x. speedToString x = x) [3/4, 1, 5/4, 3/2 :: rat]" by (simp add: speedToString_def floor_eq_iff)
  have r: "menu_reach s0" using menu_reach.start [OF s0 _ c] by simp
  then have ok: "menu_ok s0" by (rule menu_reach_ok)
  have e: "m_entries s0 = [3/2, 5/4, 1, 3/4]"
    using s0 by (auto simp: initialize_speed_def setSpeed_menu_def render_def setActiveSpeed_def resetActiveSpeed_def Let_def)
  have l: "it_last (m_links (openMenu_speed True s0)) = Some 3"
    using links_last [of "m_links s0" 4] ok e by (simp add: menu_ok_def openMenu_speed_def eval_nat_numeral)
  have st: "menu_step (ButtonKey 38) s0 = Some ((openMenu_speed True s0)\<lparr>m_focus := OnEntry 3\<rparr>)"
    using l by (simp add: menu_step_def keyDownMenuHandler_def focus_link_def Let_def)
  then have d: "demo_menu = (openMenu_speed True s0)\<lparr>m_focus := OnEntry 3\<rparr>" by (simp add: demo_menu_def s0)
  show "menu_reach demo_menu" using menu_reach.event [OF r st] d by simp
  show "m_focus demo_menu = OnEntry 3" "m_entries demo_menu = [3/2, 5/4, 1, 3/4]"
    using e by (simp_all add: d openMenu_speed_def)
qed

theorem keyboard_selects_witness:
  "\<exists>s1 s3. presses 40 2 demo_menu = Some s1 \<and> m_focus s1 = OnEntry 1 \<and>
     menu_step (EntryKey 13 False False) s1 = Some s3 \<and> m_current s3 = Some (5/4)"
proof -
  have "5/4 = m_entries demo_menu ! ((3 + 2) mod 4)" "4 = length (m_entries demo_menu)"
    by (simp_all add: demo_menu_reach(3))
  from keyboard_selects [OF demo_menu_reach(1,2) this(2,1)] show ?thesis by auto
qed

text \<open>\<open>render\<close> leaves the text of the button: after the player has replaced the speeds and fallen back to
  another one, the title shows the new speed and the button the old one.\<close>

lemma render_keeps_text: "m_text (onRenderSpeed vs v s) = m_text s" "m_title (onRenderSpeed vs v s) = v"
  by (simp_all add: onRenderSpeed_def render_def setActiveSpeed_def)

end
