(* ===== verification/VidPlay.thy ===== *)
theory VidPlay
  imports VidPlayer
begin

text \<open>
  What the player keeps true: its invariant, with one preservation lemma per operation, where it
  starts and where it stops.
\<close>

named_theorems player_frame \<open>fields an operation leaves alone\<close>
named_theorems player_pres \<open>operations that keep the invariant\<close>

section \<open>The invariant\<close>

definition seeks_ok :: "native list \<Rightarrow> bool" where
  "seeks_ok cs \<longleftrightarrow> (\<forall>q. NativeSeek q \<in> set cs \<longrightarrow> 0 \<le> q)"

definition below_end :: "int option \<Rightarrow> rat option \<Rightarrow> bool" where
  "below_end e m = (case (e, m) of (Some x, Some y) \<Rightarrow> y \<le> of_int x | _ \<Rightarrow> True)"

definition player_ok :: "video \<Rightarrow> bool" where
  "player_ok s \<longleftrightarrow>
     timers s = (case updateInterval s of None \<Rightarrow> [] | Some i \<Rightarrow> [i]) \<and>
     seeks_ok (calls s) \<and> (case play_seek s of None \<Rightarrow> True | Some q \<Rightarrow> 0 \<le> q) \<and>
     below_end (c_end s) (sl_max s) \<and> below_end (c_end s) (aria_max s) \<and> 0 \<le> c_start s"

lemma seeks_simps [simp]:
  "seeks_ok []" "seeks_ok (cs @ [c]) \<longleftrightarrow> seeks_ok cs \<and> (case c of NativeSeek q \<Rightarrow> 0 \<le> q | _ \<Rightarrow> True)"
  by (auto simp: seeks_ok_def split: native.split)

lemma min_end_below [simp]: "below_end e (Some (min_end e d))"
  by (simp add: below_end_def min_end_def split: option.split)

lemma call_pres [player_pres]:
  "player_ok s \<Longrightarrow> (case c of NativeSeek q \<Rightarrow> 0 \<le> q | _ \<Rightarrow> True) \<Longrightarrow> player_ok (call c s)"
  by (simp add: player_ok_def call_def)

lemma emit_pres [player_pres]: "player_ok s \<Longrightarrow> player_ok (emit e s)"
  by (simp add: player_ok_def emit_def)

lemma updatePlayTime_pres [player_pres]: "player_ok s \<Longrightarrow> player_ok (updatePlayTime t s)"
  by (simp add: player_ok_def updatePlayTime_def emit_def updateVcrVidTime_def slider_updatePlayTime_def Let_def)

lemma notify_pres [player_pres]: "player_ok s \<Longrightarrow> player_ok (notifyThroughHandleEnd e s)"
  by (simp add: player_ok_def notifyThroughHandleEnd_def)

lemma pause_pres [player_pres]: "player_ok s \<Longrightarrow> player_ok (pause_video s)"
  by (simp add: pause_video_def player_pres)

lemma play_pres [player_pres]: "player_ok s \<Longrightarrow> player_ok (play_video s)"
  by (simp add: play_video_def player_ok_def call_def)

lemma currentTime_pres [player_pres]: "player_ok s \<Longrightarrow> player_ok (s\<lparr>currentTime := t\<rparr>)"
  by (simp add: player_ok_def)

lemma update_pres [player_pres]: "player_ok s \<Longrightarrow> player_ok (update_video s)"
  by (auto simp: update_video_def Let_def player_pres split: option.split)

lemma runTimer_pres [player_pres]: "player_ok s \<Longrightarrow> player_ok (runTimer s)"
proof -
  assume ok: "player_ok s"
  show ?thesis
  proof (cases "updateInterval s")
    case None
    with ok have "player_ok (s\<lparr>updateInterval := Some (next_timer s),
        timers := timers s @ [next_timer s], next_timer := Suc (next_timer s)\<rparr>)"
      by (simp add: player_ok_def)
    with None show ?thesis by (simp add: runTimer_def update_pres)
  next
    case (Some i)
    with ok show ?thesis by (simp add: runTimer_def)
  qed
qed

lemma stopTimer_pres [player_pres]: "player_ok s \<Longrightarrow> player_ok (stopTimer s)"
  by (auto simp: stopTimer_def player_ok_def split: option.split)

lemma play_seek_pres [player_pres]:
  "player_ok s \<Longrightarrow> (case p of None \<Rightarrow> True | Some q \<Rightarrow> 0 \<le> q) \<Longrightarrow> player_ok (s\<lparr>play_seek := p\<rparr>)"
  by (simp add: player_ok_def)

lemma seekTo_pres [player_pres]: "player_ok s \<Longrightarrow> player_ok (seekTo t s)"
  by (auto simp: seekTo_def Let_def split: ptime.split intro!: player_pres)

lemma onSeek_pres [player_pres]: "player_ok s \<Longrightarrow> player_ok (onSeek q s)"
  unfolding onSeek_def Let_def by (intro player_pres) (simp add: player_ok_def)

lemma region_id [simp]: "updateStartEndTimeRegion d s = s"
  by (simp add: updateStartEndTimeRegion_def split: option.split)

lemma setPlaybackRate_pres [player_pres]: "player_ok s \<Longrightarrow> player_ok (setPlaybackRate v u s)"
  by (auto simp: setPlaybackRate_def Let_def intro!: player_pres)

lemma setSpeed_pres [player_pres]: "player_ok s \<Longrightarrow> player_ok (setSpeed v s)"
  by (simp add: setSpeed_def player_ok_def)

lemma onSpeedChange_pres [player_pres]: "player_ok s \<Longrightarrow> player_ok (onSpeedChange v s)"
  by (auto simp: onSpeedChange_def Let_def intro!: player_pres)

lemma ready_first_pres [player_pres]: "player_ok s \<Longrightarrow> player_ok (ready_first s)"
proof -
  assume "player_ok s"
  then have "player_ok (s\<lparr>ready_once := True\<rparr>)" by (simp add: player_ok_def)
  with \<open>player_ok s\<close> show ?thesis by (auto simp: ready_first_def Let_def intro!: player_pres)
qed

lemma trigger_play_pres [player_pres]: "player_ok s \<Longrightarrow> player_ok (trigger_play s)"
  by (auto simp: trigger_play_def Let_def player_ok_def emit_def call_def split: option.split)

lemma figure_pres [player_pres]: "player_ok s \<Longrightarrow> player_ok (snd (figureOutStartingTime d s))"
  by (simp add: figureOutStartingTime_def figureOutStartEndTime_def Let_def player_ok_def)

lemma updateVcrAndRegion_pres [player_pres]: "player_ok s \<Longrightarrow> player_ok (updateVcrAndRegion s)"
  using figure_pres [of s "duration s"]
  by (auto simp: updateVcrAndRegion_def Let_def player_ok_def slider_updatePlayTime_def updateVcrVidTime_def
      split: prod.split)

lemma onStateChange_pres [player_pres]: "player_ok s \<Longrightarrow> player_ok (onStateChange p s)"
proof -
  assume "player_ok s"
  then have "player_ok (s\<lparr>el_class := Some p\<rparr>)" by (simp add: player_ok_def)
  then show ?thesis
    by (cases p) (auto simp: onStateChange_def onPlay_def onPause_def onEnded_def Let_def intro!: player_pres)
qed

lemma onReady_pres [player_pres]: "player_ok s \<Longrightarrow> player_ok (onReady rates s)"
proof -
  assume ok: "player_ok s"
  have f: "player_ok t \<Longrightarrow> player_ok (t\<lparr>flash := b\<rparr>)" for t b by (simp add: player_ok_def)
  have g: "player_ok t \<Longrightarrow> player_ok (t\<lparr>flash := b, speeds := xs\<rparr>)" for t b xs by (simp add: player_ok_def)
  have r: "player_ok (restartUsingFlash s)"
    unfolding restartUsingFlash_def Let_def by (auto intro!: player_pres f ok)
  show ?thesis
    unfolding onReady_def Let_def case_prod_beta
    by (auto intro!: player_pres g ok r simp del: One_nat_def)
qed

lemma destroy_pres [player_pres]: "player_ok s \<Longrightarrow> player_ok (destroy_player s)"
  by (auto simp: destroy_player_def player_ok_def call_def stopTimer_def split: option.split)

text \<open>Only \<open>destroy\<close> ends the player.\<close>

lemma alive_basic [player_frame]:
  "alive (call c s) = alive s" "alive (emit e s) = alive s" "alive (updatePlayTime t s) = alive s"
  "alive (notifyThroughHandleEnd b s) = alive s" "alive (pause_video s) = alive s"
  "alive (play_video s) = alive s" "alive (stopTimer s) = alive s" "alive (setSpeed v s) = alive s"
  by (simp_all add: call_def emit_def updatePlayTime_def updateVcrVidTime_def slider_updatePlayTime_def
      notifyThroughHandleEnd_def pause_video_def play_video_def stopTimer_def setSpeed_def Let_def
      split: option.split)

lemma alive_update [player_frame]: "alive (update_video s) = alive s"
  by (simp add: update_video_def Let_def player_frame split: option.split)

lemma alive_runTimer [player_frame]: "alive (runTimer s) = alive s"
  by (simp add: runTimer_def player_frame split: option.split)

lemma alive_seekTo [player_frame]: "alive (seekTo t s) = alive s"
  by (simp add: seekTo_def Let_def player_frame split: ptime.split)

lemma alive_rate [player_frame]: "alive (setPlaybackRate v u s) = alive s"
  by (simp add: setPlaybackRate_def Let_def player_frame)

lemma alive_seek [player_frame]: "alive (onSeek q s) = alive s" "alive (onSpeedChange v s) = alive s"
  by (simp_all add: onSeek_def onSpeedChange_def Let_def player_frame)

lemma alive_figure [player_frame]: "alive (snd (figureOutStartingTime d s)) = alive s"
  by (simp add: figureOutStartingTime_def figureOutStartEndTime_def Let_def)

lemma alive_region [player_frame]: "alive (updateVcrAndRegion s) = alive s"
  using alive_figure [of "duration s" s]
  by (simp add: updateVcrAndRegion_def Let_def slider_updatePlayTime_def updateVcrVidTime_def case_prod_beta)

lemma alive_play [player_frame]:
  "alive (ready_first s) = alive s" "alive (trigger_play s) = alive s"
  by (simp_all add: ready_first_def trigger_play_def Let_def player_frame split: option.split)

lemma alive_change [player_frame]: "alive (onStateChange p s) = alive s"
  by (cases p) (simp_all add: onStateChange_def onPlay_def onPause_def onEnded_def Let_def player_frame)

lemma alive_ready [player_frame]: "alive (onReady rates s) = alive s"
  by (simp add: onReady_def restartUsingFlash_def Let_def case_prod_beta player_frame)

lemma destroy_stops: "player_ok s \<Longrightarrow> updateInterval (destroy_player s) = None"
  by (simp add: destroy_player_def call_def stopTimer_def split: option.split)

definition video_ok :: "video \<Rightarrow> bool" where
  "video_ok s \<longleftrightarrow> player_ok s \<and> (\<not> alive s \<longrightarrow> updateInterval s = None)"

lemma fold_update: "video_ok s \<Longrightarrow> video_ok (fold (\<lambda>_. update_video) xs s) \<or> xs \<noteq> [] \<and> \<not> alive s"
  by (cases "alive s") (induction xs arbitrary: s, auto simp: video_ok_def player_frame player_pres)

lemma debounce_ok: "video_ok s \<Longrightarrow> video_ok (debounce_fires s)"
proof -
  assume "video_ok s"
  then have "player_ok (s\<lparr>debounced := None\<rparr>)" "\<not> alive s \<longrightarrow> updateInterval s = None"
    by (auto simp: video_ok_def player_ok_def)
  then show ?thesis
    using \<open>video_ok s\<close>
    by (auto simp: debounce_fires_def video_ok_def player_frame player_pres split: option.split)
qed

lemma live_ok: "player_ok s \<Longrightarrow> alive s \<Longrightarrow> video_ok s"
  by (simp add: video_ok_def)

lemma slide_pres [player_pres]:
  "player_ok s \<Longrightarrow> player_ok (onSlide q s)" "player_ok s \<Longrightarrow> player_ok (onStop q s)"
  by (simp_all add: onSlide_def onStop_def updateVcrVidTime_def Let_def player_ok_def)

lemma slide_alive [player_frame]: "alive (onSlide q s) = alive s" "alive (onStop q s) = alive s"
  by (simp_all add: onSlide_def onStop_def updateVcrVidTime_def Let_def)

lemma step_video_ok:
  assumes "video_ok s"
  shows "video_ok (video_step e s)"
proof (cases "alive s")
  case False
  then have "timers s = []" using assms by (simp add: video_ok_def player_ok_def)
  with False assms show ?thesis by (cases e) (simp_all add: video_step_def debounce_ok)
next
  case True
  have p: "player_ok s" using assms by (simp add: video_ok_def)
  have env: "player_ok (s\<lparr>n_state := x\<rparr>)" "player_ok (s\<lparr>n_time := y, n_duration := z\<rparr>)"
    "player_ok (s\<lparr>meta_duration := z, metadata_received := True\<rparr>)" "player_ok (s\<lparr>debounced := y\<rparr>)"
    "player_ok (s\<lparr>frozen := b\<rparr>)" for x y z b
    using p by (simp_all add: player_ok_def)
  show ?thesis
  proof (cases e)
    case Tick
    then show ?thesis using fold_update [OF assms, of "timers s"] True by (simp add: video_step_def)
  next
    case Debounce
    then show ?thesis using debounce_ok [OF assms] by (simp add: video_step_def)
  next
    case Destroy
    then show ?thesis using True destroy_stops [OF p] destroy_pres [OF p]
      by (simp add: video_step_def video_ok_def)
  qed (use True p env in \<open>simp_all add: video_step_def live_ok player_pres player_frame\<close>)
qed

lemma conf_range_ok: "conf_range a b = (x, y) \<Longrightarrow> 0 \<le> x \<and> (case y of None \<Rightarrow> True | Some e \<Rightarrow> x \<le> e)"
  by (auto simp: conf_range_def conf_start_def Let_def split: if_splits option.splits)

lemma reach_video_ok: "video_reach s \<Longrightarrow> video_ok s"
proof (induction rule: video_reach.induct)
  case (start fl yt a b saved auto tc ff sf sps sp w)
  obtain x y where r: "conf_range a b = (x, y)" by fastforce
  with conf_range_ok [OF this] show ?case
    by (auto simp: initial_video_def video_ok_def player_ok_def below_end_def split: option.split)
next
  case (event s e)
  then show ?case by (simp add: step_video_ok)
qed

text \<open>C14. The player never leaks a timer and never asks for an impossible position. In every state
  reached by state changes, ticks, seeks, speed changes and the rest, at most one interval timer is
  running, it is the one the player remembers, and none runs after \<open>destroy\<close>, whatever event is
  still pending; every native seek that was made, and the one left to the next \<open>play\<close>, is to a
  position of at least 0; and the slider never extends past the configured end.\<close>

theorem player_reachable:
  assumes "video_reach s"
  shows "length (timers s) \<le> 1 \<and> set (timers s) = set_option (updateInterval s) \<and>
    (alive s \<or> timers s = []) \<and>
    list_all (\<lambda>c. case c of NativeSeek q \<Rightarrow> 0 \<le> q | _ \<Rightarrow> True) (calls s) \<and>
    pred_option ((\<le>) 0) (play_seek s) \<and> below_end (c_end s) (sl_max s)"
proof -
  have ok: "player_ok s" "alive s \<or> updateInterval s = None"
    using reach_video_ok [OF assms] by (auto simp: video_ok_def)
  have "list_all (\<lambda>c. case c of NativeSeek q \<Rightarrow> 0 \<le> q | _ \<Rightarrow> True) (calls s)"
    using ok(1) by (auto simp: player_ok_def seeks_ok_def list_all_iff split: native.split)
  then show ?thesis using ok by (auto simp: player_ok_def split: option.splits)
qed

section \<open>Where it starts\<close>

lemma starting_range:
  assumes "0 \<le> c_start s" "\<not> flash s" "0 \<le> d" "figureOutStartingTime d s = (t, s')"
  shows "0 \<le> t \<and> (t = 0 \<or> t < of_int d) \<and> startTime s' \<le> t \<and> t \<in> {0, startTime s', c_saved s} \<and>
    (case endTime s' of None \<Rightarrow> True | Some e \<Rightarrow> startTime s' < e \<and> t < e \<and> e < of_int d)"
proof -
  let ?f = "figureOutStartEndTime d s"
  have st: "0 \<le> startTime ?f" "startTime ?f = 0 \<or> startTime ?f < of_int d"
    using assms(1-3) by (auto simp: figureOutStartEndTime_def Let_def)
  have en: "case endTime ?f of None \<Rightarrow> True | Some e \<Rightarrow> startTime ?f < e \<and> e < of_int d"
    using assms(2) by (auto simp: figureOutStartEndTime_def Let_def split: option.split)
  have sv: "c_saved ?f = c_saved s" by (simp add: figureOutStartEndTime_def Let_def)
  have s': "s' = ?f" using assms(4) by (simp add: figureOutStartingTime_def Let_def)
  have t: "t = (if 0 < startTime ?f then if startTime ?f < c_saved s \<and> saved_fits d ?f then c_saved s
      else startTime ?f else if 0 < c_saved s \<and> saved_fits d ?f then c_saved s else 0)"
    using assms(4) unfolding figureOutStartingTime_def Let_def prod.inject sv
    by - (rule sym, erule conjunct1)
  show ?thesis
    using st en sv unfolding s' t saved_fits_def by (auto split: option.splits)
qed

text \<open>A seek within the video reaches the native player.\<close>

lemma calls_updatePlayTime [simp]: "calls (updatePlayTime t s) = calls s"
  by (simp add: updatePlayTime_def emit_def updateVcrVidTime_def slider_updatePlayTime_def Let_def)

lemma calls_update: "set (calls s) \<subseteq> set (calls (update_video s))"
  by (auto simp: update_video_def Let_def emit_def notifyThroughHandleEnd_def pause_video_def call_def
      split: option.split)

lemma calls_runTimer: "set (calls s) \<subseteq> set (calls (runTimer s))"
  using calls_update [of "s\<lparr>updateInterval := Some (next_timer s),
        timers := timers s @ [next_timer s], next_timer := Suc (next_timer s)\<rparr>"]
  by (simp add: runTimer_def split: option.split)

lemma stopTimer_keeps [simp]:
  "n_state (stopTimer s) = n_state s" "youtube (stopTimer s) = youtube s"
  by (simp_all add: stopTimer_def split: option.split)

lemma seek_reaches:
  assumes "\<not> youtube s" "0 \<le> q" "q \<le> of_int (duration s)"
  shows "NativeSeek q \<in> set (calls (seekTo (TNum q) s))"
proof -
  let ?s2 = "if isPlaying s then stopTimer (s\<lparr>play_seek := None\<rparr>) else s\<lparr>play_seek := None\<rparr>"
  let ?s4 = "updatePlayTime (TNum q) (call (NativeSeek q) ?s2)"
  have "\<not> youtube ?s2" using assms(1) by simp
  then have "seekTo (TNum q) s = (if isPlaying ?s4 then runTimer ?s4 else ?s4)\<lparr>currentTime := TNum q\<rparr>"
    using assms(2,3) by (simp add: seekTo_def Let_def not_less isPlaying_def)
  moreover have "NativeSeek q \<in> set (calls ?s4)" by (simp add: call_def)
  ultimately show ?thesis using calls_runTimer [of ?s4] by auto
qed

lemma figure_call:
  "figureOutStartingTime d (call c s) = (fst (figureOutStartingTime d s), call c (snd (figureOutStartingTime d s)))"
proof -
  have f: "figureOutStartEndTime d (call c s) = call c (figureOutStartEndTime d s)"
    by (simp add: figureOutStartEndTime_def call_def Let_def cong: if_cong option.case_cong split del: if_split)
  have k: "startTime (call c r) = startTime r" "c_saved (call c r) = c_saved r" "saved_fits d (call c r) = saved_fits d r" for r
    by (simp_all add: call_def saved_fits_def cong: option.case_cong)
  show ?thesis by (simp only: figureOutStartingTime_def Let_def f k fst_conv snd_conv)
qed

lemma figure_keeps:
  "duration (snd (figureOutStartingTime d s)) = duration s" "youtube (snd (figureOutStartingTime d s)) = youtube s"
  "goToStartTime (snd (figureOutStartingTime d s)) = goToStartTime s"
  by (simp_all add: figureOutStartingTime_def figureOutStartEndTime_def duration_def Let_def)

lemma call_keeps [simp]:
  "duration (call c s) = duration s" "youtube (call c s) = youtube s" "goToStartTime (call c s) = goToStartTime s"
  "flash (call c s) = flash s"
  by (simp_all add: call_def duration_def Let_def)

lemma duration_nonneg: "0 \<le> duration s"
  by (auto simp: duration_def Let_def split: option.split)

lemma ready_seeks:
  assumes "\<not> flash s" "\<not> youtube s" "goToStartTime s" "0 \<le> c_start s"
    and "figureOutStartingTime (duration s) s = (t, s')" "0 < t"
  shows "NativeSeek t \<in> set (calls (onReady rates s))"
proof -
  let ?s3 = "call (NativeRate (speed s)) s"
  let ?s4 = "call (NativeRate (speed s)) s'"
  have f: "figureOutStartingTime (duration ?s3) ?s3 = (t, ?s4)"
    using figure_call [of "duration s" "NativeRate (speed s)" s] assms(5) by simp
  have k: "duration ?s4 = duration s" "\<not> youtube ?s4" "goToStartTime ?s4"
    using figure_keeps [of "duration s" s] assms(2,3,5) by simp_all
  have "t \<le> of_int (duration ?s4)"
    using starting_range [OF assms(4,1) duration_nonneg assms(5)] duration_nonneg [of s] assms(6) k(1) by auto
  with k assms(6) have m: "NativeSeek t \<in> set (calls (seekTo (TNum t) ?s4))"
    by (intro seek_reaches) auto
  let ?s6 = "emit ReadyEvent (seekTo (TNum t) ?s4)"
  have "onReady rates s = (if c_autoplay ?s6 then play_video ?s6 else ?s6)"
    using assms(1,2,6) f k(3) by (simp add: onReady_def Let_def)
  with m show ?thesis by (auto simp: emit_def play_video_def call_def)
qed

text \<open>C16. Playback starts where it should. For a reachable player not in Flash mode, whatever start,
  end and saved position the page gave, the starting time is 0, the start or the saved position;
  it is at least the start, before the end of the video unless 0, and before the end time when there
  is one, which is then after the start and before the end of the video. When the \<open>video\<close> element
  becomes ready and the user has not moved yet, a seek to that time reaches it.\<close>

theorem starting_time:
  assumes "video_reach s" "\<not> flash s" "figureOutStartingTime (duration s) s = (t, s')"
  shows "0 \<le> t \<and> (t = 0 \<or> t < of_int (duration s)) \<and> startTime s' \<le> t \<and> t \<in> {0, startTime s', c_saved s} \<and>
    (case endTime s' of None \<Rightarrow> True | Some e \<Rightarrow> startTime s' < e \<and> t < e \<and> e < of_int (duration s)) \<and>
    (0 < t \<and> \<not> youtube s \<and> goToStartTime s \<longrightarrow> NativeSeek t \<in> set (calls (onReady rates s)))"
proof -
  have c: "0 \<le> c_start s" using reach_video_ok [OF assms(1)] by (simp add: video_ok_def player_ok_def)
  show ?thesis
    using starting_range [OF c assms(2) duration_nonneg assms(3)]
      ready_seeks [OF assms(2) _ _ c assms(3), of rates] by blast
qed

section \<open>Where it stops\<close>

lemma updatePlayTime_keeps [simp]: "endTime (updatePlayTime t s) = endTime s"
  by (simp add: updatePlayTime_def emit_def updateVcrVidTime_def slider_updatePlayTime_def Let_def)

lemma update_at_end:
  assumes "n_time s = Some q" "endTime s = Some e" "e \<le> q"
  shows "calls (update_video s) = calls s @ [PauseVideo]" "Stop \<in> set (events (update_video s))"
    "endTime (update_video s) = endTime s" "n_time (update_video s) = n_time s"
  using assms
  by (simp_all add: update_video_def Let_def emit_def notifyThroughHandleEnd_def pause_video_def call_def
      updatePlayTime_def updateVcrVidTime_def slider_updatePlayTime_def)

text \<open>At or past the end time every tick of the timer pauses the video again.\<close>

theorem paused_at_every_tick:
  assumes "timers s = [i]" "n_time s = Some q" "endTime s = Some e" "e \<le> q"
  shows "calls (video_step Tick s) = calls s @ [PauseVideo] \<and>
    endTime (video_step Tick s) = Some e \<and> n_time (video_step Tick s) = Some q"
  using update_at_end [OF assms(2-4)] assms by (simp add: video_step_def)

text \<open>A seek made while a YouTube video is buffering is left to \<open>play\<close>, and stays there: it is made
  again at each later \<open>play\<close>.\<close>

theorem seek_made_at_every_play:
  assumes "play_seek s = Some q"
  shows "calls (trigger_play s) = calls s @ [NativeSeek q] \<and> play_seek (trigger_play s) = Some q"
  using assms by (simp add: trigger_play_def emit_def call_def)

theorem buffering_seek_waits:
  assumes "youtube s" "n_state s = Buffering" "0 \<le> q" "q \<le> of_int (duration s)"
  shows "play_seek (seekTo (TNum q) s) = Some q"
  using assms
  by (simp add: seekTo_def Let_def isPlaying_def not_less updatePlayTime_def emit_def updateVcrVidTime_def
      slider_updatePlayTime_def)

text \<open>After a change of speed in Flash mode the time is a text, and \<open>seekTo\<close> refuses it.\<close>

theorem text_time_not_sought: "seekTo (TText q) s = s"
  by (simp add: seekTo_def)

text \<open>In Flash mode the end is compared with the start after only the start has been divided by the
  speed: from 40 to 60 of a video of 100 seconds, watched at half speed (200 seconds), has its end
  dropped, though it is at 120.\<close>

theorem flash_end_dropped:
  assumes "c_start s = 40" "c_end s = Some 60" "flash s" "speed s = 1 / 2"
  shows "startTime (figureOutStartEndTime 200 s) = 80 \<and> endTime (figureOutStartEndTime 200 s) = None"
  by (simp add: figureOutStartEndTime_def Let_def assms)

section \<open>Examples\<close>

definition demo_video :: video where
  "demo_video = initial_video (JNum 10) (JNum 50) 30 False False False False False False [3/4, 1, 5/4, 3/2] 1
     (\<lambda>_ _. [])"

definition demo_ready :: video where
  "demo_ready = video_step (NativeClock (Some 0) (Some 60)) demo_video"

lemma demo_reach: "video_reach demo_ready" "video_reach (video_step (StateChange Playing) demo_ready)"
  unfolding demo_ready_def demo_video_def by (auto intro!: video_reach.intros)

theorem player_reachable_witness:
  "length (timers (video_step (StateChange Playing) demo_ready)) \<le> 1"
  using player_reachable [OF demo_reach(2)] by blast

theorem starting_time_witness:
  "fst (figureOutStartingTime (duration demo_ready) demo_ready) \<in> {0, 10, 30} \<and>
   0 \<le> fst (figureOutStartingTime (duration demo_ready) demo_ready)"
proof -
  have st: "startTime (snd (figureOutStartingTime (duration demo_ready) demo_ready)) = 10"
    "c_saved demo_ready = 30" "\<not> flash demo_ready"
    by (simp_all add: figureOutStartingTime_def figureOutStartEndTime_def demo_ready_def demo_video_def
        video_step_def initial_video_def conf_range_def conf_start_def conf_end_def parse_int_num_def
        finite_double_def duration_def Let_def)
  show ?thesis using starting_time [OF demo_reach(1) st(3) prod.collapse [symmetric], of "[]"] st by auto
qed

end
