(* ===== verification/VidHtml5.thy ===== *)
theory VidHtml5
  imports VidPlay VidVolume
begin

text \<open>
  The wrapper of the \<open>video\<close> element, \<open>video/02_html5_video.js\<close>, which gives the player of \<open>VidPlayer\<close>
  the interface of the YouTube player, and what the two do together: every position and volume the
  player and the volume control ask for is one the wrapper passes on to the element.
\<close>

section \<open>The wrapper\<close>

text \<open>The element's own properties, the wrapper's state, and what it asked of the element. The position
  and the duration are \<open>None\<close> for \<open>NaN\<close>. \<open>callbacks\<close> are the states \<open>onStateChange\<close> was called with.\<close>

datatype dom_call = DomPlay | DomPause

record html5 =
  e_time :: "rat option"
  e_duration :: "rat option"
  e_volume :: rat
  e_rate :: rat
  playerState :: pstate
  dom_calls :: "dom_call list"
  callbacks :: "pstate list"
  readies :: nat
  listening :: bool

definition callStateChangeCallback :: "html5 \<Rightarrow> html5" where
  "callStateChangeCallback h = h\<lparr>callbacks := callbacks h @ [playerState h]\<rparr>"

definition pauseVideo :: "html5 \<Rightarrow> html5" where
  "pauseVideo h = h\<lparr>dom_calls := dom_calls h @ [DomPause]\<rparr>"

definition playVideo :: "html5 \<Rightarrow> html5" where
  "playVideo h = h\<lparr>dom_calls := dom_calls h @ [DomPlay]\<rparr>"

definition html5_seekTo :: "rat \<Rightarrow> html5 \<Rightarrow> html5" where
  "html5_seekTo q h =
     (case e_duration h of
        Some d \<Rightarrow> if q \<le> d \<and> 0 \<le> q then h\<lparr>e_time := Some q\<rparr> else h
      | None \<Rightarrow> h)"

definition html5_setVolume :: "rat \<Rightarrow> html5 \<Rightarrow> html5" where
  "html5_setVolume v h = (if v \<le> 100 \<and> 0 \<le> v then h\<lparr>e_volume := v * (1 / 100)\<rparr> else h)"

definition getCurrentTime :: "html5 \<Rightarrow> rat option" where
  "getCurrentTime h = e_time h"

definition getDuration :: "html5 \<Rightarrow> rat option" where
  "getDuration h = (case e_duration h of None \<Rightarrow> Some 0 | Some d \<Rightarrow> Some d)"

definition html5_setPlaybackRate :: "rat \<Rightarrow> html5 \<Rightarrow> html5" where
  "html5_setPlaybackRate v h = (if e_rate h \<noteq> v then h\<lparr>e_rate := v\<rparr> else h)"

definition getAvailablePlaybackRates :: "rat list" where
  "getAvailablePlaybackRates = [3 / 4, 1, 5 / 4, 3 / 2]"

definition onLoadedMetadata :: "html5 \<Rightarrow> html5" where
  "onLoadedMetadata h = h\<lparr>playerState := Paused, readies := Suc (readies h)\<rparr>"

definition html5_onPlay :: "html5 \<Rightarrow> html5" where
  "html5_onPlay h = callStateChangeCallback (h\<lparr>playerState := Buffering\<rparr>)"

definition html5_onPlaying :: "html5 \<Rightarrow> html5" where
  "html5_onPlaying h = callStateChangeCallback (h\<lparr>playerState := Playing\<rparr>)"

definition html5_onPause :: "html5 \<Rightarrow> html5" where
  "html5_onPause h = callStateChangeCallback (h\<lparr>playerState := Paused\<rparr>)"

definition html5_onEnded :: "html5 \<Rightarrow> html5" where
  "html5_onEnded h = callStateChangeCallback (h\<lparr>playerState := Ended\<rparr>)"

text \<open>A click on the element plays or pauses; the state is changed at once, without the callback.\<close>

definition html5_click :: "html5 \<Rightarrow> html5" where
  "html5_click h =
     (if playerState h = Playing then pauseVideo (h\<lparr>playerState := Paused\<rparr>)
      else playVideo (h\<lparr>playerState := Playing\<rparr>))"

definition html5_destroy :: "html5 \<Rightarrow> html5" where
  "html5_destroy h = h\<lparr>listening := False\<rparr>"

text \<open>The calls of the player. \<open>cueVideoById\<close> and \<open>loadVideoById\<close> do not exist here and throw.\<close>

definition run_native :: "native \<Rightarrow> html5 \<Rightarrow> html5 option" where
  "run_native c h =
     (case c of
        PauseVideo \<Rightarrow> Some (pauseVideo h)
      | PlayVideo \<Rightarrow> Some (playVideo h)
      | NativeSeek q \<Rightarrow> Some (html5_seekTo q h)
      | NativeRate v \<Rightarrow> Some (html5_setPlaybackRate v h)
      | DestroyNative \<Rightarrow> Some (html5_destroy h)
      | _ \<Rightarrow> None)"

fun run_natives :: "native list \<Rightarrow> html5 \<Rightarrow> html5 option" where
  "run_natives [] h = Some h"
| "run_natives (c # cs) h = Option.bind (run_native c h) (run_natives cs)"

section \<open>What the player asks of it\<close>

text \<open>The calls a player without YouTube has made after the calls \<open>n\<close>: none that throws, and only
  seeks within the duration \<open>D\<close>.\<close>

named_theorems calls_pres \<open>operations that make only calls the wrapper accepts\<close>

definition call_ok :: "int \<Rightarrow> native \<Rightarrow> bool" where
  "call_ok D c = (case c of NativeSeek q \<Rightarrow> 0 \<le> q \<and> q \<le> of_int D
     | CueVideo v t \<Rightarrow> False | LoadVideo v t \<Rightarrow> False | NewNative \<Rightarrow> False | _ \<Rightarrow> True)"

definition calls_in :: "int \<Rightarrow> native list \<Rightarrow> video \<Rightarrow> bool" where
  "calls_in D n s \<longleftrightarrow> duration s = D \<and> \<not> youtube s \<and> \<not> flash s \<and> play_seek s = None \<and>
     (\<exists>cs. calls s = n @ cs \<and> list_all (call_ok D) cs)"

lemma call_ok_simps [simp]:
  "call_ok D (NativeSeek q) = (0 \<le> q \<and> q \<le> of_int D)" "call_ok D PauseVideo" "call_ok D PlayVideo"
  "call_ok D (NativeRate v)" "call_ok D DestroyNative"
  by (simp_all add: call_ok_def)

lemma duration_cong:
  "n_duration s' = n_duration s \<Longrightarrow> youtube s' = youtube s \<Longrightarrow> meta_duration s' = meta_duration s \<Longrightarrow> duration s' = duration s"
  by (simp add: duration_def Let_def)

lemma calls_cong:
  "calls_in D n s \<Longrightarrow> n_duration s' = n_duration s \<Longrightarrow> youtube s' = youtube s \<Longrightarrow> meta_duration s' = meta_duration s \<Longrightarrow>
     flash s' = flash s \<Longrightarrow> play_seek s' = play_seek s \<Longrightarrow> calls s' = calls s \<Longrightarrow> calls_in D n s'"
  using duration_cong [of s' s] by (simp add: calls_in_def)

lemma in_call [calls_pres]: "calls_in D n s \<Longrightarrow> call_ok D c \<Longrightarrow> calls_in D n (call c s)"
proof -
  assume c: "calls_in D n s" and ok: "call_ok D c"
  then obtain cs where "calls s = n @ cs" "list_all (call_ok D) cs" by (auto simp: calls_in_def)
  with ok have "calls (call c s) = n @ (cs @ [c])" "list_all (call_ok D) (cs @ [c])" by (auto simp: call_def)
  moreover have "duration (call c s) = duration s" by (rule duration_cong) (simp_all add: call_def)
  ultimately show ?thesis using c unfolding calls_in_def by (auto simp: call_def)
qed

lemma in_emit [calls_pres]: "calls_in D n s \<Longrightarrow> calls_in D n (emit e s)"
  by (erule calls_cong) (simp_all add: emit_def)

lemma in_update_time [calls_pres]: "calls_in D n s \<Longrightarrow> calls_in D n (updatePlayTime t s)"
  by (erule calls_cong) (simp_all add: updatePlayTime_def emit_def updateVcrVidTime_def slider_updatePlayTime_def Let_def)

lemma in_notify [calls_pres]: "calls_in D n s \<Longrightarrow> calls_in D n (notifyThroughHandleEnd e s)"
  by (erule calls_cong) (simp_all add: notifyThroughHandleEnd_def)

lemma in_fields [calls_pres]:
  assumes "calls_in D n s"
  shows "calls_in D n (s\<lparr>currentTime := t\<rparr>)" "calls_in D n (s\<lparr>goToStartTime := b\<rparr>)"
    "calls_in D n (s\<lparr>el_class := c\<rparr>)" "calls_in D n (s\<lparr>n_state := p\<rparr>)" "calls_in D n (s\<lparr>play_seek := None\<rparr>)"
    "calls_in D n (s\<lparr>ready_once := b\<rparr>)" "calls_in D n (s\<lparr>debounced := q\<rparr>)" "calls_in D n (s\<lparr>frozen := b\<rparr>)"
proof -
  have "play_seek s = None" using assms by (simp add: calls_in_def)
  then show "calls_in D n (s\<lparr>currentTime := t\<rparr>)" "calls_in D n (s\<lparr>goToStartTime := b\<rparr>)"
    "calls_in D n (s\<lparr>el_class := c\<rparr>)" "calls_in D n (s\<lparr>n_state := p\<rparr>)" "calls_in D n (s\<lparr>play_seek := None\<rparr>)"
    "calls_in D n (s\<lparr>ready_once := b\<rparr>)" "calls_in D n (s\<lparr>debounced := q\<rparr>)" "calls_in D n (s\<lparr>frozen := b\<rparr>)"
    by (auto intro: calls_cong [OF assms])
qed

lemma in_pause [calls_pres]: "calls_in D n s \<Longrightarrow> calls_in D n (pause_video s)"
  by (simp add: pause_video_def calls_pres)

lemma in_play [calls_pres]: "calls_in D n s \<Longrightarrow> calls_in D n (play_video s)"
  by (simp add: play_video_def calls_pres)

lemma in_update [calls_pres]: "calls_in D n s \<Longrightarrow> calls_in D n (update_video s)"
  by (auto simp: update_video_def Let_def calls_pres split: option.split)

lemma in_timer [calls_pres]: "calls_in D n s \<Longrightarrow> calls_in D n (runTimer s)" "calls_in D n s \<Longrightarrow> calls_in D n (stopTimer s)"
proof -
  assume c: "calls_in D n s"
  have "calls_in D n (s\<lparr>updateInterval := Some (next_timer s), timers := timers s @ [next_timer s],
      next_timer := Suc (next_timer s)\<rparr>)"
    by (rule calls_cong [OF c]) simp_all
  with c show "calls_in D n (runTimer s)" by (auto simp: runTimer_def calls_pres split: option.split)
  show "calls_in D n (stopTimer s)" by (rule calls_cong [OF c]) (simp_all add: stopTimer_def split: option.split)
qed

lemma in_seek [calls_pres]: "calls_in D n s \<Longrightarrow> calls_in D n (seekTo t s)"
proof -
  assume c: "calls_in D n s"
  show ?thesis
  proof (cases t)
    case (TNum q)
    show ?thesis
    proof (cases "of_int (duration s) < q \<or> q < 0")
      case False
      then have q: "call_ok D (NativeSeek q)" using c by (auto simp: calls_in_def)
      let ?s2 = "if isPlaying s then stopTimer (s\<lparr>play_seek := None\<rparr>) else s\<lparr>play_seek := None\<rparr>"
      have c2: "calls_in D n ?s2" using c by (simp add: calls_pres)
      then have y: "\<not> youtube ?s2" by (simp add: calls_in_def)
      let ?s4 = "updatePlayTime (TNum q) (call (NativeSeek q) ?s2)"
      have "seekTo (TNum q) s = (if isPlaying ?s4 then runTimer ?s4 else ?s4)\<lparr>currentTime := TNum q\<rparr>"
        using False y by (simp add: seekTo_def Let_def not_less isPlaying_def)
      moreover have "calls_in D n ?s4" by (intro calls_pres c2 q)
      ultimately show ?thesis using TNum by (simp add: calls_pres)
    qed (use c TNum in \<open>simp add: seekTo_def\<close>)
  qed (use c in \<open>simp_all add: seekTo_def\<close>)
qed

lemma in_onSeek [calls_pres]: "calls_in D n s \<Longrightarrow> calls_in D n (onSeek q s)"
  by (simp add: onSeek_def Let_def calls_pres)

lemma in_rate [calls_pres]: "calls_in D n s \<Longrightarrow> calls_in D n (setPlaybackRate v u s)"
  using in_call [of D n s "NativeRate v"] by (simp add: setPlaybackRate_def calls_in_def)

lemma in_setSpeed [calls_pres]: "calls_in D n s \<Longrightarrow> calls_in D n (setSpeed v s)"
  by (erule calls_cong) (simp_all add: setSpeed_def)

lemma in_speed [calls_pres]: "calls_in D n s \<Longrightarrow> calls_in D n (onSpeedChange v s)"
proof -
  assume c: "calls_in D n s"
  then have "onSpeedChange v s = setPlaybackRate (speedToString v) False (setSpeed (speedToString v) s)"
    by (simp add: onSpeedChange_def Let_def calls_in_def)
  with c show ?thesis by (simp add: calls_pres)
qed

lemma in_ready_first [calls_pres]: "calls_in D n s \<Longrightarrow> calls_in D n (ready_first s)"
  by (simp add: ready_first_def Let_def calls_pres)

lemma in_trigger [calls_pres]: "calls_in D n s \<Longrightarrow> calls_in D n (trigger_play s)"
proof -
  assume c: "calls_in D n s"
  have "calls_in D n (emit PlayEvent s)" by (rule in_emit [OF c])
  then have "trigger_play s = emit PlayEvent s" by (simp add: trigger_play_def Let_def calls_in_def)
  with c show ?thesis by (simp add: calls_pres)
qed

lemma in_figure [calls_pres]: "calls_in D n s \<Longrightarrow> calls_in D n (snd (figureOutStartingTime d s))"
  by (erule calls_cong) (simp_all add: figureOutStartingTime_def figureOutStartEndTime_def Let_def)

lemma in_change [calls_pres]: "calls_in D n s \<Longrightarrow> calls_in D n (onStateChange p s)"
proof -
  assume c: "calls_in D n s"
  then have "calls_in D n (s\<lparr>el_class := Some p\<rparr>)" by (rule in_fields)
  then show ?thesis
    by (cases p) (simp_all add: onStateChange_def onPlay_def onPause_def onEnded_def Let_def calls_pres)
qed

lemma in_ready [calls_pres]: "calls_in D n s \<Longrightarrow> calls_in D n (onReady rates s)"
proof -
  assume c: "calls_in D n s"
  then have y: "\<not> flash s" "\<not> youtube s" by (auto simp: calls_in_def)
  have c3: "calls_in D n (call (NativeRate (speed s)) s)" using c by (simp add: calls_pres)
  have c4: "calls_in D n (snd (figureOutStartingTime d (call (NativeRate (speed s)) s)))" for d by (rule in_figure [OF c3])
  show ?thesis using y c4 by (auto simp: onReady_def Let_def case_prod_beta calls_pres)
qed

lemma in_region [calls_pres]: "calls_in D n s \<Longrightarrow> calls_in D n (updateVcrAndRegion s)"
proof -
  assume c: "calls_in D n s"
  have c4: "calls_in D n (snd (figureOutStartingTime d s))" for d by (rule in_figure [OF c])
  show ?thesis
    unfolding updateVcrAndRegion_def Let_def case_prod_beta
    by (rule calls_cong [OF c4]) (simp_all add: slider_updatePlayTime_def updateVcrVidTime_def Let_def)
qed

lemma in_slide [calls_pres]: "calls_in D n s \<Longrightarrow> calls_in D n (onSlide q s)" "calls_in D n s \<Longrightarrow> calls_in D n (onStop q s)"
  by (erule calls_cong; simp add: onSlide_def onStop_def updateVcrVidTime_def Let_def)+

lemma in_destroy [calls_pres]: "calls_in D n s \<Longrightarrow> calls_in D n (destroy_player s)"
proof -
  assume c: "calls_in D n s"
  have "calls_in D n (stopTimer (s\<lparr>el_class := None, play_seek := None\<rparr>))"
    by (intro calls_pres calls_cong [OF c]) (use c in \<open>simp_all add: calls_in_def\<close>)
  then have "calls_in D n ((stopTimer (s\<lparr>el_class := None, play_seek := None\<rparr>))\<lparr>alive := False\<rparr>)"
    by (rule calls_cong) simp_all
  then show ?thesis by (simp add: destroy_player_def calls_pres)
qed

lemma in_fold [calls_pres]: "calls_in D n s \<Longrightarrow> calls_in D n (fold (\<lambda>_. update_video) xs s)"
  by (induction xs arbitrary: s) (simp_all add: calls_pres)

text \<open>A player for a \<open>video\<close> element never enters Flash mode and leaves no seek to \<open>play\<close>; a change of the
  duration makes no call.\<close>

definition plain_video :: "video \<Rightarrow> bool" where
  "plain_video s \<longleftrightarrow> \<not> youtube s \<and> \<not> flash s \<and> play_seek s = None"

lemma plain_in: "plain_video s \<Longrightarrow> calls_in (duration s) (calls s) s"
  by (simp add: plain_video_def calls_in_def)

lemma in_plain: "calls_in D n s \<Longrightarrow> plain_video s"
  by (simp add: plain_video_def calls_in_def)

lemma step_in:
  assumes "plain_video s" "\<And>t d. e \<noteq> NativeClock t d" "\<And>d. e \<noteq> Metadata d"
  shows "calls_in (duration s) (calls s) (video_step e s)"
proof -
  note c = plain_in [OF assms(1)]
  show ?thesis
    by (cases e) (use assms(2,3) c in \<open>auto simp: video_step_def debounce_fires_def calls_pres split: option.split\<close>)
qed

lemma step_quiet:
  assumes "plain_video s" "e = NativeClock t d \<or> e = Metadata d"
  shows "calls (video_step e s) = calls s \<and> plain_video (video_step e s)"
proof (cases "e = NativeClock t d")
  case True
  with assms show ?thesis by (simp add: video_step_def plain_video_def)
next
  case False
  let ?s = "s\<lparr>meta_duration := d, metadata_received := True\<rparr>"
  have "plain_video ?s" using assms(1) by (simp add: plain_video_def)
  from in_region [OF plain_in [OF this]] have "plain_video (updateVcrAndRegion ?s)" by (rule in_plain)
  moreover have "calls (updateVcrAndRegion ?s) = calls ?s"
    by (simp add: updateVcrAndRegion_def slider_updatePlayTime_def updateVcrVidTime_def figureOutStartingTime_def
        figureOutStartEndTime_def Let_def)
  ultimately show ?thesis using assms False by (auto simp: video_step_def)
qed

lemma plain_step: "plain_video s \<Longrightarrow> plain_video (video_step e s)"
proof -
  assume p: "plain_video s"
  show ?thesis
  proof (cases "\<exists>t d. e = NativeClock t d \<or> e = Metadata d")
    case True
    then show ?thesis using step_quiet [OF p] by blast
  next
    case False
    then show ?thesis using in_plain [OF step_in [OF p]] by blast
  qed
qed

text \<open>The player for a \<open>video\<close> element after any events.\<close>

lemma play_plain:
  "plain_video (fold video_step es (initial_video a b saved auto False False tc ff sf sps sp w))"
proof (induction es rule: rev_induct)
  case Nil
  show ?case by (simp add: initial_video_def plain_video_def)
next
  case (snoc e es)
  then show ?case by (simp add: plain_step)
qed

section \<open>What the element does\<close>

text \<open>What a list of calls comes to: the last seek, the last rate, and every play and pause.\<close>

fun last_seek :: "native list \<Rightarrow> rat option \<Rightarrow> rat option" where
  "last_seek [] t = t"
| "last_seek (NativeSeek q # cs) t = last_seek cs (Some q)"
| "last_seek (c # cs) t = last_seek cs t"

fun last_rate :: "native list \<Rightarrow> rat \<Rightarrow> rat" where
  "last_rate [] v = v"
| "last_rate (NativeRate w # cs) v = last_rate cs w"
| "last_rate (c # cs) v = last_rate cs v"

fun dom_of :: "native list \<Rightarrow> dom_call list" where
  "dom_of [] = []"
| "dom_of (PlayVideo # cs) = DomPlay # dom_of cs"
| "dom_of (PauseVideo # cs) = DomPause # dom_of cs"
| "dom_of (c # cs) = dom_of cs"

lemma run_ok:
  assumes "list_all (call_ok D) cs" "e_duration h = Some d" "of_int D \<le> d"
  shows "\<exists>h'. run_natives cs h = Some h' \<and> e_time h' = last_seek cs (e_time h) \<and>
     e_rate h' = last_rate cs (e_rate h) \<and> dom_calls h' = dom_calls h @ dom_of cs \<and> e_duration h' = Some d"
  using assms
proof (induction cs arbitrary: h)
  case Nil
  then show ?case by simp
next
  case (Cons c cs)
  then have c: "call_ok D c" and cs: "list_all (call_ok D) cs" by auto
  have "\<exists>h1. run_native c h = Some h1 \<and> e_time h1 = last_seek [c] (e_time h) \<and>
      e_rate h1 = last_rate [c] (e_rate h) \<and> dom_calls h1 = dom_calls h @ dom_of [c] \<and> e_duration h1 = Some d"
    using c Cons.prems(2,3)
    by (cases c) (auto simp: run_native_def call_ok_def pauseVideo_def playVideo_def html5_seekTo_def
        html5_setPlaybackRate_def html5_destroy_def)
  then obtain h1 where h1: "run_native c h = Some h1" "e_time h1 = last_seek [c] (e_time h)"
      "e_rate h1 = last_rate [c] (e_rate h)" "dom_calls h1 = dom_calls h @ dom_of [c]" "e_duration h1 = Some d"
    by blast
  from Cons.IH [OF cs h1(5) Cons.prems(3)] h1 show ?case by (cases c) auto
qed

lemma duration_below: "n_duration s = Some d \<Longrightarrow> 0 \<le> d \<Longrightarrow> \<not> youtube s \<Longrightarrow> of_int (duration s) \<le> d"
  by (simp add: duration_def Let_def)

text \<open>C31. The element does what the player asks. After any events of a player for a \<open>video\<close> element, whatever
  event comes next and whatever the wrapper's state, as long as the player and the element agree on the
  duration: none of the calls the player makes throws, every seek is accepted by the wrapper, so that the
  element ends at the last position asked for and the last rate asked for, and it is told to play and to
  pause in the order the player asked.\<close>

theorem element_obeys:
  assumes "s = fold video_step es (initial_video a b saved auto False False tc ff sf sps sp w)" "n_duration s = Some d" "e_duration h = Some d" "0 \<le> d"
  shows "\<exists>cs h'. calls (video_step e s) = calls s @ cs \<and> run_natives cs h = Some h' \<and>
     e_time h' = last_seek cs (e_time h) \<and> e_rate h' = last_rate cs (e_rate h) \<and>
     dom_calls h' = dom_calls h @ dom_of cs"
proof -
  have p: "plain_video s" unfolding assms(1) by (rule play_plain)
  then have D: "of_int (duration s) \<le> d" using assms(2,4) by (simp add: duration_below plain_video_def)
  have "\<exists>cs. calls (video_step e s) = calls s @ cs \<and> list_all (call_ok (duration s)) cs"
  proof (cases "\<exists>t x. e = NativeClock t x \<or> e = Metadata x")
    case True
    then show ?thesis using step_quiet [OF p] by auto
  next
    case False
    then show ?thesis using step_in [OF p] by (auto simp: calls_in_def)
  qed
  then obtain cs where cs: "calls (video_step e s) = calls s @ cs" "list_all (call_ok (duration s)) cs" by blast
  show ?thesis using run_ok [OF cs(2) assms(3) D] cs(1) by blast
qed

text \<open>The viewer drags the slider to second 30 of 100 of a playing video: the element is at 30.\<close>

definition demo_element :: html5 where
  "demo_element = html5_onPlaying (onLoadedMetadata \<lparr>e_time = Some 0, e_duration = Some 100, e_volume = 1, e_rate = 1,
     playerState = Unstarted, dom_calls = [], callbacks = [], readies = 0, listening = True\<rparr>)"

definition demo_events :: "video_event list" where
  "demo_events = [NativeClock (Some 0) (Some 100), Ready getAvailablePlaybackRates, StateChange Playing, SlideTo 30]"

definition demo_dragged :: video where
  "demo_dragged = fold video_step demo_events (initial_video JUndef JUndef 0 False False False False False False [1] 1
     (\<lambda>w n. w))"

theorem element_obeys_witness:
  "\<exists>cs h'. calls (video_step Debounce demo_dragged) = calls demo_dragged @ cs \<and> run_natives cs demo_element = Some h' \<and>
     e_time h' = Some 30"
proof -
  have d: "n_duration demo_dragged = Some 100" by code_simp
  have e: "e_duration demo_element = Some 100" by code_simp
  have c: "calls (video_step Debounce demo_dragged) = calls demo_dragged @ [NativeSeek 30]" by code_simp
  from element_obeys [OF demo_dragged_def d e, of Debounce] c show ?thesis by auto
qed

end
