(* ===== verification/CktMatrix.thy ===== *)
theory CktMatrix
  imports EdxPrelude
begin

text \<open>
  The matrix routines of the circuit simulator, the first part of
  \<open>common/lib/xmodule/xmodule/js/src/capa/schematic.js\<close>. A matrix is a list of rows, as in the
  code; its entries are real numbers, so that the rounding of IEEE doubles is not modelled.
  A routine that throws returns \<open>None\<close>; \<open>M[0].length\<close> throws for a matrix without rows.

  \<open>mat_solve\<close> is Gaussian elimination with partial pivoting, \<open>mat_rank\<close> the rank by the same
  elimination, \<open>mat_solve_rq\<close> the orthogonalisation of the rows, which also copes with singular
  matrices.
\<close>

type_synonym vec = "real list"
type_synonym mat = "real list list"

definition eps :: real where
  "eps = 1 / 10 ^ 12"

lemma eps_pos [simp]: "0 < eps" "eps \<noteq> 0"
  by (simp_all add: eps_def)

section \<open>Making, copying, multiplying\<close>

definition mat_make :: "nat \<Rightarrow> nat \<Rightarrow> mat" where
  "mat_make n m = replicate n (replicate m 0)"

fun cols :: "mat \<Rightarrow> nat option" where
  "cols [] = None"
| "cols (r # M) = Some (length r)"

definition dot :: "vec \<Rightarrow> vec \<Rightarrow> real" where
  "dot u v = sum_list (map2 (*) u v)"

definition mat_v_mult :: "mat \<Rightarrow> vec \<Rightarrow> vec \<Rightarrow> real \<Rightarrow> vec option" where
  "mat_v_mult M x b scale =
     (case cols M of
        None \<Rightarrow> None
      | Some m \<Rightarrow>
          (if length M \<noteq> length b \<or> m \<noteq> length x then None
           else Some (map (\<lambda>r. scale * dot r x) M)))"

text \<open>The first rows and columns of \<open>dest\<close> become those of \<open>src\<close>.\<close>

definition over :: "'a list \<Rightarrow> 'a list \<Rightarrow> 'a list" where
  "over xs ys = xs @ drop (length xs) ys"

definition mat_copy :: "mat \<Rightarrow> mat \<Rightarrow> mat option" where
  "mat_copy src dest =
     (case (cols src, cols dest) of
        (Some m, Some m') \<Rightarrow>
          (if length src > length dest \<or> m > m' then None
           else Some (over (map2 over src dest) dest))
      | _ \<Rightarrow> None)"

text \<open>\<open>scalea*A + scaleb*B\<close>; the scale of \<open>A\<close> is a number, or one for each row.\<close>

datatype scale = Scalar real | Rows "real list"

definition row_scale :: "scale \<Rightarrow> nat \<Rightarrow> real" where
  "row_scale s i = (case s of Scalar a \<Rightarrow> a | Rows as \<Rightarrow> as ! i)"

definition lin_row :: "real \<Rightarrow> real \<Rightarrow> vec \<Rightarrow> vec \<Rightarrow> vec" where
  "lin_row a b r s = map2 (\<lambda>x y. a * x + b * y) r s"

definition mat_scale_add :: "mat \<Rightarrow> mat \<Rightarrow> scale \<Rightarrow> scale \<Rightarrow> mat \<Rightarrow> mat option" where
  "mat_scale_add A B sa sb C =
     (case (cols A, cols B, cols C) of
        (Some m, Some mb, Some mc) \<Rightarrow>
          (if length A > length B \<or> m > mb \<or> length A > length C \<or> m > mc then None
           else (case sb of
              Scalar b \<Rightarrow>
                Some (over (map (\<lambda>i. over (lin_row (row_scale sa i) b (A ! i) (B ! i)) (C ! i))
                              [0 ..< length A]) C)
            | Rows _ \<Rightarrow> None))
      | _ \<Rightarrow> None)"

section \<open>Elimination\<close>

fun find_pivot :: "mat \<Rightarrow> nat \<Rightarrow> nat list \<Rightarrow> real \<Rightarrow> nat \<Rightarrow> real \<times> nat" where
  "find_pivot M c [] v k = (v, k)"
| "find_pivot M c (i # is) v k =
     (if \<bar>M ! i ! c\<bar> > v then find_pivot M c is \<bar>M ! i ! c\<bar> i else find_pivot M c is v k)"

definition swap_rows :: "mat \<Rightarrow> nat \<Rightarrow> nat \<Rightarrow> mat" where
  "swap_rows M i j = M[i := M ! j, j := M ! i]"

text \<open>\<open>M[i][j] -= M[row][j]*temp\<close> for the columns from \<open>c\<close> on.\<close>

definition sub_from :: "nat \<Rightarrow> real \<Rightarrow> vec \<Rightarrow> vec \<Rightarrow> vec" where
  "sub_from c t p r = take c r @ map2 (\<lambda>a b. a - b * t) (drop c r) (drop c p)"

definition eliminate :: "nat \<Rightarrow> nat \<Rightarrow> mat \<Rightarrow> mat" where
  "eliminate row c M =
     map (\<lambda>i. if i \<le> row then M ! i
              else (let t = M ! i ! c / M ! row ! c
                    in if t \<noteq> 0 then sub_from c t (M ! row) (M ! i) else M ! i)) [0 ..< length M]"

subsection \<open>\<open>mat_solve\<close>\<close>

definition solve_col :: "nat \<Rightarrow> mat \<Rightarrow> mat" where
  "solve_col c M =
     (let (v, k) = find_pivot M c [c + 1 ..< length M] \<bar>M ! c ! c\<bar> c;
          M1 = (if v = 0 then M[c := (M ! c)[c := eps]] else swap_rows M c k)
      in eliminate c c M1)"

text \<open>The unknowns from the last to the first; the list holds those already known.\<close>

fun back_subst :: "mat \<Rightarrow> nat \<Rightarrow> nat \<Rightarrow> vec \<Rightarrow> vec" where
  "back_subst M n 0 xs = xs"
| "back_subst M n (Suc i) xs =
     (let temp = fold (\<lambda>j acc. acc - M ! i ! j * xs ! (j - Suc i)) (rev [Suc i ..< n]) (M ! i ! n)
      in back_subst M n i (temp / M ! i ! i # xs))"

definition set_rhs :: "nat \<Rightarrow> vec option \<Rightarrow> mat \<Rightarrow> mat" where
  "set_rhs c rhs M = (case rhs of None \<Rightarrow> M | Some b \<Rightarrow> map2 (\<lambda>r v. r[c := v]) M b)"

definition mat_solve :: "mat \<Rightarrow> vec option \<Rightarrow> vec" where
  "mat_solve M rhs =
     (let n = length M;
          M1 = fold solve_col [0 ..< n] (set_rhs n rhs M)
      in back_subst M1 n n [])"

subsection \<open>\<open>mat_rank\<close>\<close>

text \<open>The largest entry; the code looks at as many columns as there are rows, and an entry past
  the end of a row is \<open>undefined\<close>.\<close>

definition max_abs_entry :: "mat \<Rightarrow> real" where
  "max_abs_entry M =
     fold (\<lambda>r m. fold (\<lambda>x m. if \<bar>x\<bar> > m then \<bar>x\<bar> else m) (rev (take (length M) r)) m) (rev M) 0"

text \<open>The columns from \<open>c\<close> on are searched for one that is not zero below \<open>row\<close>.\<close>

function rank_row :: "real \<Rightarrow> nat \<Rightarrow> nat \<Rightarrow> mat \<Rightarrow> (mat \<times> nat) option" where
  "rank_row tol row c M =
     (if c < length (M ! 0) then
        (let (v, k) = find_pivot M c [row + 1 ..< length M] \<bar>M ! row ! c\<bar> row
         in if \<bar>v\<bar> > tol then Some (eliminate row c (swap_rows M row k), c + 1)
            else rank_row tol row (c + 1) M)
      else None)"
  by pat_completeness auto
termination by (relation "measure (\<lambda>(tol, row, c, M). length (M ! 0) - c)") auto

declare rank_row.simps [simp del]

definition rank_step :: "real \<Rightarrow> nat \<Rightarrow> nat \<times> nat \<times> mat \<Rightarrow> nat \<times> nat \<times> mat" where
  "rank_step tol row = (\<lambda>(rank, start, M).
     case rank_row tol row start M of
       Some (M', start') \<Rightarrow> (rank + 1, start', M')
     | None \<Rightarrow> (rank, start, M))"

definition mat_rank :: "mat \<Rightarrow> nat option" where
  "mat_rank M =
     (case cols M of
        None \<Rightarrow> None
      | Some _ \<Rightarrow>
          Some (fst (fold (rank_step (eps * max_abs_entry M)) [0 ..< length M] (0, 0, M))))"

text \<open>The rows that can be zeroed without changing the rank.\<close>

definition zero_row :: "nat \<Rightarrow> mat \<Rightarrow> mat" where
  "zero_row i M = M[i := replicate (length M) 0]"

definition algebraic_step :: "nat \<Rightarrow> nat \<Rightarrow> mat \<times> nat list \<Rightarrow> mat \<times> nat list" where
  "algebraic_step R i = (\<lambda>(Mc, alg).
     if mat_rank (zero_row i Mc) = Some R then (zero_row i Mc, alg @ [1]) else (Mc, alg @ [0]))"

definition algebraic :: "mat \<Rightarrow> nat list option" where
  "algebraic M =
     (case mat_copy M (mat_make (length M) (length M)) of
        None \<Rightarrow> None
      | Some Mc \<Rightarrow>
          (case mat_rank Mc of
             None \<Rightarrow> None
           | Some R \<Rightarrow> Some (snd (fold (algebraic_step R) [0 ..< length M] (Mc, [])))))"

subsection \<open>\<open>mat_solve_rq\<close>\<close>

definition sumsq :: "vec \<Rightarrow> real" where
  "sumsq r = dot (butlast r) (butlast r)"

fun find_largest :: "mat \<Rightarrow> nat list \<Rightarrow> real \<Rightarrow> nat \<Rightarrow> real \<times> nat" where
  "find_largest M [] v k = (v, k)"
| "find_largest M (i # is) v k =
     (if sumsq (M ! i) > v then find_largest M is (sumsq (M ! i)) i else find_largest M is v k)"

definition project_out :: "vec \<Rightarrow> vec \<Rightarrow> vec" where
  "project_out q r = (let inner = dot (butlast q) (butlast r) in map2 (\<lambda>a b. a - inner * b) r q)"

text \<open>The rows from \<open>row\<close> on; \<open>None\<close> is the scale before the first row. The result has the matrix
  and the number of rows that are not in the null space.\<close>

function rq_rows :: "nat \<Rightarrow> real option \<Rightarrow> mat \<Rightarrow> mat \<times> nat" where
  "rq_rows row ms M =
     (if row < length M then
        (let (v, k) = find_largest M [row + 1 ..< length M] (sumsq (M ! row)) row;
             M1 = (if k > row then swap_rows M row k else M);
             row_norm = sqrt v;
             mat_scale = (case ms of None \<Rightarrow> row_norm | Some s \<Rightarrow> s)
         in if row_norm > mat_scale * eps then
              (let q = map (\<lambda>a. a * (1 / row_norm)) (M1 ! row);
                   M2 = map (\<lambda>i. if i < row then M1 ! i
                                 else if i = row then q
                                 else project_out q (M1 ! i)) [0 ..< length M1]
               in rq_rows (row + 1) (Some mat_scale) M2)
            else (M1, row))
      else (M, length M))"
  by pat_completeness auto
termination by (relation "measure (\<lambda>(row, ms, M). length M - row)") (auto simp: swap_rows_def split: if_splits)

declare rq_rows.simps [simp del]

definition rq_solution :: "mat \<Rightarrow> nat \<Rightarrow> nat \<Rightarrow> vec" where
  "rq_solution M nc k =
     fold (\<lambda>row x. map2 (\<lambda>xc a. xc + a * M ! row ! (nc - 1)) x (butlast (M ! row)))
       (rev [0 ..< k]) (replicate (nc - 1) 0)"

text \<open>The solution and what is left in the matrix.\<close>

definition mat_solve_rq :: "mat \<Rightarrow> vec option \<Rightarrow> (vec \<times> mat) option" where
  "mat_solve_rq M rhs =
     (case cols M of
        None \<Rightarrow> None
      | Some nc \<Rightarrow>
          (let (M1, k) = rq_rows 0 None (set_rhs (nc - 1) rhs M)
           in Some (rq_solution M1 nc k, M1)))"

end
