(* ===== verification/CktSolve.thy ===== *)
theory CktSolve
  imports CktMatrix
begin

text \<open>
  What \<open>mat_solve\<close> promises: for a nonsingular system it returns the solution.
\<close>

section \<open>Inner products\<close>

lemma dot_nil [simp]: "dot [] v = 0" "dot u [] = 0"
  by (simp_all add: dot_def)

lemma dot_cons [simp]: "dot (a # u) (b # v) = a * b + dot u v"
  by (simp add: dot_def)

lemma dot_nth: "length u = length v \<Longrightarrow> dot u v = (\<Sum>i<length u. u ! i * v ! i)"
proof (induction u v rule: list_induct2)
  case (Cons a u b v)
  then show ?case by (simp add: sum.lessThan_Suc_shift del: sum.lessThan_Suc)
qed simp

lemma dot_append: "length u = length u' \<Longrightarrow> dot (u @ v) (u' @ v') = dot u u' + dot v v'"
  by (simp add: dot_def)

lemma dot_commute: "dot u v = dot v u"
proof (induction u arbitrary: v)
  case (Cons a u)
  then show ?case by (cases v) simp_all
qed simp

lemma dot_sub: "length r = length p \<Longrightarrow> length p = length z \<Longrightarrow>
    dot (map2 (\<lambda>a b. a - b * t) r p) z = dot r z - t * dot p z"
  by (induction r p z rule: list_induct3) (simp_all add: algebra_simps)

lemma dot_scale: "dot (map (\<lambda>a. a * t) r) z = t * dot r z"
proof (induction r arbitrary: z)
  case (Cons a r)
  then show ?case by (cases z) (simp_all add: algebra_simps)
qed simp

lemma dot_snoc_take:
  "length r = Suc n \<Longrightarrow> length x = n \<Longrightarrow> dot r (x @ [a]) = (\<Sum>j<n. r ! j * x ! j) + a * r ! n"
  by (simp add: dot_nth nth_append)

lemma sum_split: fixes f :: "nat \<Rightarrow> real" shows "k \<le> n \<Longrightarrow> (\<Sum>j < n. f j) = (\<Sum>j < k. f j) + (\<Sum>j = k ..< n. f j)"
  using sum.atLeastLessThan_concat [of 0 k n f] by (simp add: lessThan_atLeast0)

section \<open>Rows\<close>

definition shape :: "nat \<Rightarrow> nat \<Rightarrow> mat \<Rightarrow> bool" where
  "shape n m M \<longleftrightarrow> length M = n \<and> (\<forall>r \<in> set M. length r = m)"

lemma shape_len: "shape n m M \<Longrightarrow> length M = n" "shape n m M \<Longrightarrow> i < n \<Longrightarrow> length (M ! i) = m"
  by (auto simp: shape_def)

lemma shapeI: "length M = n \<Longrightarrow> (\<And>i. i < n \<Longrightarrow> length (M ! i) = m) \<Longrightarrow> shape n m M"
  by (auto simp: shape_def in_set_conv_nth)

text \<open>\<open>z\<close> is orthogonal to every row.\<close>

definition kills :: "mat \<Rightarrow> vec \<Rightarrow> bool" where
  "kills M z \<longleftrightarrow> (\<forall>r \<in> set M. dot r z = 0)"

lemma kills_nth: "kills M z \<longleftrightarrow> (\<forall>i < length M. dot (M ! i) z = 0)"
  by (simp add: kills_def all_set_conv_all_nth)

lemma length_swap_rows [simp]: "length (swap_rows M i j) = length M"
  by (simp add: swap_rows_def)

lemma set_swap_rows [simp]: "i < length M \<Longrightarrow> j < length M \<Longrightarrow> set (swap_rows M i j) = set M"
  by (simp add: swap_rows_def set_swap)

lemma swap_rows_nth:
  "i < length M \<Longrightarrow> j < length M \<Longrightarrow> k < length M \<Longrightarrow>
     swap_rows M i j ! k = (if k = i then M ! j else if k = j then M ! i else M ! k)"
  by (auto simp: swap_rows_def nth_list_update)

lemma swap_shape: "shape n m M \<Longrightarrow> i < n \<Longrightarrow> j < n \<Longrightarrow> shape n m (swap_rows M i j)"
  by (simp add: shape_def)

lemma swap_kills: "i < length M \<Longrightarrow> j < length M \<Longrightarrow> kills (swap_rows M i j) z = kills M z"
  by (simp add: kills_def)

lemma length_sub_from [simp]: "length p = length r \<Longrightarrow> length (sub_from c t p r) = length r"
  by (simp add: sub_from_def)

lemma sub_from_nth:
  "length p = length r \<Longrightarrow> j < length r \<Longrightarrow>
     sub_from c t p r ! j = (if j < c then r ! j else r ! j - p ! j * t)"
  by (auto simp: sub_from_def nth_append min_def)

lemma length_eliminate [simp]: "length (eliminate row c M) = length M"
  by (simp add: eliminate_def)

lemma eliminate_nth:
  assumes "shape n m M" and "i < n" and "row < n" and "j < m"
  shows "eliminate row c M ! i ! j =
    (if i \<le> row \<or> j < c then M ! i ! j else M ! i ! j - M ! row ! j * (M ! i ! c / M ! row ! c))"
  using assms shape_len [OF assms(1)] by (simp add: eliminate_def Let_def sub_from_nth)

lemma eliminate_row_len:
  "shape n m M \<Longrightarrow> row < n \<Longrightarrow> i < n \<Longrightarrow> length (eliminate row c M ! i) = m"
  using shape_len [of n m M] by (simp add: eliminate_def Let_def)

lemma eliminate_shape: "shape n m M \<Longrightarrow> row < n \<Longrightarrow> shape n m (eliminate row c M)"
  using shape_len(1) [of n m M] by (intro shapeI) (simp_all add: eliminate_row_len)

lemma eliminate_dot:
  assumes "shape n m M" and "i < n" and "row < n" and "c \<le> m" and "\<forall>j < c. M ! row ! j = 0"
    and "length z = m"
  shows "dot (eliminate row c M ! i) z =
    dot (M ! i) z - (if i \<le> row then 0 else M ! i ! c / M ! row ! c) * dot (M ! row) z"
proof -
  let ?t = "if i \<le> row then 0 else M ! i ! c / M ! row ! c"
  have "eliminate row c M ! i = map2 (\<lambda>a b. a - b * ?t) (M ! i) (M ! row)"
  proof (rule nth_equalityI)
    show "length (eliminate row c M ! i) = length (map2 (\<lambda>a b. a - b * ?t) (M ! i) (M ! row))"
      using assms shape_len [OF assms(1)] by (simp add: eliminate_row_len)
  next
    fix j assume "j < length (eliminate row c M ! i)"
    then have "j < m" using assms by (simp add: eliminate_row_len)
    then show "eliminate row c M ! i ! j = map2 (\<lambda>a b. a - b * ?t) (M ! i) (M ! row) ! j"
      using assms shape_len [OF assms(1)] by (simp add: eliminate_nth [OF assms(1)])
  qed
  then show ?thesis using assms shape_len [OF assms(1)] by (simp add: dot_sub)
qed

lemma eliminate_kills:
  assumes "shape n m M" and "row < n" and "c \<le> m" and "\<forall>j < c. M ! row ! j = 0" and "length z = m"
  shows "kills (eliminate row c M) z = kills M z"
proof -
  have d: "dot (eliminate row c M ! i) z =
    dot (M ! i) z - (if i \<le> row then 0 else M ! i ! c / M ! row ! c) * dot (M ! row) z" if "i < n" for i
    using eliminate_dot [OF assms(1) that assms(2-5)] .
  show ?thesis
  proof
    assume k: "kills (eliminate row c M) z"
    then have "dot (M ! row) z = 0" using d [of row] assms(2) shape_len(1) [OF assms(1)] by (simp add: kills_nth)
    with k d shape_len(1) [OF assms(1)] show "kills M z" by (simp add: kills_nth)
  next
    assume "kills M z"
    with d assms(2) shape_len(1) [OF assms(1)] show "kills (eliminate row c M) z" by (simp add: kills_nth)
  qed
qed

section \<open>The pivot\<close>

lemma find_pivot_mem:
  "find_pivot M c is v k = (v', k') \<Longrightarrow> k' = k \<and> v' = v \<or> k' \<in> set is \<and> v' = \<bar>M ! k' ! c\<bar>"
  by (induction "is" arbitrary: v k) (fastforce split: if_splits)+

lemma find_pivot_max:
  "find_pivot M c is v k = (v', k') \<Longrightarrow> v \<le> v' \<and> (\<forall>i \<in> set is. \<bar>M ! i ! c\<bar> \<le> v')"
  by (induction "is" arbitrary: v k) (fastforce split: if_splits)+

lemma pivot_spec:
  assumes "find_pivot M c [Suc row ..< length M] \<bar>M ! row ! c\<bar> row = (v, k)" and "row < length M"
  shows "row \<le> k" "k < length M" "v = \<bar>M ! k ! c\<bar>" "\<forall>i. row \<le> i \<and> i < length M \<longrightarrow> \<bar>M ! i ! c\<bar> \<le> v"
proof -
  from find_pivot_mem [OF assms(1)] assms(2)
  show "row \<le> k" "k < length M" "v = \<bar>M ! k ! c\<bar>" by auto
  from find_pivot_max [OF assms(1)]
  show "\<forall>i. row \<le> i \<and> i < length M \<longrightarrow> \<bar>M ! i ! c\<bar> \<le> v"
    by (metis atLeastLessThan_iff le_eq_less_or_eq Suc_leI set_upt)
qed

section \<open>Elimination makes the matrix triangular\<close>

definition tri :: "nat \<Rightarrow> mat \<Rightarrow> bool" where
  "tri c M \<longleftrightarrow> (\<forall>k < c. M ! k ! k \<noteq> 0 \<and> (\<forall>i. k < i \<and> i < length M \<longrightarrow> M ! i ! k = 0))"

text \<open>The column holds a pivot.\<close>

definition pivot_ok :: "nat \<Rightarrow> mat \<Rightarrow> bool" where
  "pivot_ok c M \<longleftrightarrow> (\<exists>i. c \<le> i \<and> i < length M \<and> M ! i ! c \<noteq> 0)"

lemma tri_eliminate:
  assumes "shape n (Suc n) M" and "tri c M" and "c < n" and "M ! c ! c \<noteq> 0"
  shows "tri (Suc c) (eliminate c c M)"
  unfolding tri_def
proof (intro allI impI)
  fix k assume k: "k < Suc c"
  have e: "eliminate c c M ! i ! j = (if i \<le> c \<or> j < c then M ! i ! j
      else M ! i ! j - M ! c ! j * (M ! i ! c / M ! c ! c))" if "i < n" "j < Suc n" for i j
    using eliminate_nth [OF assms(1) that(1) assms(3) that(2)] .
  from k assms shape_len(1) [OF assms(1)] show "eliminate c c M ! k ! k \<noteq> 0 \<and>
      (\<forall>i. k < i \<and> i < length (eliminate c c M) \<longrightarrow> eliminate c c M ! i ! k = 0)"
    by (cases "k = c") (auto simp: tri_def e)
qed

lemma solve_col_step:
  assumes "shape n (Suc n) M" and "tri c M" and "c < n"
  shows "shape n (Suc n) (solve_col c M)" "tri (Suc c) (solve_col c M)"
    "pivot_ok c M \<Longrightarrow> length z = Suc n \<Longrightarrow> kills (solve_col c M) z = kills M z"
proof -
  obtain v k where f: "find_pivot M c [Suc c ..< length M] \<bar>M ! c ! c\<bar> c = (v, k)" by fastforce
  have ln: "length M = n" using assms(1) by (rule shape_len)
  then have len: "c < length M" using assms(3) by simp
  note p = pivot_spec [OF f len]
  note p = p [unfolded ln]
  define M1 where "M1 = (if v = 0 then M[c := (M ! c)[c := eps]] else swap_rows M c k)"
  have s: "solve_col c M = eliminate c c M1" by (simp add: solve_col_def f M1_def)
  have sh: "shape n (Suc n) M1"
  proof (cases "v = 0")
    case True
    with assms(3) shape_len(2) [OF assms(1)] ln show ?thesis
      by (intro shapeI) (simp_all add: M1_def nth_list_update)
  next
    case False
    with assms p show ?thesis by (simp add: M1_def swap_shape)
  qed
  have piv: "M1 ! c ! c \<noteq> 0"
    using p(1-3) assms(3) ln shape_len(2) [OF assms(1,3)] by (simp add: M1_def swap_rows_nth)
  have l1: "length M1 = n" using sh by (rule shape_len)
  have tri: "tri c M1"
    unfolding tri_def l1
  proof (intro allI impI)
    fix j assume j: "j < c"
    with assms(2,3) ln have t: "M ! j ! j \<noteq> 0" "\<forall>i. j < i \<and> i < n \<longrightarrow> M ! i ! j = 0"
      by (simp_all add: tri_def)
    show "M1 ! j ! j \<noteq> 0 \<and> (\<forall>i. j < i \<and> i < n \<longrightarrow> M1 ! i ! j = 0)"
      using t j p(1,2) assms(3) ln by (auto simp: M1_def swap_rows_nth nth_list_update)
  qed
  have z: "\<forall>j < c. M1 ! c ! j = 0" using tri l1 assms(3) by (simp add: tri_def)
  show "shape n (Suc n) (solve_col c M)" unfolding s by (rule eliminate_shape [OF sh assms(3)])
  show "tri (Suc c) (solve_col c M)" unfolding s by (rule tri_eliminate [OF sh tri assms(3) piv])
  assume ok: "pivot_ok c M" and lz: "length z = Suc n"
  from ok ln obtain i where "c \<le> i" "i < n" "M ! i ! c \<noteq> 0" by (auto simp: pivot_ok_def)
  with p(4) have "v \<noteq> 0" by (metis abs_le_zero_iff)
  then have "kills M1 z = kills M z" using p(2) ln assms(3) by (simp add: M1_def swap_kills)
  with eliminate_kills [OF sh assms(3) _ z lz] assms(3) show "kills (solve_col c M) z = kills M z"
    by (simp add: s)
qed

section \<open>Back substitution\<close>

lemma fold_minus: "fold (\<lambda>j acc. acc - f j) js (a :: real) = a - sum_list (map f js)"
  by (induction js arbitrary: a) simp_all

lemma back_subst_spec:
  assumes "i + length xs = n" and "\<forall>k < i. M ! k ! k \<noteq> 0"
  shows "\<exists>ys. back_subst M n i xs = ys @ xs \<and> length ys = i \<and>
    (\<forall>k < i. (\<Sum>j = k ..< n. M ! k ! j * (ys @ xs) ! j) = M ! k ! n)"
  using assms
proof (induction i arbitrary: xs)
  case 0
  then show ?case by simp
next
  case (Suc i)
  define x where "x = (M ! i ! n - (\<Sum>j = Suc i ..< n. M ! i ! j * xs ! (j - Suc i))) / M ! i ! i"
  have "sum_list (map (\<lambda>j. M ! i ! j * xs ! (j - Suc i)) (rev [Suc i ..< n]))
      = (\<Sum>j = Suc i ..< n. M ! i ! j * xs ! (j - Suc i))"
    by (simp only: rev_map [symmetric] sum_list_rev sum_list_distinct_conv_sum_set distinct_upt set_upt)
  then have b: "back_subst M n (Suc i) xs = back_subst M n i (x # xs)"
    by (simp only: back_subst.simps fold_minus x_def Let_def)
  from Suc.IH [of "x # xs"] Suc.prems obtain ys where ys:
    "back_subst M n i (x # xs) = ys @ x # xs" "length ys = i"
    "\<forall>k < i. (\<Sum>j = k ..< n. M ! k ! j * (ys @ x # xs) ! j) = M ! k ! n"
    by auto
  have "(\<Sum>j = i ..< n. M ! i ! j * (ys @ x # xs) ! j)
      = M ! i ! i * x + (\<Sum>j = Suc i ..< n. M ! i ! j * xs ! (j - Suc i))"
  proof -
    have "(\<Sum>j = Suc i ..< n. M ! i ! j * (ys @ x # xs) ! j)
        = (\<Sum>j = Suc i ..< n. M ! i ! j * xs ! (j - Suc i))"
      using ys(2) by (intro sum.cong) (auto simp: nth_append)
    moreover have "i < n" using Suc.prems by simp
    ultimately show ?thesis using ys(2) by (simp add: sum.atLeast_Suc_lessThan nth_append)
  qed
  also have "\<dots> = M ! i ! n" using Suc.prems by (simp add: x_def)
  finally have "\<forall>k < Suc i. (\<Sum>j = k ..< n. M ! k ! j * (ys @ x # xs) ! j) = M ! k ! n"
    using ys(3) less_Suc_eq by auto
  then show ?case using ys(1,2) b by (intro exI [of _ "ys @ [x]"]) simp
qed

lemma back_subst_tri:
  assumes "tri n M" and "n \<le> length M"
  shows "length (back_subst M n n []) = n"
    "\<forall>k < n. (\<Sum>j < n. M ! k ! j * back_subst M n n [] ! j) = M ! k ! n"
proof -
  from back_subst_spec [of n "[]" n M] assms(1) obtain ys where ys: "back_subst M n n [] = ys" "length ys = n"
    "\<forall>k < n. (\<Sum>j = k ..< n. M ! k ! j * ys ! j) = M ! k ! n"
    by (auto simp: tri_def)
  then show "length (back_subst M n n []) = n" by simp
  show "\<forall>k < n. (\<Sum>j < n. M ! k ! j * back_subst M n n [] ! j) = M ! k ! n"
  proof (intro allI impI)
    fix k assume k: "k < n"
    have "(\<Sum>j < n. M ! k ! j * ys ! j) = (\<Sum>j < k. M ! k ! j * ys ! j) + (\<Sum>j = k ..< n. M ! k ! j * ys ! j)"
      using k by (simp add: sum_split)
    moreover have "(\<Sum>j < k. M ! k ! j * ys ! j) = 0"
      using assms k by (intro sum.neutral) (simp add: tri_def)
    ultimately show "(\<Sum>j < n. M ! k ! j * back_subst M n n [] ! j) = M ! k ! n"
      using ys k by simp
  qed
qed

text \<open>Without a pivot the matrix has a null vector.\<close>

definition nonsingular :: "nat \<Rightarrow> mat \<Rightarrow> bool" where
  "nonsingular n M \<longleftrightarrow>
     (\<forall>y. length y = n \<longrightarrow> (\<forall>i < n. (\<Sum>j < n. M ! i ! j * y ! j) = 0) \<longrightarrow> y = replicate n 0)"

lemma nonsingular_kills:
  assumes "shape n (Suc n) M"
  shows "nonsingular n M \<longleftrightarrow> (\<forall>y. length y = n \<longrightarrow> kills M (y @ [0]) \<longrightarrow> y = replicate n 0)"
proof -
  have "kills M (y @ [0]) \<longleftrightarrow> (\<forall>i < n. (\<Sum>j < n. M ! i ! j * y ! j) = 0)" if "length y = n" for y
    using that shape_len [OF assms] by (simp add: kills_nth dot_snoc_take)
  then show ?thesis by (simp add: nonsingular_def)
qed

lemma no_pivot_singular:
  assumes "shape n (Suc n) M" and "tri c M" and "c < n" and "\<not> pivot_ok c M"
  shows "\<not> nonsingular n M"
proof -
  define w where "w = back_subst M c c []"
  define y where "y = w @ -1 # replicate (n - Suc c) 0"
  have ln: "length M = n" using assms(1) by (rule shape_len)
  then have len: "c \<le> length M" using assms(3) by simp
  note b = back_subst_tri [OF assms(2) len, folded w_def]
  have ly: "length y = n" using b(1) assms(3) by (simp add: y_def)
  have yc: "y ! c = -1" using b(1) by (simp add: y_def nth_append)
  have "(\<Sum>j < n. M ! i ! j * y ! j) = 0" if i: "i < n" for i
  proof -
    have "(\<Sum>j < n. M ! i ! j * y ! j) =
        (\<Sum>j < c. M ! i ! j * y ! j) + (M ! i ! c * y ! c + (\<Sum>j \<in> {c<..<n}. M ! i ! j * y ! j))"
      using assms(3) by (simp add: sum_split [of c n] sum.atLeast_Suc_lessThan atLeastSucLessThan_greaterThanLessThan)
    moreover have "(\<Sum>j \<in> {c<..<n}. M ! i ! j * y ! j) = 0"
      using b(1) by (intro sum.neutral) (auto simp: y_def nth_append nth_Cons')
    moreover have "(\<Sum>j < c. M ! i ! j * y ! j) = (\<Sum>j < c. M ! i ! j * w ! j)"
      using b(1) by (intro sum.cong) (auto simp: y_def nth_append)
    moreover have "(\<Sum>j < c. M ! i ! j * w ! j) = M ! i ! c"
    proof (cases "i < c")
      case False
      then have "\<forall>j < c. M ! i ! j = 0" "M ! i ! c = 0"
        using assms(2,4) ln i by (auto simp: tri_def pivot_ok_def)
      then show ?thesis by simp
    qed (use b(2) in simp)
    ultimately show ?thesis using yc by simp
  qed
  moreover have "y \<noteq> replicate n 0" using yc assms(3) by auto
  ultimately show ?thesis using ly by (auto simp: nonsingular_def)
qed

lemma solve_cols:
  assumes "shape n (Suc n) M" and "nonsingular n M" and "c \<le> n"
  defines "M' \<equiv> fold solve_col [0 ..< c] M"
  shows "shape n (Suc n) M' \<and> tri c M' \<and> (\<forall>z. length z = Suc n \<longrightarrow> kills M' z = kills M z)"
  using assms(3) unfolding M'_def
proof (induction c)
  case 0
  then show ?case using assms(1) by (simp add: tri_def)
next
  case (Suc c)
  let ?M = "fold solve_col [0 ..< c] M"
  from Suc have ih: "shape n (Suc n) ?M" "tri c ?M"
    "\<forall>z. length z = Suc n \<longrightarrow> kills ?M z = kills M z" by auto
  have "nonsingular n ?M"
    using assms(2) ih(3) unfolding nonsingular_kills [OF assms(1)] nonsingular_kills [OF ih(1)] by simp
  with no_pivot_singular [OF ih(1,2)] Suc.prems have "pivot_ok c ?M" by auto
  with solve_col_step [OF ih(1,2)] Suc.prems ih(3) show ?case by simp
qed

section \<open>The theorem\<close>

lemma set_rhs_shape:
  assumes "shape n m M" and "case rhs of None \<Rightarrow> True | Some b \<Rightarrow> length b = n"
  shows "shape n m (set_rhs c rhs M)"
  using assms shape_len [OF assms(1)] by (cases rhs) (auto simp: set_rhs_def intro!: shapeI)

lemma set_rhs_nth:
  assumes "shape n (Suc n) M" and "length b = n" and "i < n" and "j \<le> n"
  shows "set_rhs n (Some b) M ! i ! j = (if j = n then b ! i else M ! i ! j)"
  using assms(2-4) shape_len [OF assms(1)] by (simp add: set_rhs_def nth_list_update)

lemma mat_solve_kills:
  assumes "shape n (Suc n) M" and "nonsingular n M"
  shows "length (mat_solve M None) = n \<and> kills M (mat_solve M None @ [-1])"
proof -
  let ?M = "fold solve_col [0 ..< n] M"
  let ?x = "back_subst ?M n n []"
  from solve_cols [OF assms order_refl] have s: "shape n (Suc n) ?M" "tri n ?M"
    "kills ?M z = kills M z" if "length z = Suc n" for z
    using that by auto
  have sh: "shape n (Suc n) ?M" and tr: "tri n ?M" using solve_cols [OF assms order_refl] by auto
  have len: "length ?M = n" using sh by (rule shape_len)
  note b = back_subst_tri [OF tr eq_refl [OF len [symmetric]]]
  have "kills ?M (?x @ [-1])"
    using b shape_len [OF sh] len by (simp add: kills_nth dot_snoc_take)
  with s(3) [of "?x @ [-1]"] b(1) have "length ?x = n \<and> kills M (?x @ [-1])" by simp
  moreover have "mat_solve M None = ?x"
    using shape_len(1) [OF assms(1)] by (simp add: mat_solve_def set_rhs_def)
  ultimately show ?thesis by simp
qed

text \<open>C11. \<open>mat_solve\<close> solves the system it is given: for a nonsingular matrix \<open>[A | b]\<close>, or \<open>A\<close> with a
  last column to overwrite and \<open>b\<close>, the result \<open>x\<close> satisfies \<open>A x = b\<close> row by row; the small
  conductance to ground that replaces a zero pivot is never put in.\<close>

theorem mat_solve_solves:
  assumes "length M = n" and "\<forall>r \<in> set M. length r = n + 1" and "nonsingular n M"
    and "case rhs of None \<Rightarrow> True | Some b \<Rightarrow> length b = n"
  shows "length (mat_solve M rhs) = n \<and>
    (\<forall>i < n. (\<Sum>j < n. M ! i ! j * mat_solve M rhs ! j)
      = (case rhs of None \<Rightarrow> M ! i ! n | Some b \<Rightarrow> b ! i))"
proof -
  have sh: "shape n (Suc n) M" using assms(1,2) by (simp add: shape_def)
  let ?M = "set_rhs n rhs M"
  have s: "shape n (Suc n) ?M" using set_rhs_shape [OF sh assms(4)] .
  have e: "?M ! i ! j = M ! i ! j" "?M ! i ! n = (case rhs of None \<Rightarrow> M ! i ! n | Some b \<Rightarrow> b ! i)"
    if "i < n" "j < n" for i j
    using that assms(4) set_rhs_nth [OF sh]
    by (auto simp: set_rhs_def split: option.splits)
  have "nonsingular n ?M" using assms(3) e(1) by (simp add: nonsingular_def)
  from mat_solve_kills [OF s this] have k: "length (mat_solve ?M None) = n"
    "kills ?M (mat_solve ?M None @ [-1])" by auto
  have eq: "mat_solve M rhs = mat_solve ?M None"
    using shape_len(1) [OF s] assms(1) by (simp add: mat_solve_def set_rhs_def [of _ None])
  have "(\<Sum>j < n. M ! i ! j * mat_solve M rhs ! j) = (case rhs of None \<Rightarrow> M ! i ! n | Some b \<Rightarrow> b ! i)"
    if i: "i < n" for i
  proof -
    have "dot (?M ! i) (mat_solve ?M None @ [-1]) = 0" using k(2) i shape_len(1) [OF s] by (simp add: kills_nth)
    then have "(\<Sum>j < n. ?M ! i ! j * mat_solve ?M None ! j) = ?M ! i ! n"
      using k(1) i shape_len(2) [OF s i] by (simp add: dot_snoc_take)
    moreover have "(\<Sum>j < n. ?M ! i ! j * mat_solve ?M None ! j) = (\<Sum>j < n. M ! i ! j * mat_solve ?M None ! j)"
      using i by (intro sum.cong) (simp_all add: e(1))
    ultimately show ?thesis using i e(2) by (simp add: eq)
  qed
  with k(1) eq show ?thesis by simp
qed

text \<open>The example in the comment of the code.\<close>

lemma mat_solve_solves_witness:
  "\<exists>x. mat_solve [[2,1,-1,8],[-3,-1,2,-11],[-2,1,2,-3]] None = x \<and>
     2 * x ! 0 + x ! 1 - x ! 2 = 8 \<and> - 3 * x ! 0 - x ! 1 + 2 * x ! 2 = - 11 \<and>
     - 2 * x ! 0 + x ! 1 + 2 * x ! 2 = - 3"
proof -
  let ?M = "[[2,1,-1,8],[-3,-1,2,-11],[-2,1,2,-3::real]]"
  have "nonsingular 3 ?M"
    unfolding nonsingular_def
  proof (intro allI impI)
    fix y :: vec assume "length y = 3" and z: "\<forall>i < 3. (\<Sum>j < 3. ?M ! i ! j * y ! j) = 0"
    then obtain a b c where y: "y = [a, b, c]" by (auto simp: numeral_3_eq_3 length_Suc_conv)
    from z have "2 * a + b - c = 0" "-3 * a - b + 2 * c = 0" "-2 * a + b + 2 * c = 0"
      by (simp_all add: y numeral_3_eq_3 All_less_Suc)
    then show "y = replicate 3 0" by (simp add: y numeral_3_eq_3)
  qed
  with mat_solve_solves [of ?M 3 None] show ?thesis by (simp add: numeral_3_eq_3 numeral_2_eq_2 All_less_Suc)
qed

end
