(* ===== verification/CktRank.thy ===== *)
theory CktRank
  imports CktSolve
begin

text \<open>
  What \<open>mat_rank\<close> promises: a full rank means that the rows are linearly independent.
\<close>

section \<open>Independence of the rows\<close>

definition indep_rows :: "nat \<Rightarrow> nat set \<Rightarrow> mat \<Rightarrow> bool" where
  "indep_rows n J M \<longleftrightarrow>
     (\<forall>a. (\<forall>j \<in> J. (\<Sum>i < n. a i * M ! i ! j) = (0::real)) \<longrightarrow> (\<forall>i < n. a i = 0))"

lemma independentD:
  "indep_rows n J M \<Longrightarrow> (\<And>j. j \<in> J \<Longrightarrow> (\<Sum>i < n. a i * M ! i ! j) = 0) \<Longrightarrow> i < n \<Longrightarrow> a i = 0"
  unfolding indep_rows_def by blast

lemma sum_swap_pair:
  fixes f :: "nat \<Rightarrow> real"
  assumes "r < n" and "k < n"
  shows "(\<Sum>i < n. f (if i = r then k else if i = k then r else i)) = (\<Sum>i < n. f i)"
  using assms
  by (intro sum.reindex_bij_witness [of _ "\<lambda>i. if i = r then k else if i = k then r else i"
        "\<lambda>i. if i = r then k else if i = k then r else i"]) (auto split: if_splits)

lemma independent_swap:
  assumes "shape n m M" and "indep_rows n J (swap_rows M r k)" and "r < n" and "k < n"
  shows "indep_rows n J M"
  unfolding indep_rows_def
proof (intro allI impI)
  fix a i assume z: "\<forall>j \<in> J. (\<Sum>i < n. a i * M ! i ! j) = 0" and i: "i < n"
  let ?s = "\<lambda>i. if i = r then k else if i = k then r else i"
  have "(\<Sum>i < n. a (?s i) * swap_rows M r k ! i ! j) = (\<Sum>i < n. a (?s i) * M ! (?s i) ! j)" for j
    using assms(3,4) shape_len(1) [OF assms(1)] by (intro sum.cong) (auto simp: swap_rows_nth)
  then have "(\<Sum>i < n. a (?s i) * swap_rows M r k ! i ! j) = (\<Sum>i < n. a i * M ! i ! j)" for j
    using sum_swap_pair [OF assms(3,4), of "\<lambda>i. a i * M ! i ! j"] by simp
  with z have "\<forall>j \<in> J. (\<Sum>i < n. a (?s i) * swap_rows M r k ! i ! j) = 0" by simp
  then have "a (?s (?s i)) = 0"
    using independentD [OF assms(2), of "\<lambda>i. a (?s i)" "?s i"] i assms(3,4) by simp
  then show "a i = 0" by (auto split: if_splits)
qed

lemma independent_eliminate:
  assumes "shape n m M" and "indep_rows n J (eliminate r c M)" and "r < n" and "J \<subseteq> {..<m}"
    and "\<forall>j \<in> J. j < c \<longrightarrow> M ! r ! j = 0"
  shows "indep_rows n J M"
  unfolding indep_rows_def
proof (intro allI impI)
  fix a i assume z: "\<forall>j \<in> J. (\<Sum>i < n. a i * M ! i ! j) = 0" and i: "i < n"
  define t where "t i = (if i \<le> r then 0 else M ! i ! c / M ! r ! c)" for i
  define b where "b i = (if i = r then a r + (\<Sum>k < n. a k * t k) else a i)" for i
  have e: "eliminate r c M ! i ! j = M ! i ! j - t i * M ! r ! j" if "i < n" "j \<in> J" for i j
    using eliminate_nth [OF assms(1) that(1) assms(3), of j c] assms(4,5) that by (auto simp: t_def)
  have tr: "t r = 0" by (simp add: t_def)
  have "(\<Sum>i < n. b i * eliminate r c M ! i ! j) = 0" if j: "j \<in> J" for j
  proof -
    let ?S = "\<Sum>k < n. a k * t k"
    have "(\<Sum>i < n. b i * eliminate r c M ! i ! j)
        = (\<Sum>i < n. (a i * M ! i ! j - a i * t i * M ! r ! j) + (if i = r then ?S * M ! r ! j else 0))"
      using j tr by (intro sum.cong) (auto simp: e b_def algebra_simps)
    also have "\<dots> = (\<Sum>i < n. a i * M ! i ! j) - ?S * M ! r ! j + ?S * M ! r ! j"
      using assms(3) by (simp add: sum.distrib sum_subtractf sum_distrib_right sum.delta)
    finally show ?thesis using z j by simp
  qed
  from independentD [OF assms(2) this] have b0: "b i = 0" if "i < n" for i using that by blast
  have "a k * t k = 0" if "k < n" for k
    using b0 [OF that] tr by (cases "k = r") (auto simp: b_def)
  then have "(\<Sum>k < n. a k * t k) = 0" by (intro sum.neutral) simp
  with b0 [OF i] show "a i = 0" by (auto simp: b_def split: if_splits)
qed

text \<open>The first \<open>k\<close> rows have their pivots in the columns \<open>Q\<close>, and nothing below them.\<close>

definition pivots :: "nat \<Rightarrow> nat \<Rightarrow> nat set \<Rightarrow> mat \<Rightarrow> bool" where
  "pivots n k Q M \<longleftrightarrow> (\<exists>p. Q = p ` {..<k} \<and>
     (\<forall>r < k. M ! r ! p r \<noteq> 0 \<and> (\<forall>i. r < i \<and> i < n \<longrightarrow> M ! i ! p r = 0)))"

lemma pivots_below: "pivots n k Q M \<Longrightarrow> j \<in> Q \<Longrightarrow> k \<le> i \<Longrightarrow> i < n \<Longrightarrow> M ! i ! j = 0"
  by (auto simp: pivots_def)

lemma pivots_independent:
  assumes "pivots n n Q M"
  shows "indep_rows n Q M"
  unfolding indep_rows_def
proof (intro allI impI)
  fix a i assume z: "\<forall>j \<in> Q. (\<Sum>i < n. a i * M ! i ! j) = 0" and i: "i < n"
  from assms obtain p where p: "\<And>r. r < n \<Longrightarrow> p r \<in> Q \<and> M ! r ! p r \<noteq> 0 \<and> (\<forall>i. r < i \<and> i < n \<longrightarrow> M ! i ! p r = 0)"
    unfolding pivots_def by blast
  from i show "a i = 0"
  proof (induction i rule: less_induct)
    case (less i)
    have "a k * M ! k ! p i = (if k = i then a i * M ! i ! p i else 0)" if "k < n" for k
      using less.IH [of k] p [OF less.prems] that by (cases k i rule: linorder_cases) auto
    then have "(\<Sum>k < n. a k * M ! k ! p i) = (\<Sum>k < n. if k = i then a i * M ! i ! p i else 0)"
      by (intro sum.cong) auto
    with z p [OF less.prems] less.prems show ?case by (simp add: sum.delta)
  qed
qed

lemma rank_row_none: "rank_row tol row c M = Some (M', c') \<Longrightarrow> c < length (M ! 0)"
  by (subst (asm) rank_row.simps) (simp split: if_splits)

text \<open>What a found pivot column gives.\<close>

lemma rank_row_some:
  assumes "rank_row tol row c M = Some (M', c')" and "0 \<le> tol" and "shape n m M" and "row < n"
  obtains k d where "row \<le> k" "k < n" "c \<le> d" "d < m" "c' = d + 1"
    "tol < \<bar>M ! k ! d\<bar>" "\<forall>i. row \<le> i \<and> i < n \<longrightarrow> \<bar>M ! i ! d\<bar> \<le> \<bar>M ! k ! d\<bar>"
    "M' = eliminate row d (swap_rows M row k)"
    "\<forall>j. c \<le> j \<and> j < d \<longrightarrow> (\<forall>i. row \<le> i \<and> i < n \<longrightarrow> \<bar>M ! i ! j\<bar> \<le> tol)"
proof -
  have len: "length M = n" "length (M ! 0) = m"
    using shape_len [OF assms(3)] assms(4) by auto
  have "\<exists>k d. row \<le> k \<and> k < n \<and> c \<le> d \<and> d < m \<and> c' = d + 1 \<and> tol < \<bar>M ! k ! d\<bar> \<and>
    (\<forall>i. row \<le> i \<and> i < n \<longrightarrow> \<bar>M ! i ! d\<bar> \<le> \<bar>M ! k ! d\<bar>) \<and> M' = eliminate row d (swap_rows M row k) \<and>
    (\<forall>j. c \<le> j \<and> j < d \<longrightarrow> (\<forall>i. row \<le> i \<and> i < n \<longrightarrow> \<bar>M ! i ! j\<bar> \<le> tol))"
    using assms(1)
  proof (induction "m - c" arbitrary: c rule: less_induct)
    case less
    obtain v k where f: "find_pivot M c [Suc row ..< length M] \<bar>M ! row ! c\<bar> row = (v, k)" by fastforce
    have "row < length M" using assms(4) len by simp
    note p = pivot_spec [OF f this, unfolded len]
    have c: "c < m" using rank_row_none [OF less.prems] len by simp
    show ?case
    proof (cases "v > tol")
      case True
      with less.prems c f p len have "M' = eliminate row c (swap_rows M row k)" "c' = c + 1"
        by (simp_all add: rank_row.simps [of tol row c])
      with True p c show ?thesis by (intro exI [of _ k] exI [of _ c]) auto
    next
      case False
      with less.prems c f p len have r: "rank_row tol row (c + 1) M = Some (M', c')"
        by (simp add: rank_row.simps [of tol row c])
      have "m - (c + 1) < m - c" using c by simp
      from less.hyps [OF this r] obtain k d where
        h: "row \<le> k" "k < n" "c + 1 \<le> d" "d < m" "c' = d + 1" "tol < \<bar>M ! k ! d\<bar>"
        "\<forall>i. row \<le> i \<and> i < n \<longrightarrow> \<bar>M ! i ! d\<bar> \<le> \<bar>M ! k ! d\<bar>" "M' = eliminate row d (swap_rows M row k)"
        "\<forall>j. c + 1 \<le> j \<and> j < d \<longrightarrow> (\<forall>i. row \<le> i \<and> i < n \<longrightarrow> \<bar>M ! i ! j\<bar> \<le> tol)" by blast
      moreover have "\<forall>j. c \<le> j \<and> j < d \<longrightarrow> (\<forall>i. row \<le> i \<and> i < n \<longrightarrow> \<bar>M ! i ! j\<bar> \<le> tol)"
        using h(9) p(4) False by (metis (no_types, lifting) Suc_eq_plus1 le_antisym not_less not_less_eq_eq order_trans)
      ultimately show ?thesis by (metis Suc_eq_plus1 Suc_leD)
    qed
  qed
  with that show ?thesis by blast
qed

text \<open>One row of the elimination, and the rows after it.\<close>

lemma rank_row_step:
  assumes "rank_row tol row c M = Some (M', c')" and "0 \<le> tol" and "shape n m M" and "row < n"
    and "pivots n row Q M" and "Q \<subseteq> {..<c}"
  obtains d where "c \<le> d" "d < m" "c' = d + 1" "shape n m M'" "pivots n (Suc row) (insert d Q) M'"
    "\<And>J. J \<subseteq> {..<m} \<Longrightarrow> J \<inter> {..<d} = Q \<Longrightarrow> indep_rows n J M' \<Longrightarrow> indep_rows n J M"
proof -
  from rank_row_some [OF assms(1-4)] obtain k d where h: "row \<le> k" "k < n" "c \<le> d" "d < m" "c' = d + 1"
    "tol < \<bar>M ! k ! d\<bar>" "M' = eliminate row d (swap_rows M row k)" by metis
  let ?S = "swap_rows M row k"
  have len: "length M = n" using assms(3) by (rule shape_len)
  have sS: "shape n m ?S" using assms(3,4) h by (simp add: swap_shape)
  have sM: "shape n m M'" using sS assms(4) h by (simp add: eliminate_shape)
  have S: "?S ! i = (if i = row then M ! k else if i = k then M ! row else M ! i)" if "i < n" for i
    using that assms(4) h len by (simp add: swap_rows_nth)
  from assms(5) obtain p where p: "Q = p ` {..<row}"
    "\<And>r. r < row \<Longrightarrow> M ! r ! p r \<noteq> 0 \<and> (\<forall>i. r < i \<and> i < n \<longrightarrow> M ! i ! p r = 0)"
    unfolding pivots_def by blast
  have e: "M' ! i ! j = (if i \<le> row \<or> j < d then ?S ! i ! j
      else ?S ! i ! j - ?S ! row ! j * (?S ! i ! d / ?S ! row ! d))" if "i < n" "j < m" for i j
    unfolding h(7) using eliminate_nth [OF sS that(1) assms(4) that(2)] .
  have nz: "?S ! row ! d \<noteq> 0" using S [OF assms(4)] h(6) assms(2) by auto
  have Qd: "\<And>r. r < row \<Longrightarrow> p r < d" using p(1) assms(6) h(3) by fastforce
  have piv: "pivots n (Suc row) (insert d Q) M'"
    unfolding pivots_def
  proof (intro exI [of _ "\<lambda>r. if r = row then d else p r"] conjI allI impI)
    show "insert d Q = (\<lambda>r. if r = row then d else p r) ` {..<Suc row}" using p(1) by auto
  next
    fix r assume r: "r < Suc row"
    show "M' ! r ! (if r = row then d else p r) \<noteq> 0"
    proof (cases "r = row")
      case True
      with nz assms(4) h(4) show ?thesis by (simp add: e)
    next
      case False
      with r have "r < row" by simp
      then show ?thesis using p(2) [of r] Qd [of r] assms(4) h(1,4) S [of r] False by (simp add: e)
    qed
    fix i assume i: "r < i \<and> i < n"
    show "M' ! i ! (if r = row then d else p r) = 0"
    proof (cases "r = row")
      case True
      with i nz h(4) assms(4) show ?thesis by (simp add: e)
    next
      case False
      with r have "r < row" by simp
      with i p(2) [OF this] Qd [OF this] h S [of i] assms(4) have "?S ! i ! p r = 0" by auto
      with False i Qd [OF \<open>r < row\<close>] h(4) show ?thesis by (simp add: e)
    qed
  qed
  have "indep_rows n J M" if J: "J \<subseteq> {..<m}" "J \<inter> {..<d} = Q" "indep_rows n J M'" for J
  proof (rule independent_swap [OF assms(3) _ assms(4) h(2)])
    have "?S ! row ! j = 0" if "j \<in> J" "j < d" for j
    proof -
      from that J(2) have "j \<in> Q" by auto
      from pivots_below [OF assms(5) this h(1,2)] S [OF assms(4)] show ?thesis by simp
    qed
    with independent_eliminate [OF sS J(3) [unfolded h(7)] assms(4) J(1)]
    show "indep_rows n J ?S" by blast
  qed
  with that h(3-5) sM piv show ?thesis by blast
qed

lemma rank_steps_le:
  "fst (fold (rank_step tol) rows (k, c, M)) \<le> k + length rows"
proof (induction rows arbitrary: k c M)
  case (Cons r rows)
  show ?case
  proof (cases "rank_row tol r c M")
    case None
    with Cons [of k c M] show ?thesis by (simp add: rank_step_def)
  next
    case (Some p)
    with Cons [of "k + 1" "snd p" "fst p"] show ?thesis by (cases p) (simp add: rank_step_def)
  qed
qed simp

lemma rank_steps_full:
  assumes "fst (fold (rank_step tol) [row ..< n] (k, c, M)) = k + (n - row)"
    and "0 \<le> tol" and "shape n m M" and "row \<le> n" and "pivots n row Q M" and "Q \<subseteq> {..<c}" and "c \<le> m"
  shows "\<exists>J. J \<subseteq> {..<m} \<and> J \<inter> {..<c} = Q \<and> indep_rows n J M"
  using assms
proof (induction "n - row" arbitrary: row k c M Q)
  case 0
  then have "indep_rows n Q M" by (intro pivots_independent) simp
  with 0 show ?case by (intro exI [of _ Q]) auto
next
  case (Suc l)
  then have r: "row < n" "[row ..< n] = row # [Suc row ..< n]" by (simp_all add: upt_conv_Cons)
  show ?case
  proof (cases "rank_row tol row c M")
    case None
    with Suc.prems(1) r rank_steps_le [of tol "[Suc row ..< n]" k c M] show ?thesis
      by (simp add: rank_step_def)
  next
    case (Some q)
    then obtain M' c' where q: "rank_row tol row c M = Some (M', c')" by (cases q) auto
    from rank_row_step [OF q Suc.prems(2,3) r(1) Suc.prems(5,6)] obtain d where
      d: "c \<le> d" "d < m" "c' = d + 1" "shape n m M'" "pivots n (Suc row) (insert d Q) M'"
      "\<And>J. J \<subseteq> {..<m} \<Longrightarrow> J \<inter> {..<d} = Q \<Longrightarrow> indep_rows n J M' \<Longrightarrow> indep_rows n J M" by blast
    have l: "l = n - Suc row" using Suc.hyps(2) by simp
    have f: "fst (fold (rank_step tol) [Suc row ..< n] (k + 1, c', M')) = k + 1 + (n - Suc row)"
      using Suc.prems(1) q r by (simp add: rank_step_def)
    have Q': "insert d Q \<subseteq> {..<c'}" using Suc.prems(6) d by auto
    have "Suc row \<le> n" "c' \<le> m" using d(2,3) r(1) by simp_all
    then have "\<exists>J. J \<subseteq> {..<m} \<and> J \<inter> {..<c'} = insert d Q \<and> indep_rows n J M'"
      using Suc.hyps(1) [OF l f Suc.prems(2) d(4) _ d(5) Q'] by blast
    then obtain J where J: "J \<subseteq> {..<m}" "J \<inter> {..<c'} = insert d Q" "indep_rows n J M'"
      by blast
    have JQ: "J \<inter> {..<d} = Q"
    proof (intro set_eqI iffI)
      fix j assume "j \<in> J \<inter> {..<d}"
      then have "j \<in> J \<inter> {..<c'}" "j \<noteq> d" using d(3) by auto
      then show "j \<in> Q" unfolding J(2) by blast
    next
      fix j assume "j \<in> Q"
      then have "j \<in> J \<inter> {..<c'}" "j < c" unfolding J(2) using Suc.prems(6) by auto
      then show "j \<in> J \<inter> {..<d}" using d(1) by auto
    qed
    have "J \<inter> {..<c} = (J \<inter> {..<d}) \<inter> {..<c}" using d(1) by auto
    then have "J \<inter> {..<c} = Q" unfolding JQ using Suc.prems(6) by auto
    with d(6) [OF J(1) JQ J(3)] J(1) show ?thesis by (intro exI [of _ J]) simp
  qed
qed

lemma max_abs_entry_nonneg: "0 \<le> max_abs_entry M"
proof -
  have "m \<le> fold (\<lambda>x m. if \<bar>x\<bar> > m then \<bar>x\<bar> else m) xs m" for xs and m :: real
  proof (induction xs arbitrary: m)
    case (Cons a xs)
    from Cons [of m] Cons [of "\<bar>a\<bar>"] show ?case by simp
  qed simp
  then have "m \<le> fold (\<lambda>r m. fold (\<lambda>x m. if \<bar>x\<bar> > m then \<bar>x\<bar> else m) (rev (take l r)) m) rs m" for l rs and m :: real
    by (induction rs arbitrary: m) (auto intro: order_trans)
  from this [of 0 "length M" "rev M"] show ?thesis by (simp add: max_abs_entry_def)
qed



end
