(* ===== verification/CktNumber.thy ===== *)
theory CktNumber
  imports EdxPrelude
begin

text \<open>
  \<open>parse_number\<close> of \<open>capa/schematic.js\<close>: the numbers in engineering notation that the properties
  of circuit components hold. The position in the string is modelled by the rest of the string;
  \<open>None\<close> is \<open>undefined\<close>.
\<close>

definition ord :: "char \<Rightarrow> nat" where
  "ord c = of_char c"

definition dec_digit :: "char \<Rightarrow> nat option" where
  "dec_digit c = (if 48 \<le> ord c \<and> ord c \<le> 57 then Some (ord c - 48) else None)"

definition oct_digit :: "char \<Rightarrow> nat option" where
  "oct_digit c = (if 48 \<le> ord c \<and> ord c \<le> 55 then Some (ord c - 48) else None)"

definition bin_digit :: "char \<Rightarrow> nat option" where
  "bin_digit c = (if 48 \<le> ord c \<and> ord c \<le> 49 then Some (ord c - 48) else None)"

definition hex_digit :: "char \<Rightarrow> nat option" where
  "hex_digit c =
     (if 48 \<le> ord c \<and> ord c \<le> 57 then Some (ord c - 48)
      else if 65 \<le> ord c \<and> ord c \<le> 70 then Some (ord c - 65 + 10)
      else if 97 \<le> ord c \<and> ord c \<le> 102 then Some (ord c - 97 + 10)
      else None)"

fun read_digits :: "(char \<Rightarrow> nat option) \<Rightarrow> real \<Rightarrow> real \<Rightarrow> string \<Rightarrow> real \<times> string" where
  "read_digits dig b r [] = (r, [])"
| "read_digits dig b r (c # cs) =
     (case dig c of None \<Rightarrow> (r, c # cs) | Some d \<Rightarrow> read_digits dig b (r * b + real d) cs)"

fun read_fraction :: "real \<Rightarrow> real \<Rightarrow> string \<Rightarrow> real \<times> real \<times> string" where
  "read_fraction r mult [] = (r, mult, [])"
| "read_fraction r mult (c # cs) =
     (case dec_digit c of
        None \<Rightarrow> (r, mult, c # cs)
      | Some d \<Rightarrow> read_fraction (r * 10 + real d) (mult * (1 / 10)) cs)"

fun read_exponent :: "nat \<Rightarrow> string \<Rightarrow> nat" where
  "read_exponent e [] = e"
| "read_exponent e (c # cs) =
     (case dec_digit c of None \<Rightarrow> e | Some d \<Rightarrow> read_exponent (e * 10 + d) cs)"

fun repeat_mult :: "nat \<Rightarrow> real \<Rightarrow> real \<Rightarrow> real" where
  "repeat_mult 0 m r = r"
| "repeat_mult (Suc n) m r = repeat_mult n m (r * m)"

text \<open>The exponent or the scale factor at the end; anything after it is ignored.\<close>

definition scale_factor :: "char \<Rightarrow> real" where
  "scale_factor c =
     (if c \<in> {CHR ''t'', CHR ''T''} then 10 ^ 12
      else if c \<in> {CHR ''g'', CHR ''G''} then 10 ^ 9
      else if c = CHR ''M'' then 10 ^ 6
      else if c \<in> {CHR ''k'', CHR ''K''} then 10 ^ 3
      else if c = CHR ''m'' then 1 / 10 ^ 3
      else if c \<in> {CHR ''u'', CHR ''U''} then 1 / 10 ^ 6
      else if c \<in> {CHR ''n'', CHR ''N''} then 1 / 10 ^ 9
      else if c \<in> {CHR ''p'', CHR ''P''} then 1 / 10 ^ 12
      else if c \<in> {CHR ''f'', CHR ''F''} then 1 / 10 ^ 15
      else 1)"

definition apply_scale :: "real \<Rightarrow> string \<Rightarrow> real" where
  "apply_scale r s =
     (case s of
        [] \<Rightarrow> r
      | c # cs \<Rightarrow>
          (if c \<in> {CHR ''e'', CHR ''E''} then
             (case cs of
                [] \<Rightarrow> r
              | d # ds \<Rightarrow>
                  (if d = CHR ''+'' then repeat_mult (read_exponent 0 ds) 10 r
                   else if d = CHR ''-'' then repeat_mult (read_exponent 0 ds) (1 / 10) r
                   else repeat_mult (read_exponent 0 cs) 10 r))
           else r * scale_factor c))"

text \<open>The decimal part, from the position \<open>v\<close>; \<open>u\<close> is the position after the sign.\<close>

definition parse_decimal :: "real \<Rightarrow> string \<Rightarrow> string \<Rightarrow> real option \<Rightarrow> real option" where
  "parse_decimal mult u v default_v =
     (let (r, v1) = read_digits dec_digit 10 0 v;
          (r2, mult2, v2) = (case v1 of
             c # w \<Rightarrow> if c = CHR ''.'' then read_fraction r mult w else (r, mult, v1)
           | [] \<Rightarrow> (r, mult, v1))
      in if length v2 = length u then default_v else Some (apply_scale (r2 * mult2) v2))"

definition parse_unsigned :: "real \<Rightarrow> string \<Rightarrow> real option \<Rightarrow> real option" where
  "parse_unsigned mult u default_v =
     (case u of
        [] \<Rightarrow> default_v
      | c # cs \<Rightarrow>
          (if c = CHR ''0'' then
             (case cs of
                [] \<Rightarrow> Some 0
              | x # ds \<Rightarrow>
                  (if x \<in> {CHR ''x'', CHR ''X''} then Some (fst (read_digits hex_digit 16 0 ds) * mult)
                   else if x \<in> {CHR ''b'', CHR ''B''} then Some (fst (read_digits bin_digit 2 0 ds) * mult)
                   else if x \<noteq> CHR ''.'' then Some (fst (read_digits oct_digit 8 0 cs) * mult)
                   else parse_decimal mult u cs default_v))
           else parse_decimal mult u u default_v))"

definition parse_number :: "string \<Rightarrow> real option \<Rightarrow> real option" where
  "parse_number s default_v =
     (case dropWhile (\<lambda>c. ord c \<le> 32) s of
        [] \<Rightarrow> default_v
      | c # cs \<Rightarrow>
          (if c = CHR ''-'' then parse_unsigned (- 1) cs default_v
           else if c = CHR ''+'' then parse_unsigned 1 cs default_v
           else parse_unsigned 1 (c # cs) default_v))"

section \<open>Digits\<close>

lemma lt10_cases: "n < 10 \<Longrightarrow> n \<in> {0, 1, 2, 3, 4, 5, 6, 7, 8, 9::nat}"
  by auto

lemma dec_digit_char [simp]: "n < 10 \<Longrightarrow> dec_digit (digit_char n) = Some n"
  by (drule lt10_cases) (auto simp: dec_digit_def digit_char_def ord_def)

definition digits_value :: "nat \<Rightarrow> nat list \<Rightarrow> nat" where
  "digits_value n ds = fold (\<lambda>d n. 10 * n + d) ds n"

lemma digits_value_simps [simp]:
  "digits_value n [] = n" "digits_value n (d # ds) = digits_value (10 * n + d) ds"
  by (simp_all add: digits_value_def)

text \<open>The decimal digits of a number.\<close>

fun digits_of :: "nat \<Rightarrow> nat list" where
  "digits_of n = (if n < 10 then [n] else digits_of (n div 10) @ [n mod 10])"

declare digits_of.simps [simp del]

lemma nat_text_digits: "nat_text n = map digit_char (digits_of n)"
  by (induction n rule: digits_of.induct) (subst nat_text.simps, subst digits_of.simps, simp)

lemma digits_value_append [simp]: "digits_value n (ds @ es) = digits_value (digits_value n ds) es"
  by (simp add: digits_value_def)

lemma digits_of_value: "digits_value 0 (digits_of n) = n"
proof (induction n rule: digits_of.induct)
  case (1 n)
  then show ?case by (subst digits_of.simps) simp
qed

lemma digits_of_lt: "d \<in> set (digits_of n) \<Longrightarrow> d < 10"
  by (induction n rule: digits_of.induct) (subst (asm) digits_of.simps, auto split: if_splits)

lemma digits_of_hd: "0 < n \<Longrightarrow> \<exists>d ds. digits_of n = d # ds \<and> 0 < d \<and> d < 10"
proof (induction n rule: digits_of.induct)
  case (1 n)
  then show ?case by (cases "n < 10") (subst digits_of.simps, force)+
qed

text \<open>Where a run of digits ends.\<close>

definition no_digit :: "string \<Rightarrow> bool" where
  "no_digit s \<longleftrightarrow> (case s of [] \<Rightarrow> True | c # _ \<Rightarrow> dec_digit c = None)"

lemma read_digits_map:
  "\<forall>d \<in> set ds. d < 10 \<Longrightarrow> no_digit s \<Longrightarrow>
     read_digits dec_digit 10 (real n) (map digit_char ds @ s) = (real (digits_value n ds), s)"
proof (induction ds arbitrary: n)
  case Nil
  then show ?case by (cases s) (simp_all add: no_digit_def)
next
  case (Cons d ds)
  then show ?case using Cons.IH [of "10 * n + d"] by (simp add: mult.commute)
qed

lemma read_fraction_map:
  "\<forall>d \<in> set ds. d < 10 \<Longrightarrow> no_digit s \<Longrightarrow>
     read_fraction (real n) m (map digit_char ds @ s) =
       (real (digits_value n ds), m * (1 / 10) ^ length ds, s)"
proof (induction ds arbitrary: n m)
  case Nil
  then show ?case by (cases s) (simp_all add: no_digit_def)
next
  case (Cons d ds)
  then show ?case using Cons.IH [of "10 * n + d" "m * (1 / 10)"] by (simp add: mult.commute)
qed

lemma read_exponent_map:
  "\<forall>d \<in> set ds. d < 10 \<Longrightarrow> read_exponent n (map digit_char ds) = digits_value n ds"
  by (induction ds arbitrary: n) (simp_all add: mult.commute)

lemma repeat_mult_power: "repeat_mult n m r = r * m ^ n"
  by (induction n arbitrary: r) simp_all

section \<open>Reading back a number in engineering notation\<close>

text \<open>The suffixes and the powers of ten they stand for.\<close>

definition suffixes :: "(string \<times> int) list" where
  "suffixes = [([], 0), (''T'', 12), (''t'', 12), (''G'', 9), (''g'', 9), (''M'', 6), (''K'', 3), (''k'', 3),
     (''m'', -3), (''u'', -6), (''U'', -6), (''n'', -9), (''N'', -9), (''p'', -12), (''P'', -12),
     (''f'', -15), (''F'', -15)]"

definition mantissa_text :: "nat \<Rightarrow> nat list \<Rightarrow> string" where
  "mantissa_text n ds = nat_text n @ (if ds = [] then [] else CHR ''.'' # map digit_char ds)"

definition mantissa :: "nat \<Rightarrow> nat list \<Rightarrow> real" where
  "mantissa n ds = real (digits_value n ds) / 10 ^ length ds"

lemma suffix_facts:
  assumes "(suf, e) \<in> set suffixes"
  shows "no_digit suf \<and> (suf = [] \<or> hd suf \<noteq> CHR ''.'' \<and> hd suf \<notin> {CHR ''x'', CHR ''X'', CHR ''b'', CHR ''B''}) \<and>
    apply_scale r suf = r * 10 powi e"
  using assms by (auto simp: suffixes_def no_digit_def dec_digit_def ord_def apply_scale_def scale_factor_def
      power_int_minus field_simps)

lemma nat_text_cons:
  obtains d ds where "digits_of n = d # ds" "nat_text n = digit_char d # map digit_char ds" "d < 10"
proof -
  have "digits_of n \<noteq> []" by (subst digits_of.simps) simp
  then obtain d ds where d: "digits_of n = d # ds" by (cases "digits_of n") auto
  then have "d < 10" using digits_of_lt [of d n] by simp
  with d show ?thesis by (intro that) (simp_all add: nat_text_digits)
qed

lemma digit_char_other: "d < 10 \<Longrightarrow> c \<in> {CHR ''+'', CHR ''-'', CHR ''.''} \<Longrightarrow> digit_char d \<noteq> c"
  by (drule lt10_cases) (auto simp: digit_char_def)

lemma exponent_facts:
  "no_digit (CHR ''e'' # int_text e)" "apply_scale r (CHR ''e'' # int_text e) = r * 10 powi e"
proof -
  show "no_digit (CHR ''e'' # int_text e)" by (simp add: no_digit_def dec_digit_def ord_def)
  have n: "read_exponent 0 (nat_text k) = k" for k
    using digits_of_lt by (auto simp: nat_text_digits read_exponent_map digits_of_value)
  show "apply_scale r (CHR ''e'' # int_text e) = r * 10 powi e"
  proof (cases "e < 0")
    case True
    then have "apply_scale r (CHR ''e'' # int_text e) = r * (1 / 10) ^ nat (- e)"
      by (simp add: apply_scale_def int_text_def n repeat_mult_power)
    with True show ?thesis by (simp add: power_int_def inverse_eq_divide)
  next
    case False
    obtain d ds where d: "nat_text (nat e) = digit_char d # map digit_char ds" "d < 10"
      by (rule nat_text_cons)
    have "apply_scale r (CHR ''e'' # int_text e) = r * 10 ^ nat e"
      using False n [of "nat e"] digit_char_other [OF d(2)]
      by (simp add: apply_scale_def int_text_def repeat_mult_power d(1))
    with False show ?thesis by (simp add: power_int_def)
  qed
qed

lemma parse_decimal_mantissa:
  assumes "\<forall>d \<in> set ds. d < 10" and "no_digit s" and "s = [] \<or> hd s \<noteq> CHR ''.''"
    and "\<forall>d \<in> set ns. d < 10" and "length s < length u"
  shows "parse_decimal m u (map digit_char ns @ (if ds = [] then [] else CHR ''.'' # map digit_char ds) @ s) dflt
    = Some (apply_scale (m * mantissa (digits_value 0 ns) ds) s)"
proof -
  have dot: "no_digit (CHR ''.'' # w)" for w by (simp add: no_digit_def dec_digit_def ord_def)
  show ?thesis
  proof (cases "ds = []")
    case True
    then show ?thesis
      using assms(2,3,5) read_digits_map [OF assms(4,2), of 0]
      by (auto simp: parse_decimal_def Let_def mantissa_def mult.commute split: list.splits)
  next
    case False
    have f: "read_fraction (real (digits_value 0 ns)) m (map digit_char ds @ s) =
       (real (digits_value (digits_value 0 ns) ds), m * (1 / 10) ^ length ds, s)"
      by (rule read_fraction_map [OF assms(1,2)])
    have "read_digits dec_digit 10 0 (map digit_char ns @ CHR ''.'' # map digit_char ds @ s)
        = (real (digits_value 0 ns), CHR ''.'' # map digit_char ds @ s)"
      using read_digits_map [OF assms(4) dot, of 0] by simp
    with False assms(5) f show ?thesis
      by (simp add: parse_decimal_def Let_def mantissa_def power_divide mult.commute)
  qed
qed

lemma parse_unsigned_mantissa:
  assumes "\<forall>d \<in> set ds. d < 10" and "no_digit s"
    and "s = [] \<or> hd s \<noteq> CHR ''.'' \<and> hd s \<notin> {CHR ''x'', CHR ''X'', CHR ''b'', CHR ''B''}"
    and "apply_scale 0 s = 0"
  shows "parse_unsigned m (mantissa_text n ds @ s) dflt = Some (apply_scale (m * mantissa n ds) s)"
proof (cases "n = 0")
  case True
  have d0: "digits_of 0 = [0]" "nat_text 0 = ''0''"
    by (subst digits_of.simps, simp) (subst nat_text.simps, simp add: digit_char_def)
  show ?thesis
  proof (cases "ds = []")
    case ds: True
    have z: "read_digits oct_digit 8 0 s = (0, s)"
    proof (cases s)
      case (Cons c cs)
      with assms(2) have "oct_digit c = None"
        by (auto simp: no_digit_def dec_digit_def oct_digit_def split: if_splits)
      with Cons show ?thesis by simp
    qed simp
    have "parse_unsigned m (''0'' @ s) dflt = Some 0"
      using assms(3) z by (cases s) (simp_all add: parse_unsigned_def)
    then show ?thesis using True ds assms(4) d0 by (simp add: mantissa_text_def mantissa_def)
  next
    case False
    have "parse_decimal m (mantissa_text 0 ds @ s) (map digit_char [] @ (if ds = [] then [] else CHR ''.'' # map digit_char ds) @ s) dflt
        = Some (apply_scale (m * mantissa (digits_value 0 []) ds) s)"
      using assms d0 by (intro parse_decimal_mantissa) (auto simp: mantissa_text_def)
    then show ?thesis using True False d0 by (simp add: parse_unsigned_def mantissa_text_def)
  qed
next
  case False
  then obtain d ns where d: "digits_of n = d # ns" "0 < d" "d < 10" using digits_of_hd by blast
  from d(3) lt10_cases [of d] d(2) have "digit_char d \<noteq> CHR ''0''"
    by (auto simp: digit_char_def)
  then have "parse_unsigned m (mantissa_text n ds @ s) dflt =
      parse_decimal m (mantissa_text n ds @ s) (mantissa_text n ds @ s) dflt"
    by (simp add: parse_unsigned_def mantissa_text_def nat_text_digits d)
  also have "mantissa_text n ds @ s =
      map digit_char (digits_of n) @ (if ds = [] then [] else CHR ''.'' # map digit_char ds) @ s"
    by (simp add: mantissa_text_def nat_text_digits)
  also have "parse_decimal m (map digit_char (digits_of n) @ (if ds = [] then [] else CHR ''.'' # map digit_char ds) @ s)
      (map digit_char (digits_of n) @ (if ds = [] then [] else CHR ''.'' # map digit_char ds) @ s) dflt
    = Some (apply_scale (m * mantissa (digits_value 0 (digits_of n)) ds) s)"
    using assms(3) digits_of_lt [of _ n] by (intro parse_decimal_mantissa assms(1,2)) (auto simp: d(1))
  finally show ?thesis by (simp add: digits_of_value mantissa_text_def nat_text_digits)
qed



text \<open>Text that starts with no digit, sign or point is not a number, and the default is returned.\<close>

theorem parse_number_default:
  assumes "dropWhile (\<lambda>c. ord c \<le> 32) s = c # cs" and "dec_digit c = None"
    and "c \<notin> {CHR ''-'', CHR ''+'', CHR ''.''}"
  shows "parse_number s dflt = dflt"
proof -
  from assms(2) have "c \<noteq> CHR ''0''" by (auto simp: dec_digit_def ord_def)
  with assms show ?thesis by (simp add: parse_number_def parse_unsigned_def parse_decimal_def)
qed

lemma parse_number_default_witness: "parse_number ''  ohms'' (Some 3) = Some 3"
  by (rule parse_number_default [where c = "CHR ''o''" and cs = "''hms''"])
    (simp_all add: ord_def dec_digit_def)

end
