(* ===== verification/CktSource.thy ===== *)
theory CktSource
  imports CktNumber
begin

text \<open>
  The sources of the circuit simulator: \<open>parse_source\<close>, \<open>pwl_source\<close> and their helpers in
  \<open>capa/schematic.js\<close>. The functions \<open>value\<close> and \<open>inflection_point\<close> that the code stores in a
  source as closures are a datatype of wave forms here, with an interpreter for each.
\<close>

section \<open>Numbers that need not be numbers\<close>

text \<open>\<open>NaN\<close> also stands for \<open>undefined\<close>, which behaves like it in comparisons and arithmetic.\<close>

datatype jsnum = Fin real | Infinity | NaN

definition js_lt :: "jsnum \<Rightarrow> jsnum \<Rightarrow> bool" where
  "js_lt x y =
     (case (x, y) of
        (Fin a, Fin b) \<Rightarrow> a < b
      | (Fin a, Infinity) \<Rightarrow> True
      | _ \<Rightarrow> False)"

definition of_arg :: "real option \<Rightarrow> jsnum" where
  "of_arg x = (case x of None \<Rightarrow> NaN | Some r \<Rightarrow> Fin r)"

text \<open>A position in a list; \<open>undefined\<close> out of range.\<close>

definition val_at :: "jsnum list \<Rightarrow> int \<Rightarrow> jsnum" where
  "val_at xs i = (if 0 \<le> i \<and> i < int (length xs) then xs ! nat i else NaN)"

definition js_fmod :: "real \<Rightarrow> jsnum \<Rightarrow> jsnum" where
  "js_fmod n d =
     (case d of
        Fin d \<Rightarrow> if d = 0 then NaN else Fin (n - of_int \<lfloor>n / d\<rfloor> * d)
      | _ \<Rightarrow> NaN)"

definition arg_value :: "real option list \<Rightarrow> nat \<Rightarrow> real \<Rightarrow> real" where
  "arg_value args i default_v =
     (if i < length args then (case args ! i of None \<Rightarrow> default_v | Some r \<Rightarrow> r) else default_v)"

definition js_add :: "jsnum \<Rightarrow> jsnum \<Rightarrow> jsnum" where
  "js_add x y =
     (case (x, y) of
        (NaN, _) \<Rightarrow> NaN | (_, NaN) \<Rightarrow> NaN
      | (Fin a, Fin b) \<Rightarrow> Fin (a + b)
      | _ \<Rightarrow> Infinity)"

text \<open>A number that is not negative times another.\<close>

definition js_scale :: "real \<Rightarrow> jsnum \<Rightarrow> jsnum" where
  "js_scale k x =
     (case x of Fin a \<Rightarrow> Fin (k * a) | Infinity \<Rightarrow> if k = 0 then NaN else Infinity | NaN \<Rightarrow> NaN)"

definition period_of :: "real \<Rightarrow> jsnum" where
  "period_of freq = (if freq = 0 then Infinity else Fin (1 / freq))"

section \<open>Wave forms\<close>

datatype wave =
    Const jsnum
  | Pwl "jsnum list" bool
  | Sine real real real real real

text \<open>\<open>last_v + (next_v - last_v)*(t - last_t)/(next_t - last_t)\<close>\<close>

definition interpolate :: "real \<Rightarrow> jsnum \<Rightarrow> jsnum \<Rightarrow> jsnum \<Rightarrow> jsnum \<Rightarrow> jsnum" where
  "interpolate t lt lv nt nv =
     (case (lt, lv, nt, nv) of
        (Fin lt, Fin lv, Fin nt, Fin nv) \<Rightarrow> Fin (lv + (nv - lv) * (t - lt) / (nt - lt))
      | (Fin lt, Fin lv, Infinity, Fin nv) \<Rightarrow> Fin lv
      | _ \<Rightarrow> NaN)"

fun pwl_scan :: "real \<Rightarrow> jsnum \<Rightarrow> jsnum \<Rightarrow> jsnum list \<Rightarrow> jsnum" where
  "pwl_scan t lt lv (nt # nv # tv) =
     (if js_lt lt nt \<and> js_lt (Fin t) nt then interpolate t lt lv nt nv else pwl_scan t nt nv tv)"
| "pwl_scan t lt lv _ = lv"

definition fold_time :: "jsnum list \<Rightarrow> bool \<Rightarrow> real \<Rightarrow> jsnum" where
  "fold_time tv rep t = (if rep then js_fmod t (val_at tv (int (length tv) - 2)) else Fin t)"

definition pwl_value :: "jsnum list \<Rightarrow> bool \<Rightarrow> real \<Rightarrow> jsnum" where
  "pwl_value tv rep t =
     (case fold_time tv rep t of
        Fin t' \<Rightarrow>
          (if js_lt (val_at tv 0) (Fin t') then pwl_scan t' (val_at tv 0) (val_at tv 1) (drop 2 tv) else val_at tv 1)
      | _ \<Rightarrow> val_at tv 1)"

fun next_time :: "real \<Rightarrow> jsnum list \<Rightarrow> jsnum" where
  "next_time t (nt # nv # tv) = (if js_lt (Fin t) nt then nt else next_time t tv)"
| "next_time t _ = NaN"

definition wave_value :: "wave \<Rightarrow> real \<Rightarrow> jsnum" where
  "wave_value w t =
     (case w of
        Const v \<Rightarrow> v
      | Pwl tv rep \<Rightarrow> pwl_value tv rep t
      | Sine vo va freq td phase \<Rightarrow>
          (if t < td then Fin (vo + va * sin (2 * pi * phase))
           else Fin (vo + va * sin (2 * pi * (freq * (t - td) + phase)))))"

definition inflection_point :: "wave \<Rightarrow> real \<Rightarrow> jsnum" where
  "inflection_point w t =
     (case w of
        Const v \<Rightarrow> NaN
      | Pwl tv rep \<Rightarrow> (case fold_time tv rep t of Fin t' \<Rightarrow> next_time t' tv | _ \<Rightarrow> NaN)
      | Sine vo va freq td phase \<Rightarrow> (if t < td then Fin td else NaN))"

section \<open>Sources\<close>

record source =
  src_fun :: string
  src_args :: "jsnum list"
  src_wave :: wave
  src_period :: jsnum
  src_dc :: jsnum

text \<open>\<open>None\<close>: an odd number of values throws, since the code then assigns to a variable that does
  not exist.\<close>

definition pwl_source :: "jsnum list \<Rightarrow> bool \<Rightarrow> (wave \<times> jsnum) option" where
  "pwl_source tv rep =
     (if length tv mod 2 = 1 then None
      else Some
        (if length tv \<le> 2 then Const (if length tv = 2 then val_at tv 1 else Fin 0) else Pwl tv rep,
         if rep then val_at tv (int (length tv) - 2) else Fin 0))"

text \<open>The same with the arguments that the source remembers.\<close>

definition pwl :: "jsnum list \<Rightarrow> jsnum list \<Rightarrow> bool \<Rightarrow> (jsnum list \<times> wave \<times> jsnum) option" where
  "pwl as tv rep = map_option (\<lambda>(w, per). (as, w, per)) (pwl_source tv rep)"

definition index_from :: "char \<Rightarrow> string \<Rightarrow> nat \<Rightarrow> nat option" where
  "index_from c s i =
     (let k = length (takeWhile (\<lambda>d. d \<noteq> c) (drop i s)) in if i + k < length s then Some (i + k) else None)"

definition js_slice :: "string \<Rightarrow> nat \<Rightarrow> nat \<Rightarrow> string" where
  "js_slice s i j = take (j - i) (drop i s)"

definition arg_end :: "string \<Rightarrow> nat \<Rightarrow> nat \<Rightarrow> nat" where
  "arg_end v e i = (case index_from CHR '','' v i of None \<Rightarrow> e | Some j \<Rightarrow> j)"

lemma index_from_le: "index_from c s i = Some j \<Longrightarrow> i \<le> j"
  by (auto simp: index_from_def Let_def split: if_splits)

lemma arg_end_le: "i < e \<Longrightarrow> i \<le> arg_end v e i"
  by (auto simp: arg_end_def dest: index_from_le split: option.splits)

function parse_args :: "string \<Rightarrow> nat \<Rightarrow> nat \<Rightarrow> real option list" where
  "parse_args v e i =
     (if i < e then
        (if ord (v ! i) \<le> 32 then parse_args v e (i + 1)
         else parse_number (js_slice v i (arg_end v e i)) None # parse_args v e (arg_end v e i + 1))
      else [])"
  by pat_completeness auto
termination
proof (relation "measure (\<lambda>(v, e, i). e - i)", goal_cases)
  case (3 v e i)
  then show ?case using arg_end_le [of i e v] by auto
qed auto

declare parse_args.simps [simp del]

definition split_source :: "string \<Rightarrow> string \<times> real option list" where
  "split_source v =
     (case index_from CHR ''('' v 0 of
        Some i \<Rightarrow>
          (take i v,
           parse_args v (case index_from CHR '')'' v i of None \<Rightarrow> length v | Some e \<Rightarrow> e) (i + 1))
      | None \<Rightarrow> (''dc'', [parse_number v (Some 0)]))"

text \<open>The arguments with their defaults, the wave form and the period of a function.\<close>

definition source_of :: "string \<Rightarrow> real option list \<Rightarrow> (jsnum list \<times> wave \<times> jsnum) option" where
  "source_of f args =
     (let arg = arg_value args in
      if f = ''dc'' then
        (let v = arg 0 0 in Some ([Fin v], Const (Fin v), Fin 0))
      else if f = ''impulse'' then
        (let h = arg 0 1; w = \<bar>arg 2 (1 / 10 ^ 9)\<bar>
         in pwl [Fin h, Fin w] [Fin 0, Fin 0, Fin (w / 2), Fin h, Fin w, Fin 0] False)
      else if f = ''step'' then
        (let v1 = arg 0 0; v2 = arg 1 1; td = max 0 (arg 2 0); tr = \<bar>arg 3 (1 / 10 ^ 9)\<bar>
         in pwl [Fin v1, Fin v2, Fin td, Fin tr] [Fin td, Fin v1, Fin (td + tr), Fin v2] False)
      else if f = ''square'' then
        (let v1 = arg 0 0; v2 = arg 1 1; freq = \<bar>arg 2 1\<bar>; duty = min 100 \<bar>arg 3 50\<bar>;
             per = period_of freq; t_change = js_scale (1 / 100) per;
             t_pw = js_scale (1 / 100 * duty * (98 / 100)) per
         in pwl [Fin v1, Fin v2, Fin freq, Fin duty]
              [Fin 0, Fin v1, t_change, Fin v2, js_add t_change t_pw, Fin v2,
               js_add (js_add t_change t_pw) t_change, Fin v1, per, Fin v1] True)
      else if f = ''triangle'' then
        (let v1 = arg 0 0; v2 = arg 1 1; freq = \<bar>arg 2 1\<bar>; per = period_of freq
         in pwl [Fin v1, Fin v2, Fin freq]
              [Fin 0, Fin v1, js_scale (1 / 2) per, Fin v2, per, Fin v1] True)
      else if f = ''pwl'' \<or> f = ''pwl_repeating'' then
        pwl (map of_arg args) (map of_arg args) (f = ''pwl_repeating'')
      else if f = ''pulse'' then
        (let v1 = arg 0 0; v2 = arg 1 1; td = max 0 (arg 2 0); tr = \<bar>arg 3 (1 / 10 ^ 9)\<bar>;
             tf = \<bar>arg 4 (1 / 10 ^ 9)\<bar>; pw = \<bar>arg 5 (10 ^ 9)\<bar>; per = \<bar>arg 6 (10 ^ 9)\<bar>;
             t1 = td; t2 = t1 + tr; t3 = t2 + pw; t4 = t3 + tf
         in pwl (map Fin [v1, v2, td, tr, tf, pw, per])
              (map Fin [t1, v1, t2, v2, t3, v2, t4, v1, per, v1]) True)
      else if f = ''sin'' then
        (let vo = arg 0 0; va = arg 1 1; freq = \<bar>arg 2 1\<bar>; td = max 0 (arg 3 0); phase = arg 4 0
         in Some (map Fin [vo, va, freq, td, phase], Sine vo va freq td (phase / 360), period_of freq))
      else Some (map of_arg args, Const (Fin 0), Fin 0))"

definition parse_source :: "string \<Rightarrow> source option" where
  "parse_source v =
     (case split_source v of
        (f, args) \<Rightarrow> map_option (\<lambda>(as, w, per).
          \<lparr>src_fun = f, src_args = as, src_wave = w, src_period = per, src_dc = wave_value w 0\<rparr>) (source_of f args))"

section \<open>When parsing throws\<close>


lemma impulse_ignores_width:
  "source_of ''impulse'' [h, w] = source_of ''impulse'' [h, w']"
  by (simp add: source_of_def arg_value_def)

section \<open>Repeating sources\<close>

lemma fmod_period: "js_fmod (t + P) (Fin P) = js_fmod t (Fin P)"
proof (cases "P = 0")
  case False
  then have "\<lfloor>(t + P) / P\<rfloor> = \<lfloor>t / P\<rfloor> + 1" by (simp add: add_divide_distrib)
  with False show ?thesis by (simp add: js_fmod_def algebra_simps)
qed (simp add: js_fmod_def)

lemma pwl_value_period:
  "val_at tv (int (length tv) - 2) = Fin P \<Longrightarrow> pwl_value tv True (t + P) = pwl_value tv True t"
  by (simp add: pwl_value_def fold_time_def fmod_period)

lemma pwl_source_period:
  assumes "pwl_source tv rep = Some (w, Fin P)" and "0 < P"
  shows "wave_value w (t + P) = wave_value w t \<and> \<not> (\<exists>a b c d e. w = Sine a b c d e)"
  using assms
  by (auto simp: pwl_source_def wave_value_def pwl_value_period split: if_splits)

definition from_pwl :: "wave \<Rightarrow> jsnum \<Rightarrow> bool" where
  "from_pwl w per \<longleftrightarrow> (\<exists>tv rep. pwl_source tv rep = Some (w, per))"

lemma pwl_from_pwl: "pwl as tv rep = Some (as', w, per) \<Longrightarrow> from_pwl w per"
  by (auto simp: from_pwl_def pwl_def)

lemma source_of_period:
  assumes "source_of f args = Some (as, w, Fin P)" and "0 < P"
  shows "from_pwl w (Fin P) \<or>
    (\<exists>vo va freq td ph. w = Sine vo va freq td ph \<and> freq \<noteq> 0 \<and> P = 1 / freq)"
proof (cases "f = ''sin''")
  case True
  with assms have "w = Sine (arg_value args 0 0) (arg_value args 1 1) \<bar>arg_value args 2 1\<bar>
      (max 0 (arg_value args 3 0)) (arg_value args 4 0 / 360)"
    "\<bar>arg_value args 2 1\<bar> \<noteq> 0" "P = 1 / \<bar>arg_value args 2 1\<bar>"
    by (auto simp: source_of_def Let_def period_of_def split: if_splits)
  then show ?thesis by blast
next
  case False
  from assms(1) have "from_pwl w (Fin P) \<or> P = 0"
    using False by (simp add: source_of_def Let_def split: if_split_asm) ((drule pwl_from_pwl)?, simp)+
  with assms(2) show ?thesis by simp
qed

text \<open>C40. A source with a positive period repeats with it, from its delay on when it is a sine.\<close>

theorem source_repeats:
  assumes "parse_source v = Some s" and "src_period s = Fin P" and "0 < P"
    and "\<And>vo va freq td ph. src_wave s = Sine vo va freq td ph \<Longrightarrow> td \<le> t"
  shows "wave_value (src_wave s) (t + P) = wave_value (src_wave s) t"
proof -
  obtain f args as where sp: "source_of f args = Some (as, src_wave s, Fin P)"
    using assms(1,2) by (auto simp: parse_source_def split: prod.splits)
  from source_of_period [OF this assms(3)] show ?thesis
  proof (elim disjE exE conjE)
    assume "from_pwl (src_wave s) (Fin P)"
    with pwl_source_period assms(3) show ?thesis unfolding from_pwl_def by blast
  next
    fix vo va freq td ph assume w: "src_wave s = Sine vo va freq td ph" and f: "freq \<noteq> 0" "P = 1 / freq"
    have td: "td \<le> t" by (rule assms(4) [OF w])
    have "2 * pi * (freq * (t + P - td) + ph) = 2 * pi * (freq * (t - td) + ph) + 2 * pi"
      using f by (simp add: field_simps)
    then have "sin (2 * pi * (freq * (t + P - td) + ph)) = sin (2 * pi * (freq * (t - td) + ph))"
      by (simp only: sin_periodic)
    with td assms(3) show ?thesis by (simp add: w wave_value_def)
  qed
qed

section \<open>Piecewise linear values\<close>

definition flat :: "(real \<times> real) list \<Rightarrow> jsnum list" where
  "flat ps = concat (map (\<lambda>(t, v). [Fin t, Fin v]) ps)"

lemma flat_simps [simp]: "flat [] = []" "flat ((t, v) # ps) = Fin t # Fin v # flat ps"
  by (simp_all add: flat_def)

definition line :: "real \<times> real \<Rightarrow> real \<times> real \<Rightarrow> real \<Rightarrow> real" where
  "line p q t = snd p + (snd q - snd p) * (t - fst p) / (fst q - fst p)"

lemma line_ends: "fst p < fst q \<Longrightarrow> line p q (fst p) = snd p \<and> line p q (fst q) = snd q"
  by (simp add: line_def)

lemma pwl_scan_cons:
  "pwl_scan t (Fin lt) (Fin lv) (flat ((nt, nv) # ps)) =
     (if lt < nt \<and> t < nt then Fin (line (lt, lv) (nt, nv) t) else pwl_scan t (Fin nt) (Fin nv) (flat ps))"
  by (simp add: js_lt_def interpolate_def line_def)

text \<open>The segment that holds the time.\<close>

lemma pwl_scan_segment:
  assumes "sorted_wrt (<) (map fst (p # ps))" and "fst p \<le> t"
  shows "(\<exists>i < length ps. fst ((p # ps) ! i) \<le> t \<and> t < fst (ps ! i) \<and>
      pwl_scan t (Fin (fst p)) (Fin (snd p)) (flat ps) = Fin (line ((p # ps) ! i) (ps ! i) t)) \<or>
    fst (last (p # ps)) \<le> t \<and>
      pwl_scan t (Fin (fst p)) (Fin (snd p)) (flat ps) = Fin (snd (last (p # ps)))"
  using assms
proof (induction ps arbitrary: p)
  case (Cons q ps)
  have q: "fst p < fst q" "sorted_wrt (<) (map fst (q # ps))" using Cons.prems(1) by auto
  have s: "pwl_scan t (Fin (fst p)) (Fin (snd p)) (flat (q # ps)) =
      (if t < fst q then Fin (line p q t) else pwl_scan t (Fin (fst q)) (Fin (snd q)) (flat ps))"
    using pwl_scan_cons [of t "fst p" "snd p" "fst q" "snd q" ps] q(1) by simp
  show ?case
  proof (cases "t < fst q")
    case True
    then show ?thesis using s Cons.prems(2) by (intro disjI1 exI [of _ 0]) simp
  next
    case False
    then have sq: "pwl_scan t (Fin (fst p)) (Fin (snd p)) (flat (q # ps)) = pwl_scan t (Fin (fst q)) (Fin (snd q)) (flat ps)"
      using s by simp
    from False have "fst q \<le> t" by simp
    from Cons.IH [OF q(2) this] show ?thesis
    proof (elim disjE exE conjE)
      fix i assume "i < length ps" "fst ((q # ps) ! i) \<le> t" "t < fst (ps ! i)"
        "pwl_scan t (Fin (fst q)) (Fin (snd q)) (flat ps) = Fin (line ((q # ps) ! i) (ps ! i) t)"
      then show ?thesis using sq by (intro disjI1 exI [of _ "Suc i"]) simp
    qed (use sq in auto)
  qed
qed simp

text \<open>A piecewise linear source given by pairs with increasing times has the given value at each
  time, is linear between two neighbours, and constant before the first and after the last.\<close>

theorem pwl_interpolates:
  assumes "sorted_wrt (<) (map fst ps)" and "2 \<le> length ps"
  shows "\<exists>w. pwl_source (flat ps) False = Some (w, Fin 0) \<and>
    (\<forall>i t. i + 1 < length ps \<and> fst (ps ! i) \<le> t \<and> t \<le> fst (ps ! (i + 1)) \<longrightarrow>
        wave_value w t = Fin (line (ps ! i) (ps ! (i + 1)) t)) \<and>
    (\<forall>i < length ps. wave_value w (fst (ps ! i)) = Fin (snd (ps ! i))) \<and>
    (\<forall>t. t \<le> fst (hd ps) \<longrightarrow> wave_value w t = Fin (snd (hd ps))) \<and>
    (\<forall>t. fst (last ps) \<le> t \<longrightarrow> wave_value w t = Fin (snd (last ps)))"
proof -
  have lf: "length (flat qs) = 2 * length qs" for qs by (induction qs) auto
  obtain p q qs where ps: "ps = p # q # qs" using assms(2) by (auto simp: numeral_2_eq_2 Suc_le_length_iff)
  have lc: "last ps = ps ! (length ps - 1)" by (simp add: ps last_conv_nth)
  let ?w = "Pwl (flat ps) False"
  have src: "pwl_source (flat ps) False = Some (?w, Fin 0)"
    using assms(2) by (simp add: pwl_source_def lf)
  have val: "wave_value ?w t = (if fst p < t then pwl_scan t (Fin (fst p)) (Fin (snd p)) (flat (q # qs)) else Fin (snd p))" for t
    by (cases p) (simp add: ps wave_value_def pwl_value_def fold_time_def js_lt_def val_at_def)
  have mono: "fst (ps ! i) < fst (ps ! j)" if "i < j" "j < length ps" for i j
    using assms(1) that by (simp add: sorted_wrt_iff_nth_less)
  have mono_last: "fst (ps ! j) \<le> fst (last ps)" if "j < length ps" for j
  proof (cases "j = length ps - 1")
    case False
    with that have "j < length ps - 1" by linarith
    moreover from this have "length ps - 1 < length ps" by linarith
    ultimately show ?thesis using mono [of j "length ps - 1"] by (simp add: lc)
  qed (simp add: lc)
  have seg: "wave_value ?w t = Fin (line (ps ! i) (ps ! (i + 1)) t)"
    if i: "i + 1 < length ps" and t: "fst (ps ! i) \<le> t" "t < fst (ps ! (i + 1))" for i t
  proof (cases "fst p < t")
    case False
    have "i = 0" using mono [of 0 i] i t(1) False by (cases i) (auto simp: ps)
    with False t val show ?thesis by (simp add: ps line_def)
  next
    case True
    from pwl_scan_segment [of p "q # qs" t] assms(1) True
    consider (seg) k where "k < length (q # qs)" "fst (ps ! k) \<le> t" "t < fst (ps ! Suc k)"
        "wave_value ?w t = Fin (line (ps ! k) (ps ! Suc k) t)"
      | (past) "fst (last ps) \<le> t" using val [of t] by (auto simp: ps)
    then show ?thesis
    proof cases
      case seg
      have "k = i"
      proof (rule ccontr)
        assume "k \<noteq> i"
        then consider "Suc k \<le> i" | "Suc i \<le> k" by linarith
        then show False
        proof cases
          case 1
          then have "fst (ps ! Suc k) \<le> fst (ps ! i)" using mono [of "Suc k" i] i by (cases "Suc k = i") auto
          with seg(3) t(1) show False by simp
        next
          case 2
          then have "fst (ps ! Suc i) \<le> fst (ps ! k)" using mono [of "Suc i" k] seg(1) ps by (cases "Suc i = k") auto
          with seg(2) t(2) show False by simp
        qed
      qed
      with seg(4) show ?thesis by simp
    next
      case past
      have "fst (ps ! (i + 1)) \<le> fst (last ps)" using mono_last [OF i] .
      with past t(2) show ?thesis by simp
    qed
  qed
  have after: "wave_value ?w t = Fin (snd (last ps))" if "fst (last ps) \<le> t" for t
  proof -
    have "fst p < fst (last ps)" using mono [of 0 "length ps - 1"] by (simp add: lc) (simp add: ps)
    with that have "fst p < t" by simp
    moreover from this pwl_scan_segment [of p "q # qs" t] assms(1)
    have "(\<exists>k < length (q # qs). t < fst (ps ! Suc k)) \<or>
        pwl_scan t (Fin (fst p)) (Fin (snd p)) (flat (q # qs)) = Fin (snd (last ps))" by (auto simp: ps)
    moreover have "\<not> t < fst (ps ! Suc k)" if "k < length (q # qs)" for k
    proof -
      have "fst (ps ! Suc k) \<le> fst (last ps)" using mono_last [of "Suc k"] that by (simp add: ps)
      with \<open>fst (last ps) \<le> t\<close> show ?thesis by simp
    qed
    ultimately show ?thesis using val [of t] by auto
  qed
  have before: "wave_value ?w t = Fin (snd (hd ps))" if "t \<le> fst (hd ps)" for t
    using that val [of t] by (simp add: ps)
  have pts: "wave_value ?w (fst (ps ! i)) = Fin (snd (ps ! i))" if "i < length ps" for i
  proof (cases "i + 1 < length ps")
    case True
    then show ?thesis using seg [OF True order_refl] mono [of i "i + 1"] by (simp add: line_def)
  next
    case False
    with that have "i = length ps - 1" by linarith
    then have "ps ! i = last ps" by (simp add: lc)
    then show ?thesis using after [OF order_refl] by simp
  qed
  have closed: "wave_value ?w t = Fin (line (ps ! i) (ps ! (i + 1)) t)"
    if "i + 1 < length ps" "fst (ps ! i) \<le> t" "t \<le> fst (ps ! (i + 1))" for i t
  proof (cases "t = fst (ps ! (i + 1))")
    case True
    then show ?thesis using pts [OF that(1)] mono [of i "i + 1"] that(1) by (simp add: line_def)
  next
    case False
    with that seg show ?thesis by simp
  qed
  show ?thesis
  proof (intro exI [of _ ?w] conjI allI impI)
    show "pwl_source (flat ps) False = Some (?w, Fin 0)" by (rule src)
  qed (use closed pts before after in blast)+
qed

lemma pwl_interpolates_witness:
  "\<exists>w. pwl_source (flat [(0, 1), (2, 5), (3, 0)]) False = Some (w, Fin 0) \<and>
     wave_value w 1 = Fin 3 \<and> wave_value w 2 = Fin 5 \<and> wave_value w (-1) = Fin 1 \<and> wave_value w 7 = Fin 0"
proof -
  let ?ps = "[(0, 1), (2, 5), (3, 0)] :: (real \<times> real) list"
  from pwl_interpolates [of ?ps] obtain w where
    w: "pwl_source (flat ?ps) False = Some (w, Fin 0)"
    "\<forall>i t. i + 1 < length ?ps \<and> fst (?ps ! i) \<le> t \<and> t \<le> fst (?ps ! (i + 1)) \<longrightarrow>
        wave_value w t = Fin (line (?ps ! i) (?ps ! (i + 1)) t)"
    "\<forall>i < length ?ps. wave_value w (fst (?ps ! i)) = Fin (snd (?ps ! i))"
    "\<forall>t. t \<le> fst (hd ?ps) \<longrightarrow> wave_value w t = Fin (snd (hd ?ps))"
    "\<forall>t. fst (last ?ps) \<le> t \<longrightarrow> wave_value w t = Fin (snd (last ?ps))"
    by auto
  from w(2) [rule_format, of 0 1] have "wave_value w 1 = Fin 3" by (simp add: line_def)
  moreover from w(3) [rule_format, of 1] have "wave_value w 2 = Fin 5" by simp
  ultimately show ?thesis using w(1) w(4) [rule_format, of "-1"] w(5) [rule_format, of 7]
    by (intro exI [of _ w]) simp
qed

section \<open>Bounds of the named wave forms\<close>

lemma line_between:
  assumes "fst p \<le> t" and "t < fst q" and "a \<le> snd p" "snd p \<le> b" and "a \<le> snd q" "snd q \<le> b"
  shows "a \<le> line p q t \<and> line p q t \<le> b"
proof -
  define l where "l = (t - fst p) / (fst q - fst p)"
  have l: "0 \<le> l" "l \<le> 1" using assms(1,2) by (simp_all add: l_def divide_simps)
  have e: "line p q t = snd p + l * (snd q - snd p)" by (simp add: line_def l_def mult.commute)
  have "line p q t = (1 - l) * snd p + l * snd q" unfolding e by (simp add: algebra_simps)
  moreover have "(1 - l) * a + l * a \<le> (1 - l) * snd p + l * snd q"
    using l assms by (intro add_mono mult_left_mono) auto
  moreover have "(1 - l) * snd p + l * snd q \<le> (1 - l) * b + l * b"
    using l assms by (intro add_mono mult_left_mono) auto
  ultimately show ?thesis by (simp add: algebra_simps)
qed

definition in_range :: "real \<Rightarrow> real \<Rightarrow> jsnum \<Rightarrow> bool" where
  "in_range a b x \<longleftrightarrow> (\<exists>r. x = Fin r \<and> a \<le> r \<and> r \<le> b)"

lemma pwl_scan_range:
  assumes "lt \<le> t" and "a \<le> lv" "lv \<le> b" and "\<forall>p \<in> set ps. a \<le> snd p \<and> snd p \<le> b"
  shows "in_range a b (pwl_scan t (Fin lt) (Fin lv) (flat ps))"
  using assms
proof (induction ps arbitrary: lt lv)
  case Nil
  then show ?case by (simp add: in_range_def)
next
  case (Cons q ps)
  obtain nt nv where q: "q = (nt, nv)" by (cases q)
  show ?case
  proof (cases "lt < nt \<and> t < nt")
    case True
    with line_between [of "(lt, lv)" t "(nt, nv)" a b] Cons.prems show ?thesis
      unfolding q pwl_scan_cons by (simp add: in_range_def)
  next
    case False
    with Cons.prems(1) have "nt \<le> t" by linarith
    with Cons.IH [of nt nv] Cons.prems show ?thesis
      unfolding q pwl_scan_cons using False by simp
  qed
qed

lemma pwl_value_range:
  assumes "\<forall>p \<in> set (p # ps). a \<le> snd p \<and> snd p \<le> b"
  shows "in_range a b (pwl_value (flat (p # ps)) rep t)"
proof -
  obtain t0 v0 where p: "p = (t0, v0)" by (cases p)
  have v0: "in_range a b (Fin v0)" using assms by (simp add: in_range_def p)
  have "in_range a b (pwl_scan t' (Fin t0) (Fin v0) (flat ps))" if "t0 < t'" for t'
    using assms that by (intro pwl_scan_range) (auto simp: p)
  with v0 show ?thesis
    by (simp add: pwl_value_def p val_at_def js_lt_def split: jsnum.split)
qed

lemma pwl_infinite_period:
  "val_at tv (int (length tv) - 2) = Infinity \<Longrightarrow> pwl_value tv True t = val_at tv 1"
  by (simp add: pwl_value_def fold_time_def js_fmod_def)

lemma pwl_wave: "4 \<le> length tv \<Longrightarrow> even (length tv) \<Longrightarrow>
    pwl as tv rep = Some (as, Pwl tv rep, if rep then val_at tv (int (length tv) - 2) else Fin 0)"
  by (simp add: pwl_def pwl_source_def)

text \<open>The named wave forms \<open>step\<close>, \<open>square\<close>, \<open>triangle\<close> and \<open>pulse\<close> stay between their initial
  and their plateau value, whatever their other arguments and the time.\<close>

theorem source_bounded:
  assumes "parse_source v = Some s" and "src_fun s \<in> {''step'', ''square'', ''triangle'', ''pulse''}"
  shows "\<exists>v1 v2 r. src_args s ! 0 = Fin v1 \<and> src_args s ! 1 = Fin v2 \<and>
    wave_value (src_wave s) t = Fin r \<and> min v1 v2 \<le> r \<and> r \<le> max v1 v2"
proof -
  obtain args as w per where so: "source_of (src_fun s) args = Some (as, w, per)"
    and s: "src_args s = as" "src_wave s = w"
    using assms(1) by (auto simp: parse_source_def split: prod.splits)
  let ?v1 = "arg_value args 0 0" and ?v2 = "arg_value args 1 1"
  have rng: "in_range (min ?v1 ?v2) (max ?v1 ?v2) (pwl_value (flat ps) rep t)"
    if "ps \<noteq> []" "\<forall>p \<in> set ps. snd p = ?v1 \<or> snd p = ?v2" for ps rep
    using that pwl_value_range [of "hd ps" "tl ps" "min ?v1 ?v2" "max ?v1 ?v2" rep t] by fastforce
  have v1: "in_range (min ?v1 ?v2) (max ?v1 ?v2) (Fin ?v1)" by (simp add: in_range_def)
  have "as ! 0 = Fin ?v1 \<and> as ! 1 = Fin ?v2 \<and> in_range (min ?v1 ?v2) (max ?v1 ?v2) (wave_value w t)"
    using assms(2) unfolding insert_iff empty_iff
  proof (elim disjE)
    assume f: "src_fun s = ''step''"
    let ?td = "max 0 (arg_value args 2 0)" and ?tr = "\<bar>arg_value args 3 (1 / 10 ^ 9)\<bar>"
    show ?thesis using so f rng [of "[(?td, ?v1), (?td + ?tr, ?v2)]" False]
      by (auto simp: source_of_def Let_def pwl_wave wave_value_def)
  next
    assume f: "src_fun s = ''square''"
    show ?thesis
    proof (cases "arg_value args 2 1 = 0")
      case True
      with so f v1 show ?thesis
        by (auto simp: source_of_def Let_def pwl_wave wave_value_def period_of_def val_at_def pwl_infinite_period)
    next
      case False
      let ?per = "1 / \<bar>arg_value args 2 1\<bar>"
      let ?tc = "1 / 100 * ?per" and ?tp = "1 / 100 * min 100 \<bar>arg_value args 3 50\<bar> * (98 / 100) * ?per"
      from so f False rng [of "[(0, ?v1), (?tc, ?v2), (?tc + ?tp, ?v2), (?tc + ?tp + ?tc, ?v1), (?per, ?v1)]" True]
      show ?thesis
        by (auto simp: source_of_def Let_def pwl_wave wave_value_def period_of_def js_scale_def js_add_def)
    qed
  next
    assume f: "src_fun s = ''triangle''"
    show ?thesis
    proof (cases "arg_value args 2 1 = 0")
      case True
      with so f v1 show ?thesis
        by (auto simp: source_of_def Let_def pwl_wave wave_value_def period_of_def val_at_def pwl_infinite_period)
    next
      case False
      let ?per = "1 / \<bar>arg_value args 2 1\<bar>"
      from so f False rng [of "[(0, ?v1), (1 / 2 * ?per, ?v2), (?per, ?v1)]" True] show ?thesis
        by (auto simp: source_of_def Let_def pwl_wave wave_value_def period_of_def js_scale_def)
    qed
  next
    assume f: "src_fun s = ''pulse''"
    let ?td = "max 0 (arg_value args 2 0)" and ?tr = "\<bar>arg_value args 3 (1 / 10 ^ 9)\<bar>"
    let ?tf = "\<bar>arg_value args 4 (1 / 10 ^ 9)\<bar>" and ?pw = "\<bar>arg_value args 5 (10 ^ 9)\<bar>"
    let ?per = "\<bar>arg_value args 6 (10 ^ 9)\<bar>"
    from so f rng [of "[(?td, ?v1), (?td + ?tr, ?v2), (?td + ?tr + ?pw, ?v2), (?td + ?tr + ?pw + ?tf, ?v1), (?per, ?v1)]" True]
    show ?thesis
      by (auto simp: source_of_def Let_def pwl_wave wave_value_def)
  qed simp
  then show ?thesis by (auto simp: in_range_def s)
qed

lemma square_source: "\<exists>s. parse_source ''square()'' = Some s \<and> src_fun s = ''square'' \<and> src_period s = Fin 1 \<and>
    (\<exists>tv. src_wave s = Pwl tv True)"
proof -
  have "split_source ''square()'' = (''square'', [])"
    by (simp add: split_source_def index_from_def parse_args.simps)
  then show ?thesis
    by (auto simp: parse_source_def source_of_def Let_def arg_value_def pwl_wave period_of_def val_at_def)
qed

lemma source_bounded_witness:
  "\<exists>s r. parse_source ''square()'' = Some s \<and> wave_value (src_wave s) 7 = Fin r"
  using source_bounded [of "''square()''"] square_source by blast

lemma source_repeats_witness:
  "\<exists>s. parse_source ''square()'' = Some s \<and> wave_value (src_wave s) (1 / 4 + 1) = wave_value (src_wave s) (1 / 4)"
proof -
  from square_source obtain s tv where s: "parse_source ''square()'' = Some s" "src_period s = Fin 1" "src_wave s = Pwl tv True"
    by blast
  from source_repeats [OF s(1,2), of "1 / 4"] s show ?thesis by auto
qed

end
