(* ===== verification/CktDevices.thy ===== *)
theory CktDevices
  imports CktMatrix CktSource
begin

text \<open>
  The devices of the circuit simulator and what each adds to the equations: the second half of the
  \<open>cktsim\<close> module of \<open>capa/schematic.js\<close>. A node is an index, the ground node is \<open>-1\<close>. The
  loading routines that read a source return \<open>None\<close> when its value is not a number, which the
  code would go on to compute with.
\<close>

section \<open>Adding to matrices and vectors\<close>

definition add_at :: "nat \<Rightarrow> nat \<Rightarrow> real \<Rightarrow> mat \<Rightarrow> mat" where
  "add_at i j g M = M[i := (M ! i)[j := M ! i ! j + g]]"

definition add_two_terminal :: "int \<Rightarrow> int \<Rightarrow> real \<Rightarrow> mat \<Rightarrow> mat" where
  "add_two_terminal i j g M =
     (if 0 \<le> i then
        (let M1 = add_at (nat i) (nat i) g M
         in if 0 \<le> j then
              add_at (nat j) (nat j) g (add_at (nat j) (nat i) (- g) (add_at (nat i) (nat j) (- g) M1))
            else M1)
      else if 0 \<le> j then add_at (nat j) (nat j) g M
      else M)"

definition get_two_terminal :: "int \<Rightarrow> int \<Rightarrow> vec \<Rightarrow> real" where
  "get_two_terminal i j x = (if 0 \<le> i then x ! nat i else 0) - (if 0 \<le> j then x ! nat j else 0)"

text \<open>\<open>add_to_Gl\<close>, \<open>add_to_G\<close> and \<open>add_to_C\<close>\<close>

definition add_entry :: "int \<Rightarrow> int \<Rightarrow> real \<Rightarrow> mat \<Rightarrow> mat" where
  "add_entry i j g M = (if 0 \<le> i \<and> 0 \<le> j then add_at (nat i) (nat j) g M else M)"

definition add_to_rhs :: "int \<Rightarrow> real \<Rightarrow> vec \<Rightarrow> vec" where
  "add_to_rhs i v rhs = (if 0 \<le> i then rhs[nat i := rhs ! nat i + v] else rhs)"

section \<open>Devices\<close>

text \<open>The positions of a source, the ends of a two-terminal device, and the branch whose current is
  an unknown. The conductance of a resistor and the gain of an amplifier are those of the
  constructors; a FET has drain, gate, source, ratio and sign.\<close>

datatype device =
    VSource source int int nat
  | ISource source int int
  | Resistor int int real
  | Diode int int real bool
  | Capacitor int int real
  | Inductor int int nat real
  | Opamp int int int int nat jsnum
  | Fet int int int real real

definition new_Resistor :: "int \<Rightarrow> int \<Rightarrow> real \<Rightarrow> device" where
  "new_Resistor n1 n2 v = Resistor n1 n2 (1 / v)"

definition new_VSource :: "int \<Rightarrow> int \<Rightarrow> nat \<Rightarrow> string \<Rightarrow> device option" where
  "new_VSource npos nneg branch v = map_option (\<lambda>src. VSource src npos nneg branch) (parse_source v)"

definition new_ISource :: "int \<Rightarrow> int \<Rightarrow> string \<Rightarrow> device option" where
  "new_ISource npos nneg v = map_option (\<lambda>src. ISource src npos nneg) (parse_source v)"

definition new_Diode :: "int \<Rightarrow> int \<Rightarrow> real \<Rightarrow> string option \<Rightarrow> device" where
  [simp]: "new_Diode n1 n2 v ty = Diode n1 n2 v (ty = Some ''normal'')"

definition new_Capacitor :: "int \<Rightarrow> int \<Rightarrow> real \<Rightarrow> device" where
  [simp]: "new_Capacitor n1 n2 v = Capacitor n1 n2 v"

definition new_Inductor :: "int \<Rightarrow> int \<Rightarrow> nat \<Rightarrow> real \<Rightarrow> device" where
  [simp]: "new_Inductor n1 n2 branch v = Inductor n1 n2 branch v"

definition new_Opamp :: "int \<Rightarrow> int \<Rightarrow> int \<Rightarrow> int \<Rightarrow> nat \<Rightarrow> jsnum \<Rightarrow> device" where
  [simp]: "new_Opamp np nn no ng branch A = Opamp np nn no ng branch A"

definition new_Fet :: "int \<Rightarrow> int \<Rightarrow> int \<Rightarrow> real \<Rightarrow> bool \<Rightarrow> device" where
  "new_Fet d g s ratio is_n = Fet d g s ratio (if is_n then 1 else - 1)"

subsection \<open>Linear parts\<close>

text \<open>\<open>1.0/this.gain\<close>; \<open>None\<close> when it is not finite.\<close>

definition inverse_gain :: "jsnum \<Rightarrow> real option" where
  "inverse_gain A =
     (case A of Fin a \<Rightarrow> (if a = 0 then None else Some (1 / a)) | Infinity \<Rightarrow> Some 0 | NaN \<Rightarrow> None)"

text \<open>The stamps of the modified nodal analysis.\<close>

definition vsource_linear :: "int \<Rightarrow> int \<Rightarrow> nat \<Rightarrow> mat \<Rightarrow> mat" where
  [simp]: "vsource_linear npos nneg branch Gl =
     (let b = int branch
      in add_entry nneg b (- 1) (add_entry npos b 1 (add_entry b nneg (- 1) (add_entry b npos 1 Gl))))"

definition inductor_linear :: "int \<Rightarrow> int \<Rightarrow> nat \<Rightarrow> real \<Rightarrow> mat \<times> mat \<Rightarrow> mat \<times> mat" where
  [simp]: "inductor_linear n1 n2 branch v = (\<lambda>(Gl, C).
     let b = int branch
     in (add_entry b n2 1 (add_entry b n1 (- 1) (add_entry n2 b (- 1) (add_entry n1 b 1 Gl))),
         add_entry b b v C))"

definition opamp_linear :: "int \<Rightarrow> int \<Rightarrow> int \<Rightarrow> int \<Rightarrow> nat \<Rightarrow> real \<Rightarrow> mat \<Rightarrow> mat" where
  [simp]: "opamp_linear np nn no ng branch invA Gl =
     (let b = int branch
      in add_entry b nn 1 (add_entry b np (- 1) (add_entry b ng (- invA) (add_entry b no invA
           (add_entry ng b (- 1) (add_entry no b 1 Gl))))))"

text \<open>The matrices of conductances and of capacitances.\<close>

fun load_linear :: "device \<Rightarrow> mat \<times> mat \<Rightarrow> (mat \<times> mat) option" where
  "load_linear (VSource src npos nneg branch) (Gl, C) = Some (vsource_linear npos nneg branch Gl, C)"
| "load_linear (ISource src npos nneg) GC = Some GC"
| "load_linear (Resistor n1 n2 g) (Gl, C) = Some (add_two_terminal n1 n2 g Gl, C)"
| "load_linear (Diode a c area norml) GC = Some GC"
| "load_linear (Capacitor n1 n2 v) (Gl, C) = Some (Gl, add_two_terminal n1 n2 v C)"
| "load_linear (Inductor n1 n2 branch v) GC = Some (inductor_linear n1 n2 branch v GC)"
| "load_linear (Opamp np nn no ng branch A) (Gl, C) =
     (case inverse_gain A of
        None \<Rightarrow> None
      | Some invA \<Rightarrow> Some (opamp_linear np nn no ng branch invA Gl, C))"
| "load_linear (Fet d g s ratio sign) GC = Some GC"

subsection \<open>Nonlinear devices\<close>

definition diode_vt :: "bool \<Rightarrow> real" where
  "diode_vt norml = (if norml then 258 / 10 ^ 4 else 1 / 10 ^ 4)"

definition diode_ais :: "real \<Rightarrow> real" where
  "diode_ais area = area * (1 / 10 ^ 14)"

text \<open>The exponential and its slope, estimated by a quadratic when the argument is too big.\<close>

definition diode_temps :: "real \<Rightarrow> real \<times> real" where
  "diode_temps exp_arg =
     (let a = \<bar>exp_arg\<bar>;
          d_arg = a - 50;
          (temp1, temp2) =
            (if d_arg > 0 then (exp 50 * (1 + d_arg + 1 / 2 * d_arg * d_arg), exp 50 * (1 + d_arg))
             else (exp a, exp a))
      in if exp_arg < 0 then (1 / temp1, (1 / temp1 * temp2) * (1 / temp1)) else (temp1, temp2))"

definition diode_id :: "real \<Rightarrow> bool \<Rightarrow> real \<Rightarrow> real" where
  "diode_id area norml vd = diode_ais area * (fst (diode_temps (vd / diode_vt norml)) - 1)"

definition diode_gd :: "real \<Rightarrow> bool \<Rightarrow> real \<Rightarrow> real" where
  "diode_gd area norml vd = diode_ais area * (snd (diode_temps (vd / diode_vt norml)) / diode_vt norml)"

definition fet_beta :: "real \<Rightarrow> real" where
  "fet_beta ratio = 2 / 10 ^ 5 * ratio"

text \<open>Current, conductance and transconductance of a FET that is on, with \<open>lambda = 0.05\<close>.\<close>

definition fet_on :: "real \<Rightarrow> real \<Rightarrow> real \<Rightarrow> real \<times> real \<times> real" where
  "fet_on ratio vds vgst =
     (let beta = fet_beta ratio; lambda = 1 / 20
      in if vgst < vds then
           (let gmgs = beta * (1 + lambda * vds) * vgst
            in (1 / 2 * gmgs * vgst, 1 / 2 * beta * vgst * vgst * lambda, gmgs))
         else
           (let gmgs = beta * (1 + lambda * vds)
            in (gmgs * vds * (vgst - 1 / 2 * vds),
                gmgs * (vgst - vds) + beta * lambda * vds * (vgst - 1 / 2 * vds),
                gmgs * vds)))"

subsection \<open>Loading at an operating point\<close>

definition load_diode :: "int \<Rightarrow> int \<Rightarrow> real \<Rightarrow> bool \<Rightarrow> vec \<Rightarrow> mat \<times> vec \<Rightarrow> mat \<times> vec" where
  "load_diode a c area norml soln = (\<lambda>(G, rhs).
     let vd = get_two_terminal a c soln; id = diode_id area norml vd
     in (add_two_terminal a c (diode_gd area norml vd) G, add_to_rhs c id (add_to_rhs a (- id) rhs)))"

text \<open>Drain and source swap their roles in the device when the voltage between them is negative.\<close>

definition fet_swap :: "int \<Rightarrow> int \<Rightarrow> real \<Rightarrow> vec \<Rightarrow> int \<times> int" where
  "fet_swap d s sign soln = (if sign * get_two_terminal d s soln < 0 then (s, d) else (d, s))"

definition load_fet :: "int \<Rightarrow> int \<Rightarrow> int \<Rightarrow> real \<Rightarrow> real \<Rightarrow> vec \<Rightarrow> mat \<times> vec \<Rightarrow> mat \<times> vec" where
  "load_fet d g s ratio sign soln = (\<lambda>(G, rhs).
     let vds = sign * get_two_terminal d s soln;
         vgst = sign * get_two_terminal g s soln - 1 / 2
     in if vgst > 0 then
          (let (i, gds, gmgs) = fet_on ratio vds vgst; ids = sign * i
           in (add_entry s g (- gmgs) (add_entry d g gmgs (add_entry d s (- gmgs) (add_entry s s gmgs
                 (add_two_terminal d s gds G)))),
               add_to_rhs s ids (add_to_rhs d (- ids) rhs)))
        else (G, rhs))"

text \<open>A current that flows into one node and out of the other.\<close>

definition isource_rhs :: "int \<Rightarrow> int \<Rightarrow> real \<Rightarrow> vec \<Rightarrow> vec" where
  [simp]: "isource_rhs npos nneg i rhs = add_to_rhs nneg i (add_to_rhs npos (- i) rhs)"

text \<open>\<open>load_dc\<close> and \<open>load_tran\<close>: the first argument is the value of a source, at time 0 or at the time
  of the step. The device is returned since a FET may have changed.\<close>

fun load_point :: "(source \<Rightarrow> jsnum) \<Rightarrow> device \<Rightarrow> vec \<Rightarrow> mat \<times> vec \<Rightarrow> (device \<times> mat \<times> vec) option" where
  "load_point val (VSource src npos nneg branch) soln (G, rhs) =
     (case val src of
        Fin v \<Rightarrow> Some (VSource src npos nneg branch, G, add_to_rhs (int branch) v rhs)
      | _ \<Rightarrow> None)"
| "load_point val (ISource src npos nneg) soln (G, rhs) =
     (case val src of
        Fin i \<Rightarrow> Some (ISource src npos nneg, G, isource_rhs npos nneg i rhs)
      | _ \<Rightarrow> None)"
| "load_point val (Diode a c area norml) soln GR =
     Some (Diode a c area norml, load_diode a c area norml soln GR)"
| "load_point val (Fet d g s ratio sign) soln GR =
     (let (d', s') = fet_swap d s sign soln
      in Some (Fet d' g s' ratio sign, load_fet d' g s' ratio sign soln GR))"
| "load_point val dev soln GR = Some (dev, GR)"

definition load_dc :: "device \<Rightarrow> vec \<Rightarrow> mat \<times> vec \<Rightarrow> (device \<times> mat \<times> vec) option" where
  "load_dc = load_point src_dc"

definition load_tran :: "real \<Rightarrow> device \<Rightarrow> vec \<Rightarrow> mat \<times> vec \<Rightarrow> (device \<times> mat \<times> vec) option" where
  "load_tran time = load_point (\<lambda>src. wave_value (src_wave src) time)"

text \<open>The small-signal model: 1 volt or 1 ampere.\<close>

fun load_ac :: "device \<Rightarrow> vec \<Rightarrow> vec" where
  "load_ac (VSource src npos nneg branch) rhs = add_to_rhs (int branch) 1 rhs"
| "load_ac (ISource src npos nneg) rhs = isource_rhs npos nneg 1 rhs"
| "load_ac _ rhs = rhs"

fun breakpoint :: "device \<Rightarrow> real \<Rightarrow> jsnum" where
  "breakpoint (VSource src npos nneg branch) t = inflection_point (src_wave src) t"
| "breakpoint (ISource src npos nneg) t = inflection_point (src_wave src) t"
| "breakpoint _ t = NaN"

end
