(* ===== verification/CktRq.thy ===== *)
theory CktRq
  imports CktRank
begin

text \<open>
  What \<open>mat_solve_rq\<close> promises: it solves every row that the orthogonalisation does not drop, and
  its result is never longer than any other solution.
\<close>

section \<open>Orthogonalisation of the rows\<close>

lemma dot_sub2: "length r = length q \<Longrightarrow> length q = length z \<Longrightarrow>
    dot (map2 (\<lambda>a b. a - t * b) r q) z = dot r z - t * dot q z"
  by (induction r q z rule: list_induct3) (simp_all add: algebra_simps)

lemma butlast_map2:
  "length r = length q \<Longrightarrow> butlast (map2 f r q) = map2 f (butlast r) (butlast q)"
  by (simp add: butlast_conv_take take_map take_zip)

lemma dot_self_nonneg: "0 \<le> dot u u"
proof (induction u)
  case (Cons a u)
  then show ?case by (simp add: add_nonneg_nonneg)
qed simp

lemma find_largest_mem:
  "find_largest M is v k = (v', k') \<Longrightarrow> k' = k \<and> v' = v \<or> k' \<in> set is \<and> v' = sumsq (M ! k')"
  by (induction "is" arbitrary: v k) (fastforce split: if_splits)+

lemma dot_butlast_project:
  "length r = length q \<Longrightarrow> length q = Suc (length w) \<Longrightarrow>
     dot (butlast (project_out q r)) w = dot (butlast r) w - dot (butlast q) (butlast r) * dot (butlast q) w"
  by (simp add: project_out_def Let_def butlast_map2 dot_sub2)

text \<open>The first \<open>row\<close> rows have length 1 and are orthogonal to every other row.\<close>

definition ortho :: "nat \<Rightarrow> nat \<Rightarrow> nat \<Rightarrow> mat \<Rightarrow> bool" where
  "ortho n m row M \<longleftrightarrow> shape n (Suc m) M \<and> row \<le> n \<and>
     (\<forall>i < row. \<forall>j < n. dot (butlast (M ! i)) (butlast (M ! j)) = (if i = j then 1 else 0))"

lemma orthoD:
  "ortho n m row M \<Longrightarrow> i < row \<Longrightarrow> j < n \<Longrightarrow>
     dot (butlast (M ! i)) (butlast (M ! j)) = (if i = j then 1 else 0)"
  by (simp add: ortho_def)

lemma ortho_swap:
  assumes "ortho n m row M" and "row \<le> k" and "k < n"
  shows "ortho n m row (swap_rows M row k)"
proof -
  have l: "length M = n" using assms(1) shape_len(1) by (auto simp: ortho_def)
  show ?thesis
    using assms swap_shape [of n "Suc m" M row k] l
    by (auto simp: ortho_def swap_rows_nth)
qed

definition rq_update :: "nat \<Rightarrow> real \<Rightarrow> mat \<Rightarrow> mat" where
  "rq_update row nrm M =
     (let q = map (\<lambda>a. a * (1 / nrm)) (M ! row)
      in map (\<lambda>i. if i < row then M ! i else if i = row then q else project_out q (M ! i)) [0 ..< length M])"

lemma rq_update_ortho:
  assumes "ortho n m row M" and "row < n" and "nrm = sqrt (sumsq (M ! row))" and "0 < nrm"
  shows "ortho n m (Suc row) (rq_update row nrm M)"
    "length z = Suc m \<Longrightarrow> kills (rq_update row nrm M) z = kills M z"
proof -
  let ?q = "map (\<lambda>a. a * (1 / nrm)) (M ! row)"
  let ?U = "rq_update row nrm M"
  have sh: "shape n (Suc m) M" using assms(1) by (simp add: ortho_def)
  have l: "length M = n" "\<And>i. i < n \<Longrightarrow> length (M ! i) = Suc m" using shape_len [OF sh] by auto
  have U: "?U ! i = (if i < row then M ! i else if i = row then ?q else project_out ?q (M ! i))" if "i < n" for i
    using that l by (simp add: rq_update_def Let_def)
  have lq: "length ?q = Suc m" using l assms(2) by simp
  have lU: "length (?U ! i) = Suc m" if "i < n" for i
    using that l U lq by (simp add: project_out_def Let_def)
  have shU: "shape n (Suc m) ?U" by (rule shapeI) (simp_all add: lU, simp add: rq_update_def Let_def l)
  have bq: "butlast ?q = map (\<lambda>a. a * (1 / nrm)) (butlast (M ! row))" by (simp add: map_butlast)
  have qq: "dot (butlast ?q) (butlast ?q) = 1"
  proof -
    have "dot (butlast ?q) (butlast ?q) = 1 / nrm * dot (butlast (M ! row)) (butlast ?q)"
      unfolding bq by (rule dot_scale)
    also have "dot (butlast (M ! row)) (butlast ?q) = dot (butlast ?q) (butlast (M ! row))"
      by (rule dot_commute)
    also have "\<dots> = 1 / nrm * sumsq (M ! row)" unfolding bq sumsq_def by (rule dot_scale)
    also have "sumsq (M ! row) = nrm * nrm"
      using assms(3) dot_self_nonneg by (simp add: sumsq_def)
    finally show ?thesis using assms(4) by simp
  qed
  have old: "dot (butlast (M ! i)) (butlast ?q) = 0" if "i < row" for i
  proof -
    have "dot (butlast ?q) (butlast (M ! i)) = 1 / nrm * dot (butlast (M ! row)) (butlast (M ! i))"
      unfolding bq by (rule dot_scale)
    also have "dot (butlast (M ! row)) (butlast (M ! i)) = 0"
      using orthoD [OF assms(1) that assms(2)] that dot_commute [of "butlast (M ! row)"] by simp
    finally show ?thesis using dot_commute [of "butlast (M ! i)"] by simp
  qed
  have pr: "dot w (butlast (project_out ?q (M ! j))) =
      dot w (butlast (M ! j)) - dot (butlast ?q) (butlast (M ! j)) * dot w (butlast ?q)"
    if "j < n" "length w = m" for w j
  proof -
    have "dot (butlast (project_out ?q (M ! j))) w = dot (butlast (M ! j)) w
        - dot (butlast ?q) (butlast (M ! j)) * dot (butlast ?q) w"
      using that l lq by (intro dot_butlast_project) simp_all
    then show ?thesis by (simp only: dot_commute [of w])
  qed
  have lb: "length (butlast (M ! i)) = m" if "i < n" for i using l that by simp
  show "ortho n m (Suc row) ?U"
    unfolding ortho_def
  proof (intro conjI allI impI)
    show "shape n (Suc m) ?U" by (rule shU)
    show "Suc row \<le> n" using assms(2) by simp
    fix i j assume i: "i < Suc row" and j: "j < n"
    then have i': "i < n" using assms(2) by simp
    show "dot (butlast (?U ! i)) (butlast (?U ! j)) = (if i = j then 1 else 0)"
    proof (cases "i = row")
      case True
      then have Ui: "?U ! i = ?q" using U [OF i'] by simp
      consider "j < row" | "j = row" | "row < j" by linarith
      then show ?thesis
      proof cases
        case 1
        then show ?thesis using old [OF 1] True Ui U [OF j] dot_commute [of "butlast ?q"] by simp
      next
        case 2
        then show ?thesis using qq True Ui by simp
      next
        case 3
        have "length (butlast ?q) = m" using lq by simp
        from pr [OF j this] 3 show ?thesis using qq True Ui U [OF j] by simp
      qed
    next
      case False
      with i have ir: "i < row" by simp
      then have Ui: "?U ! i = M ! i" using U [OF i'] by simp
      show ?thesis
        using orthoD [OF assms(1) ir j] old [OF ir] pr [OF j lb [OF i']] ir U [OF j]
        by (cases "i = j") (simp_all add: Ui)
    qed
  qed
  assume z: "length z = Suc m"
  have dq: "dot ?q z = 1 / nrm * dot (M ! row) z" by (rule dot_scale)
  have dp: "dot (project_out ?q (M ! i)) z = dot (M ! i) z - dot (butlast ?q) (butlast (M ! i)) * dot ?q z" if "i < n" for i
    unfolding project_out_def Let_def using that z l lq by (intro dot_sub2) simp_all
  have lenU: "length ?U = n" using shape_len(1) [OF shU] .
  show "kills ?U z = kills M z"
  proof
    assume k: "kills ?U z"
    then have U0: "dot (?U ! i) z = 0" if "i < n" for i using that lenU by (simp add: kills_nth)
    from U0 [OF assms(2)] have q0: "dot ?q z = 0" using U [OF assms(2)] by simp
    have "dot (M ! i) z = 0" if "i < n" for i
    proof (cases "i = row")
      case True
      then show ?thesis using q0 dq assms(4) by simp
    next
      case False
      then show ?thesis using U0 [OF that] U [OF that] dp [OF that] q0 by (auto split: if_splits)
    qed
    then show "kills M z" using l by (simp add: kills_nth)
  next
    assume "kills M z"
    then have M0: "dot (M ! i) z = 0" if "i < n" for i using that l by (simp add: kills_nth)
    then have q0: "dot ?q z = 0" using dq assms(2) by simp
    have "dot (?U ! i) z = 0" if "i < n" for i
      using U [OF that] dp [OF that] M0 [OF that] q0 by simp
    then show "kills ?U z" using lenU by (simp add: kills_nth)
  qed
qed

lemma rq_rows_spec:
  assumes "ortho n m row M" and "case ms of None \<Rightarrow> True | Some s \<Rightarrow> 0 \<le> s"
    and "rq_rows row ms M = (M', k)"
  shows "ortho n m k M'" "length z = Suc m \<Longrightarrow> kills M' z = kills M z"
proof -
  have "ortho n m k M' \<and> (length z = Suc m \<longrightarrow> kills M' z = kills M z)"
    using assms
  proof (induction "n - row" arbitrary: row ms M rule: less_induct)
    case less
    have l: "length M = n" using less.prems(1) shape_len(1) by (auto simp: ortho_def)
    show ?case
    proof (cases "row < n")
      case False
      with less.prems(1) have "row = n" by (simp add: ortho_def)
      with less.prems(3) l have "M' = M" "k = n" by (auto simp: rq_rows.simps [of n])
      with less.prems \<open>row = n\<close> show ?thesis by simp
    next
      case True
      obtain v j where f: "find_largest M [Suc row ..< n] (sumsq (M ! row)) row = (v, j)" by fastforce
      from find_largest_mem [OF f] True l have j: "row \<le> j" "j < n" "v = sumsq (M ! j)" by auto
      define M1 where "M1 = (if j > row then swap_rows M row j else M)"
      define ms' where "ms' = (case ms of None \<Rightarrow> sqrt v | Some s \<Rightarrow> s)"
      have v0: "0 \<le> v" using j(3) dot_self_nonneg by (simp add: sumsq_def)
      then have ms': "0 \<le> ms'" using less.prems(2) by (simp add: ms'_def split: option.splits)
      have o1: "ortho n m row M1" using ortho_swap [OF less.prems(1) j(1,2)] less.prems(1) by (simp add: M1_def)
      have k1: "kills M1 z = kills M z" using True j l by (simp add: M1_def swap_kills)
      have v1: "v = sumsq (M1 ! row)" using j True l by (auto simp: M1_def swap_rows_nth)
      have r: "rq_rows row ms M = (if sqrt v > ms' * eps then rq_rows (Suc row) (Some ms') (rq_update row (sqrt v) M1)
          else (M1, row))"
        using True l by (subst rq_rows.simps) (simp add: f M1_def ms'_def rq_update_def Let_def)
      show ?thesis
      proof (cases "sqrt v > ms' * eps")
        case False
        with r less.prems(3) have "M' = M1" "k = row" by auto
        with o1 k1 show ?thesis by simp
      next
        case gt: True
        have "0 \<le> ms' * eps" using ms' by (simp add: less_imp_le)
        with gt have "0 < sqrt v" by linarith
        then have u: "ortho n m (Suc row) (rq_update row (sqrt v) M1)"
          "length z = Suc m \<Longrightarrow> kills (rq_update row (sqrt v) M1) z = kills M1 z"
          using rq_update_ortho [OF o1 True, of "sqrt v"] v1 by auto
        have dec: "n - Suc row < n - row" using True by simp
        have "rq_rows (Suc row) (Some ms') (rq_update row (sqrt v) M1) = (M', k)"
          using r gt less.prems(3) by simp
        from less.hyps [OF dec u(1) _ this] ms' u(2) k1 show ?thesis by auto
      qed
    qed
  qed
  then show "ortho n m k M'" "length z = Suc m \<Longrightarrow> kills M' z = kills M z" by auto
qed

text \<open>The solution is the combination of the orthonormal rows with their right-hand sides.\<close>

lemma rq_solution_fold:
  assumes "\<forall>r \<in> set rs. length (M ! r) = Suc m" and "length x = m" and "length w = m"
  defines "y \<equiv> fold (\<lambda>row x. map2 (\<lambda>xc a. xc + a * M ! row ! m) x (butlast (M ! row))) rs x"
  shows "length y = m \<and> dot w y = dot w x + (\<Sum>r\<leftarrow>rs. M ! r ! m * dot w (butlast (M ! r)))"
  using assms(1,2) unfolding y_def
proof (induction rs arbitrary: x)
  case (Cons r rs)
  let ?x = "map2 (\<lambda>xc a. xc + a * M ! r ! m) x (butlast (M ! r))"
  have lb: "length (butlast (M ! r)) = m" using Cons.prems by simp
  have e: "?x = map2 (\<lambda>a b. a - (- (M ! r ! m)) * b) x (butlast (M ! r))" by (simp add: mult.commute)
  have "dot ?x w = dot x w + M ! r ! m * dot (butlast (M ! r)) w"
    unfolding e using dot_sub2 [of x "butlast (M ! r)" w "- (M ! r ! m)"] lb Cons.prems(2) assms(3) by simp
  then show ?case using Cons.IH [of ?x] Cons.prems lb by (simp add: dot_commute [of w])
qed simp

lemma rq_solution_spec:
  assumes "ortho n m k M"
  shows "length (rq_solution M (Suc m) k) = m"
    "length w = m \<Longrightarrow> dot w (rq_solution M (Suc m) k) = (\<Sum>r < k. M ! r ! m * dot w (butlast (M ! r)))"
proof -
  have "k \<le> n" "shape n (Suc m) M" using assms by (auto simp: ortho_def)
  then have len: "\<forall>r \<in> set (rev [0 ..< k]). length (M ! r) = Suc m" using shape_len(2) by auto
  have z: "dot w (replicate m 0) = 0" for w
  proof (induction m arbitrary: w)
    case (Suc m)
    then show ?case by (cases w) simp_all
  qed simp
  have s: "(\<Sum>r\<leftarrow>rev [0 ..< k]. f r) = (\<Sum>r < k. f r)" for f :: "nat \<Rightarrow> real"
    by (simp only: sum_list_distinct_conv_sum_set distinct_rev distinct_upt set_rev set_upt lessThan_atLeast0)
  note f = rq_solution_fold [OF len, of "replicate m 0"]
  show "length (rq_solution M (Suc m) k) = m" using f [of "replicate m 0"] by (simp add: rq_solution_def)
  show "length w = m \<Longrightarrow> dot w (rq_solution M (Suc m) k) = (\<Sum>r < k. M ! r ! m * dot w (butlast (M ! r)))"
    using f [of w] by (simp add: rq_solution_def z s)
qed

lemma rq_solves_rows:
  assumes "ortho n m k M" and "i < k"
  shows "dot (butlast (M ! i)) (rq_solution M (Suc m) k) = M ! i ! m"
proof -
  have k: "k \<le> n" "shape n (Suc m) M" using assms by (auto simp: ortho_def)
  then have "length (butlast (M ! i)) = m" using shape_len(2) [OF k(2)] assms(2) by simp
  then have "dot (butlast (M ! i)) (rq_solution M (Suc m) k)
      = (\<Sum>r < k. M ! r ! m * dot (butlast (M ! i)) (butlast (M ! r)))"
    by (rule rq_solution_spec [OF assms(1)])
  also have "\<dots> = (\<Sum>r < k. if r = i then M ! i ! m else 0)"
    using orthoD [OF assms] k(1) by (intro sum.cong) auto
  finally show ?thesis using assms(2) by (simp add: sum.delta)
qed

section \<open>Which rows are dropped does not depend on the right-hand side\<close>

lemma map_butlast_len: "map butlast M = map butlast N \<Longrightarrow> length M = length N"
  by (metis length_map)

lemma map_butlast_nth: "map butlast M = map butlast N \<Longrightarrow> i < length M \<Longrightarrow> butlast (M ! i) = butlast (N ! i)"
  by (metis length_map nth_map)

lemma find_largest_cong:
  "map butlast M = map butlast N \<Longrightarrow> \<forall>i \<in> set is. i < length M \<Longrightarrow>
     find_largest M is v k = find_largest N is v k"
proof (induction "is" arbitrary: v k)
  case (Cons i "is")
  then have "sumsq (M ! i) = sumsq (N ! i)" by (simp add: sumsq_def map_butlast_nth)
  with Cons show ?case by simp
qed simp

lemma rq_update_cong:
  assumes "map butlast M = map butlast N" and "shape n (Suc m) M" and "shape n (Suc m) N" and "row < n"
  shows "map butlast (rq_update row c M) = map butlast (rq_update row c N)"
proof (rule nth_equalityI)
  have l: "length M = n" "length N = n" using assms(2,3) shape_len(1) by auto
  then show "length (map butlast (rq_update row c M)) = length (map butlast (rq_update row c N))"
    by (simp add: rq_update_def Let_def)
  fix i assume "i < length (map butlast (rq_update row c M))"
  then have i: "i < n" using l by (simp add: rq_update_def Let_def)
  have b: "butlast (M ! i) = butlast (N ! i)" "butlast (M ! row) = butlast (N ! row)"
    using map_butlast_nth [OF assms(1)] i assms(4) l by simp_all
  have len: "length (M ! i) = Suc m" "length (N ! i) = Suc m" "length (M ! row) = Suc m" "length (N ! row) = Suc m"
    using shape_len(2) [OF assms(2)] shape_len(2) [OF assms(3)] i assms(4) by auto
  show "map butlast (rq_update row c M) ! i = map butlast (rq_update row c N) ! i"
  proof -
    have q: "butlast (map (\<lambda>a. a * (1 / c)) (M ! row)) = butlast (map (\<lambda>a. a * (1 / c)) (N ! row))"
      using b(2) by (simp flip: map_butlast)
    then have "butlast (project_out (map (\<lambda>a. a * (1 / c)) (M ! row)) (M ! i))
        = butlast (project_out (map (\<lambda>a. a * (1 / c)) (N ! row)) (N ! i))"
      using len b(1) unfolding project_out_def Let_def by (subst (1 2) butlast_map2) simp_all
    with q show ?thesis using i l b(1) by (simp add: rq_update_def Let_def)
  qed
qed

lemma rq_update_shape:
  "shape n (Suc m) M \<Longrightarrow> row < n \<Longrightarrow> shape n (Suc m) (rq_update row c M)"
  using shape_len [of n "Suc m" M]
  by (intro shapeI) (simp_all add: rq_update_def Let_def project_out_def)

lemma rq_rows_same:
  assumes "map butlast M = map butlast N" and "shape n (Suc m) M" and "shape n (Suc m) N"
  shows "snd (rq_rows row ms M) = snd (rq_rows row ms N)"
  using assms
proof (induction "n - row" arbitrary: row ms M N rule: less_induct)
  case less
  have l: "length M = n" "length N = n" using less.prems shape_len(1) by auto
  show ?case
  proof (cases "row < n")
    case False
    then show ?thesis using l by (simp add: rq_rows.simps [of row])
  next
    case True
    obtain v j where f: "find_largest M [Suc row ..< n] (sumsq (M ! row)) row = (v, j)" by fastforce
    from find_largest_mem [OF f] True have j: "row \<le> j" "j < n" by auto
    have s: "sumsq (N ! row) = sumsq (M ! row)"
      using map_butlast_nth [OF less.prems(1), of row] True l by (simp add: sumsq_def)
    have f': "find_largest N [Suc row ..< n] (sumsq (M ! row)) row = (v, j)"
      using find_largest_cong [OF less.prems(1), of "[Suc row ..< n]"] f l by simp
    define M1 where "M1 = (if j > row then swap_rows M row j else M)"
    define N1 where "N1 = (if j > row then swap_rows N row j else N)"
    define ms' where "ms' = (case ms of None \<Rightarrow> sqrt v | Some s \<Rightarrow> s)"
    have eq: "map butlast M1 = map butlast N1"
      using less.prems(1) True j l
      by (simp add: M1_def N1_def swap_rows_def map_update map_butlast_nth [OF less.prems(1)])
    have sh: "shape n (Suc m) M1" "shape n (Suc m) N1"
      using less.prems(2,3) True j by (simp_all add: M1_def N1_def swap_shape)
    have r: "rq_rows row ms M = (if sqrt v > ms' * eps then rq_rows (Suc row) (Some ms') (rq_update row (sqrt v) M1)
        else (M1, row))"
      using True l by (subst rq_rows.simps) (simp add: f M1_def ms'_def rq_update_def Let_def)
    have r': "rq_rows row ms N = (if sqrt v > ms' * eps then rq_rows (Suc row) (Some ms') (rq_update row (sqrt v) N1)
        else (N1, row))"
      using True l by (subst rq_rows.simps) (simp add: f' s N1_def ms'_def rq_update_def Let_def)
    have dec: "n - Suc row < n - row" using True by simp
    show ?thesis
      using r r' less.hyps [OF dec rq_update_cong [OF eq sh True] rq_update_shape [OF sh(1) True]
          rq_update_shape [OF sh(2) True]] by simp
  qed
qed

section \<open>The theorem\<close>

text \<open>The rows that are kept for the coefficients \<open>A\<close>.\<close>

definition rq_rank :: "mat \<Rightarrow> nat" where
  "rq_rank A = snd (rq_rows 0 None (map (\<lambda>r. r @ [0]) A))"

lemma rq_spec:
  assumes "shape n (Suc m) M" and "0 < n" and "length b = n"
    and "mat_solve_rq M (Some b) = Some (x, M')"
  shows "length x = m"
    "length y = m \<Longrightarrow> \<forall>i < n. (\<Sum>j < m. M ! i ! j * y ! j) = b ! i \<Longrightarrow> dot x x \<le> dot y y"
    "rq_rank (map butlast M) = n \<Longrightarrow> i < n \<Longrightarrow> (\<Sum>j < m. M ! i ! j * x ! j) = b ! i"
    "shape n (Suc m) M'"
proof -
  have l: "length M = n" "\<And>i. i < n \<Longrightarrow> length (M ! i) = Suc m" using shape_len [OF assms(1)] by auto
  obtain r rs where "M = r # rs" using l(1) assms(2) by (cases M) auto
  then have cols: "cols M = Some (Suc m)" using l(2) [of 0] assms(2) by simp
  let ?M = "set_rhs m (Some b) M"
  obtain M1 k where rq: "rq_rows 0 None ?M = (M1, k)" by fastforce
  have x: "x = rq_solution M1 (Suc m) k" "M' = M1" using assms(4) cols rq by (auto simp: mat_solve_rq_def)
  have sh: "shape n (Suc m) ?M" using set_rhs_shape [OF assms(1), of "Some b"] assms(3) by simp
  have "ortho n m 0 ?M" using sh by (simp add: ortho_def)
  from rq_rows_spec [OF this _ rq] have o: "ortho n m k M1"
    and kl: "\<And>z. length z = Suc m \<Longrightarrow> kills M1 z = kills ?M z" by auto
  show len: "length x = m" using rq_solution_spec(1) [OF o] x by simp
  have shM1: "shape n (Suc m) M1" and kn: "k \<le> n" using o by (auto simp: ortho_def)
  show "shape n (Suc m) M'" using shM1 x by simp
  have nth: "?M ! i ! j = (if j = m then b ! i else M ! i ! j)" if "i < n" "j \<le> m" for i j
    using that l assms(3) by (simp add: set_rhs_def nth_list_update)
  have sol: "kills ?M (w @ [-1]) \<longleftrightarrow> (\<forall>i < n. (\<Sum>j < m. M ! i ! j * w ! j) = b ! i)" if "length w = m" for w
    using that shape_len [OF sh] by (simp add: kills_nth dot_snoc_take nth)
  have row: "dot (M1 ! i) (w @ [a]) = dot (butlast (M1 ! i)) w + a * M1 ! i ! m" if "i < n" "length w = m" for i w a
    using that shape_len(2) [OF shM1 that(1)]
    by (simp add: dot_snoc_take dot_nth nth_butlast nth_append cong: sum.cong_simp)
  show "dot x x \<le> dot y y" if y: "length y = m" "\<forall>i < n. (\<Sum>j < m. M ! i ! j * y ! j) = b ! i"
  proof -
    have "kills M1 (y @ [-1])" using sol [OF y(1)] y kl by simp
    then have "dot (butlast (M1 ! i)) y = M1 ! i ! m" if "i < k" for i
      using row [of i y "-1"] that kn y(1) shape_len(1) [OF shM1] by (simp add: kills_nth)
    then have "dot y x = (\<Sum>r < k. M1 ! r ! m * M1 ! r ! m)"
      using rq_solution_spec(2) [OF o y(1)] by (simp add: x dot_commute [of y])
    moreover have "dot x x = (\<Sum>r < k. M1 ! r ! m * M1 ! r ! m)"
      using rq_solution_spec(2) [OF o len] rq_solves_rows [OF o] by (simp add: x dot_commute [of _ "butlast _"])
    ultimately have xy: "dot y x = dot x x" by simp
    let ?d = "map2 (\<lambda>a b. a - 1 * b) y x"
    have "length ?d = m" using y(1) len by simp
    then have "dot ?d ?d = dot y ?d - 1 * dot x ?d" using y(1) len by (intro dot_sub2) simp_all
    also have "dot y ?d = dot y y - 1 * dot x y"
      using dot_sub2 [of y x y 1] y(1) len dot_commute [of ?d y] by simp
    also have "dot x ?d = dot y x - 1 * dot x x"
      using dot_sub2 [of y x x 1] y(1) len dot_commute [of ?d x] by simp
    finally have "dot ?d ?d = dot y y - dot x x" using xy dot_commute [of x y] by simp
    then show ?thesis using dot_self_nonneg [of ?d] by simp
  qed
  show "(\<Sum>j < m. M ! i ! j * x ! j) = b ! i" if full: "rq_rank (map butlast M) = n" and i: "i < n"
  proof -
    have "map butlast (map (\<lambda>r. r @ [0]) (map butlast M)) = map butlast ?M"
      using l assms(3)
      by (intro nth_equalityI) (simp_all add: set_rhs_def butlast_list_update)
    moreover have "shape n (Suc m) (map (\<lambda>r. r @ [0]) (map butlast M))"
      using l by (intro shapeI) simp_all
    ultimately have "snd (rq_rows 0 None ?M) = n"
      using rq_rows_same [of _ ?M n m 0 None] sh full by (metis rq_rank_def)
    then have "k = n" using rq by simp
    then have "kills M1 (x @ [-1])"
      using row [OF _ len, of _ "-1"] rq_solves_rows [OF o] shape_len(1) [OF shM1] by (simp add: kills_nth x)
    then show ?thesis using sol [OF len] kl len i by simp
  qed
qed

text \<open>C38. \<open>mat_solve_rq\<close> returns a vector for every matrix that has a row. No solution of the system
  is shorter than the vector, so it has no part in the null space, and when no row is dropped it
  is a solution.\<close>

theorem mat_solve_rq_min_norm:
  assumes "length M = n" and "0 < n" and "\<forall>r \<in> set M. length r = m + 1" and "length b = n"
  shows "\<exists>x M'. mat_solve_rq M (Some b) = Some (x, M') \<and> length x = m \<and>
    (\<forall>y. length y = m \<longrightarrow> (\<forall>i < n. (\<Sum>j < m. M ! i ! j * y ! j) = b ! i) \<longrightarrow>
      (\<Sum>j < m. x ! j * x ! j) \<le> (\<Sum>j < m. y ! j * y ! j)) \<and>
    (rq_rank (map butlast M) = n \<longrightarrow> (\<forall>i < n. (\<Sum>j < m. M ! i ! j * x ! j) = b ! i))"
proof -
  have sh: "shape n (Suc m) M" using assms(1,3) by (simp add: shape_def)
  obtain r rs where "M = r # rs" using assms(1,2) by (cases M) auto
  then obtain x M' where s: "mat_solve_rq M (Some b) = Some (x, M')"
    by (cases "rq_rows 0 None (set_rhs (length r - 1) (Some b) M)") (simp add: mat_solve_rq_def)
  note q = rq_spec [OF sh assms(2,4) s]
  show ?thesis using s q(1) q(2) q(3) by (intro exI [of _ x] exI [of _ M']) (auto simp: dot_nth)
qed

lemma mat_solve_rq_min_norm_witness:
  "\<exists>x M'. mat_solve_rq [[3, 4, 0]] (Some [10]) = Some (x, M') \<and> 3 * x ! 0 + 4 * x ! 1 = 10 \<and>
     x ! 0 * x ! 0 + x ! 1 * x ! 1 \<le> 2 * 2 + 1 * 1"
proof -
  have "sqrt 25 = sqrt (5\<^sup>2)" by simp
  then have s: "sqrt 25 = (5::real)" by (simp only: real_sqrt_abs)
  have "rq_rows 0 None [[3, 4, 0]] = rq_rows 1 (Some 5) [[3 / 5, 4 / 5, 0]]"
    by (subst rq_rows.simps) (simp add: sumsq_def s eps_def)
  then have "rq_rank (map butlast [[3, 4, 0]]) = 1"
    by (simp add: rq_rank_def rq_rows.simps [of "Suc 0"])
  moreover have "[2, 1] ! 0 = (2::real)" by simp
  ultimately show ?thesis
    using mat_solve_rq_min_norm [of "[[3, 4, 0]]" 1 2 "[10]"]
    by (fastforce simp: numeral_2_eq_2 dest: spec [of _ "[2, 1]"])
qed

end
