(* ===== verification/CktCircuit.thy ===== *)
theory CktCircuit
  imports CktDevices CktRq
begin

text \<open>
  The circuit of \<open>capa/schematic.js\<close>: its nodes and devices, loading a netlist, and setting up the
  matrices. A device is named by its position in the list of devices. A part that throws, or that
  would put a number that is not finite into the matrices, returns \<open>None\<close>. Alerts and the unused
  \<open>initial_conditions\<close> are left out.
\<close>

datatype ntype = T_VOLTAGE | T_CURRENT

definition v_abstol :: real where "v_abstol = 1 / 10 ^ 6"
definition i_abstol :: real where "i_abstol = 1 / 10 ^ 12"

text \<open>What the transient analysis keeps in the circuit: the currents and charges of the last loading and
  of the steps before, earlier solutions and times, and the coefficients of the integration.\<close>

record transient =
  cur :: vec
  oldc :: vec
  chg :: vec
  oldq :: vec
  old2q :: vec
  old3q :: vec
  oldsol :: vec
  old2sol :: vec
  old3sol :: vec
  alpha0 :: real
  alpha1 :: real
  alpha2 :: real
  beta0 :: vec
  beta1 :: vec
  now :: real
  oldt :: real
  old2t :: real
  old3t :: real
  ltecheck :: "bool list"
  ar :: "nat list"
  max_step :: real
  min_step :: real

record circuit =
  node_map :: "string \<Rightarrow> int option"
  ntypes :: "ntype list"
  devices :: "device list"
  device_map :: "string \<Rightarrow> nat option"
  dev_names :: "string list"
  voltage_sources :: "nat list"
  current_sources :: "nat list"
  finalized :: bool
  diddc :: bool
  node_index :: int
  periods :: int
  n_nodes :: nat
  matrix :: mat
  Gl :: mat
  G :: mat
  C :: mat
  soln_max :: vec
  abstol :: vec
  solution :: vec
  rhs :: vec
  problem_node :: "nat option"
  tr :: transient

definition no_transient :: transient where
  "no_transient = \<lparr>cur = [], oldc = [], chg = [], oldq = [], old2q = [], old3q = [], oldsol = [], old2sol = [],
     old3sol = [], alpha0 = 0, alpha1 = 0, alpha2 = 0, beta0 = [], beta1 = [], now = 0, oldt = 0, old2t = 0,
     old3t = 0, ltecheck = [], ar = [], max_step = 0, min_step = 0\<rparr>"

definition new_circuit :: circuit where
  "new_circuit = \<lparr>node_map = (\<lambda>_. None), ntypes = [], devices = [], device_map = (\<lambda>_. None), dev_names = [],
     voltage_sources = [], current_sources = [], finalized = False, diddc = False, node_index = -1,
     periods = 1, n_nodes = 0, matrix = [], Gl = [], G = [], C = [], soln_max = [], abstol = [],
     solution = [], rhs = [], problem_node = None, tr = no_transient\<rparr>"

definition gnd_node :: int where "gnd_node = -1"

section \<open>Building\<close>

definition node :: "string option \<Rightarrow> ntype \<Rightarrow> circuit \<Rightarrow> int \<times> circuit" where
  "node name nt ckt =
     (let i = node_index ckt + 1;
          nm = (case name of
                  Some s \<Rightarrow> if s \<noteq> [] then (node_map ckt)(s \<mapsto> i) else node_map ckt
                | None \<Rightarrow> node_map ckt)
      in (i, ckt\<lparr>node_index := i, node_map := nm, ntypes := ntypes ckt @ [nt]\<rparr>))"

definition add_device :: "device \<Rightarrow> string \<Rightarrow> circuit \<Rightarrow> circuit" where
  "add_device d name ckt =
     ckt\<lparr>devices := devices ckt @ [d], dev_names := dev_names ckt @ [name],
         device_map := (if name \<noteq> [] then (device_map ckt)(name \<mapsto> length (devices ckt)) else device_map ckt)\<rparr>"

definition ckt_v :: "int \<Rightarrow> int \<Rightarrow> string \<Rightarrow> string \<Rightarrow> circuit \<Rightarrow> circuit option" where
  "ckt_v n1 n2 v name ckt =
     (let (branch, c1) = node None T_CURRENT ckt
      in case new_VSource n1 n2 (nat branch) v of
           None \<Rightarrow> None
         | Some d \<Rightarrow>
             Some (add_device d name (c1\<lparr>voltage_sources := voltage_sources c1 @ [length (devices c1)]\<rparr>)))"

definition ckt_i :: "int \<Rightarrow> int \<Rightarrow> string \<Rightarrow> string \<Rightarrow> circuit \<Rightarrow> circuit option" where
  "ckt_i n1 n2 v name ckt =
     (case new_ISource n1 n2 v of
        None \<Rightarrow> None
      | Some d \<Rightarrow> Some (add_device d name (ckt\<lparr>current_sources := current_sources ckt @ [length (devices ckt)]\<rparr>)))"

text \<open>A value that is not a number leaves the circuit as it was.\<close>

definition ckt_r :: "int \<Rightarrow> int \<Rightarrow> string \<Rightarrow> string \<Rightarrow> circuit \<Rightarrow> circuit option" where
  "ckt_r n1 n2 v name ckt =
     (case parse_number v None of
        None \<Rightarrow> Some ckt
      | Some x \<Rightarrow> if x \<noteq> 0 then Some (add_device (new_Resistor n1 n2 x) name ckt) else ckt_v n1 n2 ''0'' name ckt)"

definition ckt_d :: "int \<Rightarrow> int \<Rightarrow> string \<Rightarrow> string option \<Rightarrow> string \<Rightarrow> circuit \<Rightarrow> circuit" where
  "ckt_d n1 n2 area ty name ckt =
     (case parse_number area None of
        None \<Rightarrow> ckt
      | Some a \<Rightarrow> if a \<noteq> 0 then add_device (new_Diode n1 n2 a ty) name ckt else ckt)"

definition ckt_c :: "int \<Rightarrow> int \<Rightarrow> string \<Rightarrow> string \<Rightarrow> circuit \<Rightarrow> circuit" where
  "ckt_c n1 n2 v name ckt =
     (case parse_number v None of None \<Rightarrow> ckt | Some x \<Rightarrow> add_device (new_Capacitor n1 n2 x) name ckt)"

definition ckt_l :: "int \<Rightarrow> int \<Rightarrow> string \<Rightarrow> string \<Rightarrow> circuit \<Rightarrow> circuit" where
  "ckt_l n1 n2 v name ckt =
     (case parse_number v None of
        None \<Rightarrow> ckt
      | Some x \<Rightarrow>
          (let (branch, c1) = node None T_CURRENT ckt in add_device (new_Inductor n1 n2 (nat branch) x) name c1))"

text \<open>\<open>Number(s)\<close> for a decimal literal with white space around it. The sign of an infinite gain does
  not matter; hexadecimal, octal and binary literals are left out.\<close>

definition to_number :: "string \<Rightarrow> jsnum" where
  "to_number s =
     (let t = rev (dropWhile is_space (rev (dropWhile is_space s)));
          (m, u) = (case t of
             c # cs \<Rightarrow> if c = CHR ''-'' then (- 1, cs) else if c = CHR ''+'' then (1, cs) else (1, t)
           | [] \<Rightarrow> (1, t));
          (r, v1) = read_digits dec_digit 10 0 u;
          (r2, m2, v2) = (case v1 of
             c # w \<Rightarrow> if c = CHR ''.'' then read_fraction r m w else (r, m, v1)
           | [] \<Rightarrow> (r, m, v1));
          digits = length u - length v2 > (if length v1 > length v2 \<or> (v1 \<noteq> [] \<and> hd v1 = CHR ''.'') then 1 else 0);
          ex = (case v2 of
             c # w \<Rightarrow>
               (if c \<in> {CHR ''e'', CHR ''E''} then
                  (let (sg, w2) = (case w of
                     d # ds \<Rightarrow> if d = CHR ''+'' then (10, ds) else if d = CHR ''-'' then (1 / 10, ds) else (10, w)
                   | [] \<Rightarrow> (10, w))
                   in if w2 \<noteq> [] \<and> list_all (\<lambda>c. dec_digit c \<noteq> None) w2 then Some (sg ^ read_exponent 0 w2) else None)
                else None)
           | [] \<Rightarrow> Some 1)
      in if t = [] then Fin 0
         else if u = ''Infinity'' then Infinity
         else if digits then (case ex of Some k \<Rightarrow> Fin (r2 * m2 * k) | None \<Rightarrow> NaN)
         else NaN)"

text \<open>The gain is kept as the text it was given, and converted where it is used.\<close>

definition ckt_opamp :: "int \<Rightarrow> int \<Rightarrow> int \<Rightarrow> int \<Rightarrow> string \<Rightarrow> string \<Rightarrow> circuit \<Rightarrow> circuit" where
  "ckt_opamp np nn no ng A name ckt =
     (let (branch, c1) = node None T_CURRENT ckt
      in add_device (new_Opamp np nn no ng (nat branch) (to_number A)) name c1)"

definition ckt_fet :: "bool \<Rightarrow> int \<Rightarrow> int \<Rightarrow> int \<Rightarrow> string \<Rightarrow> string \<Rightarrow> circuit \<Rightarrow> circuit" where
  "ckt_fet is_n d g s ratio name ckt =
     (case parse_number ratio None of
        None \<Rightarrow> ckt
      | Some x \<Rightarrow> add_device (new_Fet d g s x is_n) name ckt)"

section \<open>Netlists\<close>

text \<open>A component of a netlist: its type, its properties and the names of the nodes it is
  connected to. A netlist is the JSON the schematic editor writes, whose properties are texts.\<close>

record component =
  c_type :: string
  c_props :: "string \<Rightarrow> string option"
  c_conns :: "string list"

definition ground_pass :: "component list \<Rightarrow> circuit \<Rightarrow> circuit" where
  "ground_pass netlist ckt =
     fold (\<lambda>c ckt. if c_type c = ''g'' \<and> c_conns c \<noteq> [] then ckt\<lparr>node_map := (node_map ckt)(hd (c_conns c) \<mapsto> gnd_node)\<rparr>
                   else ckt)
       (rev netlist) ckt"

text \<open>The connections from the last to the first; the flag tells whether one is ground.\<close>

fun connect :: "string list \<Rightarrow> int list \<Rightarrow> bool \<times> circuit \<Rightarrow> int list \<times> bool \<times> circuit" where
  "connect [] is (gnd, ckt) = (is, gnd, ckt)"
| "connect (s # ss) is (gnd, ckt) =
     (case node_map ckt s of
        None \<Rightarrow> (let (i, c1) = node (Some s) T_VOLTAGE ckt in connect ss (i # is) (gnd, c1))
      | Some i \<Rightarrow> connect ss (i # is) (gnd \<or> i = gnd_node, ckt))"

text \<open>A connection that is missing is \<open>undefined\<close>, which every test treats like ground.\<close>

definition conn :: "int list \<Rightarrow> nat \<Rightarrow> int" where
  "conn is k = (if k < length is then is ! k else gnd_node)"

definition comp_name :: "component \<Rightarrow> string option" where
  "comp_name c =
     (case c_props c ''name'' of
        Some (x # xs) \<Rightarrow> Some (x # xs)
      | _ \<Rightarrow> map_option (\<lambda>j. CHR ''_'' # j) (c_props c ''_json_''))"

definition add_component :: "component \<Rightarrow> int list \<Rightarrow> string \<Rightarrow> circuit \<Rightarrow> circuit option" where
  "add_component c is name ckt =
     (let n = conn is; p = c_props c; ty = c_type c in
      if ty = ''r'' then Option.bind (p ''r'') (\<lambda>v. ckt_r (n 0) (n 1) v name ckt)
      else if ty = ''d'' then map_option (\<lambda>v. ckt_d (n 0) (n 1) v (p ''type'') name ckt) (p ''area'')
      else if ty = ''c'' then map_option (\<lambda>v. ckt_c (n 0) (n 1) v name ckt) (p ''c'')
      else if ty = ''l'' then map_option (\<lambda>v. ckt_l (n 0) (n 1) v name ckt) (p ''l'')
      else if ty = ''v'' then Option.bind (p ''value'') (\<lambda>v. ckt_v (n 0) (n 1) v name ckt)
      else if ty = ''i'' then Option.bind (p ''value'') (\<lambda>v. ckt_i (n 0) (n 1) v name ckt)
      else if ty = ''o'' then map_option (\<lambda>v. ckt_opamp (n 0) (n 1) (n 2) (n 3) v name ckt) (p ''A'')
      else if ty = ''n'' then map_option (\<lambda>v. ckt_fet True (n 0) (n 1) (n 2) v name ckt) (p ''W/L'')
      else if ty = ''p'' then map_option (\<lambda>v. ckt_fet False (n 0) (n 1) (n 2) v name ckt) (p ''W/L'')
      else if ty = ''a'' then ckt_v (n 0) (n 1) ''0'' name ckt
      else Some ckt)"

definition load_component :: "component \<Rightarrow> bool \<times> circuit \<Rightarrow> (bool \<times> circuit) option" where
  "load_component c st =
     (if c_type c \<in> {''view'', ''w'', ''g'', ''s'', ''L''} then Some st
      else case comp_name c of
        None \<Rightarrow> None
      | Some name \<Rightarrow>
          (case connect (rev (c_conns c)) [] st of
             (is, gnd, ckt) \<Rightarrow> map_option (\<lambda>ckt'. (gnd, ckt')) (add_component c is name ckt)))"

fun load_components :: "component list \<Rightarrow> bool \<times> circuit \<Rightarrow> (bool \<times> circuit) option" where
  "load_components [] st = Some st"
| "load_components (c # cs) st =
     (case load_component c st of None \<Rightarrow> None | Some st' \<Rightarrow> load_components cs st')"

text \<open>\<open>False\<close>: no component is connected to ground.\<close>

definition load_netlist :: "component list \<Rightarrow> circuit \<Rightarrow> (bool \<times> circuit) option" where
  "load_netlist netlist ckt = load_components (rev netlist) (False, ground_pass netlist ckt)"

section \<open>Setting up\<close>

fun load_linears :: "device list \<Rightarrow> mat \<times> mat \<Rightarrow> (mat \<times> mat) option" where
  "load_linears [] GC = Some GC"
| "load_linears (d # ds) GC =
     (case load_linear d GC of None \<Rightarrow> None | Some GC' \<Rightarrow> load_linears ds GC')"

definition branch_of :: "device \<Rightarrow> nat" where
  "branch_of d = (case d of VSource src p n b \<Rightarrow> b | Inductor p n b v \<Rightarrow> b | Opamp np nn no ng b A \<Rightarrow> b | _ \<Rightarrow> 0)"

definition set_up :: "circuit \<Rightarrow> circuit" where
  "set_up ckt =
     (let n = nat (node_index ckt + 1)
      in ckt\<lparr>finalized := True, n_nodes := n, matrix := mat_make n (n + 1), Gl := mat_make n n,
             G := mat_make n n, C := mat_make n n, soln_max := replicate n 0,
             abstol := map (\<lambda>i. if ntypes ckt ! i = T_VOLTAGE then v_abstol else i_abstol) [0 ..< n],
             solution := replicate n 0, rhs := replicate n 0\<rparr>)"

text \<open>The rows of the voltage sources.\<close>

definition source_rows :: "circuit \<Rightarrow> mat" where
  "source_rows ckt = map (\<lambda>k. Gl ckt ! branch_of (devices ckt ! k)) (voltage_sources ckt)"

definition finalize :: "circuit \<Rightarrow> (bool \<times> circuit) option" where
  "finalize ckt =
     (if finalized ckt then Some (True, ckt)
      else
        (let c1 = set_up ckt
         in case load_linears (rev (devices c1)) (Gl c1, C c1) of
              None \<Rightarrow> None
            | Some (Gl', C') \<Rightarrow>
                (let c2 = c1\<lparr>Gl := Gl', C := C'\<rparr>
                 in if voltage_sources c2 = [] then Some (True, c2)
                    else case mat_rank (source_rows c2) of
                      None \<Rightarrow> None
                    | Some R \<Rightarrow> Some (\<not> R < length (voltage_sources c2), c2))))"

end
