(* ===== verification/CktSim.thy ===== *)
theory CktSim
  imports CktCircuit
begin

text \<open>
  The simulation of \<open>capa/schematic.js\<close>: \<open>find_solution\<close>, a Newton iteration with voltage limiting,
  and \<open>dc\<close>, the operating point.
\<close>

definition v_newt_lim :: real where "v_newt_lim = 3 / 10"
definition reltol :: real where "reltol = 1 / 10 ^ 4"
definition res_check_abs :: real where "res_check_abs = sqrt i_abstol"
definition res_check_rel :: real where "res_check_rel = sqrt reltol"
definition dc_max_iters :: nat where "dc_max_iters = 1000"
definition max_tran_iters :: nat where "max_tran_iters = 20"

section \<open>Newton iteration\<close>

text \<open>The variables of \<open>find_solution\<close>; the comparison value is \<open>undefined\<close> before the first
  iteration.\<close>

record newton =
  nt_ckt :: circuit
  iter :: nat
  d_sol :: vec
  compare :: real
  abssum_old :: real
  use_limiting :: bool
  down_count :: nat

definition start_newton :: "circuit \<Rightarrow> newton" where
  "start_newton ckt = \<lparr>nt_ckt = ckt, iter = 0, d_sol = [], compare = 0, abssum_old = 0,
     use_limiting = False, down_count = 0\<rparr>"

text \<open>The norm of the right-hand side over the node equations.\<close>

definition abssum :: "circuit \<Rightarrow> real" where
  "abssum ckt = (\<Sum>i\<leftarrow>[0 ..< n_nodes ckt]. if ntypes ckt ! i = T_VOLTAGE then \<bar>rhs ckt ! i\<bar> else 0)"

text \<open>Either undo the last step and turn limiting on, or compute the next step.\<close>

definition newton_delta :: "newton \<Rightarrow> newton option" where
  "newton_delta s =
     (let ckt = nt_ckt s; a = abssum ckt in
      if iter s > 0 \<and> \<not> use_limiting s \<and> abssum_old s < a then
        Some (s\<lparr>nt_ckt := ckt\<lparr>solution := map2 (\<lambda>x d. x - d) (solution ckt) (d_sol s)\<rparr>,
                iter := iter s - 1, use_limiting := True\<rparr>)
      else
        (case mat_solve_rq (matrix ckt) (Some (rhs ckt)) of
           None \<Rightarrow> None
         | Some (x, M) \<Rightarrow>
             (let dn = (if a < abssum_old s then down_count s + 1 else 0)
              in Some (s\<lparr>nt_ckt := ckt\<lparr>matrix := M\<rparr>, d_sol := x, abssum_old := a,
                        use_limiting := (if dn > 10 then False else use_limiting s),
                        down_count := (if dn > 10 then 0 else dn)\<rparr>))))"

definition limit :: "bool \<Rightarrow> ntype \<Rightarrow> real \<Rightarrow> real" where
  "limit on ty d =
     (if on \<and> ty = T_VOLTAGE then
        (let d1 = (if d > v_newt_lim then v_newt_lim else d) in if d1 < - v_newt_lim then - v_newt_lim else d1)
      else d)"

text \<open>Add the step to the solution; \<open>problem_node\<close> is the last node, from the highest index down,
  whose step is not yet small.\<close>

definition newton_update :: "newton \<Rightarrow> newton \<times> bool" where
  "newton_update s =
     (let ckt = nt_ckt s;
          ds = map2 (limit (use_limiting s)) (ntypes ckt) (d_sol s);
          big = filter (\<lambda>i. \<bar>ds ! i\<bar> > abstol ckt ! i + reltol * soln_max ckt ! i) [0 ..< n_nodes ckt];
          ckt' = ckt\<lparr>solution := map2 (+) (solution ckt) ds,
                     problem_node := (if big = [] then problem_node ckt else Some (hd big))\<rparr>
      in (s\<lparr>nt_ckt := ckt', d_sol := ds\<rparr>, big = []))"

definition raise_max :: "circuit \<Rightarrow> circuit" where
  "raise_max ckt = ckt\<lparr>soln_max := map2 (\<lambda>x m. if \<bar>x\<bar> > m then \<bar>x\<bar> else m) (solution ckt) (soln_max ckt)\<rparr>"

text \<open>The body of the loop; the flag tells whether the iteration has converged.\<close>

definition newton_body :: "(circuit \<Rightarrow> circuit option) \<Rightarrow> nat \<Rightarrow> newton \<Rightarrow> (newton \<times> bool) option" where
  "newton_body load maxiters s =
     (case load (nt_ckt s) of
        None \<Rightarrow> None
      | Some ckt \<Rightarrow>
          (let a = abssum ckt in
           case newton_delta (s\<lparr>nt_ckt := ckt\<rparr>) of
             None \<Rightarrow> None
           | Some s1 \<Rightarrow>
               (let cmp = (if iter s1 = 0 \<or> a > compare s1 then a else compare s1);
                    ok = (\<not> (iter s1 + 1 < maxiters \<and> a > res_check_abs + res_check_rel * cmp));
                    (s2, small) = newton_update (s1\<lparr>compare := cmp\<rparr>)
                in Some (s2, ok \<and> small))))"

lemma newton_delta_measure:
  assumes "newton_delta s = Some s1"
  shows "iter s1 = iter s \<or> \<not> use_limiting s \<and> use_limiting s1 \<and> iter s > 0 \<and> iter s1 + 1 = iter s"
  using assms by (auto simp: newton_delta_def Let_def split: if_splits option.splits)

lemma newton_update_frame:
  "newton_update s = (s', small) \<Longrightarrow> iter s' = iter s \<and> use_limiting s' = use_limiting s"
  by (auto simp: newton_update_def Let_def)

lemma newton_body_measure:
  assumes "newton_body load m s = Some (s', conv)"
  shows "iter s' = iter s \<or> \<not> use_limiting s \<and> use_limiting s' \<and> iter s' + 1 = iter s"
proof -
  obtain ckt where ckt: "load (nt_ckt s) = Some ckt"
    using assms by (auto simp: newton_body_def split: option.splits)
  obtain s1 where s1: "newton_delta (s\<lparr>nt_ckt := ckt\<rparr>) = Some s1"
    using assms ckt by (auto simp: newton_body_def Let_def split: option.splits)
  have "iter s' = iter s1 \<and> use_limiting s' = use_limiting s1"
    using assms ckt s1 by (auto simp: newton_body_def Let_def dest: newton_update_frame split: prod.splits)
  with newton_delta_measure [OF s1] show ?thesis by auto
qed

text \<open>\<open>None\<close> as a result: too many iterations. The loop ends because an undone step leaves limiting on,
  and only a step that counts can turn it off.\<close>

function newton_loop :: "(circuit \<Rightarrow> circuit option) \<Rightarrow> nat \<Rightarrow> newton \<Rightarrow> (circuit \<times> nat option) option" where
  "newton_loop load maxiters s =
     (if iter s < maxiters then
        (case newton_body load maxiters s of
           None \<Rightarrow> None
         | Some (s', conv) \<Rightarrow>
             (if conv then Some (raise_max (nt_ckt s'), Some (iter s' + 1))
              else newton_loop load maxiters (s'\<lparr>iter := iter s' + 1\<rparr>)))
      else Some (nt_ckt s, None))"
  by pat_completeness auto
termination
proof (relation "measures [\<lambda>(load, m, s). m - iter s, \<lambda>(load, m, s). if use_limiting s then 0 else 1]", goal_cases)
  case (2 load m s r s' conv)
  then have "newton_body load m s = Some (s', conv)" by simp
  from newton_body_measure [OF this] 2(1) show ?case by auto
qed simp

declare newton_loop.simps [simp del]

definition find_solution :: "(circuit \<Rightarrow> circuit option) \<Rightarrow> nat \<Rightarrow> circuit \<Rightarrow> (circuit \<times> nat option) option" where
  "find_solution load maxiters ckt = newton_loop load maxiters (start_newton ckt)"

section \<open>The operating point\<close>

text \<open>The devices from the last to the first; each may change.\<close>

fun load_points :: "(source \<Rightarrow> jsnum) \<Rightarrow> device list \<Rightarrow> vec \<Rightarrow> mat \<times> vec \<Rightarrow> (device list \<times> mat \<times> vec) option" where
  "load_points val [] soln GR = Some ([], GR)"
| "load_points val (d # ds) soln GR =
     (case load_points val ds soln GR of
        None \<Rightarrow> None
      | Some (ds', GR1) \<Rightarrow>
          (case load_point val d soln GR1 of
             None \<Rightarrow> None
           | Some (d', GR2) \<Rightarrow> Some (d' # ds', GR2)))"

definition load_dc_ckt :: "circuit \<Rightarrow> circuit option" where
  "load_dc_ckt ckt =
     (case mat_v_mult (Gl ckt) (solution ckt) (rhs ckt) (- 1) of
        None \<Rightarrow> None
      | Some r \<Rightarrow>
          (case mat_copy (Gl ckt) (G ckt) of
             None \<Rightarrow> None
           | Some G0 \<Rightarrow>
               (case load_points src_dc (devices ckt) (solution ckt) (G0, r) of
                  None \<Rightarrow> None
                | Some (ds, G1, r1) \<Rightarrow>
                    (case mat_copy G1 (matrix ckt) of
                       None \<Rightarrow> None
                     | Some M \<Rightarrow> Some (ckt\<lparr>devices := ds, G := G1, rhs := r1, matrix := M\<rparr>)))))"

definition dc_result :: "circuit \<Rightarrow> string \<Rightarrow> real option" where
  "dc_result ckt =
     (let nodes = (\<lambda>name. map_option (\<lambda>i. if i = -1 then 0 else solution ckt ! nat i) (node_map ckt name))
      in fold (\<lambda>k res. res(''I('' @ dev_names ckt ! k @ '')'' \<mapsto> solution ckt ! branch_of (devices ckt ! k)))
           (rev (voltage_sources ckt)) nodes)"

text \<open>\<open>None\<close> as a result: the circuit is illegal or the iteration does not converge.\<close>

definition dc :: "circuit \<Rightarrow> (circuit \<times> (string \<Rightarrow> real option) option) option" where
  "dc ckt =
     (case finalize ckt of
        None \<Rightarrow> None
      | Some (legal, c1) \<Rightarrow>
          (if \<not> legal then Some (c1, None)
           else case find_solution load_dc_ckt dc_max_iters c1 of
             None \<Rightarrow> None
           | Some (c2, None) \<Rightarrow> Some (c2, None)
           | Some (c2, Some iterations) \<Rightarrow> (let c3 = c2\<lparr>diddc := True\<rparr> in Some (c3, Some (dc_result c3)))))"

text \<open>The value of a result: \<open>0\<close> for ground, the list of samples otherwise.\<close>

datatype response = Ground | Samples vec

definition node_response :: "int \<Rightarrow> mat \<Rightarrow> response" where
  "node_response i resp = (if i = -1 then Ground else Samples (resp ! nat i))"

end
