(* ===== verification/CktKcl.thy ===== *)
theory CktKcl
  imports CktSim
begin

text \<open>
  The equations of a circuit as physics states them, and that the matrices the devices load are
  these equations: Kirchhoff's current law in the row of a node, the law of the device in the row
  of a branch.
\<close>

section \<open>Rows of stamped matrices\<close>

definition volt :: "int \<Rightarrow> vec \<Rightarrow> real" where
  "volt i x = (if 0 \<le> i then x ! nat i else 0)"

lemma volt_int [simp]: "volt (int b) x = x ! b"
  by (simp add: volt_def)

lemma get_two_terminal_volt: "get_two_terminal i j x = volt i x - volt j x"
  by (simp add: get_two_terminal_def volt_def)

lemma dot_list_update:
  "length r = length x \<Longrightarrow> j < length r \<Longrightarrow> dot (r[j := r ! j + g]) x = dot r x + g * x ! j"
proof (induction r x arbitrary: j rule: list_induct2)
  case (Cons a r b x)
  then show ?case by (cases j) (simp_all add: algebra_simps)
qed simp

lemma add_at_shape: "shape n m M \<Longrightarrow> i < n \<Longrightarrow> j < m \<Longrightarrow> shape n m (add_at i j g M)"
  using shape_len [of n m M] by (intro shapeI) (auto simp: add_at_def nth_list_update)

lemma add_at_row:
  "shape (length x) (length x) M \<Longrightarrow> i < length x \<Longrightarrow> j < length x \<Longrightarrow> k < length x \<Longrightarrow>
     dot (add_at i j g M ! k) x = dot (M ! k) x + (if k = i then g * x ! j else 0)"
  using shape_len [of "length x" "length x" M] by (auto simp: add_at_def nth_list_update dot_list_update)

lemma add_entry_shape: "shape n n M \<Longrightarrow> i < int n \<Longrightarrow> j < int n \<Longrightarrow> shape n n (add_entry i j g M)"
  by (auto simp: add_entry_def intro: add_at_shape)

lemma add_entry_row:
  "shape (length x) (length x) M \<Longrightarrow> i < int (length x) \<Longrightarrow> j < int (length x) \<Longrightarrow> k < length x \<Longrightarrow>
     dot (add_entry i j g M ! k) x = dot (M ! k) x + (if int k = i then g * volt j x else 0)"
  by (auto simp: add_entry_def add_at_row volt_def)

lemma add_two_terminal_entries:
  "add_two_terminal i j g M =
     (if 0 \<le> i \<and> 0 \<le> j then add_entry j j g (add_entry j i (- g) (add_entry i j (- g) (add_entry i i g M)))
      else add_entry j j g (add_entry i i g M))"
  by (simp add: add_two_terminal_def add_entry_def Let_def)

lemma add_two_terminal_shape:
  "shape n n M \<Longrightarrow> i < int n \<Longrightarrow> j < int n \<Longrightarrow> shape n n (add_two_terminal i j g M)"
  by (simp add: add_two_terminal_entries add_entry_shape)

lemma add_two_terminal_row:
  assumes "shape (length x) (length x) M" and "i < int (length x)" "j < int (length x)" and "k < length x"
  shows "dot (add_two_terminal i j g M ! k) x = dot (M ! k) x +
    (if int k = i then g * (volt i x - volt j x) else 0) + (if int k = j then g * (volt j x - volt i x) else 0)"
proof (cases "0 \<le> i \<and> 0 \<le> j")
  case True
  then show ?thesis using assms
    by (simp add: add_two_terminal_entries add_entry_row add_entry_shape algebra_simps)
next
  case False
  then have "volt i x = 0 \<or> volt j x = 0" by (auto simp: volt_def)
  moreover have "int k = i \<longrightarrow> \<not> j \<ge> 0" "int k = j \<longrightarrow> \<not> i \<ge> 0" using False by auto
  ultimately show ?thesis using assms False
    by (auto simp: add_two_terminal_entries add_entry_row add_entry_shape volt_def)
qed

lemma add_to_rhs_nth:
  "i < int (length r) \<Longrightarrow> k < length r \<Longrightarrow> add_to_rhs i v r ! k = r ! k + (if int k = i then v else 0)"
  by (auto simp: add_to_rhs_def nth_list_update)

lemma length_add_to_rhs [simp]: "length (add_to_rhs i v r) = length r"
  by (simp add: add_to_rhs_def)

section \<open>The law of each device\<close>

text \<open>What a linear device contributes to row \<open>k\<close> at the unknowns \<open>x\<close>: the current that flows from
  node \<open>k\<close> into the device, or the law of the device in the row of its branch.\<close>

fun device_row :: "device \<Rightarrow> vec \<Rightarrow> nat \<Rightarrow> real" where
  "device_row (VSource src p n b) x k =
     (if int k = p then x ! b else 0) - (if int k = n then x ! b else 0)
     + (if k = b then volt p x - volt n x else 0)"
| "device_row (Resistor n1 n2 g) x k =
     (if int k = n1 then g * (volt n1 x - volt n2 x) else 0)
     + (if int k = n2 then g * (volt n2 x - volt n1 x) else 0)"
| "device_row (Inductor n1 n2 b v) x k =
     (if int k = n1 then x ! b else 0) - (if int k = n2 then x ! b else 0)
     + (if k = b then volt n2 x - volt n1 x else 0)"
| "device_row (Opamp np nn no ng b A) x k =
     (if int k = no then x ! b else 0) - (if int k = ng then x ! b else 0)
     + (if k = b then (case inverse_gain A of Some a \<Rightarrow> a * (volt no x - volt ng x) | None \<Rightarrow> 0)
          - (volt np x - volt nn x) else 0)"
| "device_row _ x k = 0"

text \<open>What a source drives into row \<open>k\<close>.\<close>

fun fin :: "jsnum \<Rightarrow> real" where
  "fin (Fin r) = r"
| "fin _ = 0"

fun source_row :: "(source \<Rightarrow> jsnum) \<Rightarrow> device \<Rightarrow> nat \<Rightarrow> real" where
  "source_row val (VSource src p n b) k = (if k = b then fin (val src) else 0)"
| "source_row val (ISource src p n) k =
     (if int k = n then fin (val src) else 0) - (if int k = p then fin (val src) else 0)"
| "source_row val _ k = 0"

text \<open>The current of a nonlinear device from node \<open>k\<close>.\<close>

fun nonlinear :: "device \<Rightarrow> bool" where
  "nonlinear (Diode a c area norml) = True"
| "nonlinear (Fet d g s ratio sign) = True"
| "nonlinear _ = False"

text \<open>The nodes of a device are nodes of the circuit.\<close>

fun device_ok :: "nat \<Rightarrow> device \<Rightarrow> bool" where
  "device_ok N (VSource src p n b) \<longleftrightarrow> p < int N \<and> n < int N \<and> b < N"
| "device_ok N (ISource src p n) \<longleftrightarrow> p < int N \<and> n < int N"
| "device_ok N (Resistor p n g) \<longleftrightarrow> p < int N \<and> n < int N"
| "device_ok N (Diode a c area norml) \<longleftrightarrow> a < int N \<and> c < int N"
| "device_ok N (Capacitor p n v) \<longleftrightarrow> p < int N \<and> n < int N"
| "device_ok N (Inductor p n b v) \<longleftrightarrow> p < int N \<and> n < int N \<and> b < N"
| "device_ok N (Opamp np nn no ng b A) \<longleftrightarrow> np < int N \<and> nn < int N \<and> no < int N \<and> ng < int N \<and> b < N"
| "device_ok N (Fet d g s ratio sign) \<longleftrightarrow> d < int N \<and> g < int N \<and> s < int N"

lemma device_ok_mono: "device_ok N d \<Longrightarrow> N \<le> N' \<Longrightarrow> device_ok N' d"
  by (cases d) auto

lemma load_linear_row:
  assumes "load_linear d (A, B) = Some (A1, B1)" and "shape n n A" "shape n n B" and "device_ok n d"
  shows "shape n n A1 \<and> shape n n B1"
    "k < n \<Longrightarrow> length x = n \<Longrightarrow> dot (A1 ! k) x = dot (A ! k) x + device_row d x k"
proof -
  show "shape n n A1 \<and> shape n n B1"
    using assms
    by (cases d) (auto simp: Let_def add_entry_shape add_two_terminal_shape split: option.splits)
  show "k < n \<Longrightarrow> length x = n \<Longrightarrow> dot (A1 ! k) x = dot (A ! k) x + device_row d x k"
    using assms
    by (cases d) (auto simp: Let_def add_entry_shape add_entry_row add_two_terminal_row algebra_simps
        split: option.splits)
qed

lemma load_linears_row:
  assumes "load_linears ds (A, B) = Some (A1, B1)" and "shape n n A" "shape n n B"
    and "\<forall>d \<in> set ds. device_ok n d"
  shows "shape n n A1 \<and> shape n n B1 \<and>
    (\<forall>k x. k < n \<longrightarrow> length x = n \<longrightarrow> dot (A1 ! k) x = dot (A ! k) x + (\<Sum>d\<leftarrow>ds. device_row d x k))"
  using assms
proof (induction ds arbitrary: A B)
  case (Cons d ds)
  then obtain A2 B2 where d: "load_linear d (A, B) = Some (A2, B2)"
    and ds: "load_linears ds (A2, B2) = Some (A1, B1)" by (auto split: option.splits)
  note r = load_linear_row [OF d Cons.prems(2,3)]
  from Cons.IH [OF ds] r Cons.prems(4) show ?case by simp
qed simp

lemma load_point_linear:
  assumes "\<not> nonlinear d" and "load_point val d x (A, r) = Some (d', A1, r')" and "device_ok (length r) d"
  shows "d' = d \<and> A1 = A \<and> length r' = length r \<and> (\<forall>k < length r. r' ! k = r ! k + source_row val d k)"
  using assms by (cases d) (auto simp: add_to_rhs_nth split: jsnum.splits)

definition source_finite :: "(source \<Rightarrow> jsnum) \<Rightarrow> device \<Rightarrow> bool" where
  "source_finite val d \<longleftrightarrow>
     (case d of VSource src p n b \<Rightarrow> \<exists>r. val src = Fin r | ISource src p n \<Rightarrow> \<exists>r. val src = Fin r | _ \<Rightarrow> True)"

lemma load_points_linear:
  assumes "\<forall>d \<in> set ds. \<not> nonlinear d \<and> device_ok (length r) d \<and> source_finite val d"
  shows "\<exists>r'. load_points val ds x (A, r) = Some (ds, A, r') \<and> length r' = length r \<and>
    (\<forall>k < length r. r' ! k = r ! k + (\<Sum>d\<leftarrow>ds. source_row val d k))"
  using assms
proof (induction ds)
  case (Cons d ds)
  then obtain r1 where r1: "load_points val ds x (A, r) = Some (ds, A, r1)" "length r1 = length r"
    "\<forall>k < length r. r1 ! k = r ! k + (\<Sum>d\<leftarrow>ds. source_row val d k)" by auto
  have "\<exists>q. load_point val d x (A, r1) = Some q"
    using Cons.prems by (cases d) (auto simp: source_finite_def split: jsnum.splits)
  then obtain d' A1 r' where q: "load_point val d x (A, r1) = Some (d', A1, r')" by (metis prod_cases3)
  with load_point_linear [OF _ q] Cons.prems r1 show ?case by auto
qed simp

end
