(* ===== verification/CktNetlist.thy ===== *)
theory CktNetlist
  imports CktKcl
begin

text \<open>
  Every circuit that \<open>load_netlist\<close> builds is well formed: its devices sit on nodes that exist, its
  tables agree in length, and the sources it lists are sources.
\<close>

definition nodes :: "circuit \<Rightarrow> nat" where
  "nodes ckt = nat (node_index ckt + 1)"

definition is_vsource :: "device \<Rightarrow> bool" where
  "is_vsource d = (case d of VSource src p n b \<Rightarrow> True | _ \<Rightarrow> False)"

definition is_isource :: "device \<Rightarrow> bool" where
  "is_isource d = (case d of ISource src p n \<Rightarrow> True | _ \<Rightarrow> False)"

definition wf :: "circuit \<Rightarrow> bool" where
  "wf ckt \<longleftrightarrow> -1 \<le> node_index ckt \<and> length (ntypes ckt) = nodes ckt \<and>
     (\<forall>d \<in> set (devices ckt). device_ok (nodes ckt) d) \<and>
     (\<forall>s i. node_map ckt s = Some i \<longrightarrow> -1 \<le> i \<and> i < int (nodes ckt)) \<and>
     length (dev_names ckt) = length (devices ckt) \<and>
     (\<forall>k \<in> set (voltage_sources ckt). k < length (devices ckt) \<and> is_vsource (devices ckt ! k)) \<and>
     (\<forall>k \<in> set (current_sources ckt). k < length (devices ckt) \<and> is_isource (devices ckt ! k)) \<and>
     \<not> finalized ckt"

lemma wf_new: "wf new_circuit"
  by (simp add: wf_def new_circuit_def nodes_def)

lemma nodes_simps [simp]:
  "nodes (ckt\<lparr>devices := ds\<rparr>) = nodes ckt" "nodes (ckt\<lparr>dev_names := ns\<rparr>) = nodes ckt"
  "nodes (ckt\<lparr>device_map := dm\<rparr>) = nodes ckt" "nodes (ckt\<lparr>voltage_sources := vs\<rparr>) = nodes ckt"
  "nodes (ckt\<lparr>current_sources := cs\<rparr>) = nodes ckt" "nodes (ckt\<lparr>node_map := nm\<rparr>) = nodes ckt"
  "nodes (ckt\<lparr>ntypes := nt\<rparr>) = nodes ckt"
  by (simp_all add: nodes_def)

lemma wf_node:
  assumes "wf ckt" and "node nm nt ckt = (i, c')"
  shows "wf c' \<and> i < int (nodes c') \<and> nodes c' = Suc (nodes ckt) \<and> nat i < nodes c'"
proof -
  have i: "i = int (nodes ckt)" using assms by (auto simp: node_def Let_def nodes_def wf_def)
  have c': "node_index c' = node_index ckt + 1" "ntypes c' = ntypes ckt @ [nt]" "devices c' = devices ckt"
    "dev_names c' = dev_names ckt" "voltage_sources c' = voltage_sources ckt"
    "current_sources c' = current_sources ckt" "finalized c' = finalized ckt"
    "node_map c' = node_map ckt \<or> (\<exists>s. node_map c' = (node_map ckt)(s \<mapsto> i))"
    using assms(2) by (auto simp: node_def Let_def split: option.splits; blast)+
  have n: "nodes c' = Suc (nodes ckt)" using assms(1) c'(1) by (auto simp: nodes_def wf_def)
  have nm: "-1 \<le> j \<and> j < int (Suc (nodes ckt))" if "node_map c' s = Some j" for s j
  proof -
    from c'(8) that have "node_map ckt s = Some j \<or> j = i" by (auto split: if_splits)
    with assms(1) i show ?thesis by (fastforce simp: wf_def)
  qed
  have "\<forall>d \<in> set (devices ckt). device_ok (Suc (nodes ckt)) d"
    using assms(1) by (auto simp: wf_def intro: device_ok_mono)
  with assms(1) nm have "wf c'" by (simp add: wf_def c' n)
  with n i show ?thesis by simp
qed

lemma source_ext:
  "\<forall>k \<in> set vs. k < length ds \<and> P (ds ! k) \<Longrightarrow> \<forall>k \<in> set vs. k < Suc (length ds) \<and> P ((ds @ [d]) ! k)"
  by (auto simp: nth_append less_SucI)

lemma wf_add_device:
  assumes "wf ckt" and "device_ok (nodes ckt) d"
  shows "wf (add_device d name ckt)" "nodes (add_device d name ckt) = nodes ckt"
proof -
  show "nodes (add_device d name ckt) = nodes ckt" by (simp add: add_device_def)
  show "wf (add_device d name ckt)"
    using assms source_ext [of "voltage_sources ckt" "devices ckt" is_vsource d]
      source_ext [of "current_sources ckt" "devices ckt" is_isource d]
    unfolding wf_def add_device_def by simp
qed

lemma wf_list_source:
  assumes "wf ckt" and "device_ok (nodes ckt) d"
  shows "is_vsource d \<Longrightarrow> wf (add_device d name (ckt\<lparr>voltage_sources := voltage_sources ckt @ [length (devices ckt)]\<rparr>))"
    "is_isource d \<Longrightarrow> wf (add_device d name (ckt\<lparr>current_sources := current_sources ckt @ [length (devices ckt)]\<rparr>))"
  using assms source_ext [of "voltage_sources ckt" "devices ckt" is_vsource d]
    source_ext [of "current_sources ckt" "devices ckt" is_isource d]
  unfolding wf_def add_device_def by simp_all

definition below :: "circuit \<Rightarrow> int \<Rightarrow> bool" where
  "below ckt n \<longleftrightarrow> n < int (nodes ckt)"

lemma wf_ckt_v:
  assumes "wf ckt" "below ckt n1" "below ckt n2" and "ckt_v n1 n2 v name ckt = Some c'"
  shows "wf c'"
proof -
  obtain b c1 where c1: "node None T_CURRENT ckt = (b, c1)" by fastforce
  from wf_node [OF assms(1) c1] have w: "wf c1" "nat b < nodes c1" "nodes c1 = Suc (nodes ckt)" by auto
  obtain src where src: "c' = add_device (VSource src n1 n2 (nat b)) name
      (c1\<lparr>voltage_sources := voltage_sources c1 @ [length (devices c1)]\<rparr>)"
    using assms(4) c1 by (auto simp: ckt_v_def new_VSource_def split: option.splits)
  show ?thesis
    using w assms(2,3) unfolding src by (intro wf_list_source(1)) (simp_all add: below_def is_vsource_def)
qed

lemma wf_ckt_i:
  assumes "wf ckt" "below ckt n1" "below ckt n2" and "ckt_i n1 n2 v name ckt = Some c'"
  shows "wf c'"
proof -
  obtain src where src: "c' = add_device (ISource src n1 n2) name
      (ckt\<lparr>current_sources := current_sources ckt @ [length (devices ckt)]\<rparr>)"
    using assms(4) by (auto simp: ckt_i_def new_ISource_def split: option.splits)
  show ?thesis
    using assms(1-3) unfolding src by (intro wf_list_source(2)) (simp_all add: below_def is_isource_def)
qed

lemma wf_ckt_r:
  assumes "wf ckt" "below ckt n1" "below ckt n2" and "ckt_r n1 n2 v name ckt = Some c'"
  shows "wf c'"
  using assms wf_ckt_v [OF assms(1-3), of "''0''" name c']
  by (auto simp: ckt_r_def new_Resistor_def below_def intro!: wf_add_device split: option.splits if_splits)

lemma wf_simple:
  assumes "wf ckt" "below ckt n0" "below ckt n1" "below ckt n2" "below ckt n3"
  shows "wf (ckt_d n0 n1 area ty name ckt)" "wf (ckt_c n0 n1 v name ckt)" "wf (ckt_fet is_n n0 n1 n2 ratio name ckt)"
    "wf (ckt_l n0 n1 v name ckt)" "wf (ckt_opamp n0 n1 n2 n3 A name ckt)"
proof -
  obtain b c1 where c1: "node None T_CURRENT ckt = (b, c1)" by fastforce
  from wf_node [OF assms(1) c1] have w: "wf c1" "nat b < nodes c1" "nodes c1 = Suc (nodes ckt)" by auto
  show "wf (ckt_d n0 n1 area ty name ckt)" "wf (ckt_c n0 n1 v name ckt)" "wf (ckt_fet is_n n0 n1 n2 ratio name ckt)"
    using assms by (auto simp: ckt_d_def ckt_c_def ckt_fet_def new_Fet_def below_def intro!: wf_add_device split: option.splits)
  show "wf (ckt_l n0 n1 v name ckt)" "wf (ckt_opamp n0 n1 n2 n3 A name ckt)"
    using assms w c1 by (auto simp: ckt_l_def ckt_opamp_def below_def intro!: wf_add_device split: option.splits)
qed

lemma wf_connect:
  assumes "wf ckt" and "\<forall>i \<in> set js. below ckt i" and "connect ss js (gnd, ckt) = (is', gnd', c')"
  shows "wf c' \<and> (\<forall>i \<in> set is'. below c' i)"
  using assms
proof (induction ss arbitrary: js gnd ckt)
  case (Cons s ss)
  show ?case
  proof (cases "node_map ckt s")
    case None
    obtain i c1 where c1: "node (Some s) T_VOLTAGE ckt = (i, c1)" by fastforce
    from wf_node [OF Cons.prems(1) c1] have w: "wf c1" "i < int (nodes c1)" "nodes c1 = Suc (nodes ckt)" by auto
    then have "\<forall>i \<in> set (i # js). below c1 i" using Cons.prems(2) by (auto simp: below_def)
    from Cons.IH [OF w(1) this, of gnd] Cons.prems(3) None c1 show ?thesis by simp
  next
    case (Some i)
    then have "below ckt i" using Cons.prems(1) by (auto simp: wf_def below_def)
    with Cons.IH [OF Cons.prems(1), of "i # js" "gnd \<or> i = gnd_node"] Cons.prems Some show ?thesis by simp
  qed
qed simp

lemma wf_add_component:
  assumes "wf ckt" and "\<forall>i \<in> set js. below ckt i" and "add_component c js name ckt = Some c'"
  shows "wf c'"
proof -
  have n: "below ckt (conn js k)" for k
    using assms(2) by (auto simp: conn_def gnd_node_def below_def)
  show ?thesis
    using assms(3) n wf_simple [OF assms(1) n n n n] wf_ckt_v [OF assms(1) n n] wf_ckt_i [OF assms(1) n n]
      wf_ckt_r [OF assms(1) n n] assms(1)
    by (auto simp: add_component_def Let_def bind_eq_Some_conv split: if_splits)
qed

lemma wf_load_component:
  assumes "wf ckt" and "load_component c (gnd, ckt) = Some (gnd', c')"
  shows "wf c'"
proof (cases "c_type c \<in> {''view'', ''w'', ''g'', ''s'', ''L''}")
  case True
  with assms show ?thesis by (auto simp: load_component_def)
next
  case False
  then obtain name js g1 c1 where n: "connect (rev (c_conns c)) [] (gnd, ckt) = (js, g1, c1)"
    "add_component c js name c1 = Some c'"
    using assms(2) by (auto simp: load_component_def split: option.splits prod.splits)
  from wf_connect [OF assms(1) _ n(1)] have "wf c1" "\<forall>i \<in> set js. below c1 i" by auto
  from wf_add_component [OF this n(2)] show ?thesis .
qed

lemma wf_load_components:
  "load_components cs (gnd, ckt) = Some (gnd', c') \<Longrightarrow> wf ckt \<Longrightarrow> wf c'"
proof (induction cs arbitrary: gnd ckt)
  case (Cons c cs)
  from Cons.prems(1) obtain g1 c1 where c1: "load_component c (gnd, ckt) = Some (g1, c1)"
    "load_components cs (g1, c1) = Some (gnd', c')" by (auto split: option.splits)
  from Cons.IH [OF c1(2) wf_load_component [OF Cons.prems(2) c1(1)]] show ?case .
qed simp

lemma wf_ground_pass: "wf ckt \<Longrightarrow> wf (ground_pass nl ckt)"
proof -
  have "wf ckt \<Longrightarrow> wf (fold (\<lambda>c ckt. if c_type c = ''g'' \<and> c_conns c \<noteq> []
      then ckt\<lparr>node_map := (node_map ckt)(hd (c_conns c) \<mapsto> gnd_node)\<rparr> else ckt) cs ckt)" for cs
  proof (induction cs arbitrary: ckt)
    case (Cons c cs)
    have "wf (ckt\<lparr>node_map := (node_map ckt)(s \<mapsto> gnd_node)\<rparr>)" for s
      using Cons.prems by (auto simp: wf_def nodes_def gnd_node_def)
    with Cons show ?case by simp
  qed simp
  then show "wf ckt \<Longrightarrow> wf (ground_pass nl ckt)" by (simp add: ground_pass_def)
qed

lemma load_netlist_wf_lemma: "load_netlist nl new_circuit = Some (ground, ckt) \<Longrightarrow> wf ckt"
  using wf_load_components wf_ground_pass [OF wf_new] unfolding load_netlist_def by blast



end
