(* ===== verification/CktNewton.thy ===== *)
theory CktNewton
  imports CktNetlist
begin

text \<open>
  The Newton iteration on a linear system. The operating point and a step of the transient analysis
  give \<open>find_solution\<close> a routine that loads the equations; the locale says what such a routine owes
  the iteration when the circuit is linear, and shows that the iteration then ends after at most two
  rounds in the solution of the system.
\<close>

section \<open>Vectors and matrices of the right shape\<close>

lemma shape_mat_make: "shape n m (mat_make n m)"
  by (simp add: shape_def mat_make_def)

lemma dot_zeros: "dot (replicate m 0) x = 0"
proof (induction m arbitrary: x)
  case (Suc m)
  then show ?case by (cases x) simp_all
qed simp

lemma dot_add_right:
  "length x = length r \<Longrightarrow> length y = length r \<Longrightarrow> dot r (map2 (+) x y) = dot r x + dot r y"
proof (induction r arbitrary: x y)
  case (Cons a r)
  then obtain u x' v y' where "x = u # x'" "y = v # y'" by (metis length_Suc_conv)
  with Cons show ?case by (simp add: algebra_simps)
qed simp

lemma dot_self_zero: "dot x x = 0 \<Longrightarrow> x = replicate (length x) 0"
proof (induction x)
  case (Cons a x)
  have "0 \<le> a * a" "0 \<le> dot x x" by (simp, rule dot_self_nonneg)
  with Cons.prems have "a * a = 0" "dot x x = 0" by (simp_all add: add_nonneg_eq_0_iff)
  with Cons.IH show ?case by simp
qed simp

lemma mat_copy_square:
  assumes "shape n n A" "shape n m B" "n \<le> m" "0 < n"
  shows "mat_copy A B = Some (map2 over A B)"
    "n = m \<Longrightarrow> mat_copy A B = Some A"
proof -
  obtain r A' s B' where e: "A = r # A'" "B = s # B'"
    using assms shape_len(1) by (metis Suc_length_conv gr0_conv_Suc)
  have l: "length A = n" "length B = n" "length r = n" "length s = m"
    using assms(1,2) e by (auto simp: shape_def)
  show c: "mat_copy A B = Some (map2 over A B)"
  proof -
    have "cols A = Some n" "cols B = Some m" using e l by simp_all
    then have "mat_copy A B = Some (over (map2 over A B) B)" using l assms(3) by (simp add: mat_copy_def)
    moreover have "over (map2 over A B) B = map2 over A B" using l by (simp add: over_def [of _ B])
    ultimately show ?thesis by simp
  qed
  assume "n = m"
  have "map2 over A B = A"
    using assms(1,2) shape_len [OF assms(1)] shape_len [OF assms(2)] \<open>n = m\<close>
    by (intro nth_equalityI) (simp_all add: over_def)
  with c show "mat_copy A B = Some A" by simp
qed

lemma map2_over_augmented:
  assumes "shape n n A" "shape n (Suc n) B"
  shows "shape n (Suc n) (map2 over A B)" "map butlast (map2 over A B) = A"
proof -
  note a = shape_len [OF assms(1)] and b = shape_len [OF assms(2)]
  show "shape n (Suc n) (map2 over A B)" using a b by (intro shapeI) (simp_all add: over_def)
  show "map butlast (map2 over A B) = A"
    using a b by (intro nth_equalityI) (simp_all add: over_def butlast_append drop_butlast [symmetric] butlast_conv_take)
qed

lemma augmented_nth:
  assumes "shape n (Suc n) M" and "map butlast M = A" and "i < n" and "j < n"
  shows "M ! i ! j = A ! i ! j"
  using assms shape_len [OF assms(1)] by (auto simp: nth_butlast)

section \<open>What the iteration leaves alone\<close>

text \<open>A part of the circuit that neither the loading routine nor the updates of the iteration touch.\<close>

locale framed_load =
  fixes load :: "circuit \<Rightarrow> circuit option"
    and keep :: "circuit \<Rightarrow> 'k"
  assumes load_keep: "load ckt = Some c' \<Longrightarrow> keep c' = keep ckt"
    and update_keep: "keep (ckt\<lparr>matrix := M, solution := x, problem_node := p, soln_max := m\<rparr>) = keep ckt"
begin

lemma keeps [simp]:
  "keep (ckt\<lparr>matrix := M\<rparr>) = keep ckt" "keep (ckt\<lparr>solution := x\<rparr>) = keep ckt"
  "keep (ckt\<lparr>solution := x, problem_node := p\<rparr>) = keep ckt" "keep (raise_max ckt) = keep ckt"
proof -
  show "keep (ckt\<lparr>matrix := M\<rparr>) = keep ckt"
    using update_keep [where ckt = ckt and M = M and x = "solution ckt" and p = "problem_node ckt" and m = "soln_max ckt"] by simp
  show "keep (ckt\<lparr>solution := x\<rparr>) = keep ckt"
    using update_keep [where ckt = ckt and M = "matrix ckt" and x = x and p = "problem_node ckt" and m = "soln_max ckt"] by simp
  show "keep (ckt\<lparr>solution := x, problem_node := p\<rparr>) = keep ckt"
    using update_keep [where ckt = ckt and M = "matrix ckt" and x = x and p = p and m = "soln_max ckt"] by simp
  show "keep (raise_max ckt) = keep ckt"
    using update_keep [where ckt = ckt and M = "matrix ckt" and x = "solution ckt" and p = "problem_node ckt" and m = "soln_max (raise_max ckt)"]
    by (simp add: raise_max_def)
qed

lemma newton_body_keep:
  assumes "newton_body load m s = Some (s', conv)"
  shows "keep (nt_ckt s') = keep (nt_ckt s)"
proof -
  obtain c where c: "load (nt_ckt s) = Some c"
    using assms by (auto simp: newton_body_def split: option.splits)
  obtain s1 where s1: "newton_delta (s\<lparr>nt_ckt := c\<rparr>) = Some s1"
    using assms c by (auto simp: newton_body_def Let_def split: option.splits)
  have upd: "keep (nt_ckt s2) = keep (nt_ckt s1)" if "newton_update (s1\<lparr>compare := cmp\<rparr>) = (s2, small)" for cmp s2 small
    using that by (auto simp: newton_update_def Let_def)
  have "keep (nt_ckt s') = keep (nt_ckt s1)"
    using assms c s1 upd by (auto simp: newton_body_def Let_def split: prod.splits)
  moreover have "keep (nt_ckt s1) = keep c"
    using s1 by (auto simp: newton_delta_def Let_def split: if_splits option.splits)
  ultimately show ?thesis using load_keep [OF c] by simp
qed

lemma newton_loop_keep: "newton_loop load m s = Some (c', r) \<Longrightarrow> keep c' = keep (nt_ckt s)"
proof -
  have "l = load \<longrightarrow> newton_loop l m s = Some (c', r) \<longrightarrow> keep c' = keep (nt_ckt s)" for l
  proof (induction l m s rule: newton_loop.induct)
    case (1 l m s)
    show ?case
    proof (intro impI)
      assume l: "l = load" and res: "newton_loop l m s = Some (c', r)"
      show "keep c' = keep (nt_ckt s)"
      proof (cases "iter s < m")
        case True
        then obtain s' conv where b: "newton_body load m s = Some (s', conv)"
          using res l by (auto simp: newton_loop.simps [of load m s] split: option.splits)
        note keep = newton_body_keep [OF b]
        show ?thesis
        proof (cases conv)
          case True
          then show ?thesis using \<open>iter s < m\<close> b res l keep by (auto simp: newton_loop.simps [of load m s])
        next
          case False
          then have "newton_loop load m (s'\<lparr>iter := iter s' + 1\<rparr>) = Some (c', r)"
            using \<open>iter s < m\<close> b res l by (simp add: newton_loop.simps [of load m s])
          with 1 True b l False keep show ?thesis by fastforce
        qed
      next
        case False
        then show ?thesis using res l by (auto simp: newton_loop.simps [of load m s])
      qed
    qed
  qed
  then show "newton_loop load m s = Some (c', r) \<Longrightarrow> keep c' = keep (nt_ckt s)" by blast
qed

lemma find_solution_keep: "find_solution load m ckt = Some (c', r) \<Longrightarrow> keep c' = keep ckt"
  using newton_loop_keep [of m "start_newton ckt"] by (simp add: find_solution_def start_newton_def)

end

section \<open>The contract of a loading routine\<close>

definition newton_ok :: "circuit \<Rightarrow> bool" where
  "newton_ok ckt \<longleftrightarrow> 0 < n_nodes ckt \<and> shape (n_nodes ckt) (Suc (n_nodes ckt)) (matrix ckt) \<and>
     length (solution ckt) = n_nodes ckt \<and> length (rhs ckt) = n_nodes ckt \<and> length (ntypes ckt) = n_nodes ckt \<and>
     length (soln_max ckt) = n_nodes ckt \<and> length (abstol ckt) = n_nodes ckt \<and>
     (\<forall>i < n_nodes ckt. 0 < abstol ckt ! i \<and> 0 \<le> soln_max ckt ! i)"

lemma abssum_zero:
  "\<forall>k < n_nodes ckt. rhs ckt ! k = 0 \<Longrightarrow> abssum ckt = 0"
proof -
  assume "\<forall>k < n_nodes ckt. rhs ckt ! k = 0"
  then have "map (\<lambda>i. if ntypes ckt ! i = T_VOLTAGE then \<bar>rhs ckt ! i\<bar> else 0) [0 ..< n_nodes ckt]
      = map (\<lambda>i. 0) [0 ..< n_nodes ckt]" by (intro map_cong) auto
  then show ?thesis unfolding abssum_def by (simp only: sum_list_0)
qed

text \<open>The routine \<open>load\<close> puts the matrix \<open>A\<close> and the residual of the system \<open>A x = b\<close> into the
  equations; both depend only on the part \<open>keep\<close> of the circuit that the iteration leaves alone.\<close>

locale linear_load =
  fixes load :: "circuit \<Rightarrow> circuit option"
    and St :: "circuit \<Rightarrow> bool"
    and keep :: "circuit \<Rightarrow> 'k"
    and A :: "circuit \<Rightarrow> mat"
    and b :: "circuit \<Rightarrow> nat \<Rightarrow> real"
  assumes state: "St ckt \<Longrightarrow> newton_ok ckt \<and> shape (n_nodes ckt) (n_nodes ckt) (A ckt)"
    and load: "St ckt \<Longrightarrow> \<exists>c'. load ckt = Some c' \<and> St c' \<and> keep c' = keep ckt \<and>
        solution c' = solution ckt \<and> map butlast (matrix c') = A ckt \<and>
        (\<forall>k < n_nodes ckt. rhs c' ! k = b ckt k - dot (A ckt ! k) (solution ckt))"
    and update: "St ckt \<Longrightarrow> shape (n_nodes ckt) (Suc (n_nodes ckt)) M \<Longrightarrow> length x = n_nodes ckt \<Longrightarrow>
        St (ckt\<lparr>matrix := M, solution := x, problem_node := p\<rparr>) \<and>
        keep (ckt\<lparr>matrix := M, solution := x, problem_node := p\<rparr>) = keep ckt"
    and raise: "St ckt \<Longrightarrow> St (raise_max ckt) \<and> keep (raise_max ckt) = keep ckt"
    and keeps: "keep c1 = keep c2 \<Longrightarrow> A c1 = A c2 \<and> b c1 = b c2 \<and> n_nodes c1 = n_nodes c2"
begin

lemma solved_load:
  assumes "St ckt" and "\<forall>k < n_nodes ckt. b ckt k = dot (A ckt ! k) (solution ckt)"
  shows "abssum (the (load ckt)) = 0"
proof -
  from load [OF assms(1)] obtain c' where c': "load ckt = Some c'" "keep c' = keep ckt"
    "\<forall>k < n_nodes ckt. rhs c' ! k = b ckt k - dot (A ckt ! k) (solution ckt)" by blast
  with keeps [OF c'(2)] assms(2) show ?thesis by (simp add: abssum_zero)
qed

text \<open>A round without limiting adds the solution of the system for the residual.\<close>

lemma newton_body_linear:
  assumes "St (nt_ckt s)" and "rq_rank (A (nt_ckt s)) = n_nodes (nt_ckt s)"
    and "use_limiting s = False" and "iter s = 0 \<or> \<not> abssum_old s < abssum (the (load (nt_ckt s)))"
  shows "\<exists>s' conv x. newton_body load m s = Some (s', conv) \<and> St (nt_ckt s') \<and>
    keep (nt_ckt s') = keep (nt_ckt s) \<and> iter s' = iter s \<and> use_limiting s' = False \<and> 0 \<le> abssum_old s' \<and>
    length x = n_nodes (nt_ckt s) \<and>
    (\<forall>k < n_nodes (nt_ckt s). dot (A (nt_ckt s) ! k) x = b (nt_ckt s) k - dot (A (nt_ckt s) ! k) (solution (nt_ckt s))) \<and>
    solution (nt_ckt s') = map2 (+) (solution (nt_ckt s)) x \<and>
    ((\<forall>k < n_nodes (nt_ckt s). b (nt_ckt s) k = dot (A (nt_ckt s) ! k) (solution (nt_ckt s))) \<longrightarrow>
       conv \<and> x = replicate (n_nodes (nt_ckt s)) 0)"
proof -
  let ?ckt = "nt_ckt s" and ?A = "A (nt_ckt s)"
  define n where "n = n_nodes ?ckt"
  from load [OF assms(1)] obtain c1 where c1: "load ?ckt = Some c1" "St c1" "keep c1 = keep ?ckt"
    "solution c1 = solution ?ckt" "map butlast (matrix c1) = ?A"
    "\<forall>k < n. rhs c1 ! k = b ?ckt k - dot (?A ! k) (solution ?ckt)" unfolding n_def by blast
  have n1: "n_nodes c1 = n" using keeps [OF c1(3)] by (simp add: n_def)
  have sh: "0 < n" "shape n (Suc n) (matrix c1)" "length (rhs c1) = n" "length (solution c1) = n"
    "length (ntypes c1) = n" "shape n n ?A"
    using state [OF c1(2)] state [OF assms(1)] n1 by (auto simp: newton_ok_def n_def)
  have "length (matrix c1) = n" "\<forall>r \<in> set (matrix c1). length r = n + 1" using sh(2) by (auto simp: shape_def)
  from mat_solve_rq_min_norm [OF this(1) sh(1) this(2) sh(3)] obtain x M where
    x: "mat_solve_rq (matrix c1) (Some (rhs c1)) = Some (x, M)" by blast
  note q = rq_spec [OF sh(2,1,3) x]
  have rk: "rq_rank (map butlast (matrix c1)) = n" using c1(5) assms(2) by (simp add: n_def)
  have Ax: "dot (?A ! k) x = rhs c1 ! k" if k: "k < n" for k
  proof -
    have "length (?A ! k) = length x" using shape_len(2) [OF sh(6) k] q(1) by simp
    then have "dot (?A ! k) x = (\<Sum>j < n. ?A ! k ! j * x ! j)"
      using shape_len(2) [OF sh(6) k] by (simp add: dot_nth)
    also have "\<dots> = (\<Sum>j < n. matrix c1 ! k ! j * x ! j)"
      using augmented_nth [OF sh(2) c1(5) k] by (intro sum.cong) auto
    also have "\<dots> = rhs c1 ! k" by (rule q(3) [OF rk k])
    finally show ?thesis .
  qed
  define a where "a = abssum c1"
  have a0: "0 \<le> a" unfolding a_def abssum_def by (intro sum_list_nonneg) auto
  have "\<not> (0 < iter s \<and> abssum_old s < a)" using assms(4) c1(1) by (auto simp: a_def)
  then obtain s1 where s1: "newton_delta (s\<lparr>nt_ckt := c1\<rparr>) = Some s1" "nt_ckt s1 = c1\<lparr>matrix := M\<rparr>"
    "d_sol s1 = x" "abssum_old s1 = a" "use_limiting s1 = False" "iter s1 = iter s" "compare s1 = compare s"
    using x assms(3) by (auto simp: newton_delta_def Let_def a_def)
  have ds: "map2 (limit False) (ntypes c1) x = x"
    using sh(5) q(1) by (intro nth_equalityI) (simp_all add: limit_def)
  define cmp where "cmp = (if iter s1 = 0 \<or> a > compare s1 then a else compare s1)"
  obtain s2 small where s2: "newton_update (s1\<lparr>compare := cmp\<rparr>) = (s2, small)" by fastforce
  let ?big = "filter (\<lambda>i. \<bar>x ! i\<bar> > abstol c1 ! i + reltol * soln_max c1 ! i) [0 ..< n]"
  have upd: "nt_ckt s2 = c1\<lparr>matrix := M, solution := map2 (+) (solution c1) x,
      problem_node := (if ?big = [] then problem_node c1 else Some (hd ?big))\<rparr>"
    "small = (?big = [])" "iter s2 = iter s" "use_limiting s2 = False" "abssum_old s2 = a"
    using s2 s1 ds n1 by (auto simp: newton_update_def Let_def)
  define ok where "ok = (\<not> (iter s1 + 1 < m \<and> a > res_check_abs + res_check_rel * cmp))"
  have body: "newton_body load m s = Some (s2, ok \<and> small)"
    using c1(1) s1(1) s2 by (simp add: newton_body_def Let_def flip: a_def cmp_def) (simp add: ok_def)
  have ls: "St (nt_ckt s2) \<and> keep (nt_ckt s2) = keep ?ckt"
    using update [OF c1(2)] q(1,4) sh(4) n1 c1(3) by (simp add: upd(1))
  have zero: "ok \<and> small \<and> x = replicate n 0"
    if z: "\<forall>k < n. b ?ckt k = dot (?A ! k) (solution ?ckt)"
  proof -
    have r0: "\<forall>k < n. rhs c1 ! k = 0" using c1(6) z by simp
    then have "a = 0" using abssum_zero [of c1] n1 by (simp add: a_def)
    moreover have "0 \<le> res_check_abs" "0 \<le> res_check_rel"
      by (simp_all add: res_check_abs_def res_check_rel_def i_abstol_def reltol_def)
    moreover have "0 \<le> cmp" using \<open>a = 0\<close> by (simp add: cmp_def)
    ultimately have ok: "ok" by (simp add: ok_def add_nonneg_nonneg not_less)
    have "\<forall>i < n. (\<Sum>j < n. matrix c1 ! i ! j * replicate n 0 ! j) = rhs c1 ! i" using r0 by simp
    from q(2) [OF _ this] have "dot x x \<le> 0" by (simp add: dot_zeros)
    with dot_self_nonneg [of x] have "dot x x = 0" by simp
    then have x0: "x = replicate n 0" using dot_self_zero q(1) by metis
    have "0 < abstol c1 ! i + reltol * soln_max c1 ! i" if "i < n" for i
      using state [OF c1(2)] n1 that by (simp add: newton_ok_def reltol_def add_pos_nonneg)
    then have "?big = []" by (auto simp: x0 filter_empty_conv not_less less_imp_le)
    with ok x0 upd(2) show ?thesis by simp
  qed
  show ?thesis
    using body ls upd q(1) Ax c1(4,6) a0 zero
    by (intro exI [of _ s2] exI [of _ "ok \<and> small"] exI [of _ x]) (auto simp flip: n_def)
qed

text \<open>From any starting point the iteration takes at most two rounds.\<close>

lemma find_solution_linear:
  assumes "St ckt" and "rq_rank (A ckt) = n_nodes ckt" and "2 \<le> m"
  shows "\<exists>c' k. find_solution load m ckt = Some (c', Some k) \<and> k \<le> 2 \<and> St c' \<and> keep c' = keep ckt \<and>
    (\<forall>k < n_nodes ckt. dot (A ckt ! k) (solution c') = b ckt k)"
proof -
  let ?s = "start_newton ckt" and ?n = "n_nodes ckt"
  have s0: "nt_ckt ?s = ckt" "use_limiting ?s = False" "iter ?s = 0" by (simp_all add: start_newton_def)
  from newton_body_linear [of ?s m] assms(1,2) s0 obtain s1 conv x where
    t: "newton_body load m ?s = Some (s1, conv)" "St (nt_ckt s1)" "keep (nt_ckt s1) = keep ckt" "iter s1 = 0"
    "use_limiting s1 = False" "0 \<le> abssum_old s1" "length x = ?n"
    "\<forall>k < ?n. dot (A ckt ! k) x = b ckt k - dot (A ckt ! k) (solution ckt)"
    "solution (nt_ckt s1) = map2 (+) (solution ckt) x"
    by auto
  note k1 = keeps [OF t(3)]
  have ls: "length (solution ckt) = ?n" "shape ?n ?n (A ckt)" using state [OF assms(1)] by (auto simp: newton_ok_def)
  have sol: "\<forall>k < ?n. dot (A ckt ! k) (solution (nt_ckt s1)) = b ckt k"
    using t(7-9) ls shape_len(2) [OF ls(2)] by (simp add: dot_add_right)
  show ?thesis
  proof (cases conv)
    case True
    then have "find_solution load m ckt = Some (raise_max (nt_ckt s1), Some 1)"
      using t(1,4) assms(3) s0 by (simp add: find_solution_def newton_loop.simps [of load m ?s])
    moreover have "solution (raise_max (nt_ckt s1)) = solution (nt_ckt s1)" by (simp add: raise_max_def)
    ultimately show ?thesis using raise [OF t(2)] t(3) sol by auto
  next
    case False
    let ?s1 = "s1\<lparr>iter := Suc 0\<rparr>"
    have f: "find_solution load m ckt = newton_loop load m ?s1"
      using t(1,4) assms(3) s0 False by (simp add: find_solution_def newton_loop.simps [of load m ?s])
    have "abssum (the (load (nt_ckt s1))) = 0" using solved_load [OF t(2)] sol k1 by simp
    then have "\<not> abssum_old ?s1 < abssum (the (load (nt_ckt ?s1)))" using t(6) by simp
    with newton_body_linear [of ?s1 m] t(2,5) assms(2) k1 obtain s2 conv2 y where
      u: "newton_body load m ?s1 = Some (s2, conv2)" "St (nt_ckt s2)" "keep (nt_ckt s2) = keep ckt" "iter s2 = 1"
      "solution (nt_ckt s2) = map2 (+) (solution (nt_ckt s1)) y" "conv2" "y = replicate ?n 0"
      using sol t(3) by auto
    have sy: "solution (nt_ckt s2) = solution (nt_ckt s1)"
      using u(5,7) t(7,9) ls(1) by (auto intro!: nth_equalityI)
    have "find_solution load m ckt = Some (raise_max (nt_ckt s2), Some 2)"
      using f u(1,4,6) assms(3) by (simp add: newton_loop.simps [of load m ?s1])
    moreover have "solution (raise_max (nt_ckt s2)) = solution (nt_ckt s2)" by (simp add: raise_max_def)
    ultimately show ?thesis using raise [OF u(2)] u(3) sol sy by auto
  qed
qed

end

end
