(* ===== verification/CktDc.thy ===== *)
theory CktDc
  imports CktNewton
begin

text \<open>
  The operating point of a linear circuit: \<open>dc\<close> converges, and the solution it leaves satisfies
  Kirchhoff's current law at every node and the law of every device.
\<close>

section \<open>Loading a linear circuit\<close>

text \<open>A circuit with linear devices between two iterations, and the part of it that they leave alone.\<close>

definition linear_ckt :: "circuit \<Rightarrow> bool" where
  "linear_ckt ckt \<longleftrightarrow> newton_ok ckt \<and> shape (n_nodes ckt) (n_nodes ckt) (Gl ckt) \<and>
     shape (n_nodes ckt) (n_nodes ckt) (G ckt) \<and>
     (\<forall>d \<in> set (devices ckt). \<not> nonlinear d \<and> device_ok (n_nodes ckt) d \<and> source_finite src_dc d)"

definition dc_keep :: "circuit \<Rightarrow> nat \<times> device list \<times> mat \<times> (string \<Rightarrow> int option)" where
  "dc_keep ckt = (n_nodes ckt, devices ckt, Gl ckt, node_map ckt)"

definition dc_rhs :: "circuit \<Rightarrow> nat \<Rightarrow> real" where
  "dc_rhs ckt k = (\<Sum>d\<leftarrow>devices ckt. source_row src_dc d k)"

lemma load_dc_linear:
  assumes "linear_ckt ckt"
  shows "\<exists>c'. load_dc_ckt ckt = Some c' \<and> linear_ckt c' \<and> dc_keep c' = dc_keep ckt \<and>
    solution c' = solution ckt \<and> map butlast (matrix c') = Gl ckt \<and>
    (\<forall>k < n_nodes ckt. rhs c' ! k = dc_rhs ckt k - dot (Gl ckt ! k) (solution ckt))"
proof -
  let ?A = "Gl ckt" and ?ds = "devices ckt"
  define n where "n = n_nodes ckt"
  have s: "0 < n" "shape n n ?A" "shape n n (G ckt)" "shape n (Suc n) (matrix ckt)"
    "length (solution ckt) = n" "length (rhs ckt) = n"
    "\<forall>d \<in> set ?ds. \<not> nonlinear d \<and> device_ok n d \<and> source_finite src_dc d"
    using assms by (auto simp: linear_ckt_def newton_ok_def n_def)
  obtain r A' where e: "?A = r # A'" using s(1,2) shape_len(1) by (metis Suc_length_conv gr0_conv_Suc)
  have la: "length ?A = n" "length r = n" using s(2) e by (auto simp: shape_def)
  let ?r = "map (\<lambda>r. -1 * dot r (solution ckt)) ?A"
  have mult: "mat_v_mult ?A (solution ckt) (rhs ckt) (-1) = Some ?r"
    using la s by (simp add: mat_v_mult_def e)
  have "\<forall>d \<in> set ?ds. \<not> nonlinear d \<and> device_ok (length ?r) d \<and> source_finite src_dc d"
    using s(7) la by simp
  from load_points_linear [OF this, of "solution ckt" ?A] obtain r' where
    r': "load_points src_dc ?ds (solution ckt) (?A, ?r) = Some (?ds, ?A, r')" "length r' = n"
    "\<forall>k < n. r' ! k = ?r ! k + (\<Sum>d\<leftarrow>?ds. source_row src_dc d k)" using la by auto
  let ?M = "map2 over ?A (matrix ckt)"
  have cp: "mat_copy ?A (G ckt) = Some ?A" "mat_copy ?A (matrix ckt) = Some ?M"
    using mat_copy_square [OF s(2,3) order_refl s(1)] mat_copy_square [OF s(2,4) _ s(1)] by simp_all
  note ov = map2_over_augmented [OF s(2,4)]
  let ?c = "ckt\<lparr>devices := ?ds, G := ?A, rhs := r', matrix := ?M\<rparr>"
  have "load_dc_ckt ckt = Some ?c"
    using mult cp r'(1) by (simp add: load_dc_ckt_def)
  moreover have "linear_ckt ?c"
    using assms ov(1) r'(2) s by (simp add: linear_ckt_def newton_ok_def n_def)
  ultimately show ?thesis using ov(2) r'(3) la
    by (intro exI [of _ ?c]) (simp add: dc_keep_def dc_rhs_def n_def)
qed

text \<open>Whatever the devices, the iteration leaves these parts alone.\<close>

definition dc_frame :: "circuit \<Rightarrow> nat \<times> mat \<times> mat \<times> (string \<Rightarrow> int option) \<times> transient" where
  "dc_frame ckt = (n_nodes ckt, Gl ckt, C ckt, node_map ckt, tr ckt)"

interpretation df: framed_load load_dc_ckt dc_frame
proof (unfold_locales, goal_cases)
  case (1 ckt c')
  then show ?case by (auto simp: load_dc_ckt_def dc_frame_def split: option.splits)
qed (simp add: dc_frame_def)

interpretation op: linear_load load_dc_ckt linear_ckt dc_keep Gl dc_rhs
proof (unfold_locales, goal_cases)
  case (1 ckt)
  then show ?case by (simp add: linear_ckt_def)
next
  case (2 ckt)
  then show ?case by (rule load_dc_linear)
next
  case (3 ckt M x p)
  then show ?case by (simp add: linear_ckt_def newton_ok_def dc_keep_def)
next
  case (4 ckt)
  then show ?case by (auto simp: linear_ckt_def newton_ok_def raise_max_def dc_keep_def)
next
  case (5 c1 c2)
  then show ?case by (simp add: dc_keep_def dc_rhs_def fun_eq_iff)
qed

section \<open>The operating point\<close>

lemma finalize_linear:
  assumes "wf ckt" and "\<forall>d \<in> set (devices ckt). \<not> nonlinear d \<and> source_finite src_dc d" and "0 < nodes ckt"
    and "finalize ckt = Some (legal, c1)"
  shows "linear_ckt c1 \<and> n_nodes c1 = nodes ckt \<and> devices c1 = devices ckt \<and> shape (nodes ckt) (nodes ckt) (C c1) \<and>
    (\<forall>k < nodes ckt. \<forall>x. length x = nodes ckt \<longrightarrow>
      dot (Gl c1 ! k) x = (\<Sum>d\<leftarrow>devices ckt. device_row d x k))"
proof -
  let ?n = "nodes ckt"
  have nf: "\<not> finalized ckt" using assms(1) by (simp add: wf_def)
  let ?s = "set_up ckt"
  have s: "devices ?s = devices ckt" "Gl ?s = mat_make ?n ?n" "C ?s = mat_make ?n ?n"
    "n_nodes ?s = ?n" "voltage_sources ?s = voltage_sources ckt"
    by (simp_all add: set_up_def Let_def nodes_def)
  obtain A B where ll: "load_linears (rev (devices ckt)) (mat_make ?n ?n, mat_make ?n ?n) = Some (A, B)"
    and c1: "c1 = ?s\<lparr>Gl := A, C := B\<rparr>"
    using assms(4) nf s by (auto simp: finalize_def Let_def split: option.splits if_splits)
  have ok: "\<forall>d \<in> set (rev (devices ckt)). device_ok ?n d" using assms(1) by (simp add: wf_def)
  from load_linears_row [OF ll shape_mat_make shape_mat_make ok] have sh: "shape ?n ?n A" "shape ?n ?n B"
    and row: "\<And>k x. k < ?n \<Longrightarrow> length x = ?n \<Longrightarrow>
      dot (A ! k) x = dot (mat_make ?n ?n ! k) x + (\<Sum>d\<leftarrow>rev (devices ckt). device_row d x k)" by auto
  have rv: "(\<Sum>d\<leftarrow>rev ds. f d) = (\<Sum>d\<leftarrow>ds. f d)" for f :: "device \<Rightarrow> real" and ds
    by (simp flip: rev_map)
  have rows: "dot (A ! k) x = (\<Sum>d\<leftarrow>devices ckt. device_row d x k)" if "k < ?n" "length x = ?n" for k x
    using row [OF that] that(1) by (simp add: mat_make_def dot_zeros rv)
  have "newton_ok c1"
    using assms(1,3) unfolding c1 newton_ok_def
    by (auto simp: set_up_def Let_def nodes_def wf_def shape_mat_make v_abstol_def i_abstol_def)
  moreover have "G c1 = mat_make ?n ?n" by (simp add: c1 set_up_def Let_def nodes_def)
  ultimately have "linear_ckt c1"
    using sh assms(1,2) by (auto simp: linear_ckt_def c1 s shape_mat_make wf_def)
  then show ?thesis using rows sh(2) by (simp add: c1 s)
qed

lemma dc_linear:
  assumes "wf ckt" and "\<forall>d \<in> set (devices ckt). \<not> nonlinear d \<and> source_finite src_dc d" and "0 < nodes ckt"
    and "finalize ckt = Some (True, c1)" and "rq_rank (Gl c1) = nodes ckt"
  shows "\<exists>c. dc ckt = Some (c, Some (dc_result c)) \<and> linear_ckt c \<and> dc_keep c = dc_keep c1 \<and> dc_frame c = dc_frame c1 \<and>
    (\<forall>k < nodes ckt. dot (Gl c1 ! k) (solution c) = dc_rhs c1 k)"
proof -
  from finalize_linear [OF assms(1-4)] have ls: "linear_ckt c1" "n_nodes c1 = nodes ckt" by auto
  from op.find_solution_linear [OF ls(1), of dc_max_iters] assms(5) ls(2) obtain c2 k where
    f: "find_solution load_dc_ckt dc_max_iters c1 = Some (c2, Some k)" "linear_ckt c2" "dc_keep c2 = dc_keep c1"
    "\<forall>k < nodes ckt. dot (Gl c1 ! k) (solution c2) = dc_rhs c1 k"
    by (auto simp: dc_max_iters_def)
  let ?c = "c2\<lparr>diddc := True\<rparr>"
  have "dc ckt = Some (?c, Some (dc_result ?c))"
    using assms(4) f(1) by (simp add: dc_def Let_def)
  moreover have "linear_ckt ?c" using f(2) by (simp add: linear_ckt_def newton_ok_def)
  moreover have "dc_keep ?c = dc_keep c1" "dc_frame ?c = dc_frame c1"
    using f(3) df.find_solution_keep [OF f(1)] by (simp_all add: dc_keep_def dc_frame_def)
  ultimately show ?thesis using f(4) by (intro exI [of _ ?c]) simp
qed

text \<open>C2. The operating point of a linear circuit loaded from a netlist is a solution of the circuit:
  when the setup finds no loop of voltage sources and no equation is redundant, \<open>dc\<close> returns a
  result, and in the solution it leaves the currents that leave each node sum to what the sources
  drive into it, and each branch obeys the law of its device.\<close>

theorem dc_operating_point:
  assumes "load_netlist nl new_circuit = Some (ground, ckt)" and "finalize ckt = Some (True, c1)"
    and "\<forall>d \<in> set (devices ckt). \<not> nonlinear d \<and> source_finite src_dc d"
    and "0 < nodes ckt" and "rq_rank (Gl c1) = nodes ckt"
  shows "\<exists>c2 res. dc ckt = Some (c2, Some res) \<and>
    (\<forall>k < nodes ckt. (\<Sum>d\<leftarrow>devices ckt. device_row d (solution c2) k) = (\<Sum>d\<leftarrow>devices ckt. source_row src_dc d k)) \<and>
    res = dc_result c2 \<and> length (solution c2) = nodes ckt"
proof -
  have "wf ckt" by (rule load_netlist_wf_lemma [OF assms(1)])
  note fin = finalize_linear [OF this assms(3,4,2)]
  from dc_linear [OF \<open>wf ckt\<close> assms(3,4,2,5)] obtain c where
    c: "dc ckt = Some (c, Some (dc_result c))" "linear_ckt c" "dc_keep c = dc_keep c1"
    "\<forall>k < nodes ckt. dot (Gl c1 ! k) (solution c) = dc_rhs c1 k" by blast
  have len: "length (solution c) = nodes ckt"
    using c(2,3) fin by (simp add: linear_ckt_def newton_ok_def dc_keep_def)
  with c fin show ?thesis by (intro exI [of _ c]) (simp add: dc_rhs_def)
qed

text \<open>A source of 5 volts across a resistor of 0.75 ohms.\<close>

definition props_of :: "(string \<times> string) list \<Rightarrow> string \<Rightarrow> string option" where
  "props_of = map_of"

definition demo_netlist :: "component list" where
  "demo_netlist =
     [\<lparr>c_type = ''g'', c_props = props_of [], c_conns = [''0'']\<rparr>,
      \<lparr>c_type = ''r'', c_props = props_of [(''name'', ''R''), (''r'', ''0.75'')], c_conns = [''1'', ''0'']\<rparr>,
      \<lparr>c_type = ''v'', c_props = props_of [(''name'', ''V''), (''value'', ''5'')], c_conns = [''1'', ''0'']\<rparr>]"

definition demo_source :: source where
  "demo_source = \<lparr>src_fun = ''dc'', src_args = [Fin 5], src_wave = Const (Fin 5), src_period = Fin 0, src_dc = Fin 5\<rparr>"

definition demo_devices :: "device list" where
  "demo_devices = [VSource demo_source 0 (-1) 1, Resistor 0 (-1) (4 / 3)]"

lemma demo_parse: "parse_number ''0.75'' None = Some (3 / 4)" "parse_source ''5'' = Some demo_source"
proof -
  have t: "nat_text 0 = ''0''" "nat_text 5 = ''5''" by (simp_all add: nat_text.simps digit_char_def)
  show "parse_number ''0.75'' None = Some (3 / 4)"
    by (simp add: parse_number_def parse_unsigned_def parse_decimal_def ord_def dec_digit_def Let_def apply_scale_def)
  have "parse_number ''5'' (Some 0) = Some 5"
    by (simp add: parse_number_def parse_unsigned_def parse_decimal_def ord_def dec_digit_def Let_def apply_scale_def)
  then show "parse_source ''5'' = Some demo_source"
    by (simp add: parse_source_def split_source_def index_from_def source_of_def arg_value_def demo_source_def wave_value_def)
qed

lemma demo_load:
  "\<exists>ckt. load_netlist demo_netlist new_circuit = Some (True, ckt) \<and> devices ckt = demo_devices \<and>
     node_index ckt = 1 \<and> ntypes ckt = [T_VOLTAGE, T_CURRENT] \<and> voltage_sources ckt = [0] \<and> \<not> finalized ckt \<and> \<not> diddc ckt"
  by (simp add: load_netlist_def demo_netlist_def ground_pass_def new_circuit_def load_component_def comp_name_def
      props_of_def gnd_node_def node_def conn_def add_component_def ckt_v_def new_VSource_def demo_parse add_device_def
      ckt_r_def new_Resistor_def demo_devices_def)

lemma demo_matrix:
  "load_linears (rev demo_devices) (mat_make 2 2, mat_make 2 2) = Some ([[4 / 3, 1], [1, 0]], mat_make 2 2)"
  by (simp add: demo_devices_def add_entry_def add_two_terminal_def add_at_def mat_make_def numeral_2_eq_2 Let_def)

lemma demo_rank: "mat_rank [[1, 0]] = Some 1"
  by (simp add: mat_rank_def rank_step_def rank_row.simps max_abs_entry_def eps_def)

lemma demo_rq: "rq_rank [[4 / 3, 1], [1, 0]] = 2"
proof -
  have s: "sqrt (25 / 9) = 5 / 3" "sqrt (9 / 25) = 3 / 5"
    by (rule real_sqrt_unique; simp add: power2_eq_square)+
  have "rq_rows 0 None [[4 / 3, 1, 0], [1, 0, 0]] = rq_rows 1 (Some (5 / 3)) [[4 / 5, 3 / 5, 0], [9 / 25, - 12 / 25, 0]]"
    by (subst rq_rows.simps) (simp add: sumsq_def s eps_def project_out_def)
  also have "snd \<dots> = 2"
    by (subst rq_rows.simps) (simp add: sumsq_def s eps_def rq_rows.simps [of "Suc (Suc 0)"])
  finally show ?thesis by (simp add: rq_rank_def)
qed

lemma dc_operating_point_witness:
  "\<exists>ckt c2. load_netlist demo_netlist new_circuit = Some (True, ckt) \<and> dc ckt = Some (c2, Some (dc_result c2)) \<and>
     solution c2 ! 0 = 5 \<and> solution c2 ! 1 = - 20 / 3"
proof -
  from demo_load obtain ckt where ckt: "load_netlist demo_netlist new_circuit = Some (True, ckt)"
    "devices ckt = demo_devices" "node_index ckt = 1" "ntypes ckt = [T_VOLTAGE, T_CURRENT]"
    "voltage_sources ckt = [0]" "\<not> finalized ckt" by blast
  have n: "nodes ckt = 2" using ckt(3) by (simp add: nodes_def)
  let ?c1 = "(set_up ckt)\<lparr>Gl := [[4 / 3, 1], [1, 0]], C := mat_make 2 2\<rparr>"
  have fin: "finalize ckt = Some (True, ?c1)"
    using ckt demo_matrix demo_rank
    by (simp add: finalize_def Let_def set_up_def source_rows_def demo_devices_def branch_of_def)
  have "\<forall>d \<in> set (devices ckt). \<not> nonlinear d \<and> source_finite src_dc d"
    by (simp add: ckt(2) demo_devices_def source_finite_def demo_source_def)
  from dc_operating_point [OF ckt(1) fin this] n demo_rq obtain c2 where
    c2: "dc ckt = Some (c2, Some (dc_result c2))"
    "\<forall>k < 2. (\<Sum>d\<leftarrow>demo_devices. device_row d (solution c2) k) = (\<Sum>d\<leftarrow>demo_devices. source_row src_dc d k)"
    by (auto simp: ckt(2))
  from c2(2) have "solution c2 ! 1 + 4 / 3 * solution c2 ! 0 = 0" "solution c2 ! 0 = 5"
    by (auto simp: demo_devices_def demo_source_def volt_def dest: spec [of _ "0::nat"] spec [of _ "1::nat"])
  with ckt(1) c2(1) show ?thesis by auto
qed

end
