(* ===== verification/CktTran.thy ===== *)
theory CktTran
  imports CktNetlist
begin

text \<open>
  The transient analysis \<open>tran\<close> of \<open>capa/schematic.js\<close>: the trapezoidal rule with a step chosen from the
  local truncation error. Vectors that the code allocates without filling hold zeros here: what it
  computes from such entries is overwritten before it is read.
\<close>

definition time_step_increase_factor :: real where "time_step_increase_factor = 2"
definition lte_step_decrease_factor :: real where "lte_step_decrease_factor = 8"
definition nr_step_decrease_factor :: real where "nr_step_decrease_factor = 4"
definition lterel :: real where "lterel = 10"

abbreviation tr_upd :: "(transient \<Rightarrow> transient) \<Rightarrow> circuit \<Rightarrow> circuit" where
  "tr_upd f ckt \<equiv> ckt\<lparr>tr := f (tr ckt)\<rparr>"

section \<open>The equations of a step\<close>

text \<open>\<open>-rhs = c - dqdt\<close>, and the matrix \<open>beta0*G + alpha0*C\<close>.\<close>

definition tran_rhs :: "nat \<Rightarrow> transient \<Rightarrow> vec" where
  "tran_rhs n t = map (\<lambda>i.
     let dqdt = alpha0 t * chg t ! i + alpha1 t * oldq t ! i + alpha2 t * old2q t ! i
     in beta0 t ! i * cur t ! i + beta1 t ! i * oldc t ! i - dqdt) [0 ..< n]"

definition load_tran_ckt :: "circuit \<Rightarrow> circuit option" where
  "load_tran_ckt ckt =
     (let t = tr ckt in
      case (mat_v_mult (Gl ckt) (solution ckt) (cur t) (- 1), mat_copy (Gl ckt) (G ckt)) of
        (Some c0, Some G0) \<Rightarrow>
          (case (load_points (\<lambda>src. wave_value (src_wave src) (now t)) (devices ckt) (solution ckt) (G0, c0),
                 mat_v_mult (C ckt) (solution ckt) (chg t) 1) of
             (Some (ds, G1, c1), Some q) \<Rightarrow>
               (let t1 = t\<lparr>cur := c1, chg := q\<rparr> in
                case mat_scale_add G1 (C ckt) (Rows (beta0 t)) (Scalar (alpha0 t)) (matrix ckt) of
                  None \<Rightarrow> None
                | Some M \<Rightarrow>
                    Some (ckt\<lparr>devices := ds, G := G1, rhs := tran_rhs (n_nodes ckt) t1, matrix := M, tr := t1\<rparr>))
           | _ \<Rightarrow> None)
      | _ \<Rightarrow> None)"

section \<open>Choosing the step\<close>

definition interp_coeffs :: "real \<Rightarrow> real \<Rightarrow> real \<Rightarrow> real \<Rightarrow> real \<times> real \<times> real" where
  "interp_coeffs t t0 t1 t2 =
     (((t - t1) * (t - t2)) / ((t0 - t1) * (t0 - t2)),
      ((t - t0) * (t - t2)) / (- (t0 - t1) * (t1 - t2)),
      ((t - t0) * (t - t1)) / ((t0 - t2) * (t1 - t2)))"

definition lte_ratio :: "circuit \<Rightarrow> nat \<Rightarrow> real" where
  "lte_ratio ckt i =
     (let t = tr ckt; (p0, p1, p2) = interp_coeffs (now t) (oldt t) (old2t t) (old3t t);
          trapcoeff = 1 / 2 * (now t - oldt t) / (now t - old3t t);
          pred = p0 * oldsol t ! i + p1 * old2sol t ! i + p2 * old3sol t ! i;
          lte = \<bar>solution ckt ! i - pred\<bar> * trapcoeff
      in lte / (lterel * (abstol ckt ! i + reltol * soln_max ckt ! i)))"

text \<open>The new step from the largest ratio, a cube root since the rule is trapezoidal; no ratio at all
  lets the step grow as far as it may.\<close>

definition step_for :: "transient \<Rightarrow> real \<Rightarrow> real" where
  "step_for t maxlteratio =
     (let h = now t - oldt t in
      if maxlteratio > 0 \<and> 1 / root 3 maxlteratio < 1 then
        max (h * (3 / 4) * max (1 / root 3 maxlteratio) (1 / lte_step_decrease_factor)) (min_step t)
      else
        (let r = (if maxlteratio = 0 then time_step_increase_factor
                  else min (1 / root 3 maxlteratio) time_step_increase_factor)
         in min (if r > 12 / 10 then h * r / (12 / 10) else h) (max_step t)))"

text \<open>\<open>None\<close>: two of the times coincide, and the interpolation divides by zero.\<close>

definition pick_step :: "circuit \<Rightarrow> real option" where
  "pick_step ckt =
     (let t = tr ckt in
      if now t = old3t t \<or> oldt t = old2t t \<or> oldt t = old3t t \<or> old2t t = old3t t then None
      else Some (step_for t
        (fold (\<lambda>i m. if ltecheck t ! i then max m (lte_ratio ckt i) else m) (rev [0 ..< n_nodes ckt]) 0)))"

section \<open>Setting up\<close>

text \<open>An operating point if there is none yet, else from zero; the flag tells whether the circuit is
  legal.\<close>

definition tran_start :: "circuit \<Rightarrow> (circuit \<times> bool) option" where
  "tran_start ckt =
     (if \<not> diddc ckt then
        (case dc ckt of
           None \<Rightarrow> None
         | Some (c1, Some _) \<Rightarrow> Some (c1, True)
         | Some (c1, None) \<Rightarrow> map_option (\<lambda>(legal, c2). (c2, legal)) (finalize (c1\<lparr>finalized := False\<rparr>)))
      else map_option (\<lambda>(legal, c1). (c1, legal)) (finalize ckt))"

definition source_period :: "device \<Rightarrow> jsnum" where
  "source_period d =
     (case d of VSource src p n b \<Rightarrow> src_period src | ISource src p n \<Rightarrow> src_period src | _ \<Rightarrow> NaN)"

definition shorter :: "device \<Rightarrow> real \<Rightarrow> real" where
  "shorter d period = (case source_period d of Fin per \<Rightarrow> if per > 0 then min period per else period | _ \<Rightarrow> period)"

definition shortest_period :: "circuit \<Rightarrow> real \<Rightarrow> real" where
  "shortest_period ckt period =
     fold (\<lambda>k. shorter (devices ckt ! k)) (rev (voltage_sources ckt) @ rev (current_sources ckt)) period"

definition lte_checks :: "circuit \<Rightarrow> string list \<Rightarrow> nat list \<Rightarrow> bool list" where
  "lte_checks ckt probenames alg =
     map (\<lambda>i. alg ! i = 0 \<or> list_ex (\<lambda>name. node_map ckt name = Some (int i)) probenames) [0 ..< n_nodes ckt]"

text \<open>The state before the first step and the first step; \<open>None\<close> also when the interval is empty or no
  points are asked for, where the step is not a number.\<close>

definition tran_init :: "real \<Rightarrow> real \<Rightarrow> real \<Rightarrow> string list \<Rightarrow> circuit \<Rightarrow> (circuit \<times> real) option" where
  "tran_init ntpts tstart tstop probenames ckt =
     (let n = n_nodes ckt;
          period = shortest_period ckt (tstop - tstart);
          pers = \<lceil>(tstop - tstart) / period\<rceil>;
          max_st = (tstop - tstart) / (of_int pers * ntpts);
          step = max_st / 10 ^ 6
      in if period = 0 \<or> of_int pers * ntpts = 0 then None
         else case algebraic (C ckt) of
           None \<Rightarrow> None
         | Some alg \<Rightarrow>
             map_option
               (\<lambda>c. (tr_upd (\<lambda>t. t\<lparr>old3sol := solution c, old2sol := solution c, oldsol := solution c,
                                    old3q := chg t, old2q := chg t, oldq := chg t, oldc := cur t\<rparr>) c, step))
               (load_tran_ckt (ckt\<lparr>periods := pers, tr := no_transient\<lparr>cur := replicate n 0, oldc := replicate n 0,
                  chg := replicate n 0, oldq := replicate n 0, old2q := replicate n 0, beta0 := replicate n 0,
                  beta1 := replicate n 0, alpha0 := 1, now := tstart, oldt := tstart - step,
                  ltecheck := lte_checks ckt probenames alg, ar := alg,
                  max_step := max_st, min_step := max_st / 10 ^ 8\<rparr>\<rparr>)))"

section \<open>Steps\<close>

definition save_step :: "circuit \<Rightarrow> circuit" where
  "save_step ckt =
     tr_upd (\<lambda>t. t\<lparr>oldc := cur t, old3sol := old2sol t, old2sol := oldsol t, oldsol := solution ckt,
                   old3q := oldq t, old2q := oldq t, oldq := chg t\<rparr>) ckt"

text \<open>A step of the backward Euler rule before the first point.\<close>

definition prestep :: "real \<Rightarrow> transient \<Rightarrow> transient" where
  "prestep tstart t =
     t\<lparr>old3t := old2t t - (oldt t - old2t t), old2t := oldt t - (tstart - oldt t),
       oldt := tstart - (now t - oldt t), now := tstart\<rparr>"

definition rotate_times :: "transient \<Rightarrow> transient" where
  "rotate_times t = t\<lparr>old3t := old2t t, old2t := oldt t, oldt := now t\<rparr>"

definition advance :: "real \<Rightarrow> real \<Rightarrow> transient \<Rightarrow> transient" where
  "advance tstop new_step t =
     t\<lparr>now := (if now t + new_step > tstop then tstop
               else if now t + 3 / 2 * new_step > tstop then now t + 2 / 3 * (tstop - now t)
               else now t + new_step)\<rparr>"

text \<open>No averaging of the current in the algebraic equations.\<close>

definition set_betas :: "real \<Rightarrow> real \<Rightarrow> transient \<Rightarrow> transient" where
  "set_betas b0 b1 t =
     t\<lparr>beta0 := map (\<lambda>a. b0 + real a * b1) (ar t), beta1 := map (\<lambda>a. (1 - real a) * b1) (ar t)\<rparr>"

text \<open>The coefficients of a step; a very short one uses the backward Euler rule.\<close>

definition set_coeffs :: "real \<Rightarrow> transient \<Rightarrow> transient" where
  "set_coeffs tstop t =
     (let h = now t - oldt t; t1 = t\<lparr>alpha0 := 1 / h, alpha1 := - (1 / h), alpha2 := 0\<rparr>
      in if h < 1 / 10 ^ 4 * tstop
         then t1\<lparr>beta0 := replicate (length (beta0 t)) 1, beta1 := replicate (length (beta1 t)) 0\<rparr> else t1)"

text \<open>Look for a step that converges and whose error is small.\<close>

partial_function (option) tran_try :: "int \<Rightarrow> real \<Rightarrow> real \<Rightarrow> circuit \<Rightarrow> (circuit \<times> real) option" where
  "tran_try step_index tstop new_step ckt =
     (let h = now (tr ckt) - oldt (tr ckt) in
      if h = 0 then None
      else case find_solution load_tran_ckt max_tran_iters (tr_upd (set_coeffs tstop) ckt) of
        None \<Rightarrow> None
      | Some (c, None) \<Rightarrow>
          tran_try step_index tstop new_step
            (tr_upd (\<lambda>t. t\<lparr>now := oldt t + (now t - oldt t) / nr_step_decrease_factor\<rparr>) c)
      | Some (c, Some iterations) \<Rightarrow>
          (if step_index \<le> 0 \<or> h < (1 + reltol) * min_step (tr c) then
             Some (c, if step_index > 0 then time_step_increase_factor * min_step (tr c) else new_step)
           else case pick_step c of
             None \<Rightarrow> None
           | Some st \<Rightarrow>
               (if st < (1 - reltol) * h
                then tran_try step_index tstop st (tr_upd (\<lambda>t. t\<lparr>now := oldt t + st\<rparr>) c)
                else Some (c, st))))"

text \<open>The steps with the solutions and the times recorded so far; the first argument counts the steps
  that are left.\<close>

fun tran_loop :: "nat \<Rightarrow> int \<Rightarrow> real \<Rightarrow> real \<Rightarrow> real \<Rightarrow> circuit \<Rightarrow> vec list \<Rightarrow> vec \<Rightarrow> (circuit \<times> vec list \<times> vec) option" where
  "tran_loop 0 step_index tstart tstop new_step ckt sols ts = Some (ckt, sols, ts)"
| "tran_loop (Suc k) step_index tstart tstop new_step ckt sols ts =
     (if step_index < 0 then
        (case tran_try step_index tstop new_step (tr_upd (\<lambda>t. set_betas 1 0 (prestep tstart t)) (save_step ckt)) of
           None \<Rightarrow> None
         | Some (c, st) \<Rightarrow> tran_loop k (step_index + 1) tstart tstop st c sols ts)
      else
        (let c0 = tr_upd rotate_times (save_step ckt); sols' = sols @ [solution ckt]; ts' = ts @ [now (tr ckt)] in
         if now (tr ckt) \<ge> tstop then Some (c0, sols', ts')
         else case tran_try step_index tstop new_step (tr_upd (\<lambda>t. set_betas (1 / 2) (1 / 2) (advance tstop new_step t)) c0) of
           None \<Rightarrow> None
         | Some (c, st) \<Rightarrow> tran_loop k (step_index + 1) tstart tstop st c sols' ts'))"

section \<open>The analysis\<close>

definition tran_result :: "circuit \<Rightarrow> vec list \<Rightarrow> vec \<Rightarrow> string \<Rightarrow> response option" where
  "tran_result ckt sols ts =
     (let resp = map (\<lambda>i. map (\<lambda>x. x ! i) sols) [0 ..< n_nodes ckt];
          node_resp = (\<lambda>name. map_option (\<lambda>i. node_response i resp) (node_map ckt name))
      in (fold (\<lambda>k res. res(''I('' @ dev_names ckt ! k @ '')'' \<mapsto> Samples (resp ! branch_of (devices ckt ! k))))
            (rev (voltage_sources ckt)) node_resp)(''_time_'' \<mapsto> Samples ts))"

text \<open>\<open>None\<close> as a result: the circuit is illegal.\<close>

definition tran :: "real \<Rightarrow> real \<Rightarrow> real \<Rightarrow> string list \<Rightarrow> circuit \<Rightarrow> (circuit \<times> (string \<Rightarrow> response option) option) option" where
  "tran ntpts tstart tstop probenames ckt =
     (case tran_start ckt of
        None \<Rightarrow> None
      | Some (c0, False) \<Rightarrow> Some (c0, None)
      | Some (c0, True) \<Rightarrow>
          (case tran_init ntpts tstart tstop probenames c0 of
             None \<Rightarrow> None
           | Some (c1, st) \<Rightarrow>
               map_option (\<lambda>(c2, sols, ts). (c2, Some (tran_result c2 sols ts)))
                 (tran_loop (nat (periods c1 * 50000 + 3)) (- 3) tstart tstop st c1 [] [])))"

end
