(* ===== verification/CktTimes.thy ===== *)
theory CktTimes
  imports CktNewton CktTran
begin

text \<open>
  The times of a transient analysis: whatever the circuit, the recorded times increase and end at the
  end of the interval unless the steps run out.
\<close>

section \<open>What loading leaves alone\<close>

definition tran_keep :: "circuit \<Rightarrow> transient \<times> nat \<times> mat \<times> mat \<times> (string \<Rightarrow> int option) \<times> int" where
  "tran_keep ckt = ((tr ckt)\<lparr>cur := [], chg := []\<rparr>, n_nodes ckt, Gl ckt, C ckt, node_map ckt, periods ckt)"

lemma load_tran_keep: "load_tran_ckt ckt = Some c' \<Longrightarrow> tran_keep c' = tran_keep ckt"
  by (auto simp: load_tran_ckt_def tran_keep_def Let_def split: option.splits prod.splits)

interpretation tf: framed_load load_tran_ckt tran_keep
proof (unfold_locales, goal_cases)
  case (1 ckt c')
  then show ?case by (rule load_tran_keep)
qed (simp add: tran_keep_def)

text \<open>The parts of the state of the analysis that follow.\<close>

lemma transient_kept:
  fixes t t' :: transient
  assumes "t\<lparr>cur := [], chg := []\<rparr> = t'\<lparr>cur := [], chg := []\<rparr>"
  shows "now t = now t'" "oldt t = oldt t'" "old2t t = old2t t'" "old3t t = old3t t'" "min_step t = min_step t'"
    "max_step t = max_step t'" "ar t = ar t'" "beta0 t = beta0 t'" "beta1 t = beta1 t'" "alpha0 t = alpha0 t'"
    "oldc t = oldc t'" "oldq t = oldq t'" "ltecheck t = ltecheck t'" "alpha1 t = alpha1 t'" "alpha2 t = alpha2 t'" "old2q t = old2q t'"
proof -
  have e: "f (t\<lparr>cur := [], chg := []\<rparr>) = f (t'\<lparr>cur := [], chg := []\<rparr>)" for f :: "transient \<Rightarrow> 'a" using assms by simp
  show "now t = now t'" "oldt t = oldt t'" "old2t t = old2t t'" "old3t t = old3t t'" "min_step t = min_step t'"
    "max_step t = max_step t'" "alpha0 t = alpha0 t'" "alpha1 t = alpha1 t'" "alpha2 t = alpha2 t'"
    using e [of now] e [of oldt] e [of old2t] e [of old3t] e [of min_step] e [of max_step] e [of alpha0] e [of alpha1] e [of alpha2]
    by simp_all
  show "ar t = ar t'" "beta0 t = beta0 t'" "beta1 t = beta1 t'" "oldc t = oldc t'" "oldq t = oldq t'" "ltecheck t = ltecheck t'"
    "old2q t = old2q t'"
    using e [of ar] e [of beta0] e [of beta1] e [of oldc] e [of oldq] e [of ltecheck] e [of old2q] by simp_all
qed

lemma find_tran_keep:
  assumes "find_solution load_tran_ckt m ckt = Some (c, r)"
  shows "(tr c)\<lparr>cur := [], chg := []\<rparr> = (tr ckt)\<lparr>cur := [], chg := []\<rparr>" "n_nodes c = n_nodes ckt" "Gl c = Gl ckt" "C c = C ckt"
    "node_map c = node_map ckt" "periods c = periods ckt"
  using tf.find_solution_keep [OF assms] by (simp_all add: tran_keep_def)

lemma set_coeffs_times [simp]:
  "now (set_coeffs tstop t) = now t" "oldt (set_coeffs tstop t) = oldt t" "old2t (set_coeffs tstop t) = old2t t"
  "old3t (set_coeffs tstop t) = old3t t" "min_step (set_coeffs tstop t) = min_step t" "max_step (set_coeffs tstop t) = max_step t"
  "ar (set_coeffs tstop t) = ar t" "oldc (set_coeffs tstop t) = oldc t" "oldq (set_coeffs tstop t) = oldq t"
  "old2q (set_coeffs tstop t) = old2q t"
  by (simp_all add: set_coeffs_def Let_def)

section \<open>One step\<close>

lemma step_for_pos:
  assumes "oldt t < now t" "0 < min_step t" "0 < max_step t" "0 \<le> m"
  shows "0 < step_for t m"
proof (cases "m > 0 \<and> 1 / root 3 m < 1")
  case True
  then have "step_for t m \<ge> min_step t" by (simp add: step_for_def Let_def)
  with assms(2) show ?thesis by simp
next
  case False
  define r where "r = (if m = 0 then time_step_increase_factor else min (1 / root 3 m) time_step_increase_factor)"
  have "0 < r" using assms(4) by (auto simp: r_def time_step_increase_factor_def)
  moreover have "step_for t m = min (if r > 12 / 10 then (now t - oldt t) * r / (12 / 10) else now t - oldt t) (max_step t)"
    unfolding step_for_def Let_def r_def using False by (rule if_not_P)
  ultimately show ?thesis using assms(1,3) by simp
qed

lemma fold_max_nonneg: "0 \<le> m \<Longrightarrow> 0 \<le> fold (\<lambda>i m. if P i then max m (f i) else m) is (m :: real)"
  by (induction "is" arbitrary: m) simp_all

lemma pick_step_pos:
  assumes "pick_step ckt = Some st" "oldt (tr ckt) < now (tr ckt)" "0 < min_step (tr ckt)" "0 < max_step (tr ckt)"
  shows "0 < st"
proof -
  let ?m = "fold (\<lambda>i m. if ltecheck (tr ckt) ! i then max m (lte_ratio ckt i) else m) (rev [0 ..< n_nodes ckt]) 0"
  have "st = step_for (tr ckt) ?m" using assms(1) by (auto simp: pick_step_def Let_def split: if_splits)
  moreover have "0 \<le> ?m" by (rule fold_max_nonneg) simp
  ultimately show ?thesis using step_for_pos [OF assms(2-4)] by simp
qed

text \<open>A step that is accepted goes forward, no further than it was meant to.\<close>

definition ready :: "real \<Rightarrow> circuit \<Rightarrow> bool" where
  "ready ns ckt \<longleftrightarrow> oldt (tr ckt) < now (tr ckt) \<and> 0 < ns \<and> 0 < min_step (tr ckt) \<and> 0 < max_step (tr ckt)"

definition forward :: "circuit \<Rightarrow> circuit \<Rightarrow> bool" where
  "forward ckt c \<longleftrightarrow> oldt (tr c) = oldt (tr ckt) \<and> now (tr c) \<le> now (tr ckt) \<and>
     old2t (tr c) = old2t (tr ckt) \<and> old3t (tr c) = old3t (tr ckt) \<and>
     min_step (tr c) = min_step (tr ckt) \<and> max_step (tr c) = max_step (tr ckt) \<and> periods c = periods ckt"

lemma forward_trans: "forward a b \<Longrightarrow> forward b c \<Longrightarrow> forward a c"
  by (simp add: forward_def)

lemma tran_try_forward:
  assumes "tran_try si tstop ns ckt = Some (c, ns')" and "ready ns ckt"
  shows "ready ns' c \<and> forward ckt c"
proof -
  let ?P = "\<lambda>si tstop ns ckt (c, ns'). ready ns ckt \<longrightarrow> ready ns' c \<and> forward ckt c"
  have "?P si tstop ns ckt (c, ns')"
  proof (rule tran_try.raw_induct [OF _ assms(1), where P = ?P], goal_cases)
    case (1 rec si tstop ns ckt r)
    obtain c ns' where r: "r = (c, ns')" by fastforce
    let ?h = "now (tr ckt) - oldt (tr ckt)"
    show ?case
      unfolding r split_conv
    proof (rule impI)
      assume "ready ns ckt"
      then have pos: "oldt (tr ckt) < now (tr ckt)" "0 < ns" "0 < min_step (tr ckt)" "0 < max_step (tr ckt)"
        by (simp_all add: ready_def)
      then obtain c1 it where f: "find_solution load_tran_ckt max_tran_iters (tr_upd (set_coeffs tstop) ckt) = Some (c1, it)"
        using 1(2) by (auto simp: Let_def split: option.splits)
      note k = transient_kept [OF find_tran_keep(1) [OF f]] find_tran_keep(6) [OF f]
      have rec: "ready ns' c \<and> forward ckt c"
        if "rec si tstop st c2 = Some r" "ready st c2" "forward ckt c2" for st c2
        using 1(1) [OF that(1)] that(2,3) r forward_trans by blast
      have c1: "ready st c1" "forward ckt c1" if "0 < st" for st using k pos that by (simp_all add: ready_def forward_def)
      show "ready ns' c \<and> forward ckt c"
      proof (cases it)
        case None
        let ?c = "tr_upd (\<lambda>t. t\<lparr>now := oldt t + (now t - oldt t) / nr_step_decrease_factor\<rparr>) c1"
        have "rec si tstop ns ?c = Some r" using 1(2) f None pos by (simp add: Let_def)
        moreover have "?h / nr_step_decrease_factor \<le> ?h" "0 < ?h / nr_step_decrease_factor"
          using pos by (simp_all add: nr_step_decrease_factor_def)
        ultimately show ?thesis using k pos by (intro rec [of ns ?c]) (simp_all add: ready_def forward_def)
      next
        case (Some iters)
        show ?thesis
        proof (cases "si \<le> 0 \<or> ?h < (1 + reltol) * min_step (tr c1)")
          case True
          then have "Some (c1, if si > 0 then time_step_increase_factor * min_step (tr c1) else ns) = Some r"
            using 1(2) f Some pos by (simp add: Let_def)
          moreover have "0 < (if si > 0 then time_step_increase_factor * min_step (tr c1) else ns)"
            using k pos by (simp add: time_step_increase_factor_def)
          ultimately show ?thesis using r c1 by auto
        next
          case False
          then obtain st where st: "pick_step c1 = Some st" using 1(2) f Some pos by (auto simp: Let_def split: option.splits)
          have p: "0 < st" using pick_step_pos [OF st] k pos by simp
          show ?thesis
          proof (cases "st < (1 - reltol) * ?h")
            case True
            let ?c = "tr_upd (\<lambda>t. t\<lparr>now := oldt t + st\<rparr>) c1"
            have "rec si tstop st ?c = Some r" using 1(2) f Some pos False st True by (simp add: Let_def)
            moreover have "(1 - reltol) * ?h \<le> ?h" using pos by (simp add: reltol_def)
            then have "st \<le> ?h" using True by simp
            ultimately show ?thesis using k pos p by (intro rec [of st ?c]) (simp_all add: ready_def forward_def)
          next
            case F: False
            then have "Some (c1, st) = Some r" using 1(2) f Some pos False st by (simp add: Let_def)
            with r c1 [OF p] show ?thesis by auto
          qed
        qed
      qed
    qed
  qed
  with assms show ?thesis by simp
qed

section \<open>The run\<close>

lemma advance_between:
  "now t < tstop \<Longrightarrow> 0 < ns \<Longrightarrow> now t < now (advance tstop ns t) \<and> now (advance tstop ns t) \<le> tstop"
  by (auto simp: advance_def field_simps)

text \<open>The recorded times increase, none is after the end, and every solution has its time.\<close>

definition recorded :: "real \<Rightarrow> vec list \<Rightarrow> vec \<Rightarrow> bool" where
  "recorded tstop sols ts \<longleftrightarrow> length sols = length ts \<and> sorted_wrt (<) ts \<and> (\<forall>t \<in> set ts. t \<le> tstop)"

lemma recorded_snoc:
  "recorded tstop sols ts \<Longrightarrow> \<forall>u \<in> set ts. u < t \<Longrightarrow> t \<le> tstop \<Longrightarrow> recorded tstop (sols @ [x]) (ts @ [t])"
  by (auto simp: recorded_def sorted_wrt_append)

lemma tran_loop_regular:
  assumes "tran_loop k si tstart tstop ns ckt sols ts = Some (c, sols', ts')" and "0 \<le> si"
    and "ready ns ckt" "now (tr ckt) \<le> tstop" and "recorded tstop sols ts" "\<forall>t \<in> set ts. t < now (tr ckt)"
  shows "recorded tstop sols' ts' \<and> periods c = periods ckt \<and>
    (ts \<noteq> [] \<longrightarrow> ts' \<noteq> [] \<and> hd ts' = hd ts) \<and> (ts = [] \<and> k > 0 \<longrightarrow> ts' \<noteq> [] \<and> hd ts' = now (tr ckt)) \<and>
    (last ts' = tstop \<and> ts' \<noteq> [] \<or> length ts' = length ts + k)"
  using assms
proof (induction k arbitrary: si ns ckt sols ts)
  case (Suc k)
  let ?t = "now (tr ckt)" and ?c0 = "tr_upd rotate_times (save_step ckt)"
  note rec = recorded_snoc [OF Suc.prems(5,6,4), of "solution ckt"]
  show ?case
  proof (cases "?t \<ge> tstop")
    case True
    then have "sols' = sols @ [solution ckt]" "ts' = ts @ [?t]" "c = ?c0"
      using Suc.prems(1,2) by (auto simp: Let_def)
    with rec True Suc.prems(4) show ?thesis by (auto simp: save_step_def hd_append)
  next
    case False
    let ?c1 = "tr_upd (\<lambda>t. set_betas (1 / 2) (1 / 2) (advance tstop ns t)) ?c0"
    obtain c2 st where step: "tran_try si tstop ns ?c1 = Some (c2, st)"
      and loop: "tran_loop k (si + 1) tstart tstop st c2 (sols @ [solution ckt]) (ts @ [?t]) = Some (c, sols', ts')"
      using Suc.prems(1,2) False by (auto simp: Let_def split: option.splits)
    have t0: "now (tr ?c0) = ?t" "oldt (tr ?c0) = ?t" "min_step (tr ?c0) = min_step (tr ckt)" "max_step (tr ?c0) = max_step (tr ckt)"
      by (simp_all add: save_step_def rotate_times_def)
    have adv: "?t < now (advance tstop ns (tr ?c0))" "now (advance tstop ns (tr ?c0)) \<le> tstop"
      using advance_between [of "tr ?c0" tstop ns] t0 False Suc.prems(3) by (auto simp: ready_def)
    have "ready ns ?c1" using adv t0 Suc.prems(3) by (simp add: ready_def set_betas_def advance_def)
    from tran_try_forward [OF step this] have f: "ready st c2" "forward ?c1 c2" by auto
    then have now: "?t < now (tr c2)" "now (tr c2) \<le> tstop" "periods c2 = periods ckt"
      using adv t0 by (auto simp: ready_def forward_def set_betas_def advance_def save_step_def)
    have "\<forall>t \<in> set (ts @ [?t]). t < now (tr c2)" using Suc.prems(6) now(1) by auto
    from Suc.IH [OF loop _ f(1) now(2) rec this] Suc.prems(2) show ?thesis
      by (auto simp: now(3) hd_append)
  qed
qed auto

text \<open>The steps before the first point leave the time at the start or, when one of them had to be
  shortened, before it.\<close>

lemma tran_loop_presteps:
  assumes "tran_loop k si tstart tstop ns ckt [] [] = Some (c, sols', ts')" and "si \<le> 0" "nat (- si) \<le> k"
    and "ready ns ckt" "now (tr ckt) \<le> tstart" "tstart \<le> tstop"
  shows "recorded tstop sols' ts' \<and> periods c = periods ckt \<and>
    (k > nat (- si) \<longrightarrow> ts' \<noteq> [] \<and> hd ts' \<le> tstart) \<and>
    (last ts' = tstop \<and> ts' \<noteq> [] \<or> length ts' = k - nat (- si))"
  using assms
proof (induction "nat (- si)" arbitrary: si k ns ckt)
  case 0
  then have "si = 0" by simp
  with 0 show ?case
    using tran_loop_regular [of k 0 tstart tstop ns ckt "[]" "[]" c sols' ts'] by (auto simp: recorded_def)
next
  case (Suc n)
  then obtain k' where k: "k = Suc k'" by (cases k) auto
  have neg: "si < 0" using Suc.hyps(2) by simp
  let ?c1 = "tr_upd (\<lambda>t. set_betas 1 0 (prestep tstart t)) (save_step ckt)"
  obtain c2 st where step: "tran_try si tstop ns ?c1 = Some (c2, st)"
    and loop: "tran_loop k' (si + 1) tstart tstop st c2 [] [] = Some (c, sols', ts')"
    using Suc.prems(1) neg k by (auto split: option.splits)
  have "ready ns ?c1" using Suc.prems(4) by (simp add: ready_def set_betas_def prestep_def save_step_def)
  from tran_try_forward [OF step this] have f: "ready st c2" "forward ?c1 c2" by auto
  then have now: "now (tr c2) \<le> tstart" "periods c2 = periods ckt"
    by (simp_all add: forward_def set_betas_def prestep_def save_step_def)
  have n: "n = nat (- (si + 1))" "k - nat (- si) = k' - nat (- (si + 1))" using Suc.hyps(2) neg k by auto
  from Suc.hyps(1) [OF n(1) loop _ _ f(1) now(1) Suc.prems(6)] neg Suc.prems(3) k n show ?case
    by (auto simp: now(2))
qed

lemma shorter_bounds: "0 < p \<Longrightarrow> 0 < shorter d p \<and> shorter d p \<le> p"
  by (simp add: shorter_def split: jsnum.splits)

lemma shortest_period_bounds: "0 < p \<Longrightarrow> 0 < shortest_period ckt p \<and> shortest_period ckt p \<le> p"
proof -
  have "0 < p \<Longrightarrow> 0 < fold (\<lambda>k. shorter (f k)) ks p \<and> fold (\<lambda>k. shorter (f k)) ks p \<le> p" for f and ks :: "nat list"
  proof (induction ks arbitrary: p)
    case (Cons k ks)
    with shorter_bounds [of p "f k"] show ?case by (simp, metis order.trans)
  qed simp
  then show "0 < p \<Longrightarrow> ?thesis" unfolding shortest_period_def by blast
qed

lemma tran_init_ready:
  assumes "tran_init ntpts tstart tstop probes ckt = Some (c, st)" and "tstart < tstop" "0 < ntpts"
  shows "ready st c \<and> now (tr c) = tstart \<and> 1 \<le> periods c"
proof -
  define pers where "pers = \<lceil>(tstop - tstart) / shortest_period ckt (tstop - tstart)\<rceil>"
  define m where "m = (tstop - tstart) / (of_int pers * ntpts)"
  have "0 < shortest_period ckt (tstop - tstart)" using shortest_period_bounds assms(2) by simp
  then have p: "1 \<le> pers" using assms(2) by (simp add: pers_def one_le_ceiling)
  then have m: "0 < m" using assms(2,3) by (simp add: m_def)
  obtain alg c0 where c0: "load_tran_ckt (ckt\<lparr>periods := pers, tr := no_transient\<lparr>cur := replicate (n_nodes ckt) 0,
        oldc := replicate (n_nodes ckt) 0, chg := replicate (n_nodes ckt) 0, oldq := replicate (n_nodes ckt) 0,
        old2q := replicate (n_nodes ckt) 0, beta0 := replicate (n_nodes ckt) 0, beta1 := replicate (n_nodes ckt) 0,
        alpha0 := 1, now := tstart, oldt := tstart - m / 10 ^ 6, ltecheck := lte_checks ckt probes alg, ar := alg,
        max_step := m, min_step := m / 10 ^ 8\<rparr>\<rparr>) = Some c0"
    and c: "c = tr_upd (\<lambda>t. t\<lparr>old3sol := solution c0, old2sol := solution c0, oldsol := solution c0,
                                    old3q := chg t, old2q := chg t, oldq := chg t, oldc := cur t\<rparr>) c0" "st = m / 10 ^ 6"
    using assms(1) unfolding tran_init_def Let_def pers_def [symmetric] m_def [symmetric]
    by (auto split: if_splits option.splits)
  from load_tran_keep [OF c0] have k: "(tr c0)\<lparr>cur := [], chg := []\<rparr> = no_transient\<lparr>cur := [],
        oldc := replicate (n_nodes ckt) 0, chg := [], oldq := replicate (n_nodes ckt) 0,
        old2q := replicate (n_nodes ckt) 0, beta0 := replicate (n_nodes ckt) 0, beta1 := replicate (n_nodes ckt) 0,
        alpha0 := 1, now := tstart, oldt := tstart - m / 10 ^ 6, ltecheck := lte_checks ckt probes alg, ar := alg,
        max_step := m, min_step := m / 10 ^ 8\<rparr>" "periods c0 = pers"
    by (simp_all add: tran_keep_def)
  have "now (tr c0) = tstart" "oldt (tr c0) = tstart - m / 10 ^ 6" "max_step (tr c0) = m" "min_step (tr c0) = m / 10 ^ 8"
    using arg_cong [OF k(1), of now] arg_cong [OF k(1), of oldt] arg_cong [OF k(1), of max_step] arg_cong [OF k(1), of min_step]
    by simp_all
  with m p c k(2) show ?thesis by (simp add: ready_def)
qed

end
