(* ===== verification/CktTranLin.thy ===== *)
theory CktTranLin
  imports CktDc CktTimes
begin

text \<open>
  The transient analysis of a linear circuit: every step it takes is the solution of the equations of
  the trapezoidal (or backward Euler) rule, and the analysis returns a result.
\<close>

section \<open>The equations of a step\<close>

text \<open>The value of the sources of a circuit at a time, in row \<open>k\<close>.\<close>

definition drive :: "device list \<Rightarrow> real \<Rightarrow> nat \<Rightarrow> real" where
  "drive ds t k = (\<Sum>d\<leftarrow>ds. source_row (\<lambda>src. wave_value (src_wave src) t) d k)"

definition step_matrix :: "vec \<Rightarrow> real \<Rightarrow> mat \<Rightarrow> mat \<Rightarrow> mat" where
  "step_matrix b0 a0 Gm Cm = map (\<lambda>i. lin_row (b0 ! i) a0 (Gm ! i) (Cm ! i)) [0 ..< length Gm]"

definition linear_tran :: "circuit \<Rightarrow> bool" where
  "linear_tran ckt \<longleftrightarrow> newton_ok ckt \<and> shape (n_nodes ckt) (n_nodes ckt) (Gl ckt) \<and>
     shape (n_nodes ckt) (n_nodes ckt) (G ckt) \<and> shape (n_nodes ckt) (n_nodes ckt) (C ckt) \<and>
     length (cur (tr ckt)) = n_nodes ckt \<and> length (chg (tr ckt)) = n_nodes ckt \<and>
     (\<forall>d \<in> set (devices ckt). \<not> nonlinear d \<and> device_ok (n_nodes ckt) d \<and>
        (\<forall>t. source_finite (\<lambda>src. wave_value (src_wave src) t) d))"

definition tl_keep :: "circuit \<Rightarrow> (transient \<times> nat \<times> mat \<times> mat \<times> (string \<Rightarrow> int option) \<times> int) \<times> device list" where
  "tl_keep ckt = (tran_keep ckt, devices ckt)"

definition tl_matrix :: "circuit \<Rightarrow> mat" where
  "tl_matrix ckt = step_matrix (beta0 (tr ckt)) (alpha0 (tr ckt)) (Gl ckt) (C ckt)"

definition tl_rhs :: "circuit \<Rightarrow> nat \<Rightarrow> real" where
  "tl_rhs ckt k = (let t = tr ckt in
     beta0 t ! k * drive (devices ckt) (now t) k + beta1 t ! k * oldc t ! k
     - (alpha1 t * oldq t ! k + alpha2 t * old2q t ! k))"

lemma dot_lin_row:
  "length r = length x \<Longrightarrow> length s = length x \<Longrightarrow> dot (lin_row a b r s) x = a * dot r x + b * dot s x"
proof (induction x arbitrary: r s)
  case (Cons u x)
  then obtain p r' q s' where "r = p # r'" "s = q # s'" by (metis length_Suc_conv)
  with Cons show ?case by (simp add: lin_row_def algebra_simps)
qed (simp add: lin_row_def)

lemma step_matrix_shape: "shape n n Gm \<Longrightarrow> shape n n Cm \<Longrightarrow> shape n n (step_matrix b0 a0 Gm Cm)"
  using shape_len [of n n Gm] shape_len [of n n Cm]
  by (intro shapeI) (simp_all add: step_matrix_def lin_row_def)

lemma mat_v_mult_shape:
  assumes "shape n m M" "0 < n" "length x = m" "length y = n"
  shows "mat_v_mult M x y s = Some (map (\<lambda>r. s * dot r x) M)"
proof -
  obtain r M' where e: "M = r # M'" using assms(1,2) shape_len(1) by (metis Suc_length_conv gr0_conv_Suc)
  then show ?thesis using assms shape_len [OF assms(1)] by (auto simp: mat_v_mult_def shape_def)
qed

lemma cols_shape: "shape n m M \<Longrightarrow> 0 < n \<Longrightarrow> cols M = Some m"
  by (cases M) (auto simp: shape_def)

lemma mat_scale_add_shape:
  assumes "shape n n A" "shape n n B" "shape n (Suc n) M" "0 < n"
  shows "mat_scale_add A B (Rows b0) (Scalar a0) M = Some (map2 over (step_matrix b0 a0 A B) M)"
proof -
  note l = shape_len [OF assms(1)] shape_len [OF assms(2)] shape_len [OF assms(3)]
  have c: "cols A = Some n" "cols B = Some n" "cols M = Some (Suc n)"
    using cols_shape assms by simp_all
  have "map2 over (step_matrix b0 a0 A B) M = map (\<lambda>i. over (lin_row (b0 ! i) a0 (A ! i) (B ! i)) (M ! i)) [0 ..< n]"
    using l by (intro nth_equalityI) (simp_all add: step_matrix_def)
  then show ?thesis using l c by (simp add: mat_scale_add_def row_scale_def over_def [of _ M])
qed

lemma load_tran_linear:
  assumes "linear_tran ckt"
  shows "\<exists>c'. load_tran_ckt ckt = Some c' \<and> linear_tran c' \<and> tl_keep c' = tl_keep ckt \<and>
    solution c' = solution ckt \<and> map butlast (matrix c') = tl_matrix ckt \<and>
    (\<forall>k < n_nodes ckt. rhs c' ! k = tl_rhs ckt k - dot (tl_matrix ckt ! k) (solution ckt))"
proof -
  define n where "n = n_nodes ckt"
  let ?t = "tr ckt" and ?A = "Gl ckt" and ?B = "C ckt" and ?ds = "devices ckt" and ?x = "solution ckt"
  let ?val = "\<lambda>src. wave_value (src_wave src) (now ?t)"
  have s: "0 < n" "shape n n ?A" "shape n n (G ckt)" "shape n n ?B" "shape n (Suc n) (matrix ckt)" "length ?x = n"
    "length (rhs ckt) = n" "length (cur ?t) = n" "length (chg ?t) = n"
    "\<forall>d \<in> set ?ds. \<not> nonlinear d \<and> device_ok n d \<and> source_finite ?val d"
    using assms by (auto simp: linear_tran_def newton_ok_def n_def)
  note lA = shape_len [OF s(2)] and lB = shape_len [OF s(4)]
  let ?c0 = "map (\<lambda>r. -1 * dot r ?x) ?A" and ?q = "map (\<lambda>r. 1 * dot r ?x) ?B"
  have mv: "mat_v_mult ?A ?x (cur ?t) (-1) = Some ?c0" "mat_v_mult ?B ?x (chg ?t) 1 = Some ?q"
    using mat_v_mult_shape [OF s(2,1,6,8)] mat_v_mult_shape [OF s(4,1,6,9)] by simp_all
  have cp: "mat_copy ?A (G ckt) = Some ?A" using mat_copy_square(2) [OF s(2,3) order_refl s(1) refl] .
  have "\<forall>d \<in> set ?ds. \<not> nonlinear d \<and> device_ok (length ?c0) d \<and> source_finite ?val d" using s(10) lA by simp
  from load_points_linear [OF this, of ?x ?A] obtain c1 where
    c1: "load_points ?val ?ds ?x (?A, ?c0) = Some (?ds, ?A, c1)" "length c1 = n"
    "\<forall>k < n. c1 ! k = ?c0 ! k + drive ?ds (now ?t) k" using lA by (auto simp: drive_def)
  let ?M = "map2 over (step_matrix (beta0 ?t) (alpha0 ?t) ?A ?B) (matrix ckt)"
  let ?t1 = "?t\<lparr>cur := c1, chg := ?q\<rparr>"
  let ?c = "ckt\<lparr>devices := ?ds, G := ?A, rhs := tran_rhs n ?t1, matrix := ?M, tr := ?t1\<rparr>"
  have load: "load_tran_ckt ckt = Some ?c"
    using mv cp c1(1) mat_scale_add_shape [OF s(2,4,5,1)] by (simp add: load_tran_ckt_def Let_def n_def)
  note sm = step_matrix_shape [OF s(2,4), of "beta0 ?t" "alpha0 ?t"]
  note ov = map2_over_augmented [OF sm s(5)]
  have "linear_tran ?c"
    using assms ov(1) c1(2) s lB by (simp add: linear_tran_def newton_ok_def n_def tran_rhs_def)
  moreover have "tl_keep ?c = tl_keep ckt" by (simp add: tl_keep_def tran_keep_def)
  moreover have "rhs ?c ! k = tl_rhs ckt k - dot (tl_matrix ckt ! k) ?x" if "k < n" for k
  proof -
    have "dot (tl_matrix ckt ! k) ?x = beta0 ?t ! k * dot (?A ! k) ?x + alpha0 ?t * dot (?B ! k) ?x"
      using that lA lB s(6) by (simp add: tl_matrix_def step_matrix_def dot_lin_row)
    moreover have "c1 ! k = drive ?ds (now ?t) k - dot (?A ! k) ?x" using that c1(3) lA by simp
    ultimately show ?thesis
      using that lB by (simp add: tran_rhs_def tl_rhs_def Let_def right_diff_distrib)
  qed
  ultimately show ?thesis using load ov(2)
    by (intro exI [of _ ?c]) (simp add: n_def tl_matrix_def)
qed

interpretation tl: linear_load load_tran_ckt linear_tran tl_keep tl_matrix tl_rhs
proof (unfold_locales, goal_cases)
  case (1 ckt)
  then show ?case by (auto simp: linear_tran_def tl_matrix_def intro: step_matrix_shape)
next
  case (2 ckt)
  then show ?case by (rule load_tran_linear)
next
  case (3 ckt M x p)
  then show ?case by (simp add: linear_tran_def newton_ok_def tl_keep_def tran_keep_def)
next
  case (4 ckt)
  then show ?case by (auto simp: linear_tran_def newton_ok_def raise_max_def tl_keep_def tran_keep_def)
next
  case (5 c1 c2)
  then have k: "(tr c1)\<lparr>cur := [], chg := []\<rparr> = (tr c2)\<lparr>cur := [], chg := []\<rparr>" "devices c1 = devices c2"
    "n_nodes c1 = n_nodes c2" "Gl c1 = Gl c2" "C c1 = C c2"
    by (simp_all add: tl_keep_def tran_keep_def)
  from k(2-5) transient_kept [OF k(1)] show ?case by (simp add: tl_matrix_def tl_rhs_def Let_def fun_eq_iff)
qed

section \<open>One step\<close>

text \<open>The rule of a step: the change of charge over the step is the weighted current.\<close>

definition step_solved :: "circuit \<Rightarrow> bool" where
  "step_solved ckt \<longleftrightarrow>
     (let t = tr ckt; h = now t - oldt t in
      \<forall>k < n_nodes ckt. (dot (C ckt ! k) (solution ckt) - oldq t ! k) / h =
        beta0 t ! k * (drive (devices ckt) (now t) k - dot (Gl ckt ! k) (solution ckt)) + beta1 t ! k * oldc t ! k)"

text \<open>The matrices of all steps, of either rule, are regular.\<close>

definition solvable :: "nat \<Rightarrow> mat \<Rightarrow> mat \<Rightarrow> nat list \<Rightarrow> bool" where
  "solvable n Gm Cm alg \<longleftrightarrow>
     (\<forall>h > 0. rq_rank (step_matrix (replicate n 1) (1 / h) Gm Cm) = n \<and>
        rq_rank (step_matrix (map (\<lambda>a. 1 / 2 + real a * (1 / 2)) alg) (1 / h) Gm Cm) = n)"

definition betas_ok :: "circuit \<Rightarrow> bool" where
  "betas_ok ckt \<longleftrightarrow> beta0 (tr ckt) \<in> {replicate (n_nodes ckt) 1, map (\<lambda>a. 1 / 2 + real a * (1 / 2)) (ar (tr ckt))} \<and>
     length (ar (tr ckt)) = n_nodes ckt"

text \<open>What a step does not change.\<close>

definition fixed :: "circuit \<Rightarrow> nat \<times> mat \<times> mat \<times> device list \<times> nat list \<times> vec \<times> vec" where
  "fixed ckt = (n_nodes ckt, Gl ckt, C ckt, devices ckt, ar (tr ckt), oldc (tr ckt), oldq (tr ckt))"

lemma solve_step:
  assumes "linear_tran ckt" and "oldt (tr ckt) < now (tr ckt)" and "betas_ok ckt"
    and "solvable (n_nodes ckt) (Gl ckt) (C ckt) (ar (tr ckt))"
  shows "\<exists>c k. find_solution load_tran_ckt max_tran_iters (tr_upd (set_coeffs tstop) ckt) = Some (c, Some k) \<and>
    linear_tran c \<and> step_solved c \<and> fixed c = fixed ckt \<and> betas_ok c \<and>
    (tr c)\<lparr>cur := [], chg := []\<rparr> = (set_coeffs tstop (tr ckt))\<lparr>cur := [], chg := []\<rparr>"
proof -
  let ?c0 = "tr_upd (set_coeffs tstop) ckt" and ?t = "set_coeffs tstop (tr ckt)" and ?n = "n_nodes ckt"
  let ?h = "now (tr ckt) - oldt (tr ckt)"
  have t: "cur ?t = cur (tr ckt)" "chg ?t = chg (tr ckt)" "alpha0 ?t = 1 / ?h" "alpha1 ?t = - (1 / ?h)" "alpha2 ?t = 0"
    by (simp_all add: set_coeffs_def Let_def)
  have b: "beta0 ?t \<in> {replicate ?n 1, map (\<lambda>a. 1 / 2 + real a * (1 / 2)) (ar (tr ckt))}"
    using assms(3) by (auto simp: set_coeffs_def Let_def betas_ok_def)
  have l: "linear_tran ?c0" using assms(1) by (simp add: linear_tran_def newton_ok_def t)
  have r: "rq_rank (tl_matrix ?c0) = n_nodes ?c0"
    using assms(2,4) b t(3) by (auto simp: tl_matrix_def solvable_def)
  from tl.find_solution_linear [OF l r, of max_tran_iters] obtain c k where
    c: "find_solution load_tran_ckt max_tran_iters ?c0 = Some (c, Some k)" "linear_tran c" "tl_keep c = tl_keep ?c0"
    "\<forall>k < ?n. dot (tl_matrix ?c0 ! k) (solution c) = tl_rhs ?c0 k" by (auto simp: max_tran_iters_def)
  have e: "n_nodes c = ?n" "Gl c = Gl ckt" "C c = C ckt" "devices c = devices ckt"
    "(tr c)\<lparr>cur := [], chg := []\<rparr> = ?t\<lparr>cur := [], chg := []\<rparr>"
    using c(3) by (simp_all add: tl_keep_def tran_keep_def)
  note k = transient_kept [OF e(5)]
  have sh: "shape ?n ?n (Gl ckt)" "shape ?n ?n (C ckt)" "length (solution c) = ?n"
    using assms(1) c(2) e(1) by (auto simp: linear_tran_def newton_ok_def)
  have "step_solved c"
    unfolding step_solved_def Let_def
  proof (intro allI impI)
    fix j assume j: "j < n_nodes c"
    then have j': "j < ?n" using e(1) by simp
    have "dot (tl_matrix ?c0 ! j) (solution c) =
        beta0 ?t ! j * dot (Gl ckt ! j) (solution c) + 1 / ?h * dot (C ckt ! j) (solution c)"
      using j' sh shape_len [OF sh(1)] shape_len [OF sh(2)] t(3)
      by (simp add: tl_matrix_def step_matrix_def dot_lin_row)
    with c(4) j' show "(dot (C c ! j) (solution c) - oldq (tr c) ! j) / (now (tr c) - oldt (tr c)) =
      beta0 (tr c) ! j * (drive (devices c) (now (tr c)) j - dot (Gl c ! j) (solution c)) + beta1 (tr c) ! j * oldc (tr c) ! j"
      by (simp add: e k t tl_rhs_def Let_def diff_divide_distrib algebra_simps)
  qed
  moreover have "betas_ok c" using b assms(3) k e(1) by (simp add: betas_ok_def)
  moreover have "fixed c = fixed ckt" using e k by (simp add: fixed_def)
  ultimately show ?thesis using c(1,2) e(5) by blast
qed

lemma linear_tran_now [simp]: "linear_tran (ckt\<lparr>tr := (tr ckt)\<lparr>now := x\<rparr>\<rparr>) = linear_tran ckt"
  by (simp add: linear_tran_def newton_ok_def)

lemma shrink_ends:
  assumes "0 < h" "0 < (m::real)"
  shows "\<exists>i. h * (1 - reltol) ^ i < m"
proof -
  have "0 < 1 - reltol" "1 - reltol < 1" by (simp_all add: reltol_def)
  then obtain i where "(1 - reltol) ^ i < m / h" using real_arch_pow_inv [of "m / h" "1 - reltol"] assms by auto
  then show ?thesis using assms by (auto simp: field_simps)
qed

lemma tran_try_linear:
  assumes "linear_tran ckt" "betas_ok ckt" "solvable (n_nodes ckt) (Gl ckt) (C ckt) (ar (tr ckt))" "ready ns ckt"
    and "si \<le> 0 \<or> old3t (tr ckt) < old2t (tr ckt) \<and> old2t (tr ckt) < oldt (tr ckt)"
  shows "\<exists>c ns'. tran_try si tstop ns ckt = Some (c, ns') \<and> linear_tran c \<and> step_solved c \<and> fixed c = fixed ckt"
proof -
  from assms(4) have "0 < now (tr ckt) - oldt (tr ckt)" "0 < min_step (tr ckt)" by (auto simp: ready_def)
  then obtain m where "(now (tr ckt) - oldt (tr ckt)) * (1 - reltol) ^ m < min_step (tr ckt)" using shrink_ends by blast
  then show ?thesis
    using assms
  proof (induction m arbitrary: ckt ns)
    case (0 ckt ns)
    let ?h = "now (tr ckt) - oldt (tr ckt)"
    have h: "?h > 0" "0 < min_step (tr ckt)" using 0(5) by (auto simp: ready_def)
    from solve_step [OF 0(2) _ 0(3,4), of tstop] h obtain c k where
      c: "find_solution load_tran_ckt max_tran_iters (tr_upd (set_coeffs tstop) ckt) = Some (c, Some k)"
      "linear_tran c" "step_solved c" "fixed c = fixed ckt"
      "(tr c)\<lparr>cur := [], chg := []\<rparr> = (set_coeffs tstop (tr ckt))\<lparr>cur := [], chg := []\<rparr>" by auto
    have "?h < (1 + reltol) * min_step (tr c)"
      using 0(1) h transient_kept(5) [OF c(5)] by (simp add: reltol_def)
    then show ?case using c h by (subst tran_try.simps) (simp add: Let_def)
  next
    case (Suc m ckt ns)
    let ?h = "now (tr ckt) - oldt (tr ckt)"
    have h: "?h > 0" "0 < ns" "0 < min_step (tr ckt)" "0 < max_step (tr ckt)" using Suc.prems(5) by (auto simp: ready_def)
    from solve_step [OF Suc.prems(2) _ Suc.prems(3,4), of tstop] h obtain c k where
      c: "find_solution load_tran_ckt max_tran_iters (tr_upd (set_coeffs tstop) ckt) = Some (c, Some k)"
      "linear_tran c" "step_solved c" "fixed c = fixed ckt" "betas_ok c"
      "(tr c)\<lparr>cur := [], chg := []\<rparr> = (set_coeffs tstop (tr ckt))\<lparr>cur := [], chg := []\<rparr>" by auto
    note k = transient_kept [OF c(6)]
    show ?case
    proof (cases "si \<le> 0 \<or> ?h < (1 + reltol) * min_step (tr c)")
      case True
      then show ?thesis using c h by (subst tran_try.simps) (auto simp add: Let_def)
    next
      case False
      then have ord: "old3t (tr c) < old2t (tr c)" "old2t (tr c) < oldt (tr c)" "oldt (tr c) < now (tr c)"
        using Suc.prems(6) h k by auto
      then obtain st where st: "pick_step c = Some st" by (auto simp: pick_step_def Let_def)
      have p: "0 < st" using pick_step_pos [OF st] k h by simp
      show ?thesis
      proof (cases "st < (1 - reltol) * ?h")
        case less: True
        let ?c = "tr_upd (\<lambda>t. t\<lparr>now := oldt t + st\<rparr>) c"
        have f: "fixed ?c = fixed ckt" using c(4) by (simp add: fixed_def)
        have "st * (1 - reltol) ^ m < min_step (tr ckt)"
        proof -
          have "st * (1 - reltol) ^ m \<le> ?h * (1 - reltol) ^ Suc m"
            using less mult_right_mono [of st "(1 - reltol) * ?h" "(1 - reltol) ^ m"] by (simp add: reltol_def ac_simps)
          with Suc.prems(1) show ?thesis by simp
        qed
        moreover have "linear_tran ?c" using c(2) by simp
        moreover have "betas_ok ?c" using c(5) by (simp add: betas_ok_def)
        moreover have "solvable (n_nodes ?c) (Gl ?c) (C ?c) (ar (tr ?c))" using f Suc.prems(4) by (simp add: fixed_def)
        moreover have "ready st ?c" using p h k by (simp add: ready_def)
        ultimately obtain c' ns' where "tran_try si tstop st ?c = Some (c', ns')" "linear_tran c'" "step_solved c'"
          "fixed c' = fixed ckt"
          using Suc.IH [of ?c st] ord k f by (auto simp: ready_def)
        moreover have "tran_try si tstop ns ckt = tran_try si tstop st ?c"
          using c(1) h False st less k by (subst tran_try.simps) (simp add: Let_def)
        ultimately show ?thesis by auto
      next
        case False2: False
        have "tran_try si tstop ns ckt = Some (c, st)"
          using c(1) h False st False2 by (subst tran_try.simps) (simp add: Let_def)
        with c show ?thesis by blast
      qed
    qed
  qed
qed

section \<open>The run\<close>

lemma step_state:
  assumes "linear_tran ckt" "length (ar (tr ckt)) = n_nodes ckt"
    and "cur (f (tr ckt)) = cur (tr ckt)" "chg (f (tr ckt)) = chg (tr ckt)" "ar (f (tr ckt)) = ar (tr ckt)"
  shows "linear_tran (tr_upd f ckt)"
  using assms by (simp add: linear_tran_def newton_ok_def)

lemma fixedD: "fixed c = fixed ckt \<Longrightarrow> n_nodes c = n_nodes ckt \<and> Gl c = Gl ckt \<and> C c = C ckt \<and> ar (tr c) = ar (tr ckt)"
  by (simp add: fixed_def)

lemma tran_loop_linear:
  assumes "linear_tran ckt" "length (ar (tr ckt)) = n_nodes ckt"
    "solvable (n_nodes ckt) (Gl ckt) (C ckt) (ar (tr ckt))" "ready ns ckt"
    and "1 \<le> si \<longrightarrow> old2t (tr ckt) < oldt (tr ckt)" and "tstart \<le> tstop"
  shows "\<exists>r. tran_loop k si tstart tstop ns ckt sols ts = Some r"
  using assms
proof (induction k arbitrary: si ns ckt sols ts)
  case (Suc k)
  have next_step: "\<exists>c st. tran_try si tstop ns (tr_upd f ckt) = Some (c, st) \<and>
      (\<exists>r. tran_loop k (si + 1) tstart tstop st c sols' ts' = Some r)"
    if f: "cur (f (tr ckt)) = cur (tr ckt)" "chg (f (tr ckt)) = chg (tr ckt)" "ar (f (tr ckt)) = ar (tr ckt)"
      "beta0 (f (tr ckt)) \<in> {replicate (n_nodes ckt) 1, map (\<lambda>a. 1 / 2 + real a * (1 / 2)) (ar (tr ckt))}"
      "ready ns (tr_upd f ckt)" "si \<le> 0 \<or> old3t (f (tr ckt)) < old2t (f (tr ckt)) \<and> old2t (f (tr ckt)) < oldt (f (tr ckt))"
      "0 \<le> si \<longrightarrow> old2t (f (tr ckt)) < oldt (f (tr ckt))" for f sols' ts'
  proof -
    let ?c = "tr_upd f ckt"
    note st = step_state [of ckt f, OF Suc.prems(1,2) f(1-3)]
    have "betas_ok ?c" using f(3,4) Suc.prems(2) by (simp add: betas_ok_def)
    moreover have "solvable (n_nodes ?c) (Gl ?c) (C ?c) (ar (tr ?c))" using Suc.prems(3) f(3) by simp
    moreover have "si \<le> 0 \<or> old3t (tr ?c) < old2t (tr ?c) \<and> old2t (tr ?c) < oldt (tr ?c)" using f(6) by simp
    ultimately obtain c ns' where c: "tran_try si tstop ns ?c = Some (c, ns')" "linear_tran c" "fixed c = fixed ?c"
      using tran_try_linear [OF st _ _ f(5)] by blast
    from tran_try_forward [OF c(1) f(5)] have g: "ready ns' c" "forward ?c c" by auto
    from fixedD [OF c(3)] f(3) Suc.prems(2,3) have "length (ar (tr c)) = n_nodes c" "solvable (n_nodes c) (Gl c) (C c) (ar (tr c))" by simp_all
    moreover have "1 \<le> si + 1 \<longrightarrow> old2t (tr c) < oldt (tr c)" using g(2) f(7) by (simp add: forward_def)
    ultimately show ?thesis using Suc.IH [OF c(2) _ _ g(1) _ Suc.prems(6)] c(1) by blast
  qed
  show ?case
  proof (cases "si < 0")
    case True
    let ?f = "\<lambda>t. set_betas 1 0 (prestep tstart (t\<lparr>oldc := cur t, old3sol := old2sol t, old2sol := oldsol t,
        oldsol := solution ckt, old3q := oldq t, old2q := oldq t, oldq := chg t\<rparr>))"
    have e: "tr_upd (\<lambda>t. set_betas 1 0 (prestep tstart t)) (save_step ckt) = tr_upd ?f ckt" by (simp add: save_step_def)
    have "map (\<lambda>a. 1 + real a * 0) (ar (tr ckt)) = replicate (n_nodes ckt) 1"
      using Suc.prems(2) by (simp add: map_replicate_const)
    then obtain c st where "tran_try si tstop ns (tr_upd ?f ckt) = Some (c, st)"
      "\<exists>r. tran_loop k (si + 1) tstart tstop st c sols ts = Some r"
      using next_step [of ?f sols ts] Suc.prems(4) True by (auto simp: set_betas_def prestep_def ready_def)
    then show ?thesis using True unfolding tran_loop.simps e by simp
  next
    case False
    show ?thesis
    proof (cases "now (tr ckt) \<ge> tstop")
      case True
      then show ?thesis using False by (simp add: Let_def)
    next
      case before: False
      let ?f = "\<lambda>t. set_betas (1 / 2) (1 / 2) (advance tstop ns (rotate_times (t\<lparr>oldc := cur t, old3sol := old2sol t,
          old2sol := oldsol t, oldsol := solution ckt, old3q := oldq t, old2q := oldq t, oldq := chg t\<rparr>)))"
      have e: "tr_upd (\<lambda>t. set_betas (1 / 2) (1 / 2) (advance tstop ns t)) (tr_upd rotate_times (save_step ckt)) = tr_upd ?f ckt"
        by (simp add: save_step_def)
      let ?t = "rotate_times ((tr ckt)\<lparr>oldc := cur (tr ckt), old3sol := old2sol (tr ckt),
          old2sol := oldsol (tr ckt), oldsol := solution ckt, old3q := oldq (tr ckt), old2q := oldq (tr ckt), oldq := chg (tr ckt)\<rparr>)"
      have "now ?t < tstop" "now ?t = now (tr ckt)" using before by (simp_all add: rotate_times_def)
      with advance_between [of ?t tstop ns] Suc.prems(4) have adv: "now (tr ckt) < now (advance tstop ns ?t)" by (simp add: ready_def)
      have "ready ns (tr_upd ?f ckt)" using adv Suc.prems(4)
        by (simp add: ready_def set_betas_def) (simp add: advance_def rotate_times_def)
      moreover have "si \<le> 0 \<or> old3t (?f (tr ckt)) < old2t (?f (tr ckt)) \<and> old2t (?f (tr ckt)) < oldt (?f (tr ckt))"
        "old2t (?f (tr ckt)) < oldt (?f (tr ckt))"
        using Suc.prems(4,5) by (auto simp: set_betas_def advance_def rotate_times_def ready_def)
      moreover have "cur (?f (tr ckt)) = cur (tr ckt)" "chg (?f (tr ckt)) = chg (tr ckt)" "ar (?f (tr ckt)) = ar (tr ckt)"
        "beta0 (?f (tr ckt)) = map (\<lambda>a. 1 / 2 + real a * (1 / 2)) (ar (tr ckt))"
        by (simp_all add: set_betas_def advance_def rotate_times_def)
      ultimately obtain c st where "tran_try si tstop ns (tr_upd ?f ckt) = Some (c, st)"
        "\<exists>r. tran_loop k (si + 1) tstart tstop st c (sols @ [solution ckt]) (ts @ [now (tr ckt)]) = Some r"
        using next_step [of ?f "sols @ [solution ckt]" "ts @ [now (tr ckt)]"] by blast
      then show ?thesis using False before unfolding tran_loop.simps Let_def e by simp
    qed
  qed
qed simp

section \<open>The analysis\<close>

lemma algebraic_length: "algebraic M = Some alg \<Longrightarrow> length alg = length M"
proof -
  have "length (snd (fold (algebraic_step R) is (Mc, alg))) = length alg + length is" for R "is" Mc and alg :: "nat list"
    by (induction "is" arbitrary: Mc alg) (simp_all add: algebraic_step_def)
  then show "algebraic M = Some alg \<Longrightarrow> ?thesis" by (auto simp: algebraic_def split: option.splits)
qed

lemma tran_init_linear:
  assumes "newton_ok ckt" and "shape (n_nodes ckt) (n_nodes ckt) (Gl ckt)" "shape (n_nodes ckt) (n_nodes ckt) (G ckt)"
    "shape (n_nodes ckt) (n_nodes ckt) (C ckt)"
    and "\<forall>d \<in> set (devices ckt). \<not> nonlinear d \<and> device_ok (n_nodes ckt) d \<and>
        (\<forall>t. source_finite (\<lambda>src. wave_value (src_wave src) t) d)"
    and "algebraic (C ckt) = Some alg" and "tstart < tstop" "0 < ntpts"
  shows "\<exists>c st. tran_init ntpts tstart tstop probes ckt = Some (c, st) \<and> linear_tran c \<and>
    n_nodes c = n_nodes ckt \<and> Gl c = Gl ckt \<and> C c = C ckt \<and> ar (tr c) = alg"
proof -
  define pers where "pers = \<lceil>(tstop - tstart) / shortest_period ckt (tstop - tstart)\<rceil>"
  define m where "m = (tstop - tstart) / (of_int pers * ntpts)"
  have p: "0 < shortest_period ckt (tstop - tstart)" using shortest_period_bounds assms(7) by simp
  then have "1 \<le> pers" using assms(7) shortest_period_bounds [of "tstop - tstart" ckt] by (simp add: pers_def one_le_ceiling)
  then have nz: "\<not> (shortest_period ckt (tstop - tstart) = 0 \<or> of_int pers * ntpts = 0)" using p assms(8) by simp
  let ?z = "replicate (n_nodes ckt) 0"
  let ?init = "ckt\<lparr>periods := pers, tr := no_transient\<lparr>cur := ?z, oldc := ?z, chg := ?z, oldq := ?z, old2q := ?z, beta0 := ?z,
        beta1 := ?z, alpha0 := 1, now := tstart, oldt := tstart - m / 10 ^ 6, ltecheck := lte_checks ckt probes alg, ar := alg,
        max_step := m, min_step := m / 10 ^ 8\<rparr>\<rparr>"
  have "linear_tran ?init" using assms(1-5) by (simp add: linear_tran_def newton_ok_def)
  from load_tran_linear [OF this] obtain c1 where c1: "load_tran_ckt ?init = Some c1" "linear_tran c1" "tl_keep c1 = tl_keep ?init"
    by blast
  let ?c = "tr_upd (\<lambda>t. t\<lparr>old3sol := solution c1, old2sol := solution c1, oldsol := solution c1,
                          old3q := chg t, old2q := chg t, oldq := chg t, oldc := cur t\<rparr>) c1"
  have "tran_init ntpts tstart tstop probes ckt = Some (?c, m / 10 ^ 6)"
    unfolding tran_init_def Let_def pers_def [symmetric] m_def [symmetric] if_not_P [OF nz]
    using c1(1) assms(6) by simp
  moreover have "linear_tran ?c" using c1(2) by (simp add: linear_tran_def newton_ok_def)
  moreover have k: "n_nodes c1 = n_nodes ckt" "Gl c1 = Gl ckt" "C c1 = C ckt"
    "tran_keep c1 = tran_keep ?init"
    using c1(3) by (simp_all add: tl_keep_def tran_keep_def)
  moreover have "ar (tr c1) = alg" using arg_cong [OF k(4), of "\<lambda>(t, r). ar t"] by (simp add: tran_keep_def)
  ultimately show ?thesis by (intro exI [of _ ?c] exI [of _ "m / 10 ^ 6"]) simp
qed

lemma tran_linear:
  assumes "wf ckt" "\<not> diddc ckt" "0 < nodes ckt" and "finalize ckt = Some (True, c1)"
    and "\<forall>d \<in> set (devices ckt). \<not> nonlinear d \<and> source_finite src_dc d \<and>
          (\<forall>t. source_finite (\<lambda>src. wave_value (src_wave src) t) d)"
    and "rq_rank (Gl c1) = nodes ckt" and "algebraic (C c1) = Some alg" and "solvable (nodes ckt) (Gl c1) (C c1) alg"
    and "tstart < tstop" "0 < ntpts"
  shows "\<exists>c res. tran ntpts tstart tstop probes ckt = Some (c, Some res)"
proof -
  have "\<forall>d \<in> set (devices ckt). \<not> nonlinear d \<and> source_finite src_dc d" using assms(5) by blast
  note fin = finalize_linear [OF assms(1) this assms(3,4)] and op = dc_linear [OF assms(1) this assms(3,4,6)]
  from op obtain c where dc: "dc ckt = Some (c, Some (dc_result c))" "linear_ckt c" "dc_keep c = dc_keep c1"
    "dc_frame c = dc_frame c1" by blast
  have e: "n_nodes c = nodes ckt" "devices c = devices ckt" "Gl c = Gl c1" "C c = C c1"
    using dc(3,4) fin by (simp_all add: dc_keep_def dc_frame_def)
  have "\<forall>d \<in> set (devices c). \<not> nonlinear d \<and> device_ok (n_nodes c) d \<and>
      (\<forall>t. source_finite (\<lambda>src. wave_value (src_wave src) t) d)"
    using dc(2) assms(5) e(2) by (simp add: linear_ckt_def)
  with tran_init_linear [of c alg tstart tstop ntpts probes] dc(2) e fin assms(7,9,10) obtain c2 st where
    init: "tran_init ntpts tstart tstop probes c = Some (c2, st)" "linear_tran c2" "n_nodes c2 = nodes ckt"
    "Gl c2 = Gl c1" "C c2 = C c1" "ar (tr c2) = alg"
    by (auto simp: linear_ckt_def)
  have "length alg = nodes ckt" using algebraic_length [OF assms(7)] fin by (simp add: shape_def)
  with tran_loop_linear [OF init(2), of st "- 3" tstart tstop "nat (periods c2 * 50000 + 3)" "[]" "[]"]
    tran_init_ready [OF init(1) assms(9,10)] init assms(8,9)
  obtain r where "tran_loop (nat (periods c2 * 50000 + 3)) (- 3) tstart tstop st c2 [] [] = Some r" by auto
  moreover have "tran_start ckt = Some (c, True)" using assms(2) dc(1) by (simp add: tran_start_def)
  ultimately show ?thesis using init(1) by (cases r) (simp add: tran_def)
qed


text \<open>C23. The times of a transient analysis increase strictly, start no later than the start of the
  interval and never pass its end, and the last one is the end of the interval unless all the steps
  allowed, 50000 for each period of the sources, have been used.\<close>

theorem transient_times:
  assumes "tran ntpts tstart tstop probes ckt = Some (c, Some res)" and "tstart < tstop" and "0 < ntpts"
  shows "\<exists>ts. res ''_time_'' = Some (Samples ts) \<and> sorted_wrt (<) ts \<and> ts \<noteq> [] \<and> hd ts \<le> tstart \<and>
    (\<forall>t \<in> set ts. t \<le> tstop) \<and> (last ts = tstop \<or> int (length ts) = periods c * 50000)"
proof -
  obtain c0 c1 st sols ts where init: "tran_init ntpts tstart tstop probes c0 = Some (c1, st)"
    and loop: "tran_loop (nat (periods c1 * 50000 + 3)) (- 3) tstart tstop st c1 [] [] = Some (c, sols, ts)"
    and res: "res = tran_result c sols ts"
    using assms(1) by (auto simp: tran_def split: option.splits bool.splits)
  note r = tran_init_ready [OF init assms(2,3)]
  have n: "nat (- (- 3)) \<le> nat (periods c1 * 50000 + 3)" using r by (simp add: le_nat_iff)
  from tran_loop_presteps [OF loop _ n] r assms(2) have
    "recorded tstop sols ts" "periods c = periods c1" "ts \<noteq> [] \<and> hd ts \<le> tstart"
    "last ts = tstop \<or> length ts = nat (periods c1 * 50000 + 3) - 3"
    by auto
  with r res show ?thesis by (auto simp: tran_result_def Let_def recorded_def)
qed


section \<open>An example\<close>

text \<open>The circuit of the operating point: no storage, so every equation is algebraic and every step
  matrix is the conductance matrix.\<close>

lemma demo_sources: "d \<in> set demo_devices \<Longrightarrow> \<not> nonlinear d \<and> source_finite src_dc d \<and>
    (\<forall>t. source_finite (\<lambda>src. wave_value (src_wave src) t) d)"
  by (auto simp: demo_devices_def source_finite_def demo_source_def wave_value_def)

lemma demo_algebraic: "algebraic (mat_make 2 2) = Some [1, 1]"
proof -
  have "mat_rank (mat_make 2 2) = Some 0"
    by (simp add: mat_rank_def mat_make_def numeral_2_eq_2 rank_step_def rank_row.simps max_abs_entry_def)
  moreover have "zero_row i (mat_make 2 2) = mat_make 2 2" if "i < 2" for i
    using that by (auto simp: zero_row_def mat_make_def numeral_2_eq_2 less_Suc_eq)
  moreover have "mat_copy (mat_make 2 2) (mat_make 2 2) = Some (mat_make 2 2)"
    using mat_copy_square(2) [OF shape_mat_make shape_mat_make, of 2] by simp
  moreover have "length (mat_make 2 2) = 2" by (simp add: mat_make_def)
  ultimately show ?thesis by (simp add: algebraic_def algebraic_step_def numeral_2_eq_2)
qed

lemma demo_solvable: "solvable 2 [[4 / 3, 1], [1, 0]] (mat_make 2 2) [1, 1]"
proof -
  have "step_matrix [1, 1] a0 [[4 / 3, 1], [1, 0]] (mat_make 2 2) = [[4 / 3, 1], [1, 0]]" for a0
    by (simp add: step_matrix_def lin_row_def mat_make_def numeral_2_eq_2)
  then show ?thesis using demo_rq by (simp add: solvable_def numeral_2_eq_2)
qed

lemma demo_circuit:
  "\<exists>ckt c1. load_netlist demo_netlist new_circuit = Some (True, ckt) \<and> wf ckt \<and> \<not> diddc ckt \<and> nodes ckt = 2 \<and>
     devices ckt = demo_devices \<and> finalize ckt = Some (True, c1) \<and> Gl c1 = [[4 / 3, 1], [1, 0]] \<and> C c1 = mat_make 2 2"
proof -
  from demo_load obtain ckt where ckt: "load_netlist demo_netlist new_circuit = Some (True, ckt)"
    "devices ckt = demo_devices" "node_index ckt = 1" "ntypes ckt = [T_VOLTAGE, T_CURRENT]"
    "voltage_sources ckt = [0]" "\<not> finalized ckt" "\<not> diddc ckt" by blast
  let ?c1 = "(set_up ckt)\<lparr>Gl := [[4 / 3, 1], [1, 0]], C := mat_make 2 2\<rparr>"
  have "finalize ckt = Some (True, ?c1)"
    using ckt demo_matrix demo_rank
    by (simp add: finalize_def Let_def set_up_def source_rows_def demo_devices_def branch_of_def)
  with ckt load_netlist_wf_lemma [OF ckt(1)] show ?thesis
    by (intro exI [of _ ckt] exI [of _ ?c1]) (simp add: nodes_def)
qed


lemma demo_tran:
  "\<exists>ckt c res. load_netlist demo_netlist new_circuit = Some (True, ckt) \<and> tran 50 0 1 [] ckt = Some (c, Some res)"
proof -
  from demo_circuit obtain ckt c1 where c: "load_netlist demo_netlist new_circuit = Some (True, ckt)" "wf ckt"
    "\<not> diddc ckt" "nodes ckt = 2" "devices ckt = demo_devices" "finalize ckt = Some (True, c1)"
    "Gl c1 = [[4 / 3, 1], [1, 0]]" "C c1 = mat_make 2 2" by blast
  have "\<exists>c res. tran 50 0 1 [] ckt = Some (c, Some res)"
    by (rule tran_linear [OF c(2,3) _ c(6), where alg = "[1, 1]"])
      (use c demo_sources demo_rq demo_algebraic demo_solvable in simp_all)
  with c(1) show ?thesis by blast
qed

lemma transient_times_witness:
  "\<exists>ckt c res ts. load_netlist demo_netlist new_circuit = Some (True, ckt) \<and> tran 50 0 1 [] ckt = Some (c, Some res) \<and>
     res ''_time_'' = Some (Samples ts) \<and> sorted_wrt (<) ts \<and> hd ts \<le> 0"
proof -
  from demo_tran obtain ckt c res where c: "load_netlist demo_netlist new_circuit = Some (True, ckt)"
    "tran 50 0 1 [] ckt = Some (c, Some res)" by blast
  from transient_times [OF c(2)] c show ?thesis by auto
qed

text \<open>A step of one second of that circuit.\<close>

definition demo_step :: circuit where
  "demo_step = new_circuit\<lparr>n_nodes := 2, ntypes := [T_VOLTAGE, T_CURRENT], devices := demo_devices, Gl := [[4 / 3, 1], [1, 0]],
     G := mat_make 2 2, C := mat_make 2 2, matrix := mat_make 2 3, solution := [0, 0], rhs := [0, 0], soln_max := [0, 0],
     abstol := [v_abstol, i_abstol],
     tr := no_transient\<lparr>cur := [0, 0], chg := [0, 0], beta0 := [1, 1], beta1 := [0, 0], ar := [1, 1], oldc := [0, 0],
       oldq := [0, 0], now := 1, max_step := 1, min_step := 1 / 10\<rparr>\<rparr>"

lemma demo_drive: "drive demo_devices t k = (if k = 0 then 0 else if k = 1 then 5 else 0)"
  by (simp add: drive_def demo_devices_def demo_source_def wave_value_def)


end
