(* ===== verification/CktAc.thy ===== *)
theory CktAc
  imports CktNetlist
begin

text \<open>
  The small-signal analysis \<open>ac\<close> of \<open>capa/schematic.js\<close>: a sweep of the frequency, at each sample the
  complex system \<open>(G + j omega C) z = rhs\<close> as a real one of twice the size, magnitudes and unwrapped
  phases. The right-hand side is what the operating point left there plus the source.
\<close>

section \<open>A sample\<close>

text \<open>\<open>Math.atan2\<close>\<close>

definition atan2 :: "real \<Rightarrow> real \<Rightarrow> real" where
  "atan2 y x =
     (if x > 0 then arctan (y / x)
      else if x < 0 then (if y \<ge> 0 then arctan (y / x) + pi else arctan (y / x) - pi)
      else if y > 0 then pi / 2 else if y < 0 then - (pi / 2) else 0)"

definition ac_matrix :: "mat \<Rightarrow> mat \<Rightarrow> vec \<Rightarrow> real \<Rightarrow> mat" where
  "ac_matrix Gm Cm b omega =
     map2 (\<lambda>(g, c) r. g @ map (\<lambda>v. - omega * v) c @ [r]) (zip Gm Cm) b @
     map2 (\<lambda>g c. map (\<lambda>v. omega * v) c @ g @ [0]) Gm Cm"

text \<open>The correction of the phase, by whole turns, from what was recorded before.\<close>

definition phase_offset :: "real \<Rightarrow> real \<Rightarrow> vec \<Rightarrow> real" where
  "phase_offset phase off past =
     (if length past > 1 then
        (let jump = phase + off - last past
         in if jump > 90 then off - 360 else if jump < -90 then off + 360 else off)
      else off)"

text \<open>The response and the phase correction of each node; \<open>response[2*N]\<close> holds the frequencies.\<close>

record sweep =
  sw_offset :: vec
  sw_freqs :: vec
  sw_mags :: mat
  sw_phases :: mat

definition new_sweep :: "nat \<Rightarrow> sweep" where
  "new_sweep n = \<lparr>sw_offset = replicate n 0, sw_freqs = [], sw_mags = replicate n [], sw_phases = replicate n []\<rparr>"

definition ac_phase :: "vec \<Rightarrow> nat \<Rightarrow> nat \<Rightarrow> real" where
  "ac_phase solac n i = 180 * (atan2 (solac ! (i + n)) (solac ! i) / pi)"

definition ac_record :: "nat \<Rightarrow> vec \<Rightarrow> sweep \<Rightarrow> sweep" where
  "ac_record n solac s =
     (let mags = map (\<lambda>i. sqrt (solac ! i * solac ! i + solac ! (i + n) * solac ! (i + n))) [0 ..< n];
          phases = map (ac_phase solac n) [0 ..< n];
          offs = map (\<lambda>i. phase_offset (phases ! i) (sw_offset s ! i) (sw_phases s ! i)) [0 ..< n]
      in s\<lparr>sw_offset := offs,
           sw_mags := map2 (\<lambda>past m. past @ [m]) (sw_mags s) mags,
           sw_phases := map (\<lambda>i. sw_phases s ! i @ [phases ! i + offs ! i]) [0 ..< n]\<rparr>)"

definition ac_sample :: "mat \<Rightarrow> mat \<Rightarrow> vec \<Rightarrow> real \<Rightarrow> sweep \<Rightarrow> sweep" where
  "ac_sample Gm Cm b f s =
     (let omega = 2 * pi * f
      in ac_record (length b) (mat_solve (ac_matrix Gm Cm b omega) None) (s\<lparr>sw_freqs := sw_freqs s @ [f]\<rparr>))"

section \<open>The sweep\<close>

partial_function (option) ac_loop :: "mat \<Rightarrow> mat \<Rightarrow> vec \<Rightarrow> real \<Rightarrow> real \<Rightarrow> real \<Rightarrow> sweep \<Rightarrow> sweep option" where
  "ac_loop Gm Cm b delta_f fstop f s =
     (if f \<le> fstop then ac_loop Gm Cm b delta_f fstop (f * delta_f) (ac_sample Gm Cm b f s) else Some s)"

declare ac_loop.simps [code]

text \<open>The node names in the order in which the engine enumerates them.\<close>

definition ac_result :: "string list \<Rightarrow> circuit \<Rightarrow> sweep \<Rightarrow> string \<Rightarrow> response option" where
  "ac_result names ckt s =
     (fold (\<lambda>name res. case node_map ckt name of
              None \<Rightarrow> res
            | Some i \<Rightarrow> res(name \<mapsto> node_response i (sw_mags s), name @ ''_phase'' \<mapsto> node_response i (sw_phases s)))
        names Map.empty)(''_frequencies_'' \<mapsto> Samples (sw_freqs s))"

datatype ac_outcome = No_operating_point | Unknown_source | Ac "string \<Rightarrow> response option"

text \<open>Samples per decade, first and last frequency, the name of the source.\<close>

definition ac :: "string list \<Rightarrow> real \<Rightarrow> real \<Rightarrow> real \<Rightarrow> string \<Rightarrow> circuit \<Rightarrow> (circuit \<times> ac_outcome) option" where
  "ac names npts fstart fstop source_name ckt =
     (case dc ckt of
        None \<Rightarrow> None
      | Some (c1, None) \<Rightarrow> Some (c1, No_operating_point)
      | Some (c1, Some _) \<Rightarrow>
          (case device_map c1 source_name of
             None \<Rightarrow> Some (c1, Unknown_source)
           | Some d \<Rightarrow>
               (let c2 = c1\<lparr>rhs := load_ac (devices c1 ! d) (rhs c1)\<rparr>
                in if npts = 0 then None
                   else case ac_loop (G c2) (C c2) (rhs c2) (exp (ln 10 / npts)) (fstop * (10001 / 10000)) fstart
                               (new_sweep (n_nodes c2)) of
                     None \<Rightarrow> None
                   | Some s \<Rightarrow> Some (c2, Ac (ac_result names c2 s)))))"

section \<open>The frequencies\<close>

lemma ac_sample_freqs [simp]: "sw_freqs (ac_sample Gm Cm b f s) = sw_freqs s @ [f]"
  by (simp add: ac_sample_def ac_record_def Let_def)

lemma ac_loop_stuck:
  assumes "ac_loop Gm Cm b d fstop f s = Some s'" and "1 < d" and "f \<le> 0"
  shows "fstop < f"
proof -
  have "1 < d \<longrightarrow> f \<le> 0 \<longrightarrow> fstop < f"
  proof (rule ac_loop.raw_induct [OF _ assms(1), where P = "\<lambda>Gm Cm b d fstop f s s'. 1 < d \<longrightarrow> f \<le> 0 \<longrightarrow> fstop < f"], goal_cases)
    case (1 rec Gm Cm b d fstop f s s')
    show ?case
    proof (intro impI, cases "f \<le> fstop")
      case True
      assume d: "1 < d" "f \<le> 0"
      with True 1(2) have "rec Gm Cm b d fstop (f * d) (ac_sample Gm Cm b f s) = Some s'" by simp
      from 1(1) [OF this] d have "fstop < f * d" by (simp add: mult_nonpos_nonneg)
      moreover have "f * d \<le> f" using d mult_left_mono_neg [of 1 d f] by simp
      ultimately show "fstop < f" by simp
    qed simp
  qed
  with assms(2,3) show ?thesis by simp
qed

lemma ac_loop_runs:
  assumes "1 < d" and "0 < f"
  shows "\<exists>s' n. ac_loop Gm Cm b d fstop f s = Some s' \<and>
    sw_freqs s' = sw_freqs s @ map (\<lambda>k. f * d ^ k) [0 ..< n] \<and>
    (\<forall>k < n. f * d ^ k \<le> fstop) \<and> fstop < f * d ^ n"
proof -
  obtain m where "fstop / f < d ^ m" using real_arch_pow [OF assms(1)] by blast
  then have "fstop < f * d ^ m" using assms(2) by (simp add: field_simps)
  then show ?thesis
    using assms(2)
  proof (induction m arbitrary: f s)
    case 0
    then have "ac_loop Gm Cm b d fstop f s = Some s" by (simp add: ac_loop.simps)
    with 0 show ?case by (intro exI [of _ s] exI [of _ 0]) simp
  next
    case (Suc m)
    show ?case
    proof (cases "f \<le> fstop")
      case True
      from Suc.IH [of "f * d" "ac_sample Gm Cm b f s"] Suc.prems assms(1) obtain s' n where
        s': "ac_loop Gm Cm b d fstop (f * d) (ac_sample Gm Cm b f s) = Some s'"
        "sw_freqs s' = sw_freqs s @ [f] @ map (\<lambda>k. f * d * d ^ k) [0 ..< n]"
        "\<forall>k < n. f * d * d ^ k \<le> fstop" "fstop < f * d * d ^ n"
        by (auto simp: mult.assoc)
      have "map (\<lambda>k. f * d ^ k) [0 ..< Suc n] = f # map (\<lambda>k. f * d * d ^ k) [0 ..< n]"
        by (simp add: upt_conv_Cons map_Suc_upt [symmetric] mult.assoc del: upt_Suc)
      moreover have "\<forall>k < Suc n. f * d ^ k \<le> fstop"
        using s'(3) True by (auto simp: less_Suc_eq_0_disj mult.assoc)
      moreover have "ac_loop Gm Cm b d fstop f s = Some s'" using s'(1) True by (subst ac_loop.simps) simp
      ultimately show ?thesis using s'(2,4)
        by (intro exI [of _ s'] exI [of _ "Suc n"]) (simp add: mult.assoc del: upt_Suc)
    next
      case False
      then have "ac_loop Gm Cm b d fstop f s = Some s" by (simp add: ac_loop.simps)
      with False show ?thesis by (intro exI [of _ s] exI [of _ 0]) simp
    qed
  qed
qed

lemma decade_powr: "0 < n \<Longrightarrow> exp (ln 10 / n) ^ k = 10 powr (real k / n)"
  by (simp add: powr_def flip: exp_of_nat_mult)

text \<open>The sweep ends exactly when its first frequency is positive or already above the last one, and
  then it samples the frequencies \<open>fstart * 10^(k/npts)\<close> up to the last one.\<close>

theorem sweep_terminates:
  assumes "0 < npts"
  shows "((\<exists>s'. ac_loop Gm Cm b (exp (ln 10 / npts)) fstop fstart s = Some s') \<longleftrightarrow> 0 < fstart \<or> fstop < fstart) \<and>
    (\<forall>s'. 0 < fstart \<and> ac_loop Gm Cm b (exp (ln 10 / npts)) fstop fstart s = Some s' \<longrightarrow>
      (\<exists>n. sw_freqs s' = sw_freqs s @ map (\<lambda>k. fstart * 10 powr (real k / npts)) [0 ..< n] \<and>
        (\<forall>k < n. fstart * 10 powr (real k / npts) \<le> fstop) \<and> fstop < fstart * 10 powr (real n / npts)))"
proof (intro conjI allI impI)
  let ?d = "exp (ln 10 / npts)"
  have d: "1 < ?d" using assms by simp
  have "\<exists>s'. ac_loop Gm Cm b ?d fstop fstart s = Some s'" if "0 < fstart \<or> fstop < fstart"
  proof (cases "0 < fstart")
    case True
    then show ?thesis using ac_loop_runs [OF d] by blast
  next
    case False
    then show ?thesis using that by (subst ac_loop.simps) simp
  qed
  moreover have "fstop < fstart" if "ac_loop Gm Cm b ?d fstop fstart s = Some s'" "\<not> 0 < fstart" for s'
    using ac_loop_stuck [OF that(1) d] that(2) by simp
  ultimately show "(\<exists>s'. ac_loop Gm Cm b ?d fstop fstart s = Some s') \<longleftrightarrow> 0 < fstart \<or> fstop < fstart" by blast
  fix s' assume r: "0 < fstart \<and> ac_loop Gm Cm b ?d fstop fstart s = Some s'"
  then obtain n where n: "sw_freqs s' = sw_freqs s @ map (\<lambda>k. fstart * ?d ^ k) [0 ..< n]"
      "\<forall>k < n. fstart * ?d ^ k \<le> fstop" "fstop < fstart * ?d ^ n"
    using ac_loop_runs [OF d, of fstart Gm Cm b fstop s] by auto
  show "\<exists>n. sw_freqs s' = sw_freqs s @ map (\<lambda>k. fstart * 10 powr (real k / npts)) [0 ..< n] \<and>
        (\<forall>k < n. fstart * 10 powr (real k / npts) \<le> fstop) \<and> fstop < fstart * 10 powr (real n / npts)"
    using n unfolding decade_powr [OF assms] by blast
qed

text \<open>Two samples, one per decade from 1 to at most 50.\<close>

lemma sweep_terminates_witness:
  "\<exists>s'. ac_loop [[2]] [[1]] [3] (exp (ln 10 / 1)) 50 1 (new_sweep 1) = Some s' \<and> sw_freqs s' = [1, 10]"
proof -
  from sweep_terminates [of 1 "[[2]]" "[[1]]" "[3]" 50 1 "new_sweep 1"] obtain s' n where
    s': "ac_loop [[2]] [[1]] [3] (exp (ln 10 / 1)) 50 1 (new_sweep 1) = Some s'"
    "sw_freqs s' = map (\<lambda>k. 10 powr real k) [0 ..< n]"
    "\<forall>k < n. 10 powr real k \<le> 50" "50 < 10 powr real n"
    by (auto simp: new_sweep_def)
  have "n = 2"
  proof (rule ccontr)
    assume "n \<noteq> 2"
    then consider "2 < n" | "n = 0" | "n = 1" by linarith
    then show False using s'(3,4) by cases (auto dest: spec [of _ 2])
  qed
  with s' show ?thesis by (simp add: numeral_2_eq_2)
qed

section \<open>The phasors\<close>

lemma atan2_polar: "Complex x y = of_real (sqrt (x * x + y * y)) * cis (atan2 y x)"
proof -
  have pos: "sqrt (x * x + y * y) * cos (arctan (y / x)) = \<bar>x\<bar> \<and>
      sqrt (x * x + y * y) * sin (arctan (y / x)) = \<bar>x\<bar> * (y / x)" if "x \<noteq> 0"
  proof -
    have "x * x + y * y = x\<^sup>2 * (1 + (y / x)\<^sup>2)" using that by (simp add: power2_eq_square field_simps)
    then have r: "sqrt (x * x + y * y) = \<bar>x\<bar> * sqrt (1 + (y / x)\<^sup>2)" by (simp add: real_sqrt_mult)
    have "sqrt (1 + (y / x)\<^sup>2) \<noteq> 0" by (simp add: add_nonneg_eq_0_iff)
    then show ?thesis by (simp add: r cos_arctan sin_arctan)
  qed
  consider "x > 0" | "x < 0" | "x = 0" by linarith
  then show ?thesis
  proof cases
    case 1
    with pos show ?thesis by (simp add: atan2_def complex_eq_iff)
  next
    case 2
    with pos show ?thesis by (auto simp: atan2_def complex_eq_iff cos_diff sin_diff)
  next
    case 3
    then show ?thesis by (auto simp: atan2_def complex_eq_iff)
  qed
qed

text \<open>The admittance at an angular frequency.\<close>

definition admittance :: "mat \<Rightarrow> mat \<Rightarrow> real \<Rightarrow> nat \<Rightarrow> nat \<Rightarrow> complex" where
  "admittance Gm Cm omega i j = Complex (Gm ! i ! j) (omega * Cm ! i ! j)"

lemma admittance_row:
  assumes "length (Gm ! i) = n" "length (Cm ! i) = n" "length u = n" "length v = n"
  shows "(\<Sum>j < n. admittance Gm Cm omega i j * Complex (u ! j) (v ! j)) =
    Complex (dot (Gm ! i) u - omega * dot (Cm ! i) v) (omega * dot (Cm ! i) u + dot (Gm ! i) v)"
  using assms
  by (simp add: complex_eq_iff admittance_def dot_nth sum_subtractf sum.distrib sum_distrib_left algebra_simps)

lemma ac_matrix_shape:
  assumes "shape n n Gm" "shape n n Cm" "length b = n"
  shows "shape (2 * n) (Suc (2 * n)) (ac_matrix Gm Cm b omega)"
  using shape_len [OF assms(1)] shape_len [OF assms(2)] assms(3)
  by (intro shapeI) (auto simp: ac_matrix_def nth_append)

lemma ac_matrix_kills:
  assumes "shape n n Gm" "shape n n Cm" "length b = n" "length u = n" "length v = n"
  shows "kills (ac_matrix Gm Cm b omega) ((u @ v) @ [t]) \<longleftrightarrow>
    (\<forall>i < n. (\<Sum>j < n. admittance Gm Cm omega i j * Complex (u ! j) (v ! j)) = of_real (- t * b ! i))"
proof -
  note g = shape_len [OF assms(1)] and c = shape_len [OF assms(2)]
  let ?M = "ac_matrix Gm Cm b omega" and ?z = "(u @ v) @ [t]"
  have l: "length ?M = n + n" using g(1) c(1) assms(3) by (simp add: ac_matrix_def)
  have s: "map (\<lambda>v. k * v) r = map (\<lambda>v. v * k) r" for k :: real and r by simp
  have d: "dot (?M ! i) ?z = dot (Gm ! i) u - omega * dot (Cm ! i) v + b ! i * t"
    "dot (?M ! (n + i)) ?z = omega * dot (Cm ! i) u + dot (Gm ! i) v" if "i < n" for i
    using that g c assms(3-5) dot_scale [of "- omega" "Cm ! i" v] dot_scale [of omega "Cm ! i" u]
    by (simp_all add: ac_matrix_def nth_append dot_append mult.commute [of "_ :: real" omega]
        mult.commute [of _ "- omega"] del: mult_minus_left mult_minus_right)
  have all: "(\<forall>i < n + n. P i) \<longleftrightarrow> (\<forall>i < n. P i \<and> P (n + i))" for P :: "nat \<Rightarrow> bool"
    by (metis add_less_cancel_left less_diff_conv2 le_add_diff_inverse not_less trans_less_add1)
  have "(dot (?M ! i) ?z = 0 \<and> dot (?M ! (n + i)) ?z = 0) \<longleftrightarrow>
      (\<Sum>j < n. admittance Gm Cm omega i j * Complex (u ! j) (v ! j)) = of_real (- t * b ! i)" if "i < n" for i
    unfolding d [OF that] using that g(2) c(2) assms(4,5)
    by (simp add: admittance_row complex_eq_iff eq_neg_iff_add_eq_0 mult.commute [of _ t])
  then show ?thesis
    unfolding kills_nth l all by blast
qed

text \<open>No voltages but zero satisfy the equations without a source.\<close>

definition regular :: "mat \<Rightarrow> mat \<Rightarrow> nat \<Rightarrow> real \<Rightarrow> bool" where
  "regular Gm Cm n omega \<longleftrightarrow>
     (\<forall>z. length z = n \<and> (\<forall>i < n. (\<Sum>j < n. admittance Gm Cm omega i j * z ! j) = 0) \<longrightarrow> z = replicate n 0)"

lemma halves: "length y = 2 * n \<Longrightarrow> \<exists>u v. y = u @ v \<and> length u = n \<and> length v = n"
  by (intro exI [of _ "take n y"] exI [of _ "drop n y"]) simp

lemma ac_matrix_nonsingular:
  assumes "shape n n Gm" "shape n n Cm" "length b = n" "regular Gm Cm n omega"
  shows "nonsingular (2 * n) (ac_matrix Gm Cm b omega)"
  unfolding nonsingular_kills [OF ac_matrix_shape [OF assms(1-3)]]
proof (intro allI impI)
  fix y :: vec assume y: "length y = 2 * n" "kills (ac_matrix Gm Cm b omega) (y @ [0])"
  from halves [OF y(1)] obtain u v where uv: "y = u @ v" "length u = n" "length v = n" by blast
  let ?z = "map2 Complex u v"
  have "\<forall>i < n. (\<Sum>j < n. admittance Gm Cm omega i j * ?z ! j) = 0"
    using y(2) uv ac_matrix_kills [OF assms(1-3) uv(2,3), of omega 0] by simp
  then have "?z = replicate n 0" using assms(4) uv by (simp add: regular_def)
  then have "\<forall>j < n. Complex (u ! j) (v ! j) = 0" using uv by (metis length_map length_zip min.idem nth_map nth_replicate nth_zip split_conv)
  then show "y = replicate (2 * n) 0"
    using uv by (auto simp: complex_eq_iff nth_append intro!: nth_equalityI)
qed

text \<open>The complex voltage that a magnitude and a phase in degrees stand for.\<close>

definition phasor :: "real \<Rightarrow> real \<Rightarrow> complex" where
  "phasor m p = of_real m * cis (p * pi / 180)"

text \<open>A list of magnitudes and phases, one for each node, that solves the system at a frequency.\<close>

definition solved_at :: "mat \<Rightarrow> mat \<Rightarrow> vec \<Rightarrow> real \<Rightarrow> vec \<Rightarrow> vec \<Rightarrow> bool" where
  "solved_at Gm Cm b f ms ps \<longleftrightarrow>
     (\<forall>i < length b. (\<Sum>j < length b. admittance Gm Cm (2 * pi * f) i j * phasor (ms ! j) (ps ! j)) = of_real (b ! i))"

definition sweep_ok :: "mat \<Rightarrow> mat \<Rightarrow> vec \<Rightarrow> sweep \<Rightarrow> bool" where
  "sweep_ok Gm Cm b s \<longleftrightarrow> length (sw_offset s) = length b \<and> length (sw_mags s) = length b \<and> length (sw_phases s) = length b \<and>
     (\<forall>i < length b. (\<exists>k. sw_offset s ! i = 360 * of_int k) \<and>
        length (sw_mags s ! i) = length (sw_freqs s) \<and> length (sw_phases s ! i) = length (sw_freqs s)) \<and>
     (\<forall>k < length (sw_freqs s). solved_at Gm Cm b (sw_freqs s ! k) (map (\<lambda>l. l ! k) (sw_mags s)) (map (\<lambda>l. l ! k) (sw_phases s)))"

lemma phase_offset_turns:
  assumes "off = 360 * of_int k"
  shows "\<exists>k. phase_offset phase off past = 360 * of_int k"
proof -
  have "phase_offset phase off past \<in> {off, off - 360, off + 360}" by (simp add: phase_offset_def Let_def)
  then consider "phase_offset phase off past = 360 * of_int k" | "phase_offset phase off past = 360 * of_int (k - 1)"
    | "phase_offset phase off past = 360 * of_int (k + 1)" using assms by auto
  then show ?thesis by cases blast+
qed

lemma phasor_turns: "phasor m (p + 360 * of_int k) = phasor m p"
proof -
  have "(p + 360 * of_int k) * pi / 180 = p * pi / 180 + 2 * pi * of_int k" by (simp add: field_simps)
  then have "cis ((p + 360 * of_int k) * pi / 180) = cis (p * pi / 180) * cis (2 * pi * of_int k)"
    by (simp only: cis_mult)
  also have "cis (2 * pi * of_int k) = 1" by (simp add: cis_multiple_2pi)
  finally show ?thesis by (simp only: phasor_def mult_1_right)
qed

lemma phasor_sample: "phasor (sqrt (x * x + y * y)) (180 * (atan2 y x / pi)) = Complex x y"
  using atan2_polar [of x y] by (simp add: phasor_def)

lemma ac_sample_ok:
  assumes "shape (length b) (length b) Gm" "shape (length b) (length b) Cm"
    and "regular Gm Cm (length b) (2 * pi * f)" and "sweep_ok Gm Cm b s"
  shows "sweep_ok Gm Cm b (ac_sample Gm Cm b f s)"
proof -
  define n where "n = length b"
  let ?M = "ac_matrix Gm Cm b (2 * pi * f)"
  have sh: "shape n n Gm" "shape n n Cm" "length b = n" using assms(1,2) by (simp_all add: n_def)
  from mat_solve_kills [OF ac_matrix_shape [OF sh] ac_matrix_nonsingular [OF sh]] assms(3)
  have k: "length (mat_solve ?M None) = 2 * n" "kills ?M (mat_solve ?M None @ [-1])" by (simp_all add: n_def)
  from halves [OF k(1)] obtain u v where uv: "mat_solve ?M None = u @ v" "length u = n" "length v = n" by blast
  have z: "\<forall>i < n. (\<Sum>j < n. admittance Gm Cm (2 * pi * f) i j * Complex (u ! j) (v ! j)) = of_real (b ! i)"
    using k(2) uv ac_matrix_kills [OF sh uv(2,3), of "2 * pi * f" "-1"] by simp
  let ?s = "ac_sample Gm Cm b f s"
  let ?m = "\<lambda>i. sqrt (u ! i * u ! i + v ! i * v ! i)" and ?p = "\<lambda>i. 180 * (atan2 (v ! i) (u ! i) / pi)"
  let ?o = "\<lambda>i. phase_offset (?p i) (sw_offset s ! i) (sw_phases s ! i)"
  have i: "sw_offset ?s ! i = ?o i" "sw_mags ?s ! i = sw_mags s ! i @ [?m i]" "sw_phases ?s ! i = sw_phases s ! i @ [?p i + ?o i]"
    if "i < n" for i
    using that assms(4) uv by (simp_all add: ac_sample_def ac_record_def Let_def ac_phase_def sweep_ok_def n_def nth_append)
  have l: "length (sw_offset ?s) = n" "length (sw_mags ?s) = n" "length (sw_phases ?s) = n"
    using assms(4) by (simp_all add: ac_sample_def ac_record_def Let_def sweep_ok_def n_def)
  have prev: "length (sw_mags s ! i) = length (sw_freqs s)" "length (sw_phases s ! i) = length (sw_freqs s)"
    "\<exists>k. sw_offset s ! i = 360 * of_int k" if "i < n" for i
    using assms(4) that by (auto simp: sweep_ok_def n_def)
  have turns: "\<exists>k. ?o i = 360 * of_int k" if "i < n" for i using prev(3) [OF that] phase_offset_turns by blast
  have ph: "phasor (?m i) (?p i + ?o i) = Complex (u ! i) (v ! i)" if "i < n" for i
    using turns [OF that] phasor_turns phasor_sample by metis
  have "solved_at Gm Cm b (sw_freqs ?s ! k) (map (\<lambda>l. l ! k) (sw_mags ?s)) (map (\<lambda>l. l ! k) (sw_phases ?s))"
    if "k < length (sw_freqs ?s)" for k
  proof (cases "k = length (sw_freqs s)")
    case True
    then show ?thesis
      using z ph prev l by (simp add: solved_at_def i nth_append flip: n_def)
  next
    case False
    then have "solved_at Gm Cm b (sw_freqs s ! k) (map (\<lambda>l. l ! k) (sw_mags s)) (map (\<lambda>l. l ! k) (sw_phases s))"
      and less: "k < length (sw_freqs s)"
      using that assms(4) by (auto simp: sweep_ok_def)
    then show ?thesis
      using prev l assms(4) by (simp add: solved_at_def i nth_append sweep_ok_def flip: n_def)
  qed
  with l i prev turns show ?thesis by (simp add: sweep_ok_def flip: n_def)
qed

lemma ac_loop_ok:
  assumes "ac_loop Gm Cm b d fstop f s = Some s'" and "shape (length b) (length b) Gm" "shape (length b) (length b) Cm"
    and "\<forall>f > 0. regular Gm Cm (length b) (2 * pi * f)" and "0 < d" "0 < f" and "sweep_ok Gm Cm b s"
  shows "sweep_ok Gm Cm b s'"
proof -
  let ?P = "\<lambda>Gm Cm b d fstop f s s'. shape (length b) (length b) Gm \<longrightarrow> shape (length b) (length b) Cm \<longrightarrow>
      (\<forall>f > 0. regular Gm Cm (length b) (2 * pi * f)) \<longrightarrow> 0 < d \<longrightarrow> 0 < f \<longrightarrow> sweep_ok Gm Cm b s \<longrightarrow> sweep_ok Gm Cm b s'"
  have "?P Gm Cm b d fstop f s s'"
  proof (rule ac_loop.raw_induct [OF _ assms(1), where P = ?P], goal_cases)
    case (1 rec Gm Cm b d fstop f s s')
    then show ?case
    proof (cases "f \<le> fstop")
      case True
      with 1(2) have "rec Gm Cm b d fstop (f * d) (ac_sample Gm Cm b f s) = Some s'" by simp
      from 1(1) [OF this] show ?thesis using ac_sample_ok by simp
    qed simp
  qed
  with assms show ?thesis by blast
qed

lemma new_sweep_ok: "sweep_ok Gm Cm b (new_sweep (length b))"
  by (auto simp: sweep_ok_def new_sweep_def intro: exI [of _ 0])

text \<open>C9. Every sample of a sweep solves the circuit at its frequency: read as complex numbers, the
  magnitudes and phases recorded for the nodes satisfy \<open>(G + j omega C) z = rhs\<close>, for a circuit whose
  equations are regular at every frequency. The whole turns that the unwrapping of the phase adds do not
  matter.\<close>

theorem sweep_solves:
  assumes "shape (length b) (length b) Gm" "shape (length b) (length b) Cm" and "0 < npts" "0 < fstart"
    and "\<forall>f > 0. regular Gm Cm (length b) (2 * pi * f)"
    and "ac_loop Gm Cm b (exp (ln 10 / npts)) fstop fstart (new_sweep (length b)) = Some s" and "k < length (sw_freqs s)"
  shows "\<forall>i < length b. (\<Sum>j < length b. admittance Gm Cm (2 * pi * sw_freqs s ! k) i j *
      phasor (sw_mags s ! j ! k) (sw_phases s ! j ! k)) = of_real (b ! i)"
proof -
  have "sweep_ok Gm Cm b s"
    using ac_loop_ok [OF assms(6,1,2,5) exp_gt_zero assms(4) new_sweep_ok] .
  then have "solved_at Gm Cm b (sw_freqs s ! k) (map (\<lambda>l. l ! k) (sw_mags s)) (map (\<lambda>l. l ! k) (sw_phases s))"
    and l: "length (sw_mags s) = length b" "length (sw_phases s) = length b"
    using assms(7) by (auto simp: sweep_ok_def)
  moreover have "(\<Sum>j < length b. admittance Gm Cm w i j * phasor (sw_mags s ! j ! k) (sw_phases s ! j ! k)) =
      (\<Sum>j < length b. admittance Gm Cm w i j * phasor (map (\<lambda>l. l ! k) (sw_mags s) ! j) (map (\<lambda>l. l ! k) (sw_phases s) ! j))"
    for w i using l by (intro sum.cong) simp_all
  ultimately show ?thesis by (simp only: solved_at_def)
qed

lemma sweep_solves_witness:
  "\<exists>s'. ac_loop [[2]] [[1]] [3] (exp (ln 10 / 1)) 50 1 (new_sweep 1) = Some s' \<and>
     Complex 2 (2 * pi) * phasor (sw_mags s' ! 0 ! 0) (sw_phases s' ! 0 ! 0) = 3"
proof -
  have d: "1 < exp (ln 10 / 1 :: real)" by simp
  from ac_loop_runs [OF d, of 1 "[[2]]" "[[1]]" "[3]" 50 "new_sweep 1"] obtain s' n where
    s': "ac_loop [[2]] [[1]] [3] (exp (ln 10 / 1)) 50 1 (new_sweep 1) = Some s'"
    "sw_freqs s' = map (\<lambda>k. 1 * exp (ln 10 / 1) ^ k) [0 ..< n]" "50 < (1::real) * exp (ln 10 / 1) ^ n"
    by (auto simp: new_sweep_def)
  then have n: "0 < n" by (cases n) auto
  have "\<forall>f > 0. regular [[2]] [[1]] (length [3::real]) (2 * pi * f)"
    by (auto simp: regular_def admittance_def length_Suc_conv Complex_eq_0)
  moreover have "ac_loop [[2]] [[1]] [3] (exp (ln 10 / 1)) 50 1 (new_sweep (length [3::real])) = Some s'" using s'(1) by simp
  moreover have "0 < length (sw_freqs s')" "sw_freqs s' ! 0 = 1" using s'(2) n by simp_all
  ultimately have "\<forall>i < length [3::real]. (\<Sum>j < length [3::real]. admittance [[2]] [[1]] (2 * pi * sw_freqs s' ! 0) i j *
      phasor (sw_mags s' ! j ! 0) (sw_phases s' ! j ! 0)) = of_real ([3] ! i)"
    by (intro sweep_solves [where npts = 1 and fstart = 1 and fstop = 50 and s = "s'"]) (simp_all add: shape_def)
  with s'(1) \<open>sw_freqs s' ! 0 = 1\<close> show ?thesis by (simp add: admittance_def)
qed

section \<open>Unwrapping\<close>



end
