(* ===== verification/CktJacobian.thy ===== *)
theory CktJacobian
  imports CktDevices
begin

text \<open>
  The nonlinear devices give the Newton iteration the derivatives of their currents: the conductances
  that \<open>load_dc\<close> puts into the matrix are the slopes of the currents it puts into the right-hand side.
\<close>

section \<open>Diode\<close>

definition quad :: "real \<Rightarrow> real" where
  "quad x = exp 50 * (1 + (x - 50) + 1 / 2 * (x - 50) * (x - 50))"

lemma quad_pos: "50 < x \<Longrightarrow> 0 < quad x"
  by (simp add: quad_def add_pos_pos)

lemma quad_deriv: "(quad has_real_derivative exp 50 * (1 + (x - 50))) (at x)"
  unfolding quad_def by (auto intro!: derivative_eq_intros simp: algebra_simps)

lemma diode_temps_cases:
  "\<bar>x\<bar> \<le> 50 \<Longrightarrow> diode_temps x = (exp x, exp x)"
  "50 < x \<Longrightarrow> diode_temps x = (quad x, exp 50 * (1 + (x - 50)))"
  "x < - 50 \<Longrightarrow> diode_temps x = (1 / quad (- x), exp 50 * (1 + (- x - 50)) / (quad (- x) * quad (- x)))"
  by (auto simp: diode_temps_def Let_def quad_def exp_minus field_simps abs_if)

lemma diode_temps_deriv:
  assumes "\<bar>x\<bar> \<noteq> 50"
  shows "((\<lambda>x. fst (diode_temps x)) has_real_derivative snd (diode_temps x)) (at x)"
proof -
  consider "\<bar>x\<bar> < 50" | "50 < x" | "x < - 50" using assms by linarith
  then show ?thesis
  proof cases
    case 1
    have "(exp has_real_derivative exp x) (at x)" by (rule DERIV_exp)
    then have "((\<lambda>x. fst (diode_temps x)) has_real_derivative exp x) (at x)"
      by (rule has_field_derivative_transform_within_open [where S = "{-50 <..< 50}"])
        (use 1 in \<open>auto simp: diode_temps_cases(1) abs_le_iff\<close>)
    with 1 show ?thesis by (simp add: diode_temps_cases(1))
  next
    case 2
    from has_field_derivative_transform_within_open [OF quad_deriv, of "{50 <..}" x] 2 show ?thesis
      by (simp add: diode_temps_cases(2))
  next
    case 3
    have "((\<lambda>x. 1 / quad (- x)) has_real_derivative exp 50 * (1 + (- x - 50)) / (quad (- x) * quad (- x))) (at x)"
      using quad_pos [of "- x"] 3
      by (auto intro!: derivative_eq_intros DERIV_chain' [OF _ quad_deriv] simp: power2_eq_square)
    from has_field_derivative_transform_within_open [OF this, of "{..< -50}"] 3 show ?thesis
      by (simp add: diode_temps_cases(3))
  qed
qed

text \<open>C35. The conductance a diode loads is the derivative of its current, on the exponential, on the
  quadratic continuation above it and on its reciprocal below.\<close>

theorem diode_jacobian:
  assumes "\<bar>vd / diode_vt norml\<bar> \<noteq> 50"
  shows "(diode_id area norml has_real_derivative diode_gd area norml vd) (at vd)"
proof -
  have "diode_vt norml \<noteq> 0" by (simp add: diode_vt_def)
  then show ?thesis
    unfolding diode_id_def [abs_def] diode_gd_def
    using diode_temps_deriv [OF assms]
    by (auto intro!: derivative_eq_intros DERIV_chain' [where g = "\<lambda>x. fst (diode_temps x)"])
qed

lemma diode_jacobian_witness: "(diode_id 1 True has_real_derivative diode_gd 1 True (7 / 10)) (at (7 / 10))"
  by (rule diode_jacobian) (simp add: diode_vt_def)

section \<open>FET\<close>

text \<open>C36. The two conductances a FET loads are the partial derivatives of its current in saturation and
  in the linear region, and the two currents agree at the border of the regions.\<close>

theorem fet_jacobian:
  assumes "vgst \<noteq> vds" and "fet_on ratio vds vgst = (i, gds, gm)"
  shows "((\<lambda>v. fst (fet_on ratio v vgst)) has_real_derivative gds) (at vds) \<and>
    ((\<lambda>v. fst (fet_on ratio vds v)) has_real_derivative gm) (at vgst) \<and>
    fst (fet_on ratio vds vds) = 1 / 2 * (fet_beta ratio * (1 + 1 / 20 * vds) * vds) * vds"
proof -
  let ?b = "fet_beta ratio"
  have lin: "fst (fet_on ratio v w) = ?b * (1 + 1 / 20 * v) * v * (w - 1 / 2 * v)" if "\<not> w < v" for v w
    using that by (simp add: fet_on_def Let_def)
  have sat: "fst (fet_on ratio v w) = 1 / 2 * (?b * (1 + 1 / 20 * v) * w) * w" if "w < v" for v w
    using that by (simp add: fet_on_def Let_def)
  have border: "fst (fet_on ratio vds vds) = 1 / 2 * (?b * (1 + 1 / 20 * vds) * vds) * vds"
    by (simp add: lin algebra_simps)
  show ?thesis
  proof (cases "vgst < vds")
    case True
    have g: "gds = 1 / 2 * ?b * vgst * vgst * (1 / 20)" "gm = ?b * (1 + 1 / 20 * vds) * vgst"
      using assms(2) True by (auto simp: fet_on_def Let_def)
    have d: "((\<lambda>v. 1 / 2 * (?b * (1 + 1 / 20 * v) * vgst) * vgst) has_real_derivative gds) (at vds)"
      "((\<lambda>w. 1 / 2 * (?b * (1 + 1 / 20 * vds) * w) * w) has_real_derivative gm) (at vgst)"
      unfolding g by (auto intro!: derivative_eq_intros simp: algebra_simps)
    have "((\<lambda>v. fst (fet_on ratio v vgst)) has_real_derivative gds) (at vds)"
      using True by (intro has_field_derivative_transform_within_open [OF d(1), of "{vgst <..}"]) (auto simp: sat)
    moreover have "((\<lambda>v. fst (fet_on ratio vds v)) has_real_derivative gm) (at vgst)"
      using True by (intro has_field_derivative_transform_within_open [OF d(2), of "{..< vds}"]) (auto simp: sat)
    ultimately show ?thesis using border by blast
  next
    case False
    then have less: "vds < vgst" using assms(1) by simp
    have g: "gds = ?b * (1 + 1 / 20 * vds) * (vgst - vds) + ?b * (1 / 20) * vds * (vgst - 1 / 2 * vds)"
      "gm = ?b * (1 + 1 / 20 * vds) * vds"
      using assms(2) less by (auto simp: fet_on_def Let_def)
    have d: "((\<lambda>v. ?b * (1 + 1 / 20 * v) * v * (vgst - 1 / 2 * v)) has_real_derivative gds) (at vds)"
      "((\<lambda>w. ?b * (1 + 1 / 20 * vds) * vds * (w - 1 / 2 * vds)) has_real_derivative gm) (at vgst)"
      unfolding g by (auto intro!: derivative_eq_intros simp: field_simps)
    have "((\<lambda>v. fst (fet_on ratio v vgst)) has_real_derivative gds) (at vds)"
      using less by (intro has_field_derivative_transform_within_open [OF d(1), of "{..< vgst}"]) (auto simp: lin)
    moreover have "((\<lambda>v. fst (fet_on ratio vds v)) has_real_derivative gm) (at vgst)"
      using less by (intro has_field_derivative_transform_within_open [OF d(2), of "{vds <..}"]) (auto simp: lin)
    ultimately show ?thesis using border by blast
  qed
qed

lemma fet_jacobian_witness:
  "\<exists>i gds gm. fet_on 10 1 2 = (i, gds, gm) \<and> ((\<lambda>v. fst (fet_on 10 v 2)) has_real_derivative gds) (at 1) \<and>
     ((\<lambda>v. fst (fet_on 10 1 v)) has_real_derivative gm) (at 2)"
proof -
  obtain i gds gm where f: "fet_on 10 1 2 = (i, gds, gm)" by (metis prod_cases3)
  from fet_jacobian [OF _ f] f show ?thesis by auto
qed

end
