(* ===== verification/SchGeom.thy ===== *)
theory SchGeom
  imports EdxPrelude
begin

text \<open>
  Geometry of the schematic editor (\<open>capa/schematic.js\<close>): rectangles, the eight orientations of a
  component, alignment of texts, and the view (scale and origin) of the diagram. Positions of
  components are whole numbers, mouse positions and the view are rational.
\<close>

section \<open>Rectangles\<close>

text \<open>Left, top, right, bottom; the \<open>y\<close> axis points down.\<close>

type_synonym 'a rect = "'a \<times> 'a \<times> 'a \<times> 'a"

fun canonicalize :: "'a::linorder rect \<Rightarrow> 'a rect" where
  "canonicalize (a, b, c, d) =
     (let (a', c') = (if c < a then (c, a) else (a, c));
          (b', d') = (if d < b then (d, b) else (b, d))
      in (a', b', c', d'))"

definition between :: "'a::linorder \<Rightarrow> 'a \<Rightarrow> 'a \<Rightarrow> bool" where
  "between x x1 x2 \<longleftrightarrow> x1 \<le> x \<and> x \<le> x2"

fun inside :: "'a::linorder rect \<Rightarrow> 'a \<Rightarrow> 'a \<Rightarrow> bool" where
  "inside (a, b, c, d) x y \<longleftrightarrow> between x a c \<and> between y b d"

fun intersect :: "'a::linorder rect \<Rightarrow> 'a rect \<Rightarrow> bool" where
  "intersect (a1, b1, c1, d1) (a2, b2, c2, d2) \<longleftrightarrow> \<not> (c1 < a2 \<or> c2 < a1 \<or> d1 < b2 \<or> d2 < b1)"

fun canonical :: "'a::linorder rect \<Rightarrow> bool" where
  "canonical (a, b, c, d) \<longleftrightarrow> a \<le> c \<and> b \<le> d"

lemma canonicalize_canonical [simp]: "canonical (canonicalize r)"
  by (cases r) (auto simp: Let_def)

lemma canonicalize_same: "canonical r \<Longrightarrow> canonicalize r = r"
  by (cases r) (auto simp: Let_def)

text \<open>Two rectangles intersect exactly when they share a point.\<close>

lemma intersect_common:
  assumes "canonical r1" "canonical r2"
  shows "intersect r1 r2 \<longleftrightarrow> (\<exists>x y. inside r1 x y \<and> inside r2 x y)"
proof -
  obtain a1 b1 c1 d1 a2 b2 c2 d2 where r: "r1 = (a1, b1, c1, d1)" "r2 = (a2, b2, c2, d2)"
    by (metis prod_cases4)
  show ?thesis
  proof
    assume "intersect r1 r2"
    then have "inside r1 (max a1 a2) (max b1 b2) \<and> inside r2 (max a1 a2) (max b1 b2)"
      using assms r by (auto simp: between_def max_def)
    then show "\<exists>x y. inside r1 x y \<and> inside r2 x y" by blast
  next
    assume "\<exists>x y. inside r1 x y \<and> inside r2 x y"
    then show "intersect r1 r2" using r by (force simp: between_def)
  qed
qed

section \<open>Orientations\<close>

text \<open>0 to 3 turn a component by multiples of 90 degrees, 4 to 7 are the reflections.\<close>

definition transform_x :: "int \<Rightarrow> 'a::uminus \<Rightarrow> 'a \<Rightarrow> 'a" where
  "transform_x r x y =
     (if r = 0 \<or> r = 6 then x else if r = 1 \<or> r = 5 then - y else if r = 2 \<or> r = 4 then - x else y)"

definition transform_y :: "int \<Rightarrow> 'a::uminus \<Rightarrow> 'a \<Rightarrow> 'a" where
  "transform_y r x y =
     (if r = 1 \<or> r = 7 then x else if r = 2 \<or> r = 6 then - y else if r = 3 \<or> r = 5 then - x else y)"

definition orientation :: "int \<Rightarrow> bool" where "orientation r \<longleftrightarrow> 0 \<le> r \<and> r < 8"

lemma orientation_cases: "orientation r \<Longrightarrow> r \<in> {0, 1, 2, 3, 4, 5, 6, 7}"
  by (auto simp: orientation_def)

text \<open>An orientation moves no two points to the same place and keeps distances.\<close>

lemma transform_inj:
  fixes x :: "'a::linordered_idom"
  assumes "orientation r"
  shows "transform_x r x y = transform_x r x' y' \<and> transform_y r x y = transform_y r x' y' \<longleftrightarrow> x = x' \<and> y = y'"
  using orientation_cases [OF assms] by (auto simp: transform_x_def transform_y_def)

lemma transform_isometry:
  fixes x :: "'a::linordered_idom"
  assumes "orientation r"
  shows "(transform_x r x y)\<^sup>2 + (transform_y r x y)\<^sup>2 = x\<^sup>2 + y\<^sup>2"
  using orientation_cases [OF assms] by (auto simp: transform_x_def transform_y_def)

lemma transform_diff:
  fixes x :: "'a::linordered_idom"
  assumes "orientation r"
  shows "transform_x r (x - x') (y - y') = transform_x r x y - transform_x r x' y'"
    and "transform_y r (x - x') (y - y') = transform_y r x y - transform_y r x' y'"
  using orientation_cases [OF assms] by (auto simp: transform_x_def transform_y_def)

section \<open>Texts\<close>

text \<open>An alignment is the place of the anchor in the text's box, row by row. \<open>aOrient\<close> is the alignment
  of the drawn text, which is never turned itself.\<close>

definition aOrient :: "nat list" where
  "aOrient = [0, 1, 2, 3, 4, 5, 6, 7, 8,
              2, 5, 8, 1, 4, 7, 0, 3, 6,
              8, 7, 6, 5, 4, 3, 2, 1, 0,
              6, 3, 0, 7, 4, 1, 8, 5, 3,
              2, 1, 0, 5, 4, 3, 8, 7, 6,
              8, 5, 2, 7, 4, 1, 6, 3, 0,
              6, 7, 8, 3, 4, 5, 0, 1, 2,
              0, 3, 6, 1, 4, 7, 2, 5, 8]"

datatype halign = AlignLeft | AlignCenter | AlignRight
datatype valign = BaseTop | BaseMiddle | BaseBottom

definition textAlign :: "halign list" where
  "textAlign = [AlignLeft, AlignCenter, AlignRight, AlignLeft, AlignCenter, AlignRight, AlignLeft, AlignCenter, AlignRight]"

definition textBaseline :: "valign list" where
  "textBaseline = [BaseTop, BaseTop, BaseTop, BaseMiddle, BaseMiddle, BaseMiddle, BaseBottom, BaseBottom, BaseBottom]"

text \<open>The alignment whose anchor lies in direction \<open>(x, y)\<close> from the middle of the text.\<close>

definition align_towards :: "int \<Rightarrow> int \<Rightarrow> nat" where
  "align_towards x y = nat (3 * (y + 1) + (x + 1))"

definition turned_alignment :: "int \<Rightarrow> nat \<Rightarrow> nat" where
  "turned_alignment r a =
     (let x = int (a mod 3) - 1; y = int (a div 3) - 1 in align_towards (transform_x r x y) (transform_y r x y))"

text \<open>The table turns the anchor with the component, but for its entry for the last alignment of a
  component turned to the west.\<close>

lemma aOrient_turns:
  "list_all (\<lambda>k. aOrient ! k = (if k = 35 then 3 else turned_alignment (int (k div 9)) (k mod 9))) [0 ..< 72]"
  by code_simp

lemma aOrient_west_wrong: "aOrient ! (3 * 9 + 8) \<noteq> turned_alignment 3 8"
  by code_simp

section \<open>The view\<close>

text \<open>What the canvas shows: point \<open>p\<close> of the canvas is at \<open>p / scale + origin\<close>.\<close>

record view =
  origin_x :: rat
  origin_y :: rat
  scale :: rat
  v_width :: rat
  v_height :: rat
  show_grid :: bool

definition zoom_factor :: rat where "zoom_factor = 5 / 4"
definition zoom_min :: rat where "zoom_min = 1 / 2"
definition zoom_max :: rat where "zoom_max = 4"

definition sch_x :: "view \<Rightarrow> rat \<Rightarrow> rat" where "sch_x v m = m / scale v + origin_x v"
definition sch_y :: "view \<Rightarrow> rat \<Rightarrow> rat" where "sch_y v m = m / scale v + origin_y v"

definition toggle_grid :: "view \<Rightarrow> view" where
  "toggle_grid v = v\<lparr>show_grid := \<not> show_grid v\<rparr>"

definition zoom_to :: "rat \<Rightarrow> rat \<Rightarrow> rat \<Rightarrow> view \<Rightarrow> view" where
  "zoom_to px py n v =
     v\<lparr>origin_x := origin_x v + px * (1 / scale v - 1 / n), origin_y := origin_y v + py * (1 / scale v - 1 / n),
       scale := n\<rparr>"

definition zoomin :: "view \<Rightarrow> view" where
  "zoomin v =
     (let n = scale v * zoom_factor
      in if n < zoom_max then zoom_to (v_width v / 2) (v_height v / 2) n v else v)"

definition zoomout :: "view \<Rightarrow> view" where
  "zoomout v =
     (let n = scale v / zoom_factor
      in if zoom_min < n then zoom_to (v_width v / 2) (v_height v / 2) n v else v)"

text \<open>The wheel zooms about the mouse.\<close>

definition wheel :: "int \<Rightarrow> rat \<Rightarrow> rat \<Rightarrow> view \<Rightarrow> view" where
  "wheel delta mx my v =
     (if delta = 0 then v
      else let n = (if 0 < delta then scale v * zoom_factor else scale v / zoom_factor)
           in if zoom_min < n \<and> n < zoom_max then zoom_to mx my n v else v)"

text \<open>\<open>rescale\<close> takes the point of the diagram to zoom about, the middle if there is none.\<close>

definition rescale :: "rat \<Rightarrow> (rat \<times> rat) option \<Rightarrow> view \<Rightarrow> view" where
  "rescale n p v =
     (let (cx, cy) = (case p of
            Some q \<Rightarrow> q
          | None \<Rightarrow> (origin_x v + v_width v / (2 * scale v), origin_y v + v_height v / (2 * scale v)))
      in v\<lparr>origin_x := origin_x v + cx * (scale v - n), origin_y := origin_y v + cy * (scale v - n), scale := n\<rparr>)"

text \<open>\<open>zoomall\<close> takes the smallest power of the zoom factor that is at least \<open>m\<close>, between the bounds.
  \<open>power_above\<close> searches it from the exponents -3 to 7, outside which the bounds cut it.\<close>

definition zoom_power :: "int \<Rightarrow> rat" where
  "zoom_power k = (if 0 \<le> k then zoom_factor ^ nat k else 1 / zoom_factor ^ nat (- k))"

definition power_above :: "rat \<Rightarrow> rat" where
  "power_above m = (case filter (\<lambda>k. m \<le> zoom_power k) [-4 .. 7] of [] \<Rightarrow> zoom_max + 1 | k # ks \<Rightarrow> zoom_power k)"

definition zoomall :: "rat rect \<Rightarrow> view \<Rightarrow> view" where
  "zoomall b v =
     (case b of (x0, y0, x1, y1) \<Rightarrow>
       (let w = 3 / 2 * (x1 - x0); h = 3 / 2 * (y1 - y0)
        in if w = 0 \<and> h = 0 then v\<lparr>origin_x := 0, origin_y := 0, scale := 2\<rparr>
           else
             let m = (if w = 0 then v_height v / h else if h = 0 then v_width v / w
                      else min (v_width v / w) (v_height v / h));
                 s0 = power_above m;
                 s = (if s0 < zoom_min then zoom_min else if zoom_max < s0 then zoom_max else s0)
             in v\<lparr>scale := s, origin_x := (x1 + x0) / 2 - v_width v / (2 * s),
                  origin_y := (y1 + y0) / 2 - v_height v / (2 * s)\<rparr>))"

definition view_ok :: "view \<Rightarrow> bool" where
  "view_ok v \<longleftrightarrow> zoom_min \<le> scale v \<and> scale v \<le> zoom_max"

lemma view_scale: "view_ok v \<Longrightarrow> 0 < scale v"
  by (simp add: view_ok_def zoom_min_def)

lemma zoom_to_fixed:
  "0 < scale v \<Longrightarrow> 0 < n \<Longrightarrow> sch_x (zoom_to px py n v) px = sch_x v px \<and> sch_y (zoom_to px py n v) py = sch_y v py"
  by (simp add: zoom_to_def sch_x_def sch_y_def field_simps)

lemma zoom_ok:
  assumes "view_ok v"
  shows "view_ok (zoomin v)" "view_ok (zoomout v)" "view_ok (wheel d mx my v)" "view_ok (zoomall b v)"
    "view_ok (toggle_grid v)"
proof -
  have s: "1 / 2 \<le> scale v" "scale v \<le> 4" using assms by (auto simp: view_ok_def zoom_min_def zoom_max_def)
  show "view_ok (zoomin v)"
    using s by (simp add: zoomin_def Let_def view_ok_def zoom_to_def zoom_factor_def zoom_min_def zoom_max_def)
  show "view_ok (zoomout v)"
    using s by (simp add: zoomout_def Let_def view_ok_def zoom_to_def zoom_factor_def zoom_min_def zoom_max_def)
  show "view_ok (wheel d mx my v)"
    using s by (simp add: wheel_def Let_def view_ok_def zoom_to_def zoom_factor_def zoom_min_def zoom_max_def)
  show "view_ok (zoomall b v)"
    by (cases b) (simp add: zoomall_def Let_def view_ok_def zoom_min_def zoom_max_def not_less)
  show "view_ok (toggle_grid v)" using assms by (simp add: toggle_grid_def view_ok_def)
qed

text \<open>Zooming with the buttons keeps the middle of the canvas, with the wheel the point under the mouse.\<close>

lemma zoom_keeps_middle:
  assumes "view_ok v"
  shows "sch_x (zoomin v) (v_width v / 2) = sch_x v (v_width v / 2) \<and> sch_y (zoomin v) (v_height v / 2) = sch_y v (v_height v / 2)"
    and "sch_x (zoomout v) (v_width v / 2) = sch_x v (v_width v / 2) \<and> sch_y (zoomout v) (v_height v / 2) = sch_y v (v_height v / 2)"
    and "sch_x (wheel d mx my v) mx = sch_x v mx \<and> sch_y (wheel d mx my v) my = sch_y v my"
proof -
  have s: "0 < scale v" by (rule view_scale [OF assms])
  have z: "0 < scale v * zoom_factor" "0 < scale v / zoom_factor" using s by (auto simp: zoom_factor_def)
  show "sch_x (zoomin v) (v_width v / 2) = sch_x v (v_width v / 2) \<and> sch_y (zoomin v) (v_height v / 2) = sch_y v (v_height v / 2)"
    using zoom_to_fixed [OF s z(1), of "v_width v / 2" "v_height v / 2"] by (simp add: zoomin_def Let_def)
  show "sch_x (zoomout v) (v_width v / 2) = sch_x v (v_width v / 2) \<and> sch_y (zoomout v) (v_height v / 2) = sch_y v (v_height v / 2)"
    using zoom_to_fixed [OF s z(2), of "v_width v / 2" "v_height v / 2"] by (simp add: zoomout_def Let_def)
  show "sch_x (wheel d mx my v) mx = sch_x v mx \<and> sch_y (wheel d mx my v) my = sch_y v my"
    using zoom_to_fixed [OF s z(1), of mx my] zoom_to_fixed [OF s z(2), of mx my] by (simp add: wheel_def Let_def)
qed

text \<open>\<open>rescale\<close>, which nothing calls, does not keep the point it is to zoom about.\<close>

lemma rescale_moves:
  "sch_x (rescale 1 None \<lparr>origin_x = 0, origin_y = 0, scale = 2, v_width = 400, v_height = 300, show_grid = True\<rparr>) 200
     \<noteq> sch_x \<lparr>origin_x = 0, origin_y = 0, scale = 2, v_width = 400, v_height = 300, show_grid = True\<rparr> 200"
  by (simp add: rescale_def sch_x_def)

text \<open>After \<open>zoomall\<close> the middle of the canvas shows the middle of the diagram.\<close>

lemma zoomall_centres:
  assumes "(x0, y0, x1, y1) \<noteq> (x0, y0, x0, y0)"
  shows "sch_x (zoomall (x0, y0, x1, y1) v) (v_width v / 2) = (x0 + x1) / 2 \<and>
    sch_y (zoomall (x0, y0, x1, y1) v) (v_height v / 2) = (y0 + y1) / 2"
  using assms by (auto simp: zoomall_def Let_def sch_x_def sch_y_def)

end
