(* ===== verification/SchState.thy ===== *)
theory SchState
  imports SchGeom "HOL-Library.AList"
begin

text \<open>
  The diagram of the schematic editor (\<open>capa/schematic.js\<close>): components, their connection points, and
  the map from locations to the connection points there. Components are objects; the model numbers
  them and keeps them in \<open>heap\<close>. The connection point \<open>(i, k)\<close> is the \<open>k\<close>-th of component \<open>i\<close>. The
  code's key of a location, the text \<open>x,y\<close>, is the pair.
\<close>

section \<open>State\<close>

type_synonym location = "int \<times> int"

record cpoint =
  offset :: "int \<times> int"
  cp_at :: location
  cp_label :: "string option"

record comp =
  ty :: string
  cx :: int
  cy :: int
  rot :: int
  selected :: bool
  was_selected :: bool
  move_from :: "(int \<times> int) option"
  props :: "string \<Rightarrow> string option"
  bounding_box :: "int rect"
  bbox :: "int rect"
  conns :: "cpoint list"
  delta :: "int \<times> int"
  placed :: bool

text \<open>\<open>delta\<close> is \<open>dx\<close> and \<open>dy\<close> of a wire; \<open>placed\<close> says that \<open>sch\<close> is set. The entries of \<open>cpoints\<close>
  are in the order in which \<open>for in\<close> visits them. \<open>alerts\<close> counts the warnings about labels.\<close>

record sch =
  heap :: "comp list"
  components :: "nat list"
  cpoints :: "(location \<times> (nat \<times> nat) list) list"
  next_label :: nat
  alerts :: nat

definition comp_of :: "sch \<Rightarrow> nat \<Rightarrow> comp" where "comp_of s i = heap s ! i"

definition cp_of :: "sch \<Rightarrow> nat \<times> nat \<Rightarrow> cpoint" where
  "cp_of s p = conns (comp_of s (fst p)) ! snd p"

definition upd_comp :: "nat \<Rightarrow> (comp \<Rightarrow> comp) \<Rightarrow> sch \<Rightarrow> sch" where
  "upd_comp i f s = s\<lparr>heap := (heap s)[i := f (heap s ! i)]\<rparr>"

definition upd_cp :: "nat \<times> nat \<Rightarrow> (cpoint \<Rightarrow> cpoint) \<Rightarrow> sch \<Rightarrow> sch" where
  "upd_cp p f s = upd_comp (fst p) (\<lambda>c. c\<lparr>conns := (conns c)[snd p := f (conns c ! snd p)]\<rparr>) s"

definition new_sch :: sch where
  "new_sch = \<lparr>heap = [], components = [], cpoints = [], next_label = 0, alerts = 0\<rparr>"

section \<open>The map of connection points\<close>

definition find_at :: "sch \<Rightarrow> location \<Rightarrow> (nat \<times> nat) list" where
  "find_at s l = (case map_of (cpoints s) l of Some ps \<Rightarrow> ps | None \<Rightarrow> [])"

definition find_connections :: "nat \<times> nat \<Rightarrow> sch \<Rightarrow> (nat \<times> nat) list" where
  "find_connections p s = find_at s (cp_at (cp_of s p))"

definition add_connection_point :: "nat \<times> nat \<Rightarrow> sch \<Rightarrow> sch" where
  "add_connection_point p s =
     (let l = cp_at (cp_of s p)
      in s\<lparr>cpoints := (case map_of (cpoints s) l of
             Some ps \<Rightarrow> AList.update l (ps @ [p]) (cpoints s)
           | None \<Rightarrow> AList.update l [p] (cpoints s))\<rparr>)"

definition remove_connection_point :: "nat \<times> nat \<Rightarrow> location \<Rightarrow> sch \<Rightarrow> sch" where
  "remove_connection_point p l s =
     (case map_of (cpoints s) l of
        None \<Rightarrow> s
      | Some ps \<Rightarrow>
          if p \<in> set ps then
            let qs = remove1 p ps
            in s\<lparr>cpoints := (if qs = [] then AList.delete l (cpoints s) else AList.update l qs (cpoints s))\<rparr>
          else s)"

definition update_connection_point :: "nat \<times> nat \<Rightarrow> location \<Rightarrow> sch \<Rightarrow> sch" where
  "update_connection_point p old s = add_connection_point p (remove_connection_point p old s)"

section \<open>Components\<close>

definition sch_add_component :: "nat \<Rightarrow> sch \<Rightarrow> sch" where
  "sch_add_component i s = s\<lparr>components := components s @ [i]\<rparr>"

definition sch_remove_component :: "nat \<Rightarrow> sch \<Rightarrow> sch" where
  "sch_remove_component i s = s\<lparr>components := remove1 i (components s)\<rparr>"

text \<open>Where the offset of a connection point of a component lies in the diagram.\<close>

definition location_of :: "comp \<Rightarrow> int \<times> int \<Rightarrow> location" where
  "location_of c p = (transform_x (rot c) (fst p) (snd p) + cx c, transform_y (rot c) (fst p) (snd p) + cy c)"

definition box_of :: "comp \<Rightarrow> int rect" where
  "box_of c = (case bounding_box c of (a, b, a', b') \<Rightarrow>
     canonicalize (transform_x (rot c) a b + cx c, transform_y (rot c) a b + cy c,
       transform_x (rot c) a' b' + cx c, transform_y (rot c) a' b' + cy c))"

text \<open>A component with its box and its connection points where its position and orientation put them.\<close>

definition settle :: "comp \<Rightarrow> comp" where
  "settle c = c\<lparr>bbox := box_of c, conns := map (\<lambda>q. q\<lparr>cp_at := location_of c (offset q)\<rparr>) (conns c)\<rparr>"

definition update_location :: "nat \<times> nat \<Rightarrow> sch \<Rightarrow> sch" where
  "update_location p s =
     (let old = cp_at (cp_of s p);
          s1 = upd_cp p (\<lambda>q. q\<lparr>cp_at := location_of (comp_of s (fst p)) (offset q)\<rparr>) s
      in if placed (comp_of s1 (fst p)) then update_connection_point p old s1 else s1)"

definition update_coords :: "nat \<Rightarrow> sch \<Rightarrow> sch" where
  "update_coords i s =
     fold update_location (rev (map (Pair i) [0 ..< length (conns (comp_of s i))]))
       (upd_comp i (\<lambda>c. c\<lparr>bbox := box_of c\<rparr>) s)"

definition rotate_comp :: "int \<Rightarrow> nat \<Rightarrow> sch \<Rightarrow> sch" where
  "rotate_comp amount i s = update_coords i (upd_comp i (\<lambda>c. c\<lparr>rot := (rot c + amount) mod 8\<rparr>) s)"

definition move_begin :: "nat \<Rightarrow> sch \<Rightarrow> sch" where
  "move_begin i s = upd_comp i (\<lambda>c. c\<lparr>move_from := Some (cx c, cy c)\<rparr>) s"

definition move_comp :: "int \<Rightarrow> int \<Rightarrow> nat \<Rightarrow> sch \<Rightarrow> sch" where
  "move_comp dx dy i s = update_coords i (upd_comp i (\<lambda>c. c\<lparr>cx := cx c + dx, cy := cy c + dy\<rparr>) s)"

definition add_comp :: "nat \<Rightarrow> sch \<Rightarrow> sch" where
  "add_comp i s = update_coords i (sch_add_component i (upd_comp i (\<lambda>c. c\<lparr>placed := True\<rparr>) s))"

definition remove_comp :: "nat \<Rightarrow> sch \<Rightarrow> sch" where
  "remove_comp i s =
     (let s1 = fold (\<lambda>p s. remove_connection_point p (cp_at (cp_of s p)) s)
                 (rev (map (Pair i) [0 ..< length (conns (comp_of s i))])) s
      in upd_comp i (\<lambda>c. c\<lparr>placed := False\<rparr>) (sch_remove_component i s1))"

definition set_select :: "bool \<Rightarrow> nat \<Rightarrow> sch \<Rightarrow> sch" where
  "set_select b i s = upd_comp i (\<lambda>c. c\<lparr>selected := b\<rparr>) s"

section \<open>Constructors\<close>

text \<open>A component is built with its connection points and its box where it stands.\<close>

definition new_comp :: "string \<Rightarrow> int \<Rightarrow> int \<Rightarrow> int \<Rightarrow> comp" where
  "new_comp t x y r =
     \<lparr>ty = t, cx = x, cy = y, rot = r, selected = False, was_selected = False, move_from = None,
      props = (\<lambda>_. None), bounding_box = (0, 0, 0, 0), bbox = (0, 0, 0, 0), conns = [], delta = (0, 0),
      placed = False\<rparr>"

definition add_connection :: "int \<Rightarrow> int \<Rightarrow> comp \<Rightarrow> comp" where
  "add_connection ox oy c =
     c\<lparr>conns := conns c @ [\<lparr>offset = (ox, oy), cp_at = location_of c (ox, oy), cp_label = None\<rparr>]\<rparr>"

definition finish_comp :: "int rect \<Rightarrow> comp \<Rightarrow> comp" where
  "finish_comp b c = settle (c\<lparr>bounding_box := b\<rparr>)"

definition set_prop :: "string \<Rightarrow> string option \<Rightarrow> comp \<Rightarrow> comp" where
  "set_prop k v c = c\<lparr>props := (props c)(k := v)\<rparr>"

text \<open>\<open>v ? v : d\<close> for a text or \<open>undefined\<close>.\<close>

definition or_else :: "string option \<Rightarrow> string \<Rightarrow> string option" where
  "or_else v d = (case v of Some (c # cs) \<Rightarrow> Some (c # cs) | _ \<Rightarrow> Some d)"

definition near_distance :: int where "near_distance = 2"

definition make_Wire :: "int \<Rightarrow> int \<Rightarrow> int \<Rightarrow> int \<Rightarrow> comp" where
  "make_Wire x1 y1 x2 y2 =
     (let dx = x2 - x1; dy = y2 - y1;
          (a, b, a', b') = canonicalize (0, 0, dx, dy)
      in finish_comp (a - near_distance, b - near_distance, a' + near_distance, b' + near_distance)
           (add_connection dx dy (add_connection 0 0 ((new_comp ''w'' x1 y1 0)\<lparr>delta := (dx, dy)\<rparr>))))"

definition make_Ground :: "int \<Rightarrow> int \<Rightarrow> int \<Rightarrow> comp" where
  "make_Ground x y r = finish_comp (-6, 0, 6, 8) (add_connection 0 0 (new_comp ''g'' x y r))"

definition make_Label :: "int \<Rightarrow> int \<Rightarrow> int \<Rightarrow> string option \<Rightarrow> comp" where
  "make_Label x y r l =
     finish_comp (-2, 0, 2, 8)
       (add_connection 0 0 (set_prop ''label'' (or_else l ''???'') (new_comp ''L'' x y r)))"

definition make_Probe :: "int \<Rightarrow> int \<Rightarrow> int \<Rightarrow> string option \<Rightarrow> string option \<Rightarrow> comp" where
  "make_Probe x y r color off =
     finish_comp (0, 0, 27, -21)
       (set_prop ''offset'' (or_else off ''0'')
         (set_prop ''color'' (or_else color ''cyan'') (add_connection 0 0 (new_comp ''s'' x y r))))"

definition make_Ammeter :: "int \<Rightarrow> int \<Rightarrow> int \<Rightarrow> string option \<Rightarrow> string option \<Rightarrow> comp" where
  "make_Ammeter x y r color off =
     finish_comp (-3, 0, 16, 3)
       (set_prop ''offset'' (or_else off ''0'')
         (set_prop ''color'' (or_else color ''magenta'')
           (add_connection 16 0 (add_connection 0 0 (new_comp ''a'' x y r)))))"

definition make_Resistor :: "int \<Rightarrow> int \<Rightarrow> int \<Rightarrow> string option \<Rightarrow> string option \<Rightarrow> comp" where
  "make_Resistor x y r name v =
     finish_comp (-5, 0, 5, 48)
       (add_connection 0 48 (add_connection 0 0
         (set_prop ''r'' (or_else v ''1'') (set_prop ''name'' name (new_comp ''r'' x y r)))))"

definition make_Capacitor :: "int \<Rightarrow> int \<Rightarrow> int \<Rightarrow> string option \<Rightarrow> string option \<Rightarrow> comp" where
  "make_Capacitor x y r name v =
     finish_comp (-8, 0, 8, 48)
       (add_connection 0 48 (add_connection 0 0
         (set_prop ''c'' (or_else v ''1p'') (set_prop ''name'' name (new_comp ''c'' x y r)))))"

definition make_Inductor :: "int \<Rightarrow> int \<Rightarrow> int \<Rightarrow> string option \<Rightarrow> string option \<Rightarrow> comp" where
  "make_Inductor x y r name v =
     finish_comp (-4, 0, 5, 48)
       (add_connection 0 48 (add_connection 0 0
         (set_prop ''l'' (or_else v ''1n'') (set_prop ''name'' name (new_comp ''l'' x y r)))))"

definition make_Diode :: "int \<Rightarrow> int \<Rightarrow> int \<Rightarrow> string option \<Rightarrow> string option \<Rightarrow> string option \<Rightarrow> comp" where
  "make_Diode x y r name area kind =
     finish_comp (if kind = Some ''ideal'' then (-12, 0, 12, 48) else (-8, 0, 8, 48))
       (add_connection 0 48 (add_connection 0 0
         (set_prop ''type'' (or_else kind ''normal'')
           (set_prop ''area'' (or_else area ''1'') (set_prop ''name'' name (new_comp ''d'' x y r))))))"

text \<open>\<open>NFet\<close> and \<open>PFet\<close> differ in their type.\<close>

definition make_Fet :: "string \<Rightarrow> int \<Rightarrow> int \<Rightarrow> int \<Rightarrow> string option \<Rightarrow> string option \<Rightarrow> comp" where
  "make_Fet t x y r name ratio =
     finish_comp (-24, 0, 8, 48)
       (add_connection 0 48 (add_connection (-24) 24 (add_connection 0 0
         (set_prop ''W/L'' (or_else ratio ''2'') (set_prop ''name'' name (new_comp t x y r))))))"

definition make_OpAmp :: "int \<Rightarrow> int \<Rightarrow> int \<Rightarrow> string option \<Rightarrow> string option \<Rightarrow> comp" where
  "make_OpAmp x y r name A =
     finish_comp (0, -8, 48, 32)
       (add_connection 24 32 (add_connection 48 8 (add_connection 0 16 (add_connection 0 0
         (set_prop ''A'' (or_else A ''30000'') (set_prop ''name'' name (new_comp ''o'' x y r)))))))"

definition make_Source :: "string \<Rightarrow> int \<Rightarrow> int \<Rightarrow> int \<Rightarrow> string option \<Rightarrow> string option \<Rightarrow> comp" where
  "make_Source t x y r name v =
     finish_comp (-12, 0, 12, 48)
       (add_connection 0 48 (add_connection 0 0
         (set_prop ''value'' (case v of None \<Rightarrow> Some ''dc(1)'' | Some w \<Rightarrow> Some w)
           (set_prop ''name'' name (new_comp t x y r)))))"

text \<open>\<open>clone\<close>, one method per class.\<close>

definition clone_comp :: "comp \<Rightarrow> int \<Rightarrow> int \<Rightarrow> comp" where
  "clone_comp c x y =
     (let p = props c; r = rot c; t = ty c in
      if t = ''w'' then make_Wire x y (x + fst (delta c)) (y + snd (delta c))
      else if t = ''g'' then make_Ground x y r
      else if t = ''L'' then make_Label x y r (p ''label'')
      else if t = ''s'' then make_Probe x y r (p ''color'') (p ''offset'')
      else if t = ''a'' then make_Ammeter x y r (p ''color'') (p ''offset'')
      else if t = ''r'' then make_Resistor x y r (p ''name'') (p ''r'')
      else if t = ''c'' then make_Capacitor x y r (p ''name'') (p ''c'')
      else if t = ''l'' then make_Inductor x y r (p ''name'') (p ''l'')
      else if t = ''d'' then make_Diode x y r (p ''name'') (p ''area'') (p ''type'')
      else if t = ''n'' \<or> t = ''p'' then make_Fet t x y r (p ''name'') (p ''W/L'')
      else if t = ''o'' then make_OpAmp x y r (p ''name'') (p ''A'')
      else make_Source t x y r (p ''name'') (p ''value''))"

definition alloc :: "comp \<Rightarrow> sch \<Rightarrow> nat \<times> sch" where
  "alloc c s = (length (heap s), s\<lparr>heap := heap s @ [c]\<rparr>)"

text \<open>A new component is added to the diagram.\<close>

definition add_new :: "comp \<Rightarrow> sch \<Rightarrow> sch" where
  "add_new c s = (let (i, s1) = alloc c s in add_comp i s1)"

end
