(* ===== verification/SchIndex.thy ===== *)
theory SchIndex
  imports SchState
begin

text \<open>
  The map of connection points is exact: each location has the connection points of the placed
  components that lie there, each once. What an operation owes the map is stated for any map from keys to
  lists (locale \<open>point_map\<close>) and interpreted on the editor's map; the invariant \<open>sch_ok\<close> of the diagram
  is kept by every operation on components.
\<close>

section \<open>Maps of points\<close>

text \<open>The points \<open>P\<close>, each once and under its own key.\<close>

definition indexes :: "('l \<Rightarrow> 'p list) \<Rightarrow> 'p set \<Rightarrow> ('p \<Rightarrow> 'l) \<Rightarrow> bool" where
  "indexes look P key \<longleftrightarrow> (\<forall>l. distinct (look l) \<and> set (look l) = {p \<in> P. key p = l})"

locale point_map =
  fixes look :: "'m \<Rightarrow> 'l \<Rightarrow> 'p list"
    and put :: "'l \<Rightarrow> 'p \<Rightarrow> 'm \<Rightarrow> 'm"
    and drop_at :: "'l \<Rightarrow> 'p \<Rightarrow> 'm \<Rightarrow> 'm"
    and wf :: "'m \<Rightarrow> bool"
  assumes put_wf: "wf m \<Longrightarrow> wf (put l p m)"
    and drop_wf: "wf m \<Longrightarrow> wf (drop_at l p m)"
    and find_put: "wf m \<Longrightarrow> look (put l p m) = (look m)(l := look m l @ [p])"
    and find_drop: "wf m \<Longrightarrow> look (drop_at l p m) = (look m)(l := remove1 p (look m l))"
begin

lemma drop_indexes:
  assumes "wf m" "indexes (look m) P key"
  shows "indexes (look (drop_at (key p) p m)) (P - {p}) key"
  using assms by (auto simp: indexes_def find_drop distinct_remove1)

lemma put_indexes:
  assumes "wf m" "indexes (look m) P key" "p \<notin> P"
  shows "indexes (look (put (key p) p m)) (insert p P) key"
  using assms by (auto simp: indexes_def find_put)

text \<open>A point moves to another key.\<close>

lemma move_indexes:
  assumes "wf m" "indexes (look m) P key" "\<And>q. q \<noteq> p \<Longrightarrow> key' q = key q"
  shows "indexes (look (put (key' p) p (drop_at (key p) p m))) (insert p P) key'"
proof -
  have "indexes (look (drop_at (key p) p m)) (P - {p}) key" by (rule drop_indexes [OF assms(1,2)])
  then have "indexes (look (drop_at (key p) p m)) (P - {p}) key'" using assms(3) by (auto simp: indexes_def)
  from put_indexes [OF drop_wf [OF assms(1)] this, of p] show ?thesis by simp
qed

end

section \<open>The editor's map\<close>

definition find_in :: "(location \<times> (nat \<times> nat) list) list \<Rightarrow> location \<Rightarrow> (nat \<times> nat) list" where
  "find_in m l = (case map_of m l of Some ps \<Rightarrow> ps | None \<Rightarrow> [])"

definition put_in :: "location \<Rightarrow> nat \<times> nat \<Rightarrow> (location \<times> (nat \<times> nat) list) list \<Rightarrow> (location \<times> (nat \<times> nat) list) list" where
  "put_in l p m = AList.update l (find_in m l @ [p]) m"

definition drop_in :: "location \<Rightarrow> nat \<times> nat \<Rightarrow> (location \<times> (nat \<times> nat) list) list \<Rightarrow> (location \<times> (nat \<times> nat) list) list" where
  "drop_in l p m =
     (if p \<in> set (find_in m l) then
        let qs = remove1 p (find_in m l) in if qs = [] then AList.delete l m else AList.update l qs m
      else m)"

definition map_wf :: "(location \<times> (nat \<times> nat) list) list \<Rightarrow> bool" where
  "map_wf m \<longleftrightarrow> distinct (map fst m) \<and> [] \<notin> set (map snd m)"

lemma set_update_snd: "set (map snd (AList.update l v m)) \<subseteq> insert v (set (map snd m))"
  by (induction m) auto

lemma set_delete_snd: "set (map snd (AList.delete l m)) \<subseteq> set (map snd m)"
  by (auto simp: AList.delete_eq)

interpretation locations: point_map find_in put_in drop_in map_wf
proof
  fix m :: "(location \<times> (nat \<times> nat) list) list" and l p
  assume m: "map_wf m"
  show "map_wf (put_in l p m)"
    using m set_update_snd [of l "find_in m l @ [p]" m]
    by (auto simp: map_wf_def put_in_def distinct_update)
  show "map_wf (drop_in l p m)"
    using m set_update_snd [of l "remove1 p (find_in m l)" m] set_delete_snd [of l m]
    by (auto simp: map_wf_def drop_in_def Let_def distinct_update distinct_delete)
  show "find_in (put_in l p m) = (find_in m)(l := find_in m l @ [p])"
    by (auto simp: fun_eq_iff find_in_def put_in_def update_conv')
  show "find_in (drop_in l p m) = (find_in m)(l := remove1 p (find_in m l))"
    by (auto simp: fun_eq_iff find_in_def drop_in_def Let_def update_conv' delete_conv' remove1_idem
        split: option.splits)
qed

lemma find_at_in: "find_at s = find_in (cpoints s)"
  by (simp add: fun_eq_iff find_at_def find_in_def)

lemma add_point_in: "add_connection_point p s = s\<lparr>cpoints := put_in (cp_at (cp_of s p)) p (cpoints s)\<rparr>"
  by (simp add: add_connection_point_def put_in_def find_in_def Let_def split: option.split)

lemma remove_point_in: "remove_connection_point p l s = s\<lparr>cpoints := drop_in l p (cpoints s)\<rparr>"
  by (auto simp: remove_connection_point_def drop_in_def find_in_def Let_def split: option.split)

section \<open>The invariant\<close>

definition place :: "sch \<Rightarrow> nat \<times> nat \<Rightarrow> location" where "place s p = cp_at (cp_of s p)"

definition cps_of :: "sch \<Rightarrow> nat \<Rightarrow> (nat \<times> nat) set" where
  "cps_of s i = Pair i ` {0 ..< length (conns (comp_of s i))}"

definition live :: "sch \<Rightarrow> (nat \<times> nat) set" where
  "live s = (\<Union>i \<in> set (components s). cps_of s i)"

definition map_ok :: "(nat \<times> nat) set \<Rightarrow> sch \<Rightarrow> bool" where
  "map_ok P s \<longleftrightarrow> map_wf (cpoints s) \<and> indexes (find_at s) P (place s)"

definition sch_ok :: "sch \<Rightarrow> bool" where
  "sch_ok s \<longleftrightarrow> map_ok (live s) s \<and> distinct (components s) \<and>
     (\<forall>i < length (heap s). settle (comp_of s i) = comp_of s i \<and> (placed (comp_of s i) \<longleftrightarrow> i \<in> set (components s))) \<and>
     (\<forall>i \<in> set (components s). i < length (heap s))"

lemma mem_live: "p \<in> live s \<longleftrightarrow> fst p \<in> set (components s) \<and> snd p < length (conns (comp_of s (fst p)))"
  by (cases p) (auto simp: live_def cps_of_def image_iff)

lemma map_ok_cong:
  "map_ok P s \<Longrightarrow> cpoints s' = cpoints s \<Longrightarrow> (\<And>p. p \<in> P \<Longrightarrow> place s' p = place s p) \<Longrightarrow> P' = P \<Longrightarrow> map_ok P' s'"
  by (auto simp: map_ok_def indexes_def find_at_in)

lemma upd_comp_simps [simp]:
  "components (upd_comp i f s) = components s" "cpoints (upd_comp i f s) = cpoints s"
  "length (heap (upd_comp i f s)) = length (heap s)" "next_label (upd_comp i f s) = next_label s"
  "alerts (upd_comp i f s) = alerts s"
  by (simp_all add: upd_comp_def)

lemma upd_cp_simps [simp]:
  "components (upd_cp p f s) = components s" "cpoints (upd_cp p f s) = cpoints s"
  "length (heap (upd_cp p f s)) = length (heap s)" "next_label (upd_cp p f s) = next_label s"
  "alerts (upd_cp p f s) = alerts s"
  by (simp_all add: upd_cp_def)

lemma comp_of_upd: "i < length (heap s) \<Longrightarrow> comp_of (upd_comp i f s) j = (if j = i then f (comp_of s i) else comp_of s j)"
  by (simp add: upd_comp_def comp_of_def)

section \<open>Where an operation puts a component\<close>

lemma heap_points [simp]:
  "heap (add_connection_point p s) = heap s" "components (add_connection_point p s) = components s"
  "heap (remove_connection_point p l s) = heap s" "components (remove_connection_point p l s) = components s"
  "heap (update_connection_point p l s) = heap s" "components (update_connection_point p l s) = components s"
  by (simp_all add: add_point_in remove_point_in update_connection_point_def)

lemma rest_points [simp]:
  "next_label (add_connection_point p s) = next_label s" "alerts (add_connection_point p s) = alerts s"
  "next_label (remove_connection_point p l s) = next_label s" "alerts (remove_connection_point p l s) = alerts s"
  by (simp_all add: add_point_in remove_point_in)

lemma comp_of_points [simp]:
  "comp_of (add_connection_point p s) = comp_of s" "comp_of (remove_connection_point p l s) = comp_of s"
  "comp_of (update_connection_point p l s) = comp_of s"
  by (simp_all add: comp_of_def fun_eq_iff)

lemma cp_of_points [simp]:
  "cp_of (add_connection_point p s) = cp_of s" "cp_of (remove_connection_point p l s) = cp_of s"
  "cp_of (update_connection_point p l s) = cp_of s"
  by (simp_all add: cp_of_def fun_eq_iff)

lemma place_points [simp]:
  "place (add_connection_point p s) = place s" "place (remove_connection_point p l s) = place s"
  "place (update_connection_point p l s) = place s"
  by (simp_all add: place_def fun_eq_iff)

lemma components_update_location [simp]: "components (update_location p s) = components s"
  by (simp add: update_location_def Let_def)

lemma heap_update_location:
  "heap (update_location p s) = heap (upd_cp p (\<lambda>q. q\<lparr>cp_at := location_of (comp_of s (fst p)) (offset q)\<rparr>) s)"
  by (simp add: update_location_def Let_def)

lemma update_location_comp:
  assumes "i < length (heap s)" "k < length (conns (comp_of s i))"
  shows "comp_of (update_location (i, k) s) j =
    (if j = i then (comp_of s i)\<lparr>conns := (conns (comp_of s i))[k := (conns (comp_of s i) ! k)\<lparr>cp_at := location_of (comp_of s i) (offset (conns (comp_of s i) ! k))\<rparr>]\<rparr>
     else comp_of s j)"
  using assms by (simp add: comp_of_def heap_update_location upd_cp_def upd_comp_def)

lemma update_location_map:
  assumes "map_ok P s" "i < length (heap s)" "k < length (conns (comp_of s i))" "placed (comp_of s i) \<or> (i, k) \<notin> P"
  shows "map_ok (if placed (comp_of s i) then insert (i, k) P else P) (update_location (i, k) s)"
proof -
  let ?s1 = "upd_cp (i, k) (\<lambda>q. q\<lparr>cp_at := location_of (comp_of s i) (offset q)\<rparr>) s"
  have pl: "place ?s1 q = place s q" if "q \<noteq> (i, k)" for q
    using assms(2,3) that
    by (cases q) (auto simp: place_def cp_of_def upd_cp_def comp_of_upd nth_list_update)
  have same: "placed (comp_of ?s1 i) = placed (comp_of s i)"
    using assms(2) by (simp add: upd_cp_def comp_of_upd)
  show ?thesis
  proof (cases "placed (comp_of s i)")
    case True
    let ?s' = "update_location (i, k) s"
    have eq: "?s' = add_connection_point (i, k) (remove_connection_point (i, k) (place s (i, k)) ?s1)"
      using True same by (simp add: update_location_def Let_def update_connection_point_def place_def)
    have c: "cpoints ?s' = put_in (place ?s1 (i, k)) (i, k) (drop_in (place s (i, k)) (i, k) (cpoints s))"
      by (simp add: eq add_point_in remove_point_in place_def cp_of_def comp_of_def)
    have "place ?s' = place ?s1" by (simp add: eq)
    moreover have "indexes (find_in (cpoints ?s')) (insert (i, k) P) (place ?s1)"
      unfolding c using assms(1) pl by (intro locations.move_indexes) (auto simp: map_ok_def find_at_in)
    moreover have "map_wf (cpoints ?s')"
      unfolding c using assms(1) by (intro locations.put_wf locations.drop_wf) (simp add: map_ok_def)
    ultimately show ?thesis using True by (simp add: map_ok_def find_at_in)
  next
    case False
    then have eq: "update_location (i, k) s = ?s1" using same by (simp add: update_location_def Let_def)
    have "place ?s1 q = place s q" if "q \<in> P" for q using pl [of q] that False assms(4) by blast
    then have "map_ok P ?s1" by (intro map_ok_cong [OF assms(1)]) simp_all
    with False eq show ?thesis by simp
  qed
qed

text \<open>The connection points \<open>ks\<close> of component \<open>i\<close> are put where they belong.\<close>

definition settled_cp :: "comp \<Rightarrow> cpoint \<Rightarrow> cpoint" where
  "settled_cp c q = q\<lparr>cp_at := location_of c (offset q)\<rparr>"

definition settle_some :: "nat set \<Rightarrow> comp \<Rightarrow> comp" where
  "settle_some K c =
     c\<lparr>conns := map (\<lambda>k. if k \<in> K then settled_cp c (conns c ! k) else conns c ! k) [0 ..< length (conns c)]\<rparr>"

lemma settle_some_length [simp]: "length (conns (settle_some K c)) = length (conns c)"
  by (simp add: settle_some_def)

lemma settled_cp_cong: "location_of c' = location_of c \<Longrightarrow> settled_cp c' q = settled_cp c q"
  by (simp add: settled_cp_def)

lemma location_of_cong: "cx c' = cx c \<Longrightarrow> cy c' = cy c \<Longrightarrow> rot c' = rot c \<Longrightarrow> location_of c' = location_of c"
  by (simp add: location_of_def fun_eq_iff)

lemma settle_some_empty: "settle_some {} c = c"
  by (simp add: settle_some_def map_nth)

lemma settle_some_insert:
  assumes "k < length (conns c)"
  shows "(settle_some K c)\<lparr>conns := (conns (settle_some K c))[k := settled_cp (settle_some K c) (conns (settle_some K c) ! k)]\<rparr> =
    settle_some (insert k K) c"
proof -
  have l: "location_of (settle_some K c) = location_of c" by (rule location_of_cong) (simp_all add: settle_some_def)
  have "settled_cp c (settled_cp c q) = settled_cp c q" for q by (simp add: settled_cp_def)
  then have "(conns (settle_some K c))[k := settled_cp c (conns (settle_some K c) ! k)] = conns (settle_some (insert k K) c)"
    using assms by (intro nth_equalityI) (auto simp: settle_some_def nth_list_update)
  then show ?thesis by (simp add: settled_cp_cong [OF l]) (simp add: settle_some_def)
qed

lemma settle_some_all: "{0 ..< length (conns c)} \<subseteq> K \<Longrightarrow> settle_some K c = c\<lparr>conns := map (settled_cp c) (conns c)\<rparr>"
proof -
  assume "{0 ..< length (conns c)} \<subseteq> K"
  then have "map (\<lambda>k. if k \<in> K then settled_cp c (conns c ! k) else conns c ! k) [0 ..< length (conns c)] =
      map (settled_cp c) (conns c)"
    by (intro nth_equalityI) auto
  then show ?thesis by (simp add: settle_some_def)
qed

lemma update_locations:
  assumes "i < length (heap s)" "set ks \<subseteq> {0 ..< length (conns (comp_of s i))}"
  shows "comp_of (fold update_location (map (Pair i) ks) s) j =
      (if j = i then settle_some (set ks) (comp_of s i) else comp_of s j) \<and>
    length (heap (fold update_location (map (Pair i) ks) s)) = length (heap s) \<and>
    components (fold update_location (map (Pair i) ks) s) = components s \<and>
    (\<forall>P. map_ok P s \<longrightarrow> placed (comp_of s i) \<or> Pair i ` set ks \<inter> P = {} \<longrightarrow>
       map_ok (if placed (comp_of s i) then Pair i ` set ks \<union> P else P) (fold update_location (map (Pair i) ks) s))"
  using assms(2)
proof (induction ks arbitrary: j rule: rev_induct)
  case Nil
  show ?case by (simp add: settle_some_empty)
next
  case (snoc k ks)
  let ?t = "fold update_location (map (Pair i) ks) s"
  have ks: "set ks \<subseteq> {0 ..< length (conns (comp_of s i))}" and k: "k < length (conns (comp_of s i))"
    using snoc.prems by auto
  note IH = snoc.IH [OF ks]
  have len: "i < length (heap ?t)" and c: "comp_of ?t i = settle_some (set ks) (comp_of s i)"
    using IH [of i] assms(1) by auto
  have k': "k < length (conns (comp_of ?t i))" using k c by simp
  have upd: "comp_of (update_location (i, k) ?t) j = (if j = i then settle_some (insert k (set ks)) (comp_of s i) else comp_of s j)"
    using update_location_comp [OF len k', of j] IH [of j] settle_some_insert [OF k, of "set ks"] c
    by (simp add: settled_cp_def)
  have pl: "placed (comp_of ?t i) = placed (comp_of s i)" using c by (simp add: settle_some_def)
  have m: "map_ok (if placed (comp_of s i) then Pair i ` set (ks @ [k]) \<union> P else P) (update_location (i, k) ?t)"
    if P: "map_ok P s" "placed (comp_of s i) \<or> Pair i ` set (ks @ [k]) \<inter> P = {}" for P
  proof -
    have "map_ok (if placed (comp_of s i) then Pair i ` set ks \<union> P else P) ?t" using IH [of i] P by auto
    from update_location_map [OF this len k'] P(2) pl show ?thesis by (auto split: if_splits)
  qed
  have lh: "length (heap (update_location (i, k) ?t)) = length (heap s)"
    using IH [of i] by (simp add: heap_update_location)
  show ?case using upd m IH [of i] lh by simp
qed

lemma settle_is: "settle c = (settle_some {0 ..< length (conns c)} c)\<lparr>bbox := box_of c\<rparr>"
  by (simp add: settle_some_all settle_def settled_cp_def)

lemma update_coords_effect:
  assumes "i < length (heap s)"
  shows "comp_of (update_coords i s) j = (if j = i then settle (comp_of s i) else comp_of s j)"
    and "length (heap (update_coords i s)) = length (heap s)"
    and "components (update_coords i s) = components s"
    and "map_ok P s \<Longrightarrow> placed (comp_of s i) \<Longrightarrow> map_ok (cps_of s i \<union> P) (update_coords i s)"
    and "map_ok P s \<Longrightarrow> \<not> placed (comp_of s i) \<Longrightarrow> cps_of s i \<inter> P = {} \<Longrightarrow> map_ok P (update_coords i s)"
proof -
  let ?s = "upd_comp i (\<lambda>c. c\<lparr>bbox := box_of c\<rparr>) s"
  let ?ks = "rev [0 ..< length (conns (comp_of s i))]"
  have i: "i < length (heap ?s)" using assms by simp
  have c: "comp_of ?s i = (comp_of s i)\<lparr>bbox := box_of (comp_of s i)\<rparr>" using assms by (simp add: comp_of_upd)
  have ks: "set ?ks \<subseteq> {0 ..< length (conns (comp_of ?s i))}" using c by auto
  have eq: "update_coords i s = fold update_location (map (Pair i) ?ks) ?s"
    by (simp add: update_coords_def rev_map)
  note U = update_locations [OF i ks]
  have st: "settle_some (set ?ks) ((comp_of s i)\<lparr>bbox := box_of (comp_of s i)\<rparr>) = settle (comp_of s i)"
  proof -
    have "settled_cp ((comp_of s i)\<lparr>bbox := box_of (comp_of s i)\<rparr>) = settled_cp (comp_of s i)"
      by (intro ext settled_cp_cong location_of_cong) simp_all
    then show ?thesis by (simp add: settle_is settle_some_def)
  qed
  show "comp_of (update_coords i s) j = (if j = i then settle (comp_of s i) else comp_of s j)"
    using U [of j] c st assms unfolding eq by (simp add: comp_of_upd)
  show "length (heap (update_coords i s)) = length (heap s)" "components (update_coords i s) = components s"
    using U [of i] unfolding eq by simp_all
  have cps: "Pair i ` set ?ks = cps_of s i" by (auto simp: cps_of_def)
  have m: "map_ok P ?s" if "map_ok P s" for P
    by (rule map_ok_cong [OF that]) (use assms in \<open>auto simp: place_def cp_of_def comp_of_upd\<close>)
  show "map_ok (cps_of s i \<union> P) (update_coords i s)" if "map_ok P s" "placed (comp_of s i)" for P
    using U [of i] m [OF that(1)] that(2) c unfolding eq cps by simp
  show "map_ok P (update_coords i s)" if "map_ok P s" "\<not> placed (comp_of s i)" "cps_of s i \<inter> P = {}" for P
    using U [of i] m [OF that(1)] that(2,3) c unfolding eq cps by simp
qed

section \<open>Operations keep the invariant\<close>

named_theorems sch_pres \<open>operations that keep the invariant of the diagram\<close>

lemma sch_okD:
  assumes "sch_ok s"
  shows "map_ok (live s) s" "distinct (components s)" "i \<in> set (components s) \<Longrightarrow> i < length (heap s)"
    "i < length (heap s) \<Longrightarrow> settle (comp_of s i) = comp_of s i"
    "i < length (heap s) \<Longrightarrow> placed (comp_of s i) \<longleftrightarrow> i \<in> set (components s)"
  using assms by (auto simp: sch_ok_def)

lemma settle_settle [simp]: "settle (settle c) = settle c"
proof -
  have "location_of (settle c) = location_of c" by (rule location_of_cong) (simp_all add: settle_def)
  moreover have "box_of (settle c) = box_of c" by (simp add: box_of_def settle_def)
  ultimately show ?thesis by (simp add: settle_def)
qed

lemma settle_fields [simp]:
  "ty (settle c) = ty c" "cx (settle c) = cx c" "cy (settle c) = cy c" "rot (settle c) = rot c"
  "selected (settle c) = selected c" "was_selected (settle c) = was_selected c" "move_from (settle c) = move_from c"
  "props (settle c) = props c" "bounding_box (settle c) = bounding_box c" "delta (settle c) = delta c"
  "placed (settle c) = placed c" "length (conns (settle c)) = length (conns c)"
  by (simp_all add: settle_def)

text \<open>A change of a component that leaves it where it is.\<close>

definition same_place :: "comp \<Rightarrow> comp \<Rightarrow> bool" where
  "same_place c c' \<longleftrightarrow> settle c' = c' \<and> placed c' = placed c \<and> length (conns c') = length (conns c) \<and>
     map cp_at (conns c') = map cp_at (conns c)"

lemma upd_same_place:
  assumes "sch_ok s" "i < length (heap s) \<Longrightarrow> same_place (comp_of s i) (f (comp_of s i))"
  shows "sch_ok (upd_comp i f s)"
proof (cases "i < length (heap s)")
  case True
  note sp = assms(2) [OF True, unfolded same_place_def]
  have c: "comp_of (upd_comp i f s) j = (if j = i then f (comp_of s i) else comp_of s j)" for j
    by (rule comp_of_upd [OF True])
  have len: "length (conns (comp_of (upd_comp i f s) j)) = length (conns (comp_of s j))" for j
    using sp by (simp add: c)
  have "live (upd_comp i f s) = live s" by (simp add: live_def cps_of_def len)
  moreover have "place (upd_comp i f s) p = place s p" if "p \<in> live s" for p
  proof (cases "fst p = i")
    case True
    then have "snd p < length (conns (comp_of s i))" using that by (simp add: mem_live)
    then have "cp_at (conns (f (comp_of s i)) ! snd p) = cp_at (conns (comp_of s i) ! snd p)"
      using sp by (metis nth_map)
    with True show ?thesis by (simp add: place_def cp_of_def c)
  next
    case False
    then show ?thesis by (simp add: place_def cp_of_def c)
  qed
  ultimately have "map_ok (live (upd_comp i f s)) (upd_comp i f s)"
    by (intro map_ok_cong [OF sch_okD(1) [OF assms(1)]]) simp_all
  with assms(1) sp True show ?thesis by (auto simp: sch_ok_def c)
next
  case False
  have "upd_comp i f s = s" using False by (cases s) (simp add: upd_comp_def list_update_beyond)
  with assms(1) show ?thesis by simp
qed

lemma same_place_plain:
  "settle c = c \<Longrightarrow> conns c' = conns c \<Longrightarrow> bbox c' = bbox c \<Longrightarrow> cx c' = cx c \<Longrightarrow> cy c' = cy c \<Longrightarrow> rot c' = rot c \<Longrightarrow>
     bounding_box c' = bounding_box c \<Longrightarrow> placed c' = placed c \<Longrightarrow> same_place c c'"
proof -
  assume a: "settle c = c" "conns c' = conns c" "bbox c' = bbox c" "cx c' = cx c" "cy c' = cy c" "rot c' = rot c"
    "bounding_box c' = bounding_box c" "placed c' = placed c"
  have l: "location_of c' = location_of c" by (rule location_of_cong) (use a in simp_all)
  have "map (settled_cp c) (conns c) = conns c" "box_of c = bbox c"
    using arg_cong [OF a(1), of conns] arg_cong [OF a(1), of bbox] by (simp_all add: settle_def settled_cp_def [abs_def])
  then have "settle c' = c'"
    using a l by (simp add: settle_def settled_cp_def [abs_def] box_of_def)
  with a show ?thesis by (simp add: same_place_def)
qed

lemma select_ok [sch_pres]: "sch_ok s \<Longrightarrow> sch_ok (set_select b i s)"
  unfolding set_select_def by (rule upd_same_place, assumption, rule same_place_plain) (auto simp: sch_okD(4))

lemma move_begin_ok [sch_pres]: "sch_ok s \<Longrightarrow> sch_ok (move_begin i s)"
  unfolding move_begin_def by (rule upd_same_place, assumption, rule same_place_plain) (auto simp: sch_okD(4))

text \<open>A placed component is brought to where its new position or orientation puts it.\<close>

lemma update_coords_ok:
  assumes "sch_ok s" "i \<in> set (components s)" "\<And>c. conns (f c) = conns c" "\<And>c. placed (f c) = placed c"
  shows "sch_ok (update_coords i (upd_comp i f s))"
proof -
  let ?s = "upd_comp i f s"
  have i: "i < length (heap s)" by (rule sch_okD(3) [OF assms(1,2)])
  then have i': "i < length (heap ?s)" by simp
  have c: "comp_of ?s j = (if j = i then f (comp_of s i) else comp_of s j)" for j by (rule comp_of_upd [OF i])
  have "place ?s p = place s p" for p by (simp add: place_def cp_of_def c assms(3))
  then have m: "map_ok (live s) ?s" by (intro map_ok_cong [OF sch_okD(1) [OF assms(1)]]) simp_all
  have pl: "placed (comp_of ?s i)" using assms(2,4) sch_okD(5) [OF assms(1) i] by (simp add: c)
  have "length (conns (comp_of (update_coords i ?s) j)) = length (conns (comp_of s j))" for j
    by (simp add: update_coords_effect(1) [OF i'] c assms(3))
  then have "live (update_coords i ?s) = live s"
    by (simp add: live_def cps_of_def update_coords_effect(3) [OF i'])
  moreover have "cps_of ?s i \<union> live s = live s" using assms(2,3) by (auto simp: live_def cps_of_def c)
  ultimately have "map_ok (live (update_coords i ?s)) (update_coords i ?s)"
    using update_coords_effect(4) [OF i' m pl] by simp
  moreover have "placed (comp_of (update_coords i ?s) j) = placed (comp_of s j)" for j
    by (simp add: update_coords_effect(1) [OF i'] c assms(4))
  moreover have "settle (comp_of (update_coords i ?s) j) = comp_of (update_coords i ?s) j" if "j < length (heap s)" for j
    using sch_okD(4) [OF assms(1) that] by (simp add: update_coords_effect(1) [OF i'] c)
  ultimately show ?thesis
    using assms(1) by (auto simp: sch_ok_def update_coords_effect(2,3) [OF i'])
qed

lemma rotate_ok [sch_pres]: "sch_ok s \<Longrightarrow> i \<in> set (components s) \<Longrightarrow> sch_ok (rotate_comp a i s)"
  unfolding rotate_comp_def by (rule update_coords_ok) simp_all

lemma move_ok [sch_pres]: "sch_ok s \<Longrightarrow> i \<in> set (components s) \<Longrightarrow> sch_ok (move_comp dx dy i s)"
  unfolding move_comp_def by (rule update_coords_ok) simp_all

text \<open>A new object is not in the diagram.\<close>

lemma alloc_ok:
  assumes "sch_ok s" "settle c = c" "\<not> placed c" "alloc c s = (i, s')"
  shows "sch_ok s'" "i = length (heap s)" "comp_of s' i = c" "components s' = components s" "i \<notin> set (components s')"
    "i < length (heap s')" "j < length (heap s) \<Longrightarrow> comp_of s' j = comp_of s j"
    "cpoints s' = cpoints s" "live s' = live s" "p \<in> live s \<Longrightarrow> place s' p = place s p"
proof -
  have s': "s' = s\<lparr>heap := heap s @ [c]\<rparr>" and i: "i = length (heap s)" using assms(4) by (auto simp: alloc_def)
  have c: "comp_of s' j = comp_of s j" if "j < length (heap s)" for j using that by (simp add: s' comp_of_def nth_append)
  have b: "\<forall>j \<in> set (components s). j < length (heap s)" using assms(1) by (simp add: sch_ok_def)
  have l: "live s' = live s" using b by (auto simp: live_def cps_of_def s' comp_of_def nth_append)
  have p: "place s' p = place s p" if "p \<in> live s" for p
    using that b c by (auto simp: mem_live place_def cp_of_def)
  have "map_ok (live s') s'"
    by (rule map_ok_cong [OF sch_okD(1) [OF assms(1)]]) (use l p in \<open>auto simp: s'\<close>)
  moreover have "comp_of s' (length (heap s)) = c" by (simp add: s' comp_of_def)
  moreover have "length (heap s) \<notin> set (components s)" using b by blast
  ultimately show "sch_ok s'" using assms c b unfolding sch_ok_def by (auto simp: s' less_Suc_eq)
  show "i = length (heap s)" "components s' = components s" "i < length (heap s')" "cpoints s' = cpoints s"
    using i by (simp_all add: s')
  show "comp_of s' i = c" using i by (simp add: s' comp_of_def)
  show "i \<notin> set (components s')" using i b by (auto simp: s')
  show "live s' = live s" by (rule l)
  show "j < length (heap s) \<Longrightarrow> comp_of s' j = comp_of s j" by (rule c)
  show "p \<in> live s \<Longrightarrow> place s' p = place s p" by (rule p)
qed

lemma add_comp_ok:
  assumes "sch_ok s" "i < length (heap s)" "i \<notin> set (components s)"
  shows "sch_ok (add_comp i s)" "components (add_comp i s) = components s @ [i]"
    "comp_of (add_comp i s) j = (if j = i then (comp_of s i)\<lparr>placed := True\<rparr> else comp_of s j)"
    "length (heap (add_comp i s)) = length (heap s)"
proof -
  let ?s = "sch_add_component i (upd_comp i (\<lambda>c. c\<lparr>placed := True\<rparr>) s)"
  have c: "comp_of ?s j = (if j = i then (comp_of s i)\<lparr>placed := True\<rparr> else comp_of s j)" for j
    using comp_of_upd [OF assms(2), of "\<lambda>c. c\<lparr>placed := True\<rparr>" j] by (simp add: sch_add_component_def comp_of_def)
  have i': "i < length (heap ?s)" using assms(2) by (simp add: sch_add_component_def)
  have cs: "components ?s = components s @ [i]" by (simp add: sch_add_component_def)
  have "place ?s p = place s p" for p by (simp add: place_def cp_of_def c)
  then have m: "map_ok (live s) ?s"
    by (intro map_ok_cong [OF sch_okD(1) [OF assms(1)]]) (simp_all add: sch_add_component_def)
  have pl: "placed (comp_of ?s i)" by (simp add: c)
  note U = update_coords_effect [OF i']
  have cp: "comp_of (update_coords i ?s) j = (if j = i then (comp_of s i)\<lparr>placed := True\<rparr> else comp_of s j)" for j
  proof -
    have "settle ((comp_of s i)\<lparr>placed := True\<rparr>) = (settle (comp_of s i))\<lparr>placed := True\<rparr>"
      by (simp add: settle_def box_of_def location_of_def)
    then show ?thesis using U(1) [of j] sch_okD(4) [OF assms(1,2)] by (simp add: c)
  qed
  have lv: "live (update_coords i ?s) = cps_of ?s i \<union> live s"
    using assms(3) by (auto simp: mem_live U(3) cs cp c cps_of_def image_iff split: if_splits)
  then have "map_ok (live (update_coords i ?s)) (update_coords i ?s)" using U(4) [OF m pl] by simp
  moreover have "settle (comp_of (update_coords i ?s) j) = comp_of (update_coords i ?s) j" if "j < length (heap s)" for j
  proof -
    have "settle ((comp_of s i)\<lparr>placed := True\<rparr>) = (settle (comp_of s i))\<lparr>placed := True\<rparr>"
      by (simp add: settle_def box_of_def location_of_def)
    then show ?thesis using sch_okD(4) [OF assms(1)] that assms(2) by (simp add: cp)
  qed
  moreover have "placed (comp_of (update_coords i ?s) j) \<longleftrightarrow> j \<in> set (components (update_coords i ?s))"
    if "j < length (heap s)" for j
    using sch_okD(5) [OF assms(1) that] by (simp add: cp U(3) cs)
  moreover have "length (heap (update_coords i ?s)) = length (heap s)" using U(2) by (simp add: sch_add_component_def)
  ultimately have "sch_ok (update_coords i ?s)"
    using assms(2,3) sch_okD(2,3) [OF assms(1)] unfolding sch_ok_def U(3) cs by auto
  then show "sch_ok (add_comp i s)" by (simp add: add_comp_def)
  show "components (add_comp i s) = components s @ [i]" by (simp add: add_comp_def U(3) cs)
  show "comp_of (add_comp i s) j = (if j = i then (comp_of s i)\<lparr>placed := True\<rparr> else comp_of s j)"
    by (simp add: add_comp_def cp)
  show "length (heap (add_comp i s)) = length (heap s)" using U(2) by (simp add: add_comp_def sch_add_component_def)
qed

text \<open>Removing a component takes its connection points off the map.\<close>

lemma remove_points:
  assumes "map_ok P s" "set ps \<subseteq> P" "distinct ps"
  shows "map_ok (P - set ps) (fold (\<lambda>p s. remove_connection_point p (cp_at (cp_of s p)) s) ps s) \<and>
    heap (fold (\<lambda>p s. remove_connection_point p (cp_at (cp_of s p)) s) ps s) = heap s \<and>
    components (fold (\<lambda>p s. remove_connection_point p (cp_at (cp_of s p)) s) ps s) = components s"
  using assms
proof (induction ps arbitrary: P s)
  case Nil
  then show ?case by simp
next
  case (Cons p ps)
  let ?s = "remove_connection_point p (cp_at (cp_of s p)) s"
  have "cpoints ?s = drop_in (place s p) p (cpoints s)" by (simp add: remove_point_in place_def)
  then have m: "map_ok (P - {p}) ?s"
    using locations.drop_indexes [of "cpoints s" P "place s" p] locations.drop_wf [of "cpoints s"] Cons.prems(1)
    by (simp add: map_ok_def find_at_in)
  have "set ps \<subseteq> P - {p}" "distinct ps" using Cons.prems(2,3) by auto
  from Cons.IH [OF m this] show ?case by (simp add: Diff_insert2 [of P p "set ps"])
qed

lemma remove_comp_ok:
  assumes "sch_ok s" "i \<in> set (components s)"
  shows "sch_ok (remove_comp i s)" "components (remove_comp i s) = remove1 i (components s)"
    "comp_of (remove_comp i s) j = (if j = i then (comp_of s i)\<lparr>placed := False\<rparr> else comp_of s j)"
    "length (heap (remove_comp i s)) = length (heap s)"
proof -
  let ?ps = "rev (map (Pair i) [0 ..< length (conns (comp_of s i))])"
  let ?s1 = "fold (\<lambda>p s. remove_connection_point p (cp_at (cp_of s p)) s) ?ps s"
  let ?s2 = "sch_remove_component i ?s1"
  have i: "i < length (heap s)" by (rule sch_okD(3) [OF assms])
  have ps: "set ?ps = cps_of s i" "set ?ps \<subseteq> live s" using assms(2) by (auto simp: cps_of_def live_def)
  have d: "distinct ?ps" by (simp add: distinct_map inj_on_def)
  note R = remove_points [OF sch_okD(1) [OF assms(1)] ps(2) d]
  have h: "heap ?s1 = heap s" "components ?s1 = components s" using R by simp_all
  have c1: "comp_of ?s2 = comp_of s" using h by (simp add: comp_of_def sch_remove_component_def fun_eq_iff)
  have i2: "i < length (heap ?s2)" using h i by (simp add: sch_remove_component_def)
  have c: "comp_of (remove_comp i s) j = (if j = i then (comp_of s i)\<lparr>placed := False\<rparr> else comp_of s j)" for j
    by (simp add: remove_comp_def Let_def comp_of_upd [OF i2] c1)
  have cs: "components (remove_comp i s) = remove1 i (components s)"
    using h by (simp add: remove_comp_def Let_def sch_remove_component_def)
  have len: "length (heap (remove_comp i s)) = length (heap s)"
    using h by (simp add: remove_comp_def Let_def sch_remove_component_def)
  have di: "distinct (components s)" by (rule sch_okD(2) [OF assms(1)])
  have lv: "live (remove_comp i s) = live s - set ?ps"
  proof (rule set_eqI)
    fix p
    show "p \<in> live (remove_comp i s) \<longleftrightarrow> p \<in> live s - set ?ps"
      unfolding ps(1) using di by (cases p) (auto simp: mem_live cs c cps_of_def)
  qed
  have pl: "place (remove_comp i s) p = place s p" for p by (simp add: place_def cp_of_def c)
  have p1: "place ?s1 p = place s p" for p using h(1) unfolding place_def cp_of_def comp_of_def by (rule arg_cong)
  have m1: "map_ok (live s - set ?ps) ?s1" using R by blast
  have cp: "cpoints (remove_comp i s) = cpoints ?s1" by (simp add: remove_comp_def Let_def sch_remove_component_def)
  have "map_ok (live (remove_comp i s)) (remove_comp i s)"
    by (rule map_ok_cong [OF m1 cp _ lv]) (simp only: pl p1)
  moreover have "settle (comp_of (remove_comp i s) j) = comp_of (remove_comp i s) j" if "j < length (heap s)" for j
  proof -
    have "settle ((comp_of s i)\<lparr>placed := False\<rparr>) = (settle (comp_of s i))\<lparr>placed := False\<rparr>"
      by (simp add: settle_def box_of_def location_of_def)
    then show ?thesis using sch_okD(4) [OF assms(1)] that i by (simp add: c)
  qed
  moreover have "placed (comp_of (remove_comp i s) j) \<longleftrightarrow> j \<in> set (components (remove_comp i s))" if "j < length (heap s)" for j
    using sch_okD(5) [OF assms(1) that] di by (simp add: c cs)
  ultimately show "sch_ok (remove_comp i s)"
    using di sch_okD(3) [OF assms(1)] unfolding sch_ok_def len by (simp add: cs)
  show "components (remove_comp i s) = remove1 i (components s)" by (rule cs)
  show "comp_of (remove_comp i s) j = (if j = i then (comp_of s i)\<lparr>placed := False\<rparr> else comp_of s j)" by (rule c)
  show "length (heap (remove_comp i s)) = length (heap s)" by (rule len)
qed

lemma new_sch_ok: "sch_ok new_sch"
  by (simp add: sch_ok_def new_sch_def map_ok_def map_wf_def indexes_def find_at_def live_def)

text \<open>What the invariant says of the map.\<close>

lemma find_at_exact: "sch_ok s \<Longrightarrow> p \<in> set (find_at s l) \<longleftrightarrow> p \<in> live s \<and> place s p = l"
  by (drule sch_okD(1)) (simp add: map_ok_def indexes_def del: split_paired_All)

lemma find_at_distinct: "sch_ok s \<Longrightarrow> distinct (find_at s l)"
  by (drule sch_okD(1)) (simp add: map_ok_def indexes_def del: split_paired_All)

text \<open>Every constructor gives a component that is where it should be, in no diagram.\<close>

lemma finish_comp_settled [simp]: "settle (finish_comp b c) = finish_comp b c"
  by (simp add: finish_comp_def)

lemma finish_comp_placed [simp]: "placed (finish_comp b c) = placed c"
  by (simp add: finish_comp_def)

lemma building_placed [simp]:
  "placed (add_connection x y c) = placed c" "placed (set_prop k v c) = placed c" "\<not> placed (new_comp t x y r)"
  by (simp_all add: add_connection_def set_prop_def new_comp_def)

lemmas make_defs = make_Wire_def make_Ground_def make_Label_def make_Probe_def make_Ammeter_def make_Resistor_def
  make_Capacitor_def make_Inductor_def make_Diode_def make_Fet_def make_OpAmp_def make_Source_def

lemma make_ok [simp]:
  "settle (make_Wire x y x' y') = make_Wire x y x' y'" "\<not> placed (make_Wire x y x' y')"
  "settle (make_Ground x y r) = make_Ground x y r" "\<not> placed (make_Ground x y r)"
  "settle (make_Label x y r l) = make_Label x y r l" "\<not> placed (make_Label x y r l)"
  "settle (make_Probe x y r u v) = make_Probe x y r u v" "\<not> placed (make_Probe x y r u v)"
  "settle (make_Ammeter x y r u v) = make_Ammeter x y r u v" "\<not> placed (make_Ammeter x y r u v)"
  "settle (make_Resistor x y r u v) = make_Resistor x y r u v" "\<not> placed (make_Resistor x y r u v)"
  "settle (make_Capacitor x y r u v) = make_Capacitor x y r u v" "\<not> placed (make_Capacitor x y r u v)"
  "settle (make_Inductor x y r u v) = make_Inductor x y r u v" "\<not> placed (make_Inductor x y r u v)"
  "settle (make_Diode x y r u v w) = make_Diode x y r u v w" "\<not> placed (make_Diode x y r u v w)"
  "settle (make_Fet t x y r u v) = make_Fet t x y r u v" "\<not> placed (make_Fet t x y r u v)"
  "settle (make_OpAmp x y r u v) = make_OpAmp x y r u v" "\<not> placed (make_OpAmp x y r u v)"
  "settle (make_Source t x y r u v) = make_Source t x y r u v" "\<not> placed (make_Source t x y r u v)"
  by (simp_all add: make_defs Let_def case_prod_beta)

lemma clone_ok [simp]: "settle (clone_comp c x y) = clone_comp c x y" "\<not> placed (clone_comp c x y)"
  by (simp_all add: clone_comp_def Let_def)

lemma add_new_ok [sch_pres]:
  assumes "sch_ok s" "settle c = c" "\<not> placed c"
  shows "sch_ok (add_new c s)"
proof -
  obtain i s1 where a: "alloc c s = (i, s1)" by fastforce
  note A = alloc_ok [OF assms a]
  show ?thesis using add_comp_ok(1) [OF A(1,6,5)] a by (simp add: add_new_def)
qed

lemma fold_add_new_ok: "sch_ok s \<Longrightarrow> (\<And>c. c \<in> set cs \<Longrightarrow> settle c = c \<and> \<not> placed c) \<Longrightarrow> sch_ok (fold add_new cs s)"
  by (induction cs arbitrary: s) (auto simp: add_new_ok)

end
