(* ===== verification/SchLabel.thy ===== *)
theory SchLabel
  imports SchIndex
begin

text \<open>
  Naming the nodes of a diagram (\<open>label_connection_points\<close> in \<open>capa/schematic.js\<close>): every connection point
  gets the label of its node. Points at one location belong to one node, and a wire joins its two
  ends. The recursion of \<open>propagate_label\<close> is a walk over a list of the calls still to be made: the
  calls a call makes are the last thing it does, so they go to the front of the list.
\<close>

section \<open>Labelling\<close>

definition label_at :: "sch \<Rightarrow> nat \<times> nat \<Rightarrow> string option" where "label_at s p = cp_label (cp_of s p)"

definition is_wire :: "sch \<Rightarrow> nat \<Rightarrow> bool" where "is_wire s i \<longleftrightarrow> ty (comp_of s i) = ''w''"

text \<open>A call of \<open>propagate_label\<close> for a point that does not exist cannot happen and does nothing.\<close>

definition unlabelled :: "sch \<Rightarrow> nat \<times> nat \<Rightarrow> bool" where
  "unlabelled s p \<longleftrightarrow> fst p < length (heap s) \<and> snd p < length (conns (comp_of s (fst p))) \<and> label_at s p = None"

definition conflict :: "string \<Rightarrow> sch \<Rightarrow> nat \<times> nat \<Rightarrow> bool" where
  "conflict l s p \<longleftrightarrow> (case label_at s p of None \<Rightarrow> False | Some m \<Rightarrow> m \<noteq> ''0'' \<and> l \<noteq> ''0'' \<and> m \<noteq> l)"

definition set_label :: "string option \<Rightarrow> nat \<times> nat \<Rightarrow> sch \<Rightarrow> sch" where
  "set_label l p s = upd_cp p (\<lambda>q. q\<lparr>cp_label := l\<rparr>) s"

definition wire_ends :: "sch \<Rightarrow> nat \<Rightarrow> (nat \<times> nat) list" where
  "wire_ends s i = (if is_wire s i then [(i, 0), (i, 1)] else [])"

definition free_points :: "sch \<Rightarrow> (nat \<times> nat) set" where "free_points s = {p. unlabelled s p}"

lemma free_finite: "finite (free_points s)"
proof -
  have "free_points s \<subseteq> (\<Union>i \<in> {..< length (heap s)}. Pair i ` {..< length (conns (comp_of s i))})"
    by (auto simp: free_points_def unlabelled_def)
  then show ?thesis by (rule finite_subset) auto
qed

lemma comp_set_label:
  "comp_of (set_label l p s) i =
    (if i = fst p \<and> i < length (heap s)
     then (comp_of s i)\<lparr>conns := (conns (comp_of s i))[snd p := (conns (comp_of s i) ! snd p)\<lparr>cp_label := l\<rparr>]\<rparr>
     else comp_of s i)"
  by (auto simp: set_label_def upd_cp_def upd_comp_def comp_of_def list_update_beyond)

lemma set_label_rest [simp]:
  "length (heap (set_label l p s)) = length (heap s)" "components (set_label l p s) = components s"
  "cpoints (set_label l p s) = cpoints s" "next_label (set_label l p s) = next_label s" "alerts (set_label l p s) = alerts s"
  by (simp_all add: set_label_def)

lemma label_set_label:
  "fst p < length (heap s) \<Longrightarrow> snd p < length (conns (comp_of s (fst p))) \<Longrightarrow>
     label_at (set_label l p s) q = (if q = p then l else label_at s q)"
  by (cases p; cases q) (auto simp: label_at_def cp_of_def comp_set_label nth_list_update)

lemma free_set_label:
  assumes "unlabelled s p"
  shows "free_points (set_label (Some l) p s) = free_points s - {p}"
proof -
  have b: "fst p < length (heap s)" "snd p < length (conns (comp_of s (fst p)))" using assms by (auto simp: unlabelled_def)
  have "length (conns (comp_of (set_label (Some l) p s) i)) = length (conns (comp_of s i))" for i
    by (simp add: comp_set_label)
  then show ?thesis by (auto simp: free_points_def unlabelled_def label_set_label [OF b])
qed

lemma free_alerts [simp]: "free_points (s\<lparr>alerts := n\<rparr>) = free_points s"
  by (auto simp: free_points_def unlabelled_def label_at_def cp_of_def comp_of_def)

function propagate_label :: "string \<Rightarrow> (nat \<times> nat) list \<Rightarrow> sch \<Rightarrow> sch" where
  "propagate_label l [] s = s"
| "propagate_label l (p # ps) s =
     (if unlabelled s p
      then propagate_label l (rev (find_connections p s) @ wire_ends s (fst p) @ ps) (set_label (Some l) p s)
      else propagate_label l ps (if conflict l s p then s\<lparr>alerts := Suc (alerts s)\<rparr> else s))"
  by pat_completeness auto

termination
proof (relation "inv_image (less_than <*lex*> less_than) (\<lambda>(l, ps, s). (card (free_points s), length ps))")
  show "wf (inv_image (less_than <*lex*> less_than)
      (\<lambda>(l :: string, ps :: (nat \<times> nat) list, s). (card (free_points s), length ps)))"
    by (intro wf_inv_image wf_lex_prod wf_less_than)
next
  fix l :: string and p :: "nat \<times> nat" and ps s
  assume "unlabelled s p"
  then have "p \<in> free_points s" by (simp add: free_points_def)
  then have "card (free_points s - {p}) < card (free_points s)" by (rule card_Diff1_less [OF free_finite])
  with \<open>unlabelled s p\<close> show "((l, rev (find_connections p s) @ wire_ends s (fst p) @ ps, set_label (Some l) p s), l, p # ps, s)
      \<in> inv_image (less_than <*lex*> less_than) (\<lambda>(l, ps, s). (card (free_points s), length ps))"
    by (simp add: free_set_label)
next
  fix l :: string and p :: "nat \<times> nat" and ps s
  show "((l, ps, if conflict l s p then s\<lparr>alerts := Suc (alerts s)\<rparr> else s), l, p # ps, s)
      \<in> inv_image (less_than <*lex*> less_than) (\<lambda>(l, ps, s). (card (free_points s), length ps))"
    by simp
qed

declare propagate_label.simps(2) [simp del]

definition clear_labels :: "nat \<Rightarrow> sch \<Rightarrow> sch" where
  "clear_labels i s = fold (set_label None) (rev (map (Pair i) [0 ..< length (conns (comp_of s i))])) s"

text \<open>The label of a \<open>Label\<close> component is always a text.\<close>

definition default_label :: "comp \<Rightarrow> string option" where
  "default_label c = (if ty c = ''g'' then Some ''0'' else if ty c = ''L'' then props c ''label'' else None)"

definition add_default_labels :: "nat \<Rightarrow> sch \<Rightarrow> sch" where
  "add_default_labels i s =
     (case default_label (comp_of s i) of None \<Rightarrow> s | Some l \<Rightarrow> propagate_label l [(i, 0)] s)"

definition get_next_label :: "sch \<Rightarrow> string \<times> sch" where
  "get_next_label s = (nat_text (Suc (next_label s)), s\<lparr>next_label := Suc (next_label s)\<rparr>)"

definition label_point :: "nat \<times> nat \<Rightarrow> sch \<Rightarrow> sch" where
  "label_point p s =
     (if label_at s p = None \<or> label_at s p = Some [] then
        (let (l, s1) = get_next_label s in propagate_label l [p] s1)
      else s)"

definition label_connections :: "nat \<Rightarrow> sch \<Rightarrow> sch" where
  "label_connections i s =
     (if is_wire s i then s
      else fold label_point (rev (map (Pair i) [0 ..< length (conns (comp_of s i))])) s)"

definition label_connection_points :: "sch \<Rightarrow> sch" where
  "label_connection_points s =
     (let s1 = fold clear_labels (rev (components s)) s;
          s2 = fold add_default_labels (rev (components s)) s1
      in fold label_connections (rev (components s)) (s2\<lparr>next_label := 0\<rparr>))"

section \<open>Nodes\<close>

definition touching :: "sch \<Rightarrow> ((nat \<times> nat) \<times> (nat \<times> nat)) set" where
  "touching s = {(p, q). p \<in> live s \<and> q \<in> live s \<and> (place s p = place s q \<or> fst p = fst q \<and> is_wire s (fst p))}"

definition same_node :: "sch \<Rightarrow> nat \<times> nat \<Rightarrow> nat \<times> nat \<Rightarrow> bool" where
  "same_node s p q \<longleftrightarrow> (p, q) \<in> (touching s)\<^sup>*"

lemma same_node_refl [simp]: "same_node s p p"
  by (simp add: same_node_def)

lemma same_node_sym: "same_node s p q \<Longrightarrow> same_node s q p"
proof -
  have "sym (touching s)" by (auto simp: sym_def touching_def)
  then show "same_node s p q \<Longrightarrow> same_node s q p" unfolding same_node_def by (metis sym_rtrancl symD)
qed

lemma same_node_trans: "same_node s p q \<Longrightarrow> same_node s q r \<Longrightarrow> same_node s p r"
  by (simp add: same_node_def)

lemma same_node_live: "same_node s p q \<Longrightarrow> p \<in> live s \<Longrightarrow> q \<in> live s"
  unfolding same_node_def by (erule rtranclE) (auto simp: touching_def)

text \<open>Two states that differ in their labels only.\<close>

definition strip_comp :: "comp \<Rightarrow> comp" where
  "strip_comp c = c\<lparr>conns := map (\<lambda>q. q\<lparr>cp_label := None\<rparr>) (conns c)\<rparr>"

definition relabelled :: "sch \<Rightarrow> sch \<Rightarrow> bool" where
  "relabelled s s' \<longleftrightarrow> map strip_comp (heap s') = map strip_comp (heap s) \<and> components s' = components s \<and> cpoints s' = cpoints s"

lemma relabelled_refl [simp]: "relabelled s s"
  by (simp add: relabelled_def)

lemma relabelled_trans: "relabelled s t \<Longrightarrow> relabelled t u \<Longrightarrow> relabelled s u"
  by (simp add: relabelled_def)

lemma relabelled_len: "relabelled s s' \<Longrightarrow> length (heap s') = length (heap s)"
  unfolding relabelled_def by (metis length_map)

lemma relabelled_comp:
  assumes "relabelled s s'" "i < length (heap s)"
  shows "strip_comp (comp_of s' i) = strip_comp (comp_of s i)"
  using assms relabelled_len [OF assms(1)] unfolding relabelled_def comp_of_def by (metis nth_map)

lemma strip_same:
  assumes "strip_comp c' = strip_comp c"
  shows "ty c' = ty c" "props c' = props c" "length (conns c') = length (conns c)" "placed c' = placed c"
    "map cp_at (conns c') = map cp_at (conns c)" "map offset (conns c') = map offset (conns c)"
    "location_of c' = location_of c" "box_of c' = box_of c" "bbox c' = bbox c" "cx c' = cx c" "cy c' = cy c" "rot c' = rot c"
    "delta c' = delta c" "selected c' = selected c"
proof -
  have cs: "map (\<lambda>q. q\<lparr>cp_label := None\<rparr>) (conns c') = map (\<lambda>q. q\<lparr>cp_label := None\<rparr>) (conns c)"
    using arg_cong [OF assms, of conns] by (simp add: strip_comp_def)
  show "length (conns c') = length (conns c)" using arg_cong [OF cs, of length] by simp
  show "map cp_at (conns c') = map cp_at (conns c)" using arg_cong [OF cs, of "map cp_at"] by (simp add: comp_def)
  show "map offset (conns c') = map offset (conns c)" using arg_cong [OF cs, of "map offset"] by (simp add: comp_def)
  show f: "ty c' = ty c" "props c' = props c" "placed c' = placed c" "bbox c' = bbox c" "cx c' = cx c" "cy c' = cy c"
      "rot c' = rot c" "delta c' = delta c" "selected c' = selected c"
    using arg_cong [OF assms, of ty] arg_cong [OF assms, of props] arg_cong [OF assms, of placed] arg_cong [OF assms, of bbox]
      arg_cong [OF assms, of cx] arg_cong [OF assms, of cy] arg_cong [OF assms, of rot] arg_cong [OF assms, of delta]
      arg_cong [OF assms, of selected]
    by (simp_all add: strip_comp_def)
  show "location_of c' = location_of c" by (rule location_of_cong) (use f in simp_all)
  have "bounding_box c' = bounding_box c" using arg_cong [OF assms, of bounding_box] by (simp add: strip_comp_def)
  then show "box_of c' = box_of c" using f by (simp add: box_of_def)
qed

lemma strip_out: "relabelled s s' \<Longrightarrow> sch_ok s \<Longrightarrow> i \<in> set (components s) \<Longrightarrow> strip_comp (comp_of s' i) = strip_comp (comp_of s i)"
  by (rule relabelled_comp) (auto simp: sch_ok_def)

lemma relabelled_live: "relabelled s s' \<Longrightarrow> sch_ok s \<Longrightarrow> live s' = live s"
proof -
  assume r: "relabelled s s'" and ok: "sch_ok s"
  have "components s' = components s" using r by (simp add: relabelled_def)
  moreover have "length (conns (comp_of s' i)) = length (conns (comp_of s i))" if "i \<in> set (components s)" for i
    by (rule strip_same(3) [OF strip_out [OF r ok that]])
  ultimately show ?thesis by (auto simp: mem_live)
qed

lemma relabelled_place:
  assumes "relabelled s s'" "sch_ok s" "p \<in> live s"
  shows "place s' p = place s p"
proof -
  have p: "fst p \<in> set (components s)" "snd p < length (conns (comp_of s (fst p)))" using assms(3) by (auto simp: mem_live)
  note S = strip_same [OF strip_out [OF assms(1,2) p(1)]]
  have "map cp_at (conns (comp_of s' (fst p))) ! snd p = map cp_at (conns (comp_of s (fst p))) ! snd p" by (simp add: S(5))
  then show ?thesis using p(2) S(3) by (simp add: place_def cp_of_def)
qed

lemma relabelled_ok:
  assumes "relabelled s s'" "sch_ok s"
  shows "sch_ok s'"
proof -
  have c: "components s' = components s" "cpoints s' = cpoints s" using assms(1) by (auto simp: relabelled_def)
  have "map_ok (live s') s'"
    by (rule map_ok_cong [OF sch_okD(1) [OF assms(2)] c(2)])
      (simp_all add: relabelled_live [OF assms] relabelled_place [OF assms])
  moreover have "settle (comp_of s' i) = comp_of s' i" if i: "i < length (heap s)" for i
  proof -
    note S = strip_same [OF relabelled_comp [OF assms(1) i]]
    have t: "settle (comp_of s i) = comp_of s i" by (rule sch_okD(4) [OF assms(2) i])
    have "map cp_at (conns (comp_of s i)) = map (location_of (comp_of s i)) (map offset (conns (comp_of s i)))"
      using arg_cong [OF t, of "\<lambda>c. map cp_at (conns c)"] by (simp add: settle_def comp_def)
    then have m: "map cp_at (conns (comp_of s' i)) = map (location_of (comp_of s' i)) (map offset (conns (comp_of s' i)))"
      by (simp only: S(5,6,7))
    have "map (settled_cp (comp_of s' i)) (conns (comp_of s' i)) = conns (comp_of s' i)"
    proof (rule nth_equalityI)
      fix k assume "k < length (map (settled_cp (comp_of s' i)) (conns (comp_of s' i)))"
      then have k: "k < length (conns (comp_of s' i))" by simp
      from arg_cong [OF m, of "\<lambda>xs. xs ! k"] k
      have "cp_at (conns (comp_of s' i) ! k) = location_of (comp_of s' i) (offset (conns (comp_of s' i) ! k))" by simp
      then show "map (settled_cp (comp_of s' i)) (conns (comp_of s' i)) ! k = conns (comp_of s' i) ! k"
        using k by (simp add: settled_cp_def)
    qed simp
    moreover have "bbox (comp_of s i) = box_of (comp_of s i)"
      using arg_cong [OF t, of bbox] by (simp add: settle_def)
    ultimately show ?thesis
      using S(8,9) by (simp add: settle_def settled_cp_def [abs_def])
  qed
  moreover have "placed (comp_of s' i) = placed (comp_of s i)" if i: "i < length (heap s)" for i
    by (rule strip_same(4) [OF relabelled_comp [OF assms(1) i]])
  ultimately show ?thesis using assms(2) c relabelled_len [OF assms(1)] by (simp add: sch_ok_def)
qed

lemma relabelled_wire: "relabelled s s' \<Longrightarrow> sch_ok s \<Longrightarrow> i \<in> set (components s) \<Longrightarrow> is_wire s' i = is_wire s i"
  unfolding is_wire_def by (simp add: strip_same(1) [OF strip_out])

lemma relabelled_touching: "relabelled s s' \<Longrightarrow> sch_ok s \<Longrightarrow> touching s' = touching s"
  unfolding touching_def
  by (auto simp: relabelled_live relabelled_place relabelled_wire mem_live)

lemma relabelled_node: "relabelled s s' \<Longrightarrow> sch_ok s \<Longrightarrow> same_node s' = same_node s"
  by (simp add: fun_eq_iff same_node_def relabelled_touching)

lemma strip_label: "strip_comp (c\<lparr>conns := (conns c)[k := (conns c ! k)\<lparr>cp_label := l\<rparr>]\<rparr>) = strip_comp c"
proof -
  have "map (\<lambda>q. q\<lparr>cp_label := None\<rparr>) ((conns c)[k := (conns c ! k)\<lparr>cp_label := l\<rparr>]) = map (\<lambda>q. q\<lparr>cp_label := None\<rparr>) (conns c)"
    by (metis (no_types, lifting) cpoint.surjective cpoint.update_convs(3) list_update_id map_update)
  then show ?thesis by (simp add: strip_comp_def)
qed

lemma set_label_relabelled: "relabelled s (set_label l p s)"
proof -
  have "map strip_comp (heap (set_label l p s)) = map strip_comp (heap s)"
    by (simp add: set_label_def upd_cp_def upd_comp_def map_update strip_label list_update_same_conv)
       (metis list_update_id map_update)
  then show ?thesis by (simp add: relabelled_def)
qed

lemma relabelled_fields [simp]:
  "relabelled s (t\<lparr>alerts := n\<rparr>) = relabelled s t" "relabelled s (t\<lparr>next_label := n\<rparr>) = relabelled s t"
  by (simp_all add: relabelled_def)

lemma propagate_relabelled: "relabelled s (propagate_label l ps s)"
proof (induction l ps s rule: propagate_label.induct)
  case (1 l s)
  then show ?case by simp
next
  case (2 l p ps s)
  then show ?case
    using set_label_relabelled [of s "Some l" p]
    by (auto simp: propagate_label.simps(2) relabelled_def)
qed

lemma fold_relabelled: "(\<And>x s. relabelled s (f x s)) \<Longrightarrow> relabelled s (fold f xs s)"
  by (induction xs arbitrary: s) (auto intro: relabelled_trans)

lemma label_step_relabelled:
  "relabelled s (clear_labels i s)" "relabelled s (add_default_labels i s)" "relabelled s (label_connections i s)"
  "relabelled s (label_point p s)"
proof -
  have p: "relabelled s (label_point p s)" for p s
    using propagate_relabelled [of "s\<lparr>next_label := Suc (next_label s)\<rparr>" "nat_text (Suc (next_label s))" "[p]"]
    by (simp add: label_point_def get_next_label_def relabelled_def)
  then show "relabelled s (label_point p s)" "relabelled s (label_connections i s)"
    by (simp_all add: label_connections_def fold_relabelled)
  show "relabelled s (clear_labels i s)" by (simp add: clear_labels_def fold_relabelled set_label_relabelled)
  show "relabelled s (add_default_labels i s)"
    by (simp add: add_default_labels_def propagate_relabelled split: option.split)
qed

lemma label_relabelled: "relabelled s (label_connection_points s)"
proof -
  let ?s1 = "fold clear_labels (rev (components s)) s"
  let ?s2 = "fold add_default_labels (rev (components s)) ?s1"
  have "relabelled s ?s1" by (rule fold_relabelled) (rule label_step_relabelled)
  moreover have "relabelled ?s1 ?s2" by (rule fold_relabelled) (rule label_step_relabelled)
  moreover have "relabelled (?s2\<lparr>next_label := 0\<rparr>) (fold label_connections (rev (components s)) (?s2\<lparr>next_label := 0\<rparr>))"
    by (rule fold_relabelled) (rule label_step_relabelled)
  then have "relabelled ?s2 (label_connection_points s)"
    by (simp add: relabelled_def label_connection_points_def Let_def)
  ultimately show ?thesis by (blast intro: relabelled_trans)
qed

end
