(* ===== verification/SchNodes.thy ===== *)
theory SchNodes
  imports SchLabel
begin

text \<open>
  Labels are nodes: after \<open>label_connection_points\<close> two connection points of parts have the same label
  exactly when they are electrically joined, by wires, by position, or by a name.
\<close>

section \<open>One walk\<close>

text \<open>What the code relies on: a wire has two connection points, a ground and a label one.\<close>

definition comp_shape :: "comp \<Rightarrow> bool" where
  "comp_shape c \<longleftrightarrow> (ty c = ''w'' \<longrightarrow> length (conns c) = 2) \<and> (ty c = ''g'' \<or> ty c = ''L'' \<longrightarrow> length (conns c) = 1) \<and>
     (ty c = ''L'' \<longrightarrow> props c ''label'' \<noteq> None)"

definition shapes :: "sch \<Rightarrow> bool" where
  "shapes s \<longleftrightarrow> (\<forall>i \<in> set (components s). comp_shape (comp_of s i))"

lemma relabelled_shapes: "relabelled s s' \<Longrightarrow> sch_ok s \<Longrightarrow> shapes s' = shapes s"
proof -
  assume r: "relabelled s s'" and ok: "sch_ok s"
  have "components s' = components s" using r by (simp add: relabelled_def)
  moreover have "comp_shape (comp_of s' i) = comp_shape (comp_of s i)" if "i \<in> set (components s)" for i
    using strip_same(1-3) [OF strip_out [OF r ok that]] by (simp add: comp_shape_def)
  ultimately show ?thesis by (simp add: shapes_def)
qed

definition uniform :: "sch \<Rightarrow> bool" where
  "uniform s \<longleftrightarrow> (\<forall>(p, q) \<in> touching s. label_at s p = label_at s q)"

lemma uniform_node: "uniform s \<Longrightarrow> same_node s p q \<Longrightarrow> label_at s p = label_at s q"
proof -
  assume u: "uniform s" and "same_node s p q"
  then have "(p, q) \<in> (touching s)\<^sup>*" by (simp add: same_node_def)
  then show ?thesis by (induction rule: rtrancl_induct) (use u in \<open>auto simp: uniform_def\<close>)
qed

text \<open>In the middle of a walk from \<open>S\<close> that writes \<open>l\<close>: \<open>f\<close> are the labels at its start.\<close>

definition walking :: "sch \<Rightarrow> (nat \<times> nat \<Rightarrow> string option) \<Rightarrow> string \<Rightarrow> (nat \<times> nat) set \<Rightarrow> (nat \<times> nat) list \<Rightarrow> sch \<Rightarrow> bool" where
  "walking s0 f l S todo s \<longleftrightarrow> relabelled s0 s \<and> set todo \<subseteq> live s0 \<and>
     (\<forall>p \<in> live s0. label_at s p = f p \<or> f p = None \<and> label_at s p = Some l) \<and>
     (\<forall>p \<in> live s0. f p = None \<and> label_at s p = Some l \<longrightarrow>
        (\<exists>r \<in> S. same_node s0 r p) \<and> (\<forall>q. (p, q) \<in> touching s0 \<longrightarrow> label_at s q \<noteq> None \<or> q \<in> set todo)) \<and>
     (\<forall>p \<in> set todo. \<exists>r \<in> S. same_node s0 r p) \<and> (\<forall>r \<in> S. label_at s r \<noteq> None \<or> r \<in> set todo)"

lemma live_unlabelled: "sch_ok s \<Longrightarrow> p \<in> live s \<Longrightarrow> unlabelled s p \<longleftrightarrow> label_at s p = None"
  by (auto simp: unlabelled_def mem_live sch_okD(3))

lemma neighbours:
  assumes "sch_ok s" "shapes s" "p \<in> live s"
  shows "set (find_connections p s) \<union> set (wire_ends s (fst p)) = {q. (p, q) \<in> touching s}"
proof -
  have p: "fst p \<in> set (components s)" "snd p < length (conns (comp_of s (fst p)))" using assms(3) by (auto simp: mem_live)
  have f: "set (find_connections p s) = {q. q \<in> live s \<and> place s q = place s p}"
    by (rule set_eqI) (simp add: find_connections_def find_at_exact [OF assms(1)] place_def)
  have w: "set (wire_ends s (fst p)) = {q. q \<in> live s \<and> fst q = fst p \<and> is_wire s (fst p)}"
  proof (cases "is_wire s (fst p)")
    case True
    then have "length (conns (comp_of s (fst p))) = 2"
      using assms(2) p(1) by (auto simp: shapes_def comp_shape_def is_wire_def)
    then have "{q. q \<in> live s \<and> fst q = fst p} = {(fst p, 0), (fst p, 1)}"
      using p(1) by (auto simp: mem_live less_2_cases_iff)
    with True show ?thesis by (simp add: wire_ends_def)
  qed (simp add: wire_ends_def)
  show ?thesis using f w assms(3) by (auto simp: touching_def)
qed

lemma walk_step:
  assumes ok: "sch_ok s0" "shapes s0" and w: "walking s0 f l S (p # ps) s" and n: "label_at s p = None"
  shows "walking s0 f l S (rev (find_connections p s) @ wire_ends s (fst p) @ ps) (set_label (Some l) p s)"
proof -
  have r: "relabelled s0 s" and p: "p \<in> live s0" and todo: "set ps \<subseteq> live s0" using w by (auto simp: walking_def)
  have ok': "sch_ok s" "shapes s" using relabelled_ok [OF r ok(1)] relabelled_shapes [OF r ok(1)] ok by auto
  have p': "p \<in> live s" using relabelled_live [OF r ok(1)] p by simp
  then have lab: "label_at (set_label (Some l) p s) q = (if q = p then Some l else label_at s q)" for q
    using ok' by (intro label_set_label) (auto simp: mem_live sch_okD(3))
  have nb: "set (find_connections p s) \<union> set (wire_ends s (fst p)) = {q. (p, q) \<in> touching s0}"
    using neighbours [OF ok' p'] relabelled_touching [OF r ok(1)] by simp
  have fp: "f p = None" using w n p by (auto simp: walking_def)
  obtain r0 where r0: "r0 \<in> S" "same_node s0 r0 p" using w by (auto simp: walking_def)
  have nbr: "\<exists>r \<in> S. same_node s0 r q" if "(p, q) \<in> touching s0" for q
  proof -
    have "same_node s0 p q" using that by (auto simp: same_node_def)
    with r0 show ?thesis by (blast intro: same_node_trans)
  qed
  have lv: "q \<in> live s0" if "(p, q) \<in> touching s0" for q using that by (auto simp: touching_def)
  let ?todo = "rev (find_connections p s) @ wire_ends s (fst p) @ ps"
  have st: "set ?todo = {q. (p, q) \<in> touching s0} \<union> set ps" using nb by auto
  have old: "(\<exists>r \<in> S. same_node s0 r q) \<and> (\<forall>q'. (q, q') \<in> touching s0 \<longrightarrow> label_at s q' \<noteq> None \<or> q' \<in> set (p # ps))"
    if "q \<in> live s0" "f q = None" "label_at s q = Some l" for q
    using w that unfolding walking_def by blast
  show ?thesis
    unfolding walking_def st lab
  proof (intro conjI ballI impI)
    show "relabelled s0 (set_label (Some l) p s)" using r set_label_relabelled by (rule relabelled_trans)
    show "{q. (p, q) \<in> touching s0} \<union> set ps \<subseteq> live s0" using lv todo by blast
  next
    fix q assume q: "q \<in> live s0"
    show "(if q = p then Some l else label_at s q) = f q \<or> f q = None \<and> (if q = p then Some l else label_at s q) = Some l"
      using w q fp by (auto simp: walking_def)
  next
    fix q assume q: "q \<in> live s0" and a: "f q = None \<and> (if q = p then Some l else label_at s q) = Some l"
    show "\<exists>r \<in> S. same_node s0 r q"
      using r0 old [OF q] a by (cases "q = p") auto
  next
    fix q assume q: "q \<in> live s0" and a: "f q = None \<and> (if q = p then Some l else label_at s q) = Some l"
    show "\<forall>q'. (q, q') \<in> touching s0 \<longrightarrow> (if q' = p then Some l else label_at s q') \<noteq> None \<or> q' \<in> {q. (p, q) \<in> touching s0} \<union> set ps"
    proof (cases "q = p")
      case True
      then show ?thesis by blast
    next
      case False
      with old [OF q] a show ?thesis by auto
    qed
  next
    fix q assume "q \<in> {q. (p, q) \<in> touching s0} \<union> set ps"
    then show "\<exists>r \<in> S. same_node s0 r q" using nbr w unfolding walking_def set_simps by blast
  next
    fix r assume "r \<in> S"
    then show "(if r = p then Some l else label_at s r) \<noteq> None \<or> r \<in> {q. (p, q) \<in> touching s0} \<union> set ps"
      using w by (auto simp: walking_def)
  qed
qed

lemma walk_skip:
  assumes "walking s0 f l S (p # ps) s" "label_at s p \<noteq> None"
  shows "walking s0 f l S ps (if b then s\<lparr>alerts := n\<rparr> else s)"
proof -
  have "walking s0 f l S ps s"
    unfolding walking_def
  proof (intro conjI ballI impI)
    note w = assms(1) [unfolded walking_def set_simps]
    show "relabelled s0 s" "set ps \<subseteq> live s0" using w by auto
    show "label_at s q = f q \<or> f q = None \<and> label_at s q = Some l" if "q \<in> live s0" for q using w that by blast
    show "\<exists>r \<in> S. same_node s0 r q" if "q \<in> live s0" "f q = None \<and> label_at s q = Some l" for q using w that by blast
    show "\<forall>q'. (q, q') \<in> touching s0 \<longrightarrow> label_at s q' \<noteq> None \<or> q' \<in> set ps"
      if "q \<in> live s0" "f q = None \<and> label_at s q = Some l" for q
      using w that assms(2) by blast
    show "\<exists>r \<in> S. same_node s0 r q" if "q \<in> set ps" for q using w that by blast
    show "label_at s r \<noteq> None \<or> r \<in> set ps" if "r \<in> S" for r using w that assms(2) by blast
  qed
  moreover have "label_at (s\<lparr>alerts := n\<rparr>) = label_at s" by (simp add: fun_eq_iff label_at_def cp_of_def comp_of_def)
  ultimately show ?thesis by (simp add: walking_def)
qed

lemma walk_all:
  assumes "sch_ok s0" "shapes s0" "walking s0 f l S todo s"
  shows "walking s0 f l S [] (propagate_label l todo s)"
  using assms(3)
proof (induction l todo s rule: propagate_label.induct)
  case (1 l s)
  then show ?case by simp
next
  case (2 l p ps s)
  have p: "p \<in> live s0" and r: "relabelled s0 s" using "2.prems" by (auto simp: walking_def)
  have "p \<in> live s" using p relabelled_live [OF r assms(1)] by simp
  then have u: "unlabelled s p \<longleftrightarrow> label_at s p = None" by (rule live_unlabelled [OF relabelled_ok [OF r assms(1)]])
  show ?case
  proof (cases "unlabelled s p")
    case True
    have "walking s0 f l S (rev (find_connections p s) @ wire_ends s (fst p) @ ps) (set_label (Some l) p s)"
      by (rule walk_step [OF assms(1,2) "2.prems"]) (use True u in simp)
    from "2.IH"(1) [OF True this] show ?thesis using True by (simp add: propagate_label.simps(2))
  next
    case False
    have "walking s0 f l S ps (if conflict l s p then s\<lparr>alerts := Suc (alerts s)\<rparr> else s)"
      by (rule walk_skip [OF "2.prems"]) (use False u in simp)
    from "2.IH"(2) [OF False this] show ?thesis using False by (simp add: propagate_label.simps(2))
  qed
qed

lemma propagate_labels:
  assumes ok: "sch_ok s" "shapes s" "uniform s" and p0: "p0 \<in> live s" and p: "p \<in> live s"
  shows "label_at (propagate_label l [p0] s) p = (if label_at s p = None \<and> same_node s p0 p then Some l else label_at s p)"
proof -
  let ?s' = "propagate_label l [p0] s"
  let ?f = "label_at s"
  have "walking s ?f l {p0} [p0] s"
    using p0 ok(3) by (auto simp: walking_def uniform_def)
  then have w: "walking s ?f l {p0} [] ?s'" by (rule walk_all [OF ok(1,2)])
  have closed: "label_at ?s' q = Some l" if "same_node s p0 q" "?f p0 = None" for q
    using that(1) unfolding same_node_def
  proof (induction rule: rtrancl_induct)
    case base
    show ?case using w that(2) p0 by (auto simp: walking_def)
  next
    case (step q r)
    have "same_node s p0 q" "same_node s p0 r"
      using step.hyps by (auto simp: same_node_def)
    then have f: "?f q = None" "?f r = None" using uniform_node [OF ok(3)] that(2) by metis+
    have "q \<in> live s" "r \<in> live s" using step.hyps(2) by (auto simp: touching_def)
    have "label_at ?s' r \<noteq> None"
      using w \<open>q \<in> live s\<close> f(1) step.IH step.hyps(2) unfolding walking_def by (metis empty_iff empty_set)
    with w \<open>r \<in> live s\<close> f(2) show ?case unfolding walking_def by metis
  qed
  show ?thesis
  proof (cases "?f p = None \<and> same_node s p0 p")
    case True
    then show ?thesis using closed [of p] uniform_node [OF ok(3), of p0 p] by auto
  next
    case False
    with w p show ?thesis unfolding walking_def by auto
  qed
qed

lemma propagate_uniform:
  assumes "sch_ok s" "shapes s" "uniform s" "p0 \<in> live s"
  shows "uniform (propagate_label l [p0] s)"
proof -
  let ?s' = "propagate_label l [p0] s"
  have t: "touching ?s' = touching s" by (rule relabelled_touching [OF propagate_relabelled assms(1)])
  have "label_at ?s' p = label_at ?s' q" if "(p, q) \<in> touching s" for p q
  proof -
    have l: "p \<in> live s" "q \<in> live s" using that by (auto simp: touching_def)
    have n: "same_node s p q" using that by (auto simp: same_node_def)
    then have "same_node s p0 p = same_node s p0 q" by (metis same_node_sym same_node_trans)
    then show ?thesis using propagate_labels [OF assms l(1)] propagate_labels [OF assms l(2)] uniform_node [OF assms(3) n]
      by simp
  qed
  with t show ?thesis by (auto simp: uniform_def)
qed

section \<open>Names\<close>

text \<open>A ground names its node 0, a label component by its text.\<close>

definition named :: "sch \<Rightarrow> nat \<times> nat \<Rightarrow> string \<Rightarrow> bool" where
  "named s p t \<longleftrightarrow> (\<exists>r \<in> live s. same_node s p r \<and> default_label (comp_of s (fst r)) = Some t)"

definition joined :: "sch \<Rightarrow> nat \<times> nat \<Rightarrow> nat \<times> nat \<Rightarrow> bool" where
  "joined s p q \<longleftrightarrow> same_node s p q \<or> (\<exists>t. named s p t \<and> named s q t)"

text \<open>No node has two names, and no name is empty or a number the editor gives itself.\<close>

definition clear_names :: "sch \<Rightarrow> bool" where
  "clear_names s \<longleftrightarrow> (\<forall>p \<in> live s. \<forall>t u. named s p t \<longrightarrow> named s p u \<longrightarrow> t = u) \<and>
     (\<forall>p \<in> live s. \<forall>t. default_label (comp_of s (fst p)) = Some t \<longrightarrow> t \<noteq> [] \<and> (\<forall>n. t \<noteq> nat_text (Suc n)))"

definition part_point :: "sch \<Rightarrow> nat \<times> nat \<Rightarrow> bool" where
  "part_point s p \<longleftrightarrow> p \<in> live s \<and> \<not> is_wire s (fst p)"

lemma nat_text_inject [simp]: "nat_text m = nat_text n \<longleftrightarrow> m = n"
proof
  assume "nat_text m = nat_text n"
  then have "Some (int m) = Some (int n)" by (metis parse_int_text_nat)
  then show "m = n" by simp
qed simp

lemma nat_text_nonempty [simp]: "nat_text n \<noteq> []"
  using nat_text_head [of n] by auto

lemma named_node: "named s p t \<Longrightarrow> same_node s p q \<Longrightarrow> named s q t"
  unfolding named_def by (meson same_node_sym same_node_trans)

lemma relabelled_named:
  assumes "relabelled s s'" "sch_ok s"
  shows "named s' = named s"
proof -
  have "default_label (comp_of s' (fst r)) = default_label (comp_of s (fst r))" if "r \<in> live s" for r
    using strip_same(1,2) [OF strip_out [OF assms, of "fst r"]] that by (simp add: default_label_def mem_live)
  then show ?thesis
    unfolding named_def relabelled_live [OF assms] relabelled_node [OF assms] by (intro ext bex_cong refl) simp
qed

text \<open>After the default labels: a label is a name of the node.\<close>

definition names_given :: "sch \<Rightarrow> nat set \<Rightarrow> bool" where
  "names_given s I \<longleftrightarrow> uniform s \<and> (\<forall>p \<in> live s. \<forall>t. label_at s p = Some t \<longrightarrow> named s p t) \<and>
     (\<forall>i \<in> I. default_label (comp_of s i) \<noteq> None \<longrightarrow> label_at s (i, 0) \<noteq> None)"

lemma default_point:
  assumes "shapes s" "i \<in> set (components s)" "default_label (comp_of s i) = Some t"
  shows "(i, 0) \<in> live s" "named s (i, 0) t"
proof -
  have "ty (comp_of s i) = ''g'' \<or> ty (comp_of s i) = ''L''" using assms(3) by (auto simp: default_label_def split: if_splits)
  then have "length (conns (comp_of s i)) = 1" using assms(1,2) by (auto simp: shapes_def comp_shape_def)
  then show l: "(i, 0) \<in> live s" using assms(2) by (simp add: mem_live)
  show "named s (i, 0) t" unfolding named_def by (rule bexI [OF _ l]) (simp add: assms(3))
qed

lemma names_step:
  assumes ok: "sch_ok s" "shapes s" and g: "names_given s I" and i: "i \<in> set (components s)" and I: "I \<subseteq> set (components s)"
  shows "names_given (add_default_labels i s) (insert i I)"
proof (cases "default_label (comp_of s i)")
  case None
  with g show ?thesis by (simp add: add_default_labels_def names_given_def)
next
  case (Some t)
  note d = default_point [OF ok(2) i Some]
  let ?s' = "propagate_label t [(i, 0)] s"
  have u: "uniform s" using g by (simp add: names_given_def)
  note R = propagate_relabelled [of s t "[(i, 0)]"]
  note L = propagate_labels [OF ok u d(1), of _ t]
  have "named s p m" if "p \<in> live s" "label_at ?s' p = Some m" for p m
  proof (cases "label_at s p = None \<and> same_node s (i, 0) p")
    case True
    then show ?thesis using that L [OF that(1)] named_node [OF d(2)] by simp
  next
    case False
    then show ?thesis using that L [OF that(1)] g by (auto simp: names_given_def)
  qed
  moreover have "label_at ?s' (j, 0) \<noteq> None" if j: "j \<in> insert i I" and dj: "default_label (comp_of s j) \<noteq> None" for j
  proof -
    have "j \<in> set (components s)" using j i I by auto
    with dj have "(j, 0) \<in> live s" using default_point(1) [OF ok(2)] by blast
    then show ?thesis using L [of "(j, 0)"] g that by (auto simp: names_given_def)
  qed
  moreover have "default_label (comp_of ?s' j) = default_label (comp_of s j)" if "j \<in> set (components s)" for j
    using strip_same(1,2) [OF strip_out [OF R ok(1) that]] by (simp add: default_label_def)
  moreover have "uniform ?s'" by (rule propagate_uniform [OF ok u d(1)])
  ultimately show ?thesis
    using Some i I relabelled_live [OF R ok(1)] relabelled_named [OF R ok(1)]
    by (auto simp: add_default_labels_def names_given_def subset_iff)
qed

lemma names_all:
  assumes "sch_ok s" "shapes s" "names_given s I" "set xs \<subseteq> set (components s)" "I \<subseteq> set (components s)"
  shows "names_given (fold add_default_labels xs s) (I \<union> set xs)"
  using assms
proof (induction xs arbitrary: s I)
  case Nil
  then show ?case by simp
next
  case (Cons i xs)
  let ?s = "add_default_labels i s"
  have i: "i \<in> set (components s)" using Cons.prems(4) by simp
  have r: "relabelled s ?s" by (rule label_step_relabelled)
  have c: "components ?s = components s" using r by (simp add: relabelled_def)
  have "names_given (fold add_default_labels xs ?s) (insert i I \<union> set xs)"
    by (rule Cons.IH [OF relabelled_ok [OF r Cons.prems(1)] _ names_step [OF Cons.prems(1,2,3) i Cons.prems(5)]])
      (use Cons.prems c relabelled_shapes [OF r Cons.prems(1)] in auto)
  then show ?case by simp
qed

text \<open>While numbers are given: \<open>n\<close> is the last number, \<open>Q\<close> are points that have their label.\<close>

definition numbered :: "sch \<Rightarrow> (nat \<times> nat) set \<Rightarrow> bool" where
  "numbered s Q \<longleftrightarrow> uniform s \<and>
     (\<forall>p \<in> live s. \<forall>t. label_at s p = Some t \<longrightarrow> named s p t \<or>
        (\<exists>m < next_label s. t = nat_text (Suc m) \<and> (\<forall>q \<in> live s. label_at s q = Some t \<longrightarrow> same_node s p q) \<and> (\<forall>u. \<not> named s p u))) \<and>
     (\<forall>p \<in> live s. \<forall>t. named s p t \<longrightarrow> label_at s p \<noteq> None) \<and> (\<forall>p \<in> Q. label_at s p \<noteq> None)"

lemma label_point_step:
  assumes ok: "sch_ok s" "shapes s" "clear_names s" and g: "numbered s Q" and p: "p \<in> live s" and Q: "Q \<subseteq> live s"
  shows "numbered (label_point p s) (insert p Q)"
proof (cases "label_at s p")
  case (Some t)
  have "t \<noteq> []"
  proof
    assume "t = []"
    with Some p g have "named s p []" by (auto simp: numbered_def) (metis nat_text_nonempty)
    with ok(3) show False by (auto simp: clear_names_def named_def)
  qed
  then show ?thesis using g Some by (auto simp: label_point_def numbered_def)
next
  case None
  let ?l = "nat_text (Suc (next_label s))"
  let ?s1 = "s\<lparr>next_label := Suc (next_label s)\<rparr>"
  let ?s' = "propagate_label ?l [p] ?s1"
  have eq: "label_point p s = ?s'" using None by (simp add: label_point_def get_next_label_def)
  have R1: "relabelled s ?s1" by simp
  have R: "relabelled s ?s'" using propagate_relabelled [of ?s1 ?l "[p]"] by (simp add: relabelled_def)
  have ok1: "sch_ok ?s1" "shapes ?s1" using relabelled_ok [OF R1 ok(1)] relabelled_shapes [OF R1 ok(1)] ok(2) by auto
  have l1: "label_at ?s1 = label_at s" by (simp add: fun_eq_iff label_at_def cp_of_def comp_of_def)
  have u1: "uniform ?s1" using g relabelled_touching [OF R1 ok(1)] by (simp add: uniform_def numbered_def l1)
  have p1: "p \<in> live ?s1" using p relabelled_live [OF R1 ok(1)] by simp
  have L: "label_at ?s' q = (if label_at s q = None \<and> same_node s p q then Some ?l else label_at s q)" if "q \<in> live s" for q
    using propagate_labels [OF ok1 u1 p1, of q ?l] that relabelled_live [OF R1 ok(1)] relabelled_node [OF R1 ok(1)]
    by (simp add: l1)
  have n: "next_label ?s' = Suc (next_label s)"
  proof -
    have "next_label (propagate_label l ps t) = next_label t" for l ps t
      by (induction l ps t rule: propagate_label.induct) (auto simp: propagate_label.simps(2))
    then show ?thesis by simp
  qed
  have u': "uniform ?s'" by (rule propagate_uniform [OF ok1 u1 p1])
  have fresh: "label_at s q \<noteq> Some ?l" if "q \<in> live s" for q
  proof
    assume "label_at s q = Some ?l"
    then have "named s q ?l \<or> (\<exists>m < next_label s. ?l = nat_text (Suc m))" using g that unfolding numbered_def by blast
    with ok(3) show False by (auto simp: clear_names_def named_def)
  qed
  have unnamed: "\<not> named s q t" if "q \<in> live s" "label_at s q = None" for q t
    using g that unfolding numbered_def by blast
  have main: "named s q t \<or> (\<exists>m < Suc (next_label s). t = nat_text (Suc m) \<and>
      (\<forall>r \<in> live s. label_at ?s' r = Some t \<longrightarrow> same_node s q r) \<and> (\<forall>u. \<not> named s q u))"
    if q: "q \<in> live s" and t: "label_at ?s' q = Some t" for q t
  proof (cases "label_at s q = None \<and> same_node s p q")
    case True
    then have "t = ?l" using t L [OF q] by simp
    moreover have "same_node s q r" if "r \<in> live s" "label_at ?s' r = Some ?l" for r
    proof -
      have "same_node s p r" using L [OF that(1)] that(2) fresh [OF that(1)] by (auto split: if_splits)
      with True show ?thesis by (meson same_node_sym same_node_trans)
    qed
    ultimately show ?thesis using unnamed [OF q] True by blast
  next
    case False
    then have tq: "label_at s q = Some t" using t L [OF q] by auto
    then consider "named s q t" | m where "m < next_label s" "t = nat_text (Suc m)"
        "\<forall>r \<in> live s. label_at s r = Some t \<longrightarrow> same_node s q r" "\<forall>u. \<not> named s q u"
      using g q unfolding numbered_def by blast
    then show ?thesis
    proof cases
      case 2
      have "same_node s q r" if "r \<in> live s" "label_at ?s' r = Some t" for r
        using 2(1,2,3) that L [OF that(1)] by (auto split: if_splits)
      with 2 show ?thesis by (metis less_SucI)
    qed simp
  qed
  have "\<forall>q \<in> live s. \<forall>t. named s q t \<longrightarrow> label_at ?s' q \<noteq> None"
    using g L unfolding numbered_def by (metis option.distinct(1))
  moreover have "\<forall>q \<in> insert p Q. label_at ?s' q \<noteq> None"
  proof
    fix q assume "q \<in> insert p Q"
    then show "label_at ?s' q \<noteq> None" using L [of q] g p Q None by (auto simp: numbered_def)
  qed
  ultimately show ?thesis
    unfolding numbered_def eq relabelled_live [OF R ok(1)] relabelled_node [OF R ok(1)] relabelled_named [OF R ok(1)] n
    using u' main by blast
qed

lemma relabelled_clear: "relabelled s s' \<Longrightarrow> sch_ok s \<Longrightarrow> clear_names s' = clear_names s"
proof -
  assume r: "relabelled s s'" and ok: "sch_ok s"
  have "default_label (comp_of s' (fst p)) = default_label (comp_of s (fst p))" if "p \<in> live s" for p
    using strip_same(1,2) [OF strip_out [OF r ok, of "fst p"]] that by (simp add: default_label_def mem_live)
  then show ?thesis
    unfolding clear_names_def relabelled_live [OF r ok] relabelled_named [OF r ok] by (auto simp: Ball_def)
qed

lemma label_points_fold:
  assumes "sch_ok s" "shapes s" "clear_names s" "numbered s Q" "set ps \<subseteq> live s" "Q \<subseteq> live s"
  shows "numbered (fold label_point ps s) (Q \<union> set ps)"
  using assms
proof (induction ps arbitrary: s Q)
  case Nil
  then show ?case by simp
next
  case (Cons p ps)
  let ?s = "label_point p s"
  have r: "relabelled s ?s" by (rule label_step_relabelled)
  have p: "p \<in> live s" using Cons.prems(5) by simp
  have "numbered (fold label_point ps ?s) (insert p Q \<union> set ps)"
    by (rule Cons.IH [OF relabelled_ok [OF r Cons.prems(1)] _ _ label_point_step [OF Cons.prems(1-4) p Cons.prems(6)]])
      (use Cons.prems relabelled_shapes [OF r Cons.prems(1)] relabelled_clear [OF r Cons.prems(1)]
         relabelled_live [OF r Cons.prems(1)] in auto)
  then show ?case by simp
qed

text \<open>The points of the parts among the components \<open>xs\<close>.\<close>

definition parts_of :: "sch \<Rightarrow> nat set \<Rightarrow> (nat \<times> nat) set" where
  "parts_of s I = {p \<in> live s. fst p \<in> I \<and> \<not> is_wire s (fst p)}"

lemma label_connections_step:
  assumes "sch_ok s" "shapes s" "clear_names s" "numbered s (parts_of s I)" "i \<in> set (components s)"
  shows "numbered (label_connections i s) (parts_of s (insert i I))"
proof (cases "is_wire s i")
  case True
  then have "parts_of s (insert i I) = parts_of s I" by (auto simp: parts_of_def)
  with True assms(4) show ?thesis by (simp add: label_connections_def)
next
  case False
  let ?ps = "rev (map (Pair i) [0 ..< length (conns (comp_of s i))])"
  have "set ?ps = cps_of s i" by (auto simp: cps_of_def)
  moreover have "cps_of s i \<subseteq> live s" using assms(5) by (auto simp: live_def)
  moreover have "parts_of s (insert i I) = parts_of s I \<union> cps_of s i"
    using False assms(5) by (auto simp: parts_of_def mem_live cps_of_def)
  moreover have "parts_of s I \<subseteq> live s" by (auto simp: parts_of_def)
  ultimately show ?thesis
    using label_points_fold [OF assms(1-4), of ?ps] False by (simp add: label_connections_def)
qed

lemma relabelled_parts: "relabelled s s' \<Longrightarrow> sch_ok s \<Longrightarrow> parts_of s' I = parts_of s I"
  by (auto simp: parts_of_def relabelled_live relabelled_wire mem_live)

lemma label_connections_fold:
  assumes "sch_ok s" "shapes s" "clear_names s" "numbered s (parts_of s I)" "set xs \<subseteq> set (components s)"
  shows "numbered (fold label_connections xs s) (parts_of s (I \<union> set xs))"
  using assms
proof (induction xs arbitrary: s I)
  case Nil
  then show ?case by simp
next
  case (Cons i xs)
  let ?s = "label_connections i s"
  have r: "relabelled s ?s" by (rule label_step_relabelled)
  have c: "components ?s = components s" using r by (simp add: relabelled_def)
  have i: "i \<in> set (components s)" using Cons.prems(5) by simp
  have "numbered ?s (parts_of ?s (insert i I))"
    using label_connections_step [OF Cons.prems(1-4) i] relabelled_parts [OF r Cons.prems(1)] by simp
  then have "numbered (fold label_connections xs ?s) (parts_of ?s (insert i I \<union> set xs))"
    by (intro Cons.IH [OF relabelled_ok [OF r Cons.prems(1)]])
      (use Cons.prems c relabelled_shapes [OF r Cons.prems(1)] relabelled_clear [OF r Cons.prems(1)] in auto)
  then show ?case using relabelled_parts [OF r Cons.prems(1)] by simp
qed

lemma cleared:
  assumes "sch_ok s" "set xs \<subseteq> set (components s)" "p \<in> live s" "fst p \<in> set xs \<or> label_at s p = None"
  shows "label_at (fold clear_labels xs s) p = None"
  using assms
proof (induction xs arbitrary: s)
  case Nil
  then show ?case by simp
next
  case (Cons i xs)
  have clr: "label_at (fold (set_label None) ps t) q = (if q \<in> set ps then None else label_at t q)"
    if "set ps \<subseteq> live t" "sch_ok t" for ps t q
    using that
  proof (induction ps arbitrary: t)
    case Nil
    then show ?case by simp
  next
    case (Cons r ps)
    have R: "relabelled t (set_label None r t)" by (rule set_label_relabelled)
    have r: "fst r < length (heap t)" "snd r < length (conns (comp_of t (fst r)))"
      using Cons.prems by (auto simp: mem_live sch_okD(3))
    show ?case
      using Cons.IH [of "set_label None r t"] Cons.prems relabelled_live [OF R Cons.prems(2)] relabelled_ok [OF R Cons.prems(2)]
      by (auto simp: label_set_label [OF r])
  qed
  let ?s = "clear_labels i s"
  have r: "relabelled s ?s" by (rule label_step_relabelled)
  have i: "i \<in> set (components s)" using Cons.prems(2) by simp
  have "label_at ?s p = (if p \<in> cps_of s i then None else label_at s p)"
    unfolding clear_labels_def using i by (subst clr [OF _ Cons.prems(1)]) (auto simp: cps_of_def mem_live)
  moreover have "p \<in> cps_of s i" if "fst p = i" using that Cons.prems(3) by (cases p) (auto simp: cps_of_def mem_live)
  ultimately have "fst p \<in> set xs \<or> label_at ?s p = None" using Cons.prems(4) by auto
  then show ?case
    using Cons.IH [OF relabelled_ok [OF r Cons.prems(1)]] Cons.prems relabelled_live [OF r Cons.prems(1)] r
    by (simp add: relabelled_def)
qed

lemma label_numbered:
  assumes "sch_ok s" "shapes s" "clear_names s"
  shows "numbered (label_connection_points s) (parts_of s (set (components s)))"
proof -
  let ?xs = "rev (components s)"
  let ?s1 = "fold clear_labels ?xs s"
  let ?s2 = "fold add_default_labels ?xs ?s1"
  let ?s3 = "?s2\<lparr>next_label := 0\<rparr>"
  have R1: "relabelled s ?s1" by (rule fold_relabelled) (rule label_step_relabelled)
  have ok1: "sch_ok ?s1" "shapes ?s1" "components ?s1 = components s"
    using relabelled_ok [OF R1 assms(1)] relabelled_shapes [OF R1 assms(1)] assms(2) R1 by (auto simp: relabelled_def)
  have l1: "label_at ?s1 p = None" if "p \<in> live s" for p
    by (rule cleared [OF assms(1) _ that]) (use that in \<open>auto simp: mem_live\<close>)
  have "names_given ?s1 {}"
    using l1 relabelled_live [OF R1 assms(1)] relabelled_touching [OF R1 assms(1)]
    by (auto simp: names_given_def uniform_def touching_def)
  then have g: "names_given ?s2 (set (components s))"
    using names_all [OF ok1(1,2), of "{}" ?xs] ok1(3) by simp
  have R2: "relabelled ?s1 ?s2" by (rule fold_relabelled) (rule label_step_relabelled)
  have ok2: "sch_ok ?s2" "shapes ?s2" "components ?s2 = components s"
    using relabelled_ok [OF R2 ok1(1)] relabelled_shapes [OF R2 ok1(1)] ok1 R2 by (auto simp: relabelled_def)
  have named_lab: "label_at ?s2 p \<noteq> None" if p: "p \<in> live ?s2" and n: "named ?s2 p t" for p t
  proof -
    obtain r where r: "r \<in> live ?s2" "same_node ?s2 p r" "default_label (comp_of ?s2 (fst r)) = Some t"
      using n by (auto simp: named_def)
    have "ty (comp_of ?s2 (fst r)) = ''g'' \<or> ty (comp_of ?s2 (fst r)) = ''L''"
      using r(3) by (auto simp: default_label_def split: if_splits)
    then have "length (conns (comp_of ?s2 (fst r))) = 1" using ok2(2) r(1) by (auto simp: shapes_def comp_shape_def mem_live)
    then have "r = (fst r, 0)" using r(1) by (cases r) (auto simp: mem_live)
    moreover have "fst r \<in> set (components s)" using r(1) ok2(3) by (auto simp: mem_live)
    ultimately have "label_at ?s2 r \<noteq> None" using g r(3) unfolding names_given_def by (metis option.distinct(1))
    then show ?thesis using g r(2) uniform_node by (auto simp: names_given_def)
  qed
  have R3: "relabelled ?s2 ?s3" by simp
  have l3: "label_at ?s3 = label_at ?s2" by (simp add: fun_eq_iff label_at_def cp_of_def comp_of_def)
  have ok3: "sch_ok ?s3" "shapes ?s3" using relabelled_ok [OF R3 ok2(1)] relabelled_shapes [OF R3 ok2(1)] ok2(2) by auto
  have R03: "relabelled s ?s3" using R1 R2 by (simp add: relabelled_def)
  have c3: "clear_names ?s3" using relabelled_clear [OF R03 assms(1)] assms(3) by simp
  have e: "parts_of ?s3 {} = {}" by (simp add: parts_of_def)
  have "numbered ?s3 (parts_of ?s3 {})"
  proof -
    have "uniform ?s3" using g relabelled_touching [OF R3 ok2(1)] by (simp add: names_given_def uniform_def l3)
    moreover have "\<forall>p \<in> live ?s2. \<forall>t. label_at ?s2 p = Some t \<longrightarrow> named ?s2 p t" using g by (simp add: names_given_def)
    ultimately show ?thesis
      unfolding e numbered_def l3 relabelled_live [OF R3 ok2(1)] relabelled_named [OF R3 ok2(1)]
      using named_lab by blast
  qed
  from label_connections_fold [OF ok3 c3 this, of ?xs] ok2(3)
  have "numbered (fold label_connections ?xs ?s3) (parts_of ?s3 (set (components s)))" by simp
  then show ?thesis using relabelled_parts [OF R03 assms(1)] by (simp add: label_connection_points_def Let_def)
qed

lemma labels_spec:
  assumes "sch_ok s" "shapes s" "clear_names s" "part_point s p" "part_point s q"
  shows "label_at (label_connection_points s) p \<noteq> None \<and>
    (label_at (label_connection_points s) p = label_at (label_connection_points s) q \<longleftrightarrow> joined s p q)"
proof -
  let ?s = "label_connection_points s"
  have R: "relabelled s ?s" by (rule label_relabelled)
  note same = relabelled_live [OF R assms(1)] relabelled_node [OF R assms(1)] relabelled_named [OF R assms(1)]
  have N: "numbered ?s (parts_of s (set (components s)))" by (rule label_numbered [OF assms(1-3)])
  have lv: "p \<in> live s" "q \<in> live s" using assms(4,5) by (auto simp: part_point_def)
  have lab: "label_at ?s x \<noteq> None" if "part_point s x" for x
  proof -
    have "x \<in> parts_of s (set (components s))" using that by (auto simp: part_point_def parts_of_def mem_live)
    then show ?thesis using N by (simp add: numbered_def)
  qed
  have what: "named s x t \<or> (\<exists>m. t = nat_text (Suc m)) \<and> (\<forall>y \<in> live s. label_at ?s y = Some t \<longrightarrow> same_node s x y) \<and> (\<forall>u. \<not> named s x u)"
    if "x \<in> live s" "label_at ?s x = Some t" for x t
    using N that unfolding numbered_def same by blast
  have one: "t = u" if "x \<in> live s" "named s x t" "named s x u" for x t u
    using assms(3) that by (auto simp: clear_names_def)
  have name: "label_at ?s x = Some t" if x: "x \<in> live s" "named s x t" "label_at ?s x \<noteq> None" for x t
  proof -
    obtain u where u: "label_at ?s x = Some u" using x(3) by blast
    then have "named s x u" using what [OF x(1) u] x(2) by blast
    with u show ?thesis using one [OF x(1,2)] by simp
  qed
  have "joined s p q" if eq: "label_at ?s p = label_at ?s q"
  proof -
    obtain t where t: "label_at ?s p = Some t" using lab [OF assms(4)] by blast
    then have t': "label_at ?s q = Some t" using eq by simp
    show ?thesis
    proof (cases "named s p t \<and> named s q t")
      case True
      then show ?thesis by (auto simp: joined_def)
    next
      case False
      then have "same_node s p q \<or> same_node s q p"
        using what [OF lv(1) t] what [OF lv(2) t'] t t' lv by blast
      then show ?thesis unfolding joined_def using same_node_sym by blast
    qed
  qed
  moreover have "label_at ?s p = label_at ?s q" if "joined s p q"
    using that unfolding joined_def
  proof
    assume "same_node s p q"
    then have "same_node ?s p q" by (simp add: same)
    with N show ?thesis by (simp add: numbered_def uniform_node)
  next
    assume "\<exists>t. named s p t \<and> named s q t"
    then obtain t where "named s p t" "named s q t" by blast
    then show ?thesis using name [OF lv(1) _ lab [OF assms(4)]] name [OF lv(2) _ lab [OF assms(5)]] by simp
  qed
  ultimately show ?thesis using lab [OF assms(4)] by blast
qed

lemma label_nonempty:
  assumes "sch_ok s" "shapes s" "clear_names s" "p \<in> live s" "label_at (label_connection_points s) p = Some t"
  shows "t \<noteq> []"
proof
  assume t: "t = []"
  let ?s = "label_connection_points s"
  have R: "relabelled s ?s" by (rule label_relabelled)
  have "named ?s p t \<or> (\<exists>m. t = nat_text (Suc m))"
    using label_numbered [OF assms(1-3)] assms(4,5) unfolding numbered_def relabelled_live [OF R assms(1)] by blast
  then have "named s p []" unfolding t relabelled_named [OF R assms(1)] by (metis nat_text_nonempty)
  then show False using assms(3) by (auto simp: clear_names_def named_def)
qed

text \<open>C5. Labels are electrical nodes. When no node of the diagram has two names and no name looks like a
  number the editor gives, \<open>label_connection_points\<close> gives every connection point of a part a label, and
  two of them get the same label exactly when they are joined: by wires and coinciding points, or by
  carrying the same name.\<close>

theorem labels_are_nodes:
  assumes "sch_ok s" "shapes s" "clear_names s" "part_point s p" "part_point s q"
  shows "label_at (label_connection_points s) p \<noteq> None \<and>
    (label_at (label_connection_points s) p = label_at (label_connection_points s) q \<longleftrightarrow> joined s p q)"
  using assms by (rule labels_spec)

section \<open>Examples\<close>

text \<open>A grounded resistor, a wire from its other end, and a second resistor at the end of the wire.\<close>

definition demo_diagram :: sch where
  "demo_diagram = fold add_new [make_Ground 0 0 0, make_Resistor 0 0 0 None None, make_Wire 0 48 48 48,
     make_Resistor 48 48 0 None None] new_sch"

lemma demo_diagram_ok: "sch_ok demo_diagram"
  unfolding demo_diagram_def by (rule fold_add_new_ok) (auto simp: new_sch_ok)

text \<open>What the example needs to know of the diagram, computed at once.\<close>

definition summary :: "sch \<Rightarrow> nat list \<times> (bool \<times> bool \<times> bool \<times> location list) list" where
  "summary s = (components s, map (\<lambda>i. let c = comp_of s i in
     (is_wire s i, comp_shape c, default_label c = None \<or> default_label c = Some ''0'', map cp_at (conns c))) (components s))"

lemma demo_summary:
  "summary demo_diagram = ([0, 1, 2, 3], [(False, True, True, [(0, 0)]), (False, True, True, [(0, 0), (0, 48)]),
     (True, True, True, [(0, 48), (48, 48)]), (False, True, True, [(48, 48), (48, 96)])])"
  by code_simp

lemma demo_components: "components demo_diagram = [0, 1, 2, 3]"
  using demo_summary by (simp add: summary_def)

lemma demo_each:
  "i \<in> set (components demo_diagram) \<Longrightarrow> comp_shape (comp_of demo_diagram i) \<and> default_label (comp_of demo_diagram i) \<in> {None, Some ''0''}"
  using demo_summary by (auto simp: summary_def Let_def)

lemma demo_shapes: "shapes demo_diagram"
  by (simp add: shapes_def demo_each)

lemma demo_clear: "clear_names demo_diagram"
proof -
  have d: "t = ''0''" if "p \<in> live demo_diagram" "default_label (comp_of demo_diagram (fst p)) = Some t" for p t
    using demo_each [of "fst p"] that by (auto simp: mem_live)
  have z: "nat_text 0 = ''0''" by code_simp
  have "''0'' \<noteq> nat_text (Suc n)" for n unfolding z [symmetric] by simp
  then have "t \<noteq> [] \<and> (\<forall>n. t \<noteq> nat_text (Suc n))"
      if "p \<in> live demo_diagram" "default_label (comp_of demo_diagram (fst p)) = Some t" for p t
    using d [OF that] by simp
  moreover have "t = u" if "named demo_diagram p t" "named demo_diagram p u" for p t u
    using that d unfolding named_def by blast
  ultimately show ?thesis unfolding clear_names_def by blast
qed

lemma demo_conns:
  "map cp_at (conns (comp_of demo_diagram 1)) = [(0, 0), (0, 48)]" "\<not> is_wire demo_diagram 1"
  "map cp_at (conns (comp_of demo_diagram 2)) = [(0, 48), (48, 48)]" "is_wire demo_diagram 2"
  "map cp_at (conns (comp_of demo_diagram 3)) = [(48, 48), (48, 96)]" "\<not> is_wire demo_diagram 3"
  using demo_summary by (auto simp: summary_def Let_def demo_components)

lemma demo_lengths:
  "length (conns (comp_of demo_diagram 1)) = 2" "length (conns (comp_of demo_diagram 2)) = 2"
  "length (conns (comp_of demo_diagram 3)) = 2"
  using arg_cong [OF demo_conns(1), of length] arg_cong [OF demo_conns(3), of length] arg_cong [OF demo_conns(5), of length]
  by simp_all

lemma demo_joined: "joined demo_diagram (1, 1) (3, 0)"
proof -
  have pl: "place demo_diagram (1, 1) = (0, 48)" "place demo_diagram (2, 0) = (0, 48)"
      "place demo_diagram (2, 1) = (48, 48)" "place demo_diagram (3, 0) = (48, 48)"
    using arg_cong [OF demo_conns(1), of "\<lambda>xs. xs ! 1"] arg_cong [OF demo_conns(3), of "\<lambda>xs. xs ! 0"]
      arg_cong [OF demo_conns(3), of "\<lambda>xs. xs ! 1"] arg_cong [OF demo_conns(5), of "\<lambda>xs. xs ! 0"]
      demo_lengths
    by (simp_all add: place_def cp_of_def)
  have lv: "(1, 1) \<in> live demo_diagram" "(2, 0) \<in> live demo_diagram" "(2, 1) \<in> live demo_diagram"
      "(3, 0) \<in> live demo_diagram"
    using demo_lengths by (simp_all add: mem_live demo_components)
  have "((1, 1), (2, 0)) \<in> touching demo_diagram" "((2, 0), (2, 1)) \<in> touching demo_diagram"
      "((2, 1), (3, 0)) \<in> touching demo_diagram"
    using pl lv demo_conns(4) by (simp_all add: touching_def)
  then show ?thesis unfolding joined_def same_node_def by (meson converse_rtrancl_into_rtrancl rtrancl.rtrancl_refl)
qed

theorem labels_are_nodes_witness:
  "label_at (label_connection_points demo_diagram) (1, 1) \<noteq> None \<and>
   label_at (label_connection_points demo_diagram) (1, 1) = label_at (label_connection_points demo_diagram) (3, 0)"
proof -
  have "part_point demo_diagram (1, 1)" "part_point demo_diagram (3, 0)"
    using demo_lengths demo_conns(2,6) by (simp_all add: part_point_def mem_live demo_components)
  from labels_are_nodes [OF demo_diagram_ok demo_shapes demo_clear this] demo_joined show ?thesis by blast
qed

text \<open>A label that is a number can meet a number the editor gives: here the label 1 and the free end of
  the resistor are two nodes with one name.\<close>

lemma label_number_collides:
  "label_at (label_connection_points (fold add_new [make_Resistor 0 0 0 None None, make_Ground 0 0 0,
      make_Label 96 96 0 (Some ''1'')] new_sch)) (0, 1) = Some ''1'' \<and>
   label_at (label_connection_points (fold add_new [make_Resistor 0 0 0 None None, make_Ground 0 0 0,
      make_Label 96 96 0 (Some ''1'')] new_sch)) (2, 0) = Some ''1''"
  by code_simp

text \<open>A node with a ground and the label a is called a or 0, depending on which was added first; only in
  the first case is it the node of the other label a.\<close>

lemma ground_label_order:
  "label_at (label_connection_points (fold add_new [make_Label 96 96 0 (Some ''a''), make_Ground 0 0 0,
      make_Label 0 0 0 (Some ''a'')] new_sch)) (1, 0) = Some ''a''"
  "label_at (label_connection_points (fold add_new [make_Label 96 96 0 (Some ''a''), make_Label 0 0 0 (Some ''a''),
      make_Ground 0 0 0] new_sch)) (2, 0) = Some ''0''"
  by code_simp+

end
