(* ===== verification/SchNet.thy ===== *)
theory SchNet
  imports SchNodes CktNetlist
begin

text \<open>
  From the diagram to the simulator (\<open>json\<close> and \<open>extract_circuit\<close> in \<open>capa/schematic.js\<close>): the netlist
  of a diagram, and the circuit \<open>load_netlist\<close> builds from it. The nodes of the circuit are the
  electrical nodes of the diagram.
\<close>

section \<open>The netlist\<close>

text \<open>A missing label is the key \<open>undefined\<close>.\<close>

definition cp_json :: "cpoint \<Rightarrow> string" where
  "cp_json q = (case cp_label q of Some l \<Rightarrow> l | None \<Rightarrow> ''undefined'')"

text \<open>A component's entry has its place in the list among the properties, and the property stays. A wire's
  entry has its ends, which the simulator does not read.\<close>

definition set_json :: "nat \<Rightarrow> comp \<Rightarrow> comp" where
  "set_json k c = (if ty c = ''w'' then c else set_prop ''_json_'' (Some (nat_text k)) c)"

definition comp_json :: "nat \<Rightarrow> comp \<Rightarrow> component" where
  "comp_json k c =
     (if ty c = ''w'' then \<lparr>c_type = ''w'', c_props = (\<lambda>_. None), c_conns = []\<rparr>
      else \<lparr>c_type = ty c, c_props = props (set_json k c), c_conns = map cp_json (conns c)\<rparr>)"

definition number_comps :: "sch \<Rightarrow> sch" where
  "number_comps s = fold (\<lambda>(k, i). upd_comp i (set_json k)) (enumerate 0 (components s)) s"

definition view_entry :: component where
  "view_entry = \<lparr>c_type = ''view'', c_props = (\<lambda>_. None), c_conns = []\<rparr>"

definition sch_json :: "sch \<Rightarrow> component list \<times> sch" where
  "sch_json s = (map (\<lambda>(k, i). comp_json k (comp_of s i)) (enumerate 0 (components s)) @ [view_entry], number_comps s)"

text \<open>\<open>None\<close>: loading throws. Without a ground there is no circuit.\<close>

definition extract_circuit :: "sch \<Rightarrow> (circuit option \<times> sch) option" where
  "extract_circuit s =
     (let (netlist, s1) = sch_json (label_connection_points s)
      in map_option (\<lambda>(ok, ckt). (if ok then Some ckt else None, s1)) (load_netlist netlist new_circuit))"

section \<open>Nodes of a loaded netlist\<close>

text \<open>Names keep their number, and two names have different numbers unless they are ground.\<close>

definition names_kept :: "circuit \<Rightarrow> circuit \<Rightarrow> bool" where
  "names_kept c c' \<longleftrightarrow> (\<forall>t i. node_map c t = Some i \<longrightarrow> node_map c' t = Some i) \<and>
     (\<forall>t. node_map c' t = Some gnd_node \<longrightarrow> node_map c t = Some gnd_node)"

definition names_differ :: "circuit \<Rightarrow> bool" where
  "names_differ c \<longleftrightarrow> (\<forall>t u i. node_map c t = Some i \<longrightarrow> node_map c u = Some i \<longrightarrow> i \<noteq> gnd_node \<longrightarrow> t = u) \<and>
     (\<forall>t i. node_map c t = Some i \<longrightarrow> i \<le> node_index c) \<and> - 1 \<le> node_index c"

text \<open>What one step of loading does to the names and to the devices.\<close>

definition grows :: "circuit \<Rightarrow> circuit \<Rightarrow> bool" where
  "grows c c' \<longleftrightarrow> names_differ c' \<and> names_kept c c' \<and> (\<exists>ds. devices c' = devices c @ ds)"

lemma names_kept_refl [simp]: "names_kept c c"
  by (simp add: names_kept_def)

lemma names_kept_trans: "names_kept a b \<Longrightarrow> names_kept b c \<Longrightarrow> names_kept a c"
  unfolding names_kept_def by blast

lemma grows_refl: "names_differ c \<Longrightarrow> grows c c"
  by (simp add: grows_def)

lemma grows_trans: "grows a b \<Longrightarrow> grows b c \<Longrightarrow> grows a c"
  by (auto simp: grows_def intro: names_kept_trans)

lemma grows_name: "grows c c' \<Longrightarrow> node_map c t = Some i \<Longrightarrow> node_map c' t = Some i"
  unfolding grows_def names_kept_def by blast

lemma node_grows:
  assumes "names_differ c" "node nm nt c = (i, c')" "\<And>s. nm = Some s \<Longrightarrow> node_map c s = None"
  shows "grows c c' \<and> (\<forall>s. nm = Some s \<longrightarrow> s \<noteq> [] \<longrightarrow> node_map c' s = Some i)"
proof -
  have i: "i = node_index c + 1" and ix: "node_index c' = node_index c + 1" "devices c' = devices c" and
    m: "node_map c' = (case nm of Some s \<Rightarrow> if s \<noteq> [] then (node_map c)(s \<mapsto> i) else node_map c | None \<Rightarrow> node_map c)"
    using assms(2) by (auto simp: node_def Let_def split: option.splits)
  have old: "j \<le> node_index c" if "node_map c t = Some j" for t j using assms(1) that by (simp add: names_differ_def)
  have g: "- 1 \<le> node_index c" using assms(1) by (simp add: names_differ_def)
  show ?thesis
  proof (cases "\<exists>s. nm = Some s \<and> s \<noteq> []")
    case True
    then obtain s where s: "nm = Some s" "s \<noteq> []" by blast
    then have m': "node_map c' = (node_map c)(s \<mapsto> i)" using m by simp
    have "names_differ c'"
      using assms(1) old i g unfolding names_differ_def m' ix by (auto split: if_splits dest: old)
    moreover have "names_kept c c'"
      using assms(3) [OF s(1)] i g unfolding names_kept_def m' by (auto simp: gnd_node_def)
    ultimately show ?thesis using s ix(2) m' by (simp add: grows_def)
  next
    case False
    then have "node_map c' = node_map c" using m by (auto split: option.splits)
    moreover have "j \<le> node_index c + 1" if "node_map c t = Some j" for t j using old [OF that] by simp
    ultimately show ?thesis using assms(1) False ix g
      by (auto simp: grows_def names_differ_def names_kept_def)
  qed
qed

text \<open>The empty name, which the node table does not take, is not a name of the netlists considered.\<close>

lemma connect_grows:
  assumes "names_differ c" "connect ss js (gnd, c) = (is, gnd', c')" "[] \<notin> set ss"
  shows "grows c c' \<and> (\<exists>ns. is = rev ns @ js \<and> map Some ns = map (node_map c') ss) \<and>
    (\<forall>t. node_map c' t \<noteq> None \<longrightarrow> node_map c t \<noteq> None \<or> t \<in> set ss)"
  using assms
proof (induction ss arbitrary: js gnd c)
  case Nil
  then show ?case by (simp add: grows_refl)
next
  case (Cons s ss)
  show ?case
  proof (cases "node_map c s")
    case None
    obtain i c1 where n: "node (Some s) T_VOLTAGE c = (i, c1)" by fastforce
    have g: "grows c c1" "node_map c1 s = Some i"
      using node_grows [OF Cons.prems(1) n] None Cons.prems(3) by auto
    have only: "node_map c1 = (node_map c)(s \<mapsto> i)"
      using n Cons.prems(3) by (auto simp: node_def Let_def split: if_splits)
    have "connect ss (i # js) (gnd, c1) = (is, gnd', c')" using Cons.prems(2) None n by simp
    moreover have "names_differ c1" "[] \<notin> set ss" using g(1) Cons.prems(3) by (simp_all add: grows_def)
    ultimately obtain ns where ns: "grows c1 c'" "is = rev ns @ i # js" "map Some ns = map (node_map c') ss"
        "\<forall>t. node_map c' t \<noteq> None \<longrightarrow> node_map c1 t \<noteq> None \<or> t \<in> set ss"
      using Cons.IH [of c1 "i # js" gnd] by blast
    have "node_map c' s = Some i" by (rule grows_name [OF ns(1) g(2)])
    then have "is = rev (i # ns) @ js \<and> map Some (i # ns) = map (node_map c') (s # ss)" using ns by simp
    moreover have "\<forall>t. node_map c' t \<noteq> None \<longrightarrow> node_map c t \<noteq> None \<or> t \<in> set (s # ss)"
      using ns(4) by (auto simp: only split: if_splits)
    ultimately show ?thesis using grows_trans [OF g(1) ns(1)] by blast
  next
    case (Some i)
    then have "connect ss (i # js) (gnd \<or> i = gnd_node, c) = (is, gnd', c')" using Cons.prems(2) by simp
    moreover have "[] \<notin> set ss" using Cons.prems(3) by simp
    ultimately obtain ns where ns: "grows c c'" "is = rev ns @ i # js" "map Some ns = map (node_map c') ss"
        "\<forall>t. node_map c' t \<noteq> None \<longrightarrow> node_map c t \<noteq> None \<or> t \<in> set ss"
      using Cons.IH [of c "i # js" "gnd \<or> i = gnd_node"] Cons.prems(1) by blast
    have "node_map c' s = Some i" by (rule grows_name [OF ns(1) Some])
    then have "is = rev (i # ns) @ js \<and> map Some (i # ns) = map (node_map c') (s # ss)" using ns by simp
    with ns(1,4) show ?thesis unfolding set_simps by blast
  qed
qed

lemma add_device_grows: "names_differ c \<Longrightarrow> grows c (add_device d n (c\<lparr>voltage_sources := vs, current_sources := cs\<rparr>))"
  by (auto simp: grows_def names_differ_def add_device_def names_kept_def)

lemma add_device_plain: "names_differ c \<Longrightarrow> grows c (add_device d n c)"
  by (auto simp: grows_def names_differ_def add_device_def names_kept_def)

lemma add_device_v: "names_differ c \<Longrightarrow> grows c (add_device d n (c\<lparr>voltage_sources := vs\<rparr>))"
  by (auto simp: grows_def names_differ_def add_device_def names_kept_def)

lemma add_device_i: "names_differ c \<Longrightarrow> grows c (add_device d n (c\<lparr>current_sources := vs\<rparr>))"
  by (auto simp: grows_def names_differ_def add_device_def names_kept_def)

text \<open>A branch node has no name.\<close>

lemma branch_grows: "names_differ c \<Longrightarrow> node None nt c = (b, c1) \<Longrightarrow> grows c c1 \<and> names_differ c1 \<and> node_map c1 = node_map c"
  using node_grows [of c None nt b c1] by (auto simp: grows_def node_def Let_def)

lemma ckt_v_grows: "names_differ c \<Longrightarrow> ckt_v n1 n2 v name c = Some c' \<Longrightarrow> grows c c' \<and> node_map c' = node_map c"
proof -
  assume d: "names_differ c" and e: "ckt_v n1 n2 v name c = Some c'"
  obtain b c1 where b: "node None T_CURRENT c = (b, c1)" by fastforce
  note g = branch_grows [OF d b]
  show ?thesis
    using e b g add_device_v [of c1] by (auto simp: ckt_v_def add_device_def intro: grows_trans split: option.splits)
qed

lemma ckt_others_grow:
  assumes d: "names_differ c"
  shows "ckt_i n1 n2 v name c = Some c' \<Longrightarrow> grows c c' \<and> node_map c' = node_map c"
    "ckt_r n1 n2 v name c = Some c' \<Longrightarrow> grows c c' \<and> node_map c' = node_map c"
    "grows c (ckt_d n1 n2 area t name c) \<and> node_map (ckt_d n1 n2 area t name c) = node_map c"
    "grows c (ckt_c n1 n2 v name c) \<and> node_map (ckt_c n1 n2 v name c) = node_map c"
    "grows c (ckt_fet isn n1 n2 n3 v name c) \<and> node_map (ckt_fet isn n1 n2 n3 v name c) = node_map c"
    "grows c (ckt_l n1 n2 v name c) \<and> node_map (ckt_l n1 n2 v name c) = node_map c"
    "grows c (ckt_opamp n1 n2 n3 n4 v name c) \<and> node_map (ckt_opamp n1 n2 n3 n4 v name c) = node_map c"
proof -
  obtain b c1 where b: "node None T_CURRENT c = (b, c1)" by fastforce
  note g = branch_grows [OF d b]
  have a: "grows c (add_device x n c1) \<and> node_map (add_device x n c1) = node_map c" for x n
    using g add_device_plain [of c1 x n] grows_trans by (auto simp: add_device_def)
  have p: "grows c (add_device x n c) \<and> node_map (add_device x n c) = node_map c" for x n
    using add_device_plain [OF d] by (simp add: add_device_def)
  show "ckt_i n1 n2 v name c = Some c' \<Longrightarrow> grows c c' \<and> node_map c' = node_map c"
    using add_device_i [OF d] by (auto simp: ckt_i_def add_device_def split: option.splits)
  have r: "grows c c" by (rule grows_refl [OF d])
  show "grows c c' \<and> node_map c' = node_map c"
    if e: "ckt_r n1 n2 v name c = Some c'"
  proof (cases "parse_number v None")
    case None
    then have "c' = c" using e by (simp add: ckt_r_def)
    with r show ?thesis by simp
  next
    case (Some x)
    then show ?thesis using e p ckt_v_grows [OF d] by (auto simp: ckt_r_def split: if_splits)
  qed
  show "grows c (ckt_d n1 n2 area t name c) \<and> node_map (ckt_d n1 n2 area t name c) = node_map c"
    "grows c (ckt_c n1 n2 v name c) \<and> node_map (ckt_c n1 n2 v name c) = node_map c"
    "grows c (ckt_fet isn n1 n2 n3 v name c) \<and> node_map (ckt_fet isn n1 n2 n3 v name c) = node_map c"
    using p by (auto simp: ckt_d_def ckt_c_def ckt_fet_def grows_refl [OF d] split: option.splits)
  show "grows c (ckt_l n1 n2 v name c) \<and> node_map (ckt_l n1 n2 v name c) = node_map c"
    "grows c (ckt_opamp n1 n2 n3 n4 v name c) \<and> node_map (ckt_opamp n1 n2 n3 n4 v name c) = node_map c"
    using a b by (auto simp: ckt_l_def ckt_opamp_def grows_refl [OF d] split: option.splits)
qed

lemma add_component_grows:
  assumes "names_differ c" "add_component x is name c = Some c'"
  shows "grows c c' \<and> node_map c' = node_map c"
  using assms(2) ckt_v_grows [OF assms(1)] ckt_others_grow [OF assms(1)] grows_refl [OF assms(1)]
  unfolding add_component_def Let_def by (auto simp: bind_eq_Some_conv split: if_splits)

definition simulated :: "component \<Rightarrow> bool" where
  "simulated x \<longleftrightarrow> c_type x \<notin> {''view'', ''w'', ''g'', ''s'', ''L''}"

text \<open>Component \<open>x\<close> was loaded from \<open>c\<close> on: its connections are the numbers of their names in the
  final table, and the devices made for it are devices of the circuit.\<close>

definition attached :: "component \<Rightarrow> circuit \<Rightarrow> bool" where
  "attached x ckt \<longleftrightarrow> (\<exists>is name c1 c2 ds. map Some is = map (node_map ckt) (c_conns x) \<and>
     add_component x is name c1 = Some c2 \<and> devices ckt = devices c2 @ ds)"

lemma attached_grows: "attached x c \<Longrightarrow> grows c c' \<Longrightarrow> attached x c'"
proof -
  assume a: "attached x c" and g: "grows c c'"
  then obtain js name c1 c2 ds where x: "map Some js = map (node_map c) (c_conns x)"
      "add_component x js name c1 = Some c2" "devices c = devices c2 @ ds"
    by (auto simp: attached_def)
  have "map Some js = map (node_map c') (c_conns x)"
  proof (rule nth_equalityI)
    show l: "length (map Some js) = length (map (node_map c') (c_conns x))" using arg_cong [OF x(1), of length] by simp
    fix k assume k: "k < length (map Some js)"
    then have "node_map c (c_conns x ! k) = Some (js ! k)" using arg_cong [OF x(1), of "\<lambda>xs. xs ! k"] l by simp
    from grows_name [OF g this] show "map Some js ! k = map (node_map c') (c_conns x) ! k" using k l by simp
  qed
  moreover obtain es where "devices c' = devices c @ es" using g by (auto simp: grows_def)
  ultimately show ?thesis using x(2,3) unfolding attached_def by (metis append.assoc)
qed

lemma load_component_grows:
  assumes "names_differ c" "load_component x (gnd, c) = Some (gnd', c')" "[] \<notin> set (c_conns x)"
  shows "grows c c' \<and> (simulated x \<longrightarrow> attached x c') \<and>
    (\<forall>t. node_map c' t \<noteq> None \<longrightarrow> node_map c t \<noteq> None \<or> simulated x \<and> t \<in> set (c_conns x))"
proof (cases "simulated x")
  case False
  then have "c' = c" using assms(2) by (auto simp: load_component_def simulated_def)
  with False assms(1) show ?thesis by (simp add: grows_refl)
next
  case True
  then obtain name js g1 c1 where n: "connect (rev (c_conns x)) [] (gnd, c) = (js, g1, c1)"
    "add_component x js name c1 = Some c'"
    using assms(2) by (auto simp: load_component_def simulated_def split: option.splits prod.splits)
  have "[] \<notin> set (rev (c_conns x))" using assms(3) by simp
  from connect_grows [OF assms(1) n(1) this] obtain ns where
    ns: "grows c c1" "js = rev ns" "map Some ns = map (node_map c1) (rev (c_conns x))"
      "\<forall>t. node_map c1 t \<noteq> None \<longrightarrow> node_map c t \<noteq> None \<or> t \<in> set (rev (c_conns x))"
    by auto
  have "names_differ c1" using ns(1) by (simp add: grows_def)
  note A = add_component_grows [OF this n(2)]
  have "map Some js = map (node_map c') (c_conns x)"
    using arg_cong [OF ns(3), of rev] ns(2) A by (simp add: rev_map)
  then have "attached x c'" unfolding attached_def using n(2) by (metis append_Nil2)
  with True ns(4) A grows_trans [OF ns(1)] show ?thesis by auto
qed

lemma load_components_grow:
  assumes "names_differ c" "load_components xs (gnd, c) = Some (gnd', c')" "\<forall>x \<in> set xs. [] \<notin> set (c_conns x)"
  shows "grows c c' \<and> (\<forall>x \<in> set xs. simulated x \<longrightarrow> attached x c') \<and>
    (\<forall>t. node_map c' t \<noteq> None \<longrightarrow> node_map c t \<noteq> None \<or> (\<exists>x \<in> set xs. simulated x \<and> t \<in> set (c_conns x)))"
  using assms
proof (induction xs arbitrary: gnd c)
  case Nil
  then show ?case by (simp add: grows_refl)
next
  case (Cons x xs)
  from Cons.prems(2) obtain g1 c1 where c1: "load_component x (gnd, c) = Some (g1, c1)"
    "load_components xs (g1, c1) = Some (gnd', c')" by (auto split: option.splits)
  have e: "[] \<notin> set (c_conns x)" "\<forall>x \<in> set xs. [] \<notin> set (c_conns x)" using Cons.prems(3) by auto
  note L = load_component_grows [OF Cons.prems(1) c1(1) e(1)]
  then have "names_differ c1" by (simp add: grows_def)
  note IH = Cons.IH [OF this c1(2) e(2)]
  have "grows c c'" using L IH grows_trans by blast
  moreover have "simulated x \<longrightarrow> attached x c'" using L IH attached_grows by blast
  ultimately show ?case using L IH unfolding set_simps by blast
qed

text \<open>The names of ground.\<close>

lemma ground_names:
  "node_map (ground_pass xs c) t = (if \<exists>x \<in> set xs. c_type x = ''g'' \<and> c_conns x \<noteq> [] \<and> hd (c_conns x) = t then Some gnd_node else node_map c t)"
proof -
  have "node_map (fold (\<lambda>c ckt. if c_type c = ''g'' \<and> c_conns c \<noteq> [] then ckt\<lparr>node_map := (node_map ckt)(hd (c_conns c) \<mapsto> gnd_node)\<rparr>
      else ckt) ys c) t = (if \<exists>x \<in> set ys. c_type x = ''g'' \<and> c_conns x \<noteq> [] \<and> hd (c_conns x) = t then Some gnd_node else node_map c t)"
    for ys
    by (induction ys arbitrary: c) auto
  from this [of "rev xs"] show ?thesis by (simp only: ground_pass_def set_rev)
qed

lemma ground_pass_index: "node_index (ground_pass xs c) = node_index c"
proof -
  have "node_index (fold (\<lambda>c ckt. if c_type c = ''g'' \<and> c_conns c \<noteq> [] then ckt\<lparr>node_map := (node_map ckt)(hd (c_conns c) \<mapsto> gnd_node)\<rparr>
      else ckt) ys c) = node_index c" for ys
    by (induction ys arbitrary: c) auto
  then show ?thesis by (simp add: ground_pass_def)
qed

definition ground_name :: "component list \<Rightarrow> string \<Rightarrow> bool" where
  "ground_name xs t \<longleftrightarrow> (\<exists>x \<in> set xs. c_type x = ''g'' \<and> c_conns x \<noteq> [] \<and> hd (c_conns x) = t)"

text \<open>What \<open>load_netlist\<close> makes of names: every connection of a simulated component has a node, ground
  names are the ground node, and other names have the same node only if they are the same.\<close>

lemma netlist_nodes:
  assumes "load_netlist xs new_circuit = Some (ok, ckt)" "\<forall>x \<in> set xs. [] \<notin> set (c_conns x)"
  shows "names_differ ckt" "x \<in> set xs \<Longrightarrow> simulated x \<Longrightarrow> attached x ckt"
    "ground_name xs t \<longleftrightarrow> node_map ckt t = Some gnd_node"
proof -
  let ?c = "ground_pass xs new_circuit"
  have only: "i = gnd_node" if "node_map ?c t = Some i" for t i
    using that unfolding ground_names by (simp add: new_circuit_def split: if_splits)
  have ix: "node_index ?c = - 1" unfolding ground_pass_index by (simp add: new_circuit_def)
  have d: "names_differ ?c"
    unfolding names_differ_def ix using only by (metis gnd_node_def order_refl)
  have e: "\<forall>x \<in> set (rev xs). [] \<notin> set (c_conns x)" using assms(2) by simp
  note G = load_components_grow [OF d assms(1) [unfolded load_netlist_def] e]
  have L: "grows ?c ckt" using G by blast
  show "names_differ ckt" using L by (simp add: grows_def)
  show "x \<in> set xs \<Longrightarrow> simulated x \<Longrightarrow> attached x ckt" using G by simp
  have g: "ground_name xs t \<longleftrightarrow> node_map ?c t = Some gnd_node"
    unfolding ground_names ground_name_def by (simp add: new_circuit_def)
  show "ground_name xs t \<longleftrightarrow> node_map ckt t = Some gnd_node"
    unfolding g using L unfolding grows_def names_kept_def by blast
qed

lemma names_equal:
  assumes "names_differ ckt" "node_map ckt t = Some i" "node_map ckt u = Some j"
  shows "i = j \<longleftrightarrow> t = u \<or> i = gnd_node \<and> j = gnd_node"
  using assms unfolding names_differ_def by (metis option.inject)

section \<open>The circuit of a diagram\<close>

text \<open>A terminal is a connection point of a part the simulator knows.\<close>

definition terminal :: "sch \<Rightarrow> nat \<times> nat \<Rightarrow> bool" where
  "terminal s p \<longleftrightarrow> p \<in> live s \<and> ty (comp_of s (fst p)) \<notin> {''view'', ''w'', ''g'', ''s'', ''L''}"

definition grounded :: "sch \<Rightarrow> nat \<times> nat \<Rightarrow> bool" where
  "grounded s p \<longleftrightarrow> (\<exists>r \<in> live s. ty (comp_of s (fst r)) = ''g'' \<and> joined s p r)"

definition terminal_name :: "sch \<Rightarrow> nat \<times> nat \<Rightarrow> string" where
  "terminal_name s p = cp_json (cp_of (label_connection_points s) p)"

text \<open>The entry of a component in the netlist.\<close>

definition netlist_entry :: "sch \<Rightarrow> nat \<Rightarrow> component" where
  "netlist_entry s i = comp_json (length (takeWhile (\<lambda>j. j \<noteq> i) (components s))) (comp_of (label_connection_points s) i)"

definition diagram_netlist :: "sch \<Rightarrow> component list" where
  "diagram_netlist s = fst (sch_json (label_connection_points s))"

lemma joined_sym: "joined s p q \<longleftrightarrow> joined s q p"
  unfolding joined_def using same_node_sym by blast

lemma grounded_named:
  assumes "clear_names s" "grounded s p"
  shows "named s p ''0''"
proof -
  obtain r where r: "r \<in> live s" "ty (comp_of s (fst r)) = ''g''" "joined s p r"
    using assms(2) by (auto simp: grounded_def)
  have n: "named s r ''0''" unfolding named_def using r(1,2) by (intro bexI [of _ r]) (simp_all add: default_label_def)
  show ?thesis
    using r(3) unfolding joined_def
  proof
    assume "same_node s p r"
    then show ?thesis by (rule named_node [OF n same_node_sym])
  next
    assume "\<exists>t. named s p t \<and> named s r t"
    then show ?thesis using assms(1) r(1) n unfolding clear_names_def by blast
  qed
qed

lemma index_takeWhile: "distinct xs \<Longrightarrow> k < length xs \<Longrightarrow> length (takeWhile (\<lambda>j. j \<noteq> xs ! k) xs) = k"
proof (induction xs arbitrary: k)
  case (Cons x xs)
  then show ?case by (cases k) auto
qed simp

lemma netlist_entries:
  assumes "sch_ok s"
  shows "set (diagram_netlist s) = insert view_entry (netlist_entry s ` set (components s))"
proof -
  let ?s = "label_connection_points s"
  have c: "components ?s = components s" using label_relabelled [of s] by (simp add: relabelled_def)
  have d: "distinct (components s)" by (rule sch_okD(2) [OF assms])
  have "comp_json k (comp_of ?s (components s ! k)) = netlist_entry s (components s ! k)" if "k < length (components s)" for k
    unfolding netlist_entry_def index_takeWhile [OF d that] ..
  then have "map (\<lambda>(k, i). comp_json k (comp_of ?s i)) (enumerate 0 (components s)) = map (netlist_entry s) (components s)"
    by (intro nth_equalityI) (auto simp: nth_enumerate_eq)
  then show ?thesis by (simp add: diagram_netlist_def sch_json_def c)
qed

lemma entry_type:
  assumes "sch_ok s" "i \<in> set (components s)"
  shows "c_type (netlist_entry s i) = ty (comp_of s i)"
    "ty (comp_of s i) \<noteq> ''w'' \<Longrightarrow> c_conns (netlist_entry s i) =
       map (\<lambda>k. terminal_name s (i, k)) [0 ..< length (conns (comp_of s i))]"
proof -
  note S = strip_same [OF strip_out [OF label_relabelled assms]]
  show "c_type (netlist_entry s i) = ty (comp_of s i)" by (simp add: netlist_entry_def comp_json_def S(1))
  show "c_conns (netlist_entry s i) = map (\<lambda>k. terminal_name s (i, k)) [0 ..< length (conns (comp_of s i))]"
    if "ty (comp_of s i) \<noteq> ''w''"
    using that by (intro nth_equalityI) (simp_all add: netlist_entry_def comp_json_def S(1,3) terminal_name_def cp_of_def)
qed

lemma circuit_spec:
  assumes ok: "sch_ok s" "shapes s" "clear_names s" and ex: "extract_circuit s = Some (Some ckt, s')"
    and p: "terminal s p" and q: "terminal s q"
  shows "\<exists>i j. node_map ckt (terminal_name s p) = Some i \<and> node_map ckt (terminal_name s q) = Some j \<and>
    (i = j \<longleftrightarrow> joined s p q) \<and> (i = gnd_node \<longleftrightarrow> grounded s p) \<and> attached (netlist_entry s (fst p)) ckt"
proof -
  let ?L = "label_connection_points s"
  let ?xs = "diagram_netlist s"
  have load: "load_netlist ?xs new_circuit = Some (True, ckt)"
    using ex by (auto simp: extract_circuit_def diagram_netlist_def Let_def split: prod.splits if_splits)
  have name: "label_at ?L x = Some (terminal_name s x)" if "part_point s x" for x
    using labels_spec [OF ok that that] by (auto simp: terminal_name_def cp_json_def label_at_def split: option.splits)
  have part: "part_point s x" if "x \<in> live s" "ty (comp_of s (fst x)) \<noteq> ''w''" for x
    using that by (simp add: part_point_def is_wire_def)
  have ne: "[] \<notin> set (c_conns x)" if "x \<in> set ?xs" for x
  proof -
    have x: "x = view_entry \<or> (\<exists>i \<in> set (components s). x = netlist_entry s i)"
      using that by (auto simp: netlist_entries [OF ok(1)])
    have "terminal_name s (i, k) \<noteq> []"
      if "i \<in> set (components s)" "ty (comp_of s i) \<noteq> ''w''" "k < length (conns (comp_of s i))" for i k
    proof -
      have lv: "(i, k) \<in> live s" using that by (simp add: mem_live)
      show ?thesis by (rule label_nonempty [OF ok lv name [OF part [OF lv]]]) (simp add: that(2))
    qed
    then have "[] \<notin> set (c_conns (netlist_entry s i))" if i: "i \<in> set (components s)" for i
    proof (cases "ty (comp_of s i) = ''w''")
      case True
      then show ?thesis
        by (simp add: netlist_entry_def comp_json_def strip_same(1) [OF strip_out [OF label_relabelled ok(1) i]])
    next
      case False
      with i show ?thesis
        unfolding entry_type(2) [OF ok(1) i False]
        using \<open>\<And>k i. i \<in> set (components s) \<Longrightarrow> ty (comp_of s i) \<noteq> ''w'' \<Longrightarrow> k < length (conns (comp_of s i)) \<Longrightarrow> terminal_name s (i, k) \<noteq> []\<close>
        by (auto simp: eq_commute [of "[]"])
    qed
    with x show ?thesis by (auto simp: view_entry_def)
  qed
  note N = netlist_nodes [OF load ballI, OF ne]
  have pt: "part_point s x" "x \<in> live s" "fst x \<in> set (components s)" if "terminal s x" for x
    using that part by (auto simp: terminal_def mem_live)
  have att: "attached (netlist_entry s (fst x)) ckt" if "terminal s x" for x
    using that pt(3) [OF that] by (intro N(2)) (auto simp: netlist_entries [OF ok(1)] simulated_def entry_type [OF ok(1)] terminal_def)
  have num: "\<exists>i. node_map ckt (terminal_name s x) = Some i" if x: "terminal s x" for x
  proof -
    have w: "ty (comp_of s (fst x)) \<noteq> ''w''" using x by (simp add: terminal_def)
    have "terminal_name s x \<in> set (c_conns (netlist_entry s (fst x)))"
      unfolding entry_type(2) [OF ok(1) pt(3) [OF x] w] using pt(2) [OF x] by (cases x) (auto simp: mem_live)
    moreover obtain js where "map Some js = map (node_map ckt) (c_conns (netlist_entry s (fst x)))"
      using att [OF x] by (auto simp: attached_def)
    ultimately show ?thesis by (metis (no_types, lifting) image_iff list.set_map)
  qed
  obtain i j where ij: "node_map ckt (terminal_name s p) = Some i" "node_map ckt (terminal_name s q) = Some j"
    using num [OF p] num [OF q] by blast
  have eq: "terminal_name s x = terminal_name s y \<longleftrightarrow> joined s x y" if "part_point s x" "part_point s y" for x y
    using labels_spec [OF ok that] name [OF that(1)] name [OF that(2)] by simp
  have gnd: "i = gnd_node \<longleftrightarrow> grounded s x" if x: "part_point s x" "node_map ckt (terminal_name s x) = Some i" for x i
  proof -
    have one: "c_conns (netlist_entry s k) = [terminal_name s (k, 0)]" "(k, 0) \<in> live s"
      if "k \<in> set (components s)" "ty (comp_of s k) = ''g''" for k
      using entry_type(2) [OF ok(1) that(1)] that ok(2) by (auto simp: shapes_def comp_shape_def mem_live)
    have snd0: "r = (fst r, 0)" if "r \<in> live s" "ty (comp_of s (fst r)) = ''g''" for r
      using that ok(2) by (cases r) (auto simp: shapes_def comp_shape_def mem_live)
    have j: "terminal_name s (k, 0) = terminal_name s x \<longleftrightarrow> joined s x (k, 0)"
      if k: "k \<in> set (components s)" "ty (comp_of s k) = ''g''" for k
    proof -
      have "part_point s (k, 0)" by (rule part [OF one(2) [OF k]]) (simp add: k(2))
      from eq [OF this x(1)] show ?thesis by (simp add: joined_sym)
    qed
    have "ground_name ?xs (terminal_name s x) \<longleftrightarrow>
        (\<exists>k \<in> set (components s). ty (comp_of s k) = ''g'' \<and> terminal_name s (k, 0) = terminal_name s x)"
      using one entry_type(1) [OF ok(1)] by (auto simp: ground_name_def netlist_entries [OF ok(1)] view_entry_def)
    also have "\<dots> \<longleftrightarrow> (\<exists>k \<in> set (components s). ty (comp_of s k) = ''g'' \<and> joined s x (k, 0))"
      using j by blast
    also have "\<dots> \<longleftrightarrow> grounded s x"
      unfolding grounded_def using one(2) snd0 by (metis fst_conv mem_live)
    finally show ?thesis using N(3) [of "terminal_name s x"] x(2) by simp
  qed
  have "joined s p q" if "grounded s p" "grounded s q"
    using grounded_named [OF ok(3) that(1)] grounded_named [OF ok(3) that(2)] unfolding joined_def by blast
  then have "i = j \<longleftrightarrow> joined s p q"
    using names_equal [OF N(1) ij] eq [OF pt(1) [OF p] pt(1) [OF q]] gnd [OF pt(1) [OF p] ij(1)] gnd [OF pt(1) [OF q] ij(2)]
    by blast
  with ij gnd [OF pt(1) [OF p] ij(1)] att [OF p] show ?thesis by blast
qed


definition netlist_summary :: "component list \<Rightarrow> (string \<times> string option list \<times> string list) list" where
  "netlist_summary xs = map (\<lambda>x. (c_type x, map (c_props x) [''name'', ''_json_'', ''r''], c_conns x)) xs"

lemma demo_netlist_summary:
  "netlist_summary (diagram_netlist demo_diagram) =
     [(''g'', [None, Some ''0'', None], [''0'']), (''r'', [None, Some ''1'', Some ''1''], [''0'', ''2'']), (''w'', [None, None, None], []),
      (''r'', [None, Some ''3'', Some ''1''], [''2'', ''1'']), (''view'', [None, None, None], [])]"
  by code_simp

lemma one_text: "parse_number ''1'' None = Some 1"
proof -
  have t: "nat_text 1 = ''1''" by (simp add: nat_text.simps digit_char_def)
  show ?thesis
    by (simp add: parse_number_def parse_unsigned_def parse_decimal_def ord_def dec_digit_def Let_def apply_scale_def)
qed

lemma demo_extract: "\<exists>ckt s'. extract_circuit demo_diagram = Some (Some ckt, s')"
proof -
  obtain x0 x1 x2 x3 x4 where x: "diagram_netlist demo_diagram = [x0, x1, x2, x3, x4]"
    and c: "c_type x0 = ''g''" "c_conns x0 = [''0'']" "c_type x1 = ''r''" "c_props x1 ''name'' = None"
      "c_props x1 ''_json_'' = Some ''1''" "c_props x1 ''r'' = Some ''1''" "c_conns x1 = [''0'', ''2'']" "c_type x2 = ''w''"
      "c_type x3 = ''r''" "c_props x3 ''name'' = None" "c_props x3 ''_json_'' = Some ''3''" "c_props x3 ''r'' = Some ''1''"
      "c_conns x3 = [''2'', ''1'']" "c_type x4 = ''view''"
    using demo_netlist_summary by (auto simp: netlist_summary_def map_eq_Cons_conv)
  have l: "\<exists>ckt. load_netlist (diagram_netlist demo_diagram) new_circuit = Some (True, ckt)"
    unfolding x load_netlist_def
    by (simp add: ground_pass_def c new_circuit_def load_component_def comp_name_def gnd_node_def node_def conn_def
        add_component_def add_device_def ckt_r_def new_Resistor_def one_text)
  obtain netlist s1 where j: "sch_json (label_connection_points demo_diagram) = (netlist, s1)" by (rule prod.exhaust)
  have "extract_circuit demo_diagram = map_option (\<lambda>(ok, ckt). (if ok then Some ckt else None, s1)) (load_netlist netlist new_circuit)"
    unfolding extract_circuit_def j by simp
  moreover have "diagram_netlist demo_diagram = netlist" unfolding diagram_netlist_def j by simp
  ultimately show ?thesis using l by auto
qed


end
