(* ===== verification/SchWire.thy ===== *)
theory SchWire
  imports SchNodes
begin

text \<open>
  Wires (\<open>add_wire\<close>, \<open>split_wire\<close>, \<open>check_wires\<close>, \<open>check_connection_points\<close> of \<open>capa/schematic.js\<close>): a wire
  that passes a connection point is replaced by two wires that end there. These methods call each
  other; the model runs a list of the work still to be done, whose first entry is what the innermost
  call does next. The work may not end, and it may throw.
\<close>

section \<open>Splitting\<close>

text \<open>The distance of a point from the line of the wire is below 1: the comparison is squared.\<close>

definition bisect_cp :: "sch \<Rightarrow> nat \<Rightarrow> location \<Rightarrow> bool" where
  "bisect_cp s w l =
     (let c = comp_of s w; (x, y) = l; (dx, dy) = delta c; d = (x - cx c) * dy - (y - cy c) * dx
      in inside (bbox c) x y \<and> d * d < dx * dx + dy * dy \<and> cp_at (conns c ! 0) \<noteq> l \<and> cp_at (conns c ! 1) \<noteq> l)"

definition bisect :: "sch \<Rightarrow> nat \<Rightarrow> nat \<Rightarrow> (nat \<times> nat) option" where
  "bisect s w i =
     (if is_wire s w then find (\<lambda>p. bisect_cp s w (place s p)) (rev (map (Pair i) [0 ..< length (conns (comp_of s i))]))
      else None)"

datatype wire_task =
    AddWire int int int int
  | CheckWires nat nat
  | CheckPoints nat

text \<open>\<open>CheckWires i n\<close> is the loop of \<open>check_wires\<close> for component \<open>i\<close> at position \<open>n\<close> of the list of
  components, which the splits change under the loop.\<close>

definition split_tasks :: "sch \<Rightarrow> nat \<Rightarrow> location \<Rightarrow> wire_task list" where
  "split_tasks s w l =
     (let c = comp_of s w in
      [AddWire (cx c) (cy c) (fst l) (snd l), AddWire (cx c + fst (delta c)) (cy c + snd (delta c)) (fst l) (snd l)])"

datatype 's outcome = Thrown (state_of: 's) | Ended (state_of: 's)

text \<open>A handler that throws leaves the state as it is at that moment. One step of the work; \<open>Inl\<close> is the outcome. After \<open>check_wires\<close>, \<open>move_end\<close> of a wire reads \<open>sch\<close>, which
  is gone when the wire has been split meanwhile.\<close>

definition work_step :: "wire_task list \<Rightarrow> sch \<Rightarrow> sch outcome + wire_task list \<times> sch" where
  "work_step ts s =
     (case ts of
        [] \<Rightarrow> Inl (Ended s)
      | AddWire x1 y1 x2 y2 # us \<Rightarrow>
          Inr (CheckWires (length (heap s)) 0 # CheckPoints (length (heap s)) # us, add_new (make_Wire x1 y1 x2 y2) s)
      | CheckWires i n # us \<Rightarrow>
          (if n < length (components s) then
             (case (if components s ! n = i then None else bisect s (components s ! n) i) of
                None \<Rightarrow> Inr (CheckWires i (Suc n) # us, s)
              | Some p \<Rightarrow> Inr (split_tasks s (components s ! n) (place s p) @ CheckWires i (Suc n) # us,
                    remove_comp (components s ! n) s))
           else Inr (us, s))
      | CheckPoints i # us \<Rightarrow>
          (if \<not> placed (comp_of s i) then Inl (Thrown s)
           else case find (bisect_cp s i) (map fst (cpoints s)) of
                  None \<Rightarrow> Inr (us, s)
                | Some l \<Rightarrow> Inr (split_tasks s i l @ us, remove_comp i s)))"

partial_function (option) run_tasks :: "wire_task list \<Rightarrow> sch \<Rightarrow> sch outcome option" where
  "run_tasks ts s = (case work_step ts s of Inl r \<Rightarrow> Some r | Inr (us, s') \<Rightarrow> run_tasks us s')"

declare run_tasks.simps [code]

text \<open>The same work with a bound on its steps, to evaluate examples.\<close>

primrec work_for :: "nat \<Rightarrow> wire_task list \<Rightarrow> sch \<Rightarrow> sch outcome option" where
  "work_for 0 ts s = None"
| "work_for (Suc n) ts s = (case work_step ts s of Inl r \<Rightarrow> Some r | Inr (us, s') \<Rightarrow> work_for n us s')"

lemma work_for_runs: "work_for n ts s = Some r \<Longrightarrow> run_tasks ts s = Some r"
proof (induction n arbitrary: ts s)
  case (Suc n)
  then show ?case by (subst run_tasks.simps) (auto split: sum.splits)
qed simp

definition add_wire :: "int \<Rightarrow> int \<Rightarrow> int \<Rightarrow> int \<Rightarrow> sch \<Rightarrow> sch outcome option" where
  "add_wire x1 y1 x2 y2 s = run_tasks [AddWire x1 y1 x2 y2] s"

definition check_wires :: "nat \<Rightarrow> sch \<Rightarrow> sch outcome option" where
  "check_wires i s = run_tasks [CheckWires i 0] s"

section \<open>Grid\<close>

text \<open>The editor puts everything on a grid of 8. \<open>neat\<close>: every connection point and every end of a
  wire is on the grid, and no wire has been rotated.\<close>

definition on_grid :: "location \<Rightarrow> bool" where "on_grid l \<longleftrightarrow> 8 dvd fst l \<and> 8 dvd snd l"

definition far_end :: "comp \<Rightarrow> location" where "far_end c = (cx c + fst (delta c), cy c + snd (delta c))"

definition neat_wire :: "comp \<Rightarrow> bool" where
  "neat_wire c \<longleftrightarrow> rot c = 0 \<and> on_grid (cx c, cy c) \<and> on_grid (far_end c) \<and> map cp_at (conns c) = [(cx c, cy c), far_end c] \<and>
     bbox c = (min (cx c) (fst (far_end c)) - 2, min (cy c) (snd (far_end c)) - 2,
       max (cx c) (fst (far_end c)) + 2, max (cy c) (snd (far_end c)) + 2)"

definition neat :: "sch \<Rightarrow> bool" where
  "neat s \<longleftrightarrow> (\<forall>i < length (heap s). (\<forall>q \<in> set (conns (comp_of s i)). on_grid (cp_at q)) \<and> (is_wire s i \<longrightarrow> neat_wire (comp_of s i)))"

definition grid_task :: "wire_task \<Rightarrow> bool" where
  "grid_task t = (case t of AddWire x1 y1 x2 y2 \<Rightarrow> on_grid (x1, y1) \<and> on_grid (x2, y2) | _ \<Rightarrow> True)"

text \<open>Length of a wire along the grid.\<close>

definition span :: "location \<Rightarrow> location \<Rightarrow> nat" where
  "span a b = nat (\<bar>fst a - fst b\<bar> + \<bar>snd a - snd b\<bar>)"

text \<open>On the grid a point that bisects a wire lies in its box, so the two pieces are together as long as
  the wire.\<close>

lemma grid_close:
  fixes a x y :: int
  assumes "8 dvd x" "8 dvd a" "a - 2 \<le> x"
  shows "a \<le> x"
proof -
  obtain i j where "x = 8 * i" "a = 8 * j" using assms(1,2) by (auto elim!: dvdE)
  with assms(3) show ?thesis by presburger
qed

lemma two_ends:
  assumes "map cp_at qs = [a, b]"
  shows "length qs = 2" "cp_at (qs ! 0) = a" "cp_at (qs ! 1) = b"
proof -
  have "length (map cp_at qs) = 2" unfolding assms by simp
  then show l: "length qs = 2" by simp
  have "map cp_at qs ! 0 = a" "map cp_at qs ! 1 = b" unfolding assms by simp_all
  with l show "cp_at (qs ! 0) = a" "cp_at (qs ! 1) = b" by simp_all
qed

lemma bisect_span:
  assumes w: "neat_wire (comp_of s w)" and l: "on_grid l" and b: "bisect_cp s w l"
  shows "span (cx (comp_of s w), cy (comp_of s w)) l + span (far_end (comp_of s w)) l =
      span (cx (comp_of s w), cy (comp_of s w)) (far_end (comp_of s w))"
    "0 < span (cx (comp_of s w), cy (comp_of s w)) l" "0 < span (far_end (comp_of s w)) l"
proof -
  let ?c = "comp_of s w"
  obtain x y where xy: "l = (x, y)" by fastforce
  obtain fx fy where f: "far_end ?c = (fx, fy)" by fastforce
  have cp: "cp_at (conns ?c ! 0) = (cx ?c, cy ?c)" "cp_at (conns ?c ! 1) = (fx, fy)"
    using two_ends(2,3) [of "conns ?c" "(cx ?c, cy ?c)" "(fx, fy)"] w f by (simp_all add: neat_wire_def)
  have ne: "(x, y) \<noteq> (cx ?c, cy ?c)" "(x, y) \<noteq> (fx, fy)" and
    ins: "inside (bbox ?c) x y" using b cp by (auto simp: bisect_cp_def xy Let_def split: prod.splits)
  have g: "8 dvd x" "8 dvd y" "8 dvd cx ?c" "8 dvd cy ?c" "8 dvd fx" "8 dvd fy"
    using l w f by (auto simp: xy on_grid_def neat_wire_def)
  have bb: "min (cx ?c) fx - 2 \<le> x" "x \<le> max (cx ?c) fx + 2" "min (cy ?c) fy - 2 \<le> y" "y \<le> max (cy ?c) fy + 2"
    using ins w f by (auto simp: neat_wire_def between_def)
  have mm: "8 dvd min (cx ?c) fx" "8 dvd max (cx ?c) fx" "8 dvd min (cy ?c) fy" "8 dvd max (cy ?c) fy"
    using g by (auto simp: min_def max_def)
  have lo: "min (cx ?c) fx \<le> x" "min (cy ?c) fy \<le> y"
    by (rule grid_close [OF g(1) mm(1) bb(1)]) (rule grid_close [OF g(2) mm(3) bb(3)])
  have hi: "x \<le> max (cx ?c) fx" "y \<le> max (cy ?c) fy"
    by (rule grid_close [OF mm(2) g(1)], use bb in linarith) (rule grid_close [OF mm(4) g(2)], use bb in linarith)
  have "\<bar>cx ?c - x\<bar> + \<bar>fx - x\<bar> = \<bar>cx ?c - fx\<bar>" "\<bar>cy ?c - y\<bar> + \<bar>fy - y\<bar> = \<bar>cy ?c - fy\<bar>"
    using lo hi by (auto simp: min_def max_def split: if_splits)
  then show "span (cx ?c, cy ?c) l + span (far_end ?c) l = span (cx ?c, cy ?c) (far_end ?c)"
    unfolding f xy span_def by (simp add: nat_add_distrib [symmetric]) (rule arg_cong [of _ _ nat], linarith)
  show "0 < span (cx ?c, cy ?c) l" "0 < span (far_end ?c) l"
    using ne unfolding f xy span_def by auto
qed

section \<open>The work keeps the diagram in order\<close>

text \<open>What holds at every point of the work: the invariant of the diagram, the shapes of its components,
  and that the tasks name components that exist.\<close>

definition task_ok :: "sch \<Rightarrow> wire_task \<Rightarrow> bool" where
  "task_ok s t = (case t of AddWire x1 y1 x2 y2 \<Rightarrow> True | CheckWires i n \<Rightarrow> i < length (heap s) | CheckPoints i \<Rightarrow> i < length (heap s) \<and> is_wire s i)"

definition diagram_ok :: "sch \<Rightarrow> bool" where
  "diagram_ok s \<longleftrightarrow> sch_ok s \<and> (\<forall>i < length (heap s). comp_shape (comp_of s i))"

lemma diagram_shapes: "diagram_ok s \<Longrightarrow> shapes s"
  by (auto simp: diagram_ok_def shapes_def sch_okD(3))

lemma wire_parts [simp]:
  "ty (make_Wire x1 y1 x2 y2) = ''w''" "rot (make_Wire x1 y1 x2 y2) = 0" "cx (make_Wire x1 y1 x2 y2) = x1"
  "cy (make_Wire x1 y1 x2 y2) = y1" "delta (make_Wire x1 y1 x2 y2) = (x2 - x1, y2 - y1)"
  "far_end (make_Wire x1 y1 x2 y2) = (x2, y2)" "map cp_at (conns (make_Wire x1 y1 x2 y2)) = [(x1, y1), (x2, y2)]"
  "length (conns (make_Wire x1 y1 x2 y2)) = 2"
  by (simp_all add: make_Wire_def Let_def case_prod_beta finish_comp_def add_connection_def new_comp_def far_end_def
      settle_def location_of_def transform_x_def transform_y_def)

lemma wire_shape [simp]: "comp_shape (make_Wire x1 y1 x2 y2)"
  by (simp add: comp_shape_def)

lemma add_new_effect:
  assumes "sch_ok s" "settle c = c" "\<not> placed c"
  shows "components (add_new c s) = components s @ [length (heap s)]" "length (heap (add_new c s)) = Suc (length (heap s))"
    "comp_of (add_new c s) (length (heap s)) = c\<lparr>placed := True\<rparr>"
    "j < length (heap s) \<Longrightarrow> comp_of (add_new c s) j = comp_of s j"
proof -
  obtain i s1 where a: "alloc c s = (i, s1)" by fastforce
  note A = alloc_ok [OF assms a]
  note B = add_comp_ok [OF A(1,6,5)]
  have e: "add_new c s = add_comp i s1" using a by (simp add: add_new_def)
  have l: "length (heap s1) = Suc (length (heap s))" using a by (auto simp: alloc_def)
  show "components (add_new c s) = components s @ [length (heap s)]" "length (heap (add_new c s)) = Suc (length (heap s))"
    using B(2,4) A(2,4) l by (simp_all add: e)
  show "comp_of (add_new c s) (length (heap s)) = c\<lparr>placed := True\<rparr>" using B(3) A(2,3) by (simp add: e)
  show "comp_of (add_new c s) j = comp_of s j" if "j < length (heap s)" using B(3) A(2,7) that by (simp add: e)
qed

lemma add_new_diagram [sch_pres]:
  assumes "diagram_ok s" "settle c = c" "\<not> placed c" "comp_shape c"
  shows "diagram_ok (add_new c s)"
proof -
  have ok: "sch_ok s" using assms(1) by (simp add: diagram_ok_def)
  note E = add_new_effect [OF ok assms(2,3)]
  have "comp_shape (comp_of (add_new c s) i)" if "i < length (heap (add_new c s))" for i
  proof (cases "i = length (heap s)")
    case True
    then show ?thesis using E(3) assms(4) by (simp add: comp_shape_def)
  next
    case False
    then have "i < length (heap s)" using that E(2) by simp
    then show ?thesis using E(4) assms(1) by (simp add: diagram_ok_def)
  qed
  then show ?thesis using add_new_ok [OF ok assms(2,3)] by (simp add: diagram_ok_def)
qed

lemma remove_diagram [sch_pres]:
  assumes "diagram_ok s" "i \<in> set (components s)"
  shows "diagram_ok (remove_comp i s)"
proof -
  have ok: "sch_ok s" using assms(1) by (simp add: diagram_ok_def)
  note R = remove_comp_ok [OF ok assms(2)]
  have "comp_shape (comp_of (remove_comp i s) j)" if "j < length (heap s)" for j
    using that assms(1) sch_okD(3) [OF ok assms(2)] by (auto simp: R(3) diagram_ok_def comp_shape_def)
  then show ?thesis using R(1,4) by (simp add: diagram_ok_def)
qed

definition work_ok :: "wire_task list \<Rightarrow> sch \<Rightarrow> bool" where
  "work_ok ts s \<longleftrightarrow> diagram_ok s \<and> list_all (task_ok s) ts"

lemma task_ok_mono:
  "list_all (task_ok s) ts \<Longrightarrow> length (heap s) \<le> length (heap s') \<Longrightarrow>
     (\<And>i. i < length (heap s) \<Longrightarrow> is_wire s' i = is_wire s i) \<Longrightarrow> list_all (task_ok s') ts"
  by (auto simp: list_all_iff task_ok_def split: wire_task.splits)

lemma find_SomeD: "find P xs = Some x \<Longrightarrow> x \<in> set xs \<and> P x"
  by (induction xs) (auto split: if_splits)

lemma key_live:
  assumes "sch_ok s" "l \<in> fst ` set (cpoints s)"
  shows "\<exists>p \<in> live s. place s p = l"
proof -
  have m: "map_wf (cpoints s)" using sch_okD(1) [OF assms(1)] by (simp add: map_ok_def)
  obtain ps where ps: "(l, ps) \<in> set (cpoints s)" using assms(2) by auto
  then have "map_of (cpoints s) l = Some ps" using m by (simp add: map_wf_def)
  then have f: "find_at s l = ps" by (simp add: find_at_def)
  have "ps \<in> snd ` set (cpoints s)" using ps by (metis image_eqI snd_conv)
  then have "ps \<noteq> []" using m unfolding map_wf_def set_map by metis
  then have "hd ps \<in> set (find_at s l)" using f by simp
  then show ?thesis using find_at_exact [OF assms(1)] by blast
qed

lemma split_tasks_ok [simp]: "list_all (task_ok s') (split_tasks s w l)"
  by (simp add: split_tasks_def Let_def task_ok_def)

lemma remove_length: "diagram_ok s \<Longrightarrow> i \<in> set (components s) \<Longrightarrow> length (heap (remove_comp i s)) = length (heap s)"
  by (simp add: diagram_ok_def remove_comp_ok(4))

text \<open>The four ways a step can go.\<close>

lemma work_cases:
  assumes "work_ok ts s" "work_step ts s = Inr (us, s')"
  obtains (add) x1 y1 x2 y2 vs where "ts = AddWire x1 y1 x2 y2 # vs" "s' = add_new (make_Wire x1 y1 x2 y2) s"
      "us = CheckWires (length (heap s)) 0 # CheckPoints (length (heap s)) # vs"
  | (skip) i n vs where "ts = CheckWires i n # vs" "s' = s" "n < length (components s)" "us = CheckWires i (Suc n) # vs"
  | (over) t vs where "ts = t # vs" "s' = s" "us = vs" "(\<exists>i n. t = CheckWires i n \<and> length (components s) \<le> n) \<or> (\<exists>i. t = CheckPoints i)"
  | (split) w l vs where "w \<in> set (components s)" "is_wire s w" "bisect_cp s w l" "us = split_tasks s w l @ vs" "s' = remove_comp w s"
      "\<exists>p. fst p < length (heap s) \<and> snd p < length (conns (comp_of s (fst p))) \<and> place s p = l"
      "(\<exists>i n ws. ts = CheckWires i n # ws \<and> vs = CheckWires i (Suc n) # ws) \<or> ts = CheckPoints w # vs"
proof (cases ts)
  case Nil
  with assms(2) show ?thesis by (simp add: work_step_def)
next
  case (Cons t vs)
  show ?thesis
  proof (cases t)
    case (AddWire x1 y1 x2 y2)
    with Cons assms(2) add show ?thesis by (auto simp: work_step_def)
  next
    case (CheckWires i n)
    have i: "i < length (heap s)" using assms(1) Cons CheckWires by (simp add: work_ok_def task_ok_def)
    show ?thesis
    proof (cases "n < length (components s)")
      case False
      with Cons CheckWires assms(2) over show ?thesis by (auto simp: work_step_def)
    next
      case True
      let ?w = "components s ! n"
      show ?thesis
      proof (cases "if ?w = i then None else bisect s ?w i")
        case None
        with Cons CheckWires True assms(2) skip show ?thesis by (auto simp: work_step_def)
      next
        case (Some p)
        then have w0: "is_wire s ?w" and
          f: "find (\<lambda>p. bisect_cp s ?w (place s p)) (rev (map (Pair i) [0 ..< length (conns (comp_of s i))])) = Some p"
          by (simp_all add: bisect_def split: if_splits)
        have w: "is_wire s ?w" "p \<in> set (map (Pair i) [0 ..< length (conns (comp_of s i))])" "bisect_cp s ?w (place s p)"
          using w0 find_SomeD [OF f] by simp_all
        have e: "us = split_tasks s ?w (place s p) @ CheckWires i (Suc n) # vs" "s' = remove_comp ?w s"
          using Cons CheckWires True Some assms(2) by (auto simp: work_step_def)
        have "\<exists>p'. fst p' < length (heap s) \<and> snd p' < length (conns (comp_of s (fst p'))) \<and> place s p' = place s p"
          using w(2) i by (intro exI [of _ p]) auto
        from split [OF nth_mem [OF True] w(1,3) e this] Cons CheckWires show ?thesis by blast
      qed
    qed
  next
    case (CheckPoints i)
    have ok: "sch_ok s" using assms(1) by (simp add: work_ok_def diagram_ok_def)
    have i: "i < length (heap s)" "is_wire s i" using assms(1) Cons CheckPoints by (simp_all add: work_ok_def task_ok_def)
    show ?thesis
    proof (cases "find (bisect_cp s i) (map fst (cpoints s))")
      case None
      with Cons CheckPoints assms(2) over show ?thesis by (auto simp: work_step_def split: if_splits)
    next
      case (Some l)
      from find_SomeD [OF this] have l: "bisect_cp s i l" "l \<in> fst ` set (cpoints s)" by simp_all
      have e: "us = split_tasks s i l @ vs" "s' = remove_comp i s" and pl: "placed (comp_of s i)"
        using Cons CheckPoints Some assms(2) by (auto simp: work_step_def split: if_splits)
      have c: "i \<in> set (components s)" using pl sch_okD(5) [OF ok i(1)] by simp
      obtain p where p: "p \<in> live s" "place s p = l" using key_live [OF ok l(2)] by blast
      then have "\<exists>p. fst p < length (heap s) \<and> snd p < length (conns (comp_of s (fst p))) \<and> place s p = l"
        by (intro exI [of _ p]) (simp add: mem_live sch_okD(3) [OF ok])
      from split [OF c i(2) l(1) e this] Cons CheckPoints show ?thesis by blast
    qed
  qed
qed

lemma is_wire_remove: "diagram_ok s \<Longrightarrow> i \<in> set (components s) \<Longrightarrow> is_wire (remove_comp i s) j = is_wire s j"
  by (simp add: is_wire_def diagram_ok_def remove_comp_ok(3))

lemma is_wire_add: "diagram_ok s \<Longrightarrow> j < length (heap s) \<Longrightarrow> is_wire (add_new (make_Wire x1 y1 x2 y2) s) j = is_wire s j"
  by (simp add: is_wire_def diagram_ok_def add_new_effect(4))

lemma work_step_ok:
  assumes "work_ok ts s" "work_step ts s = Inr (us, s')"
  shows "work_ok us s'"
  using assms
proof (cases rule: work_cases)
  case (add x1 y1 x2 y2 vs)
  have d: "diagram_ok s" using assms(1) by (simp add: work_ok_def)
  then have ok: "sch_ok s" by (simp add: diagram_ok_def)
  note E = add_new_effect [OF ok, of "make_Wire x1 y1 x2 y2", OF make_ok(1,2)]
  have "list_all (task_ok s') vs"
    by (rule task_ok_mono [of s]) (use assms(1) add E(2) is_wire_add [OF d] in \<open>simp_all add: work_ok_def\<close>)
  then show ?thesis
    using add add_new_diagram [OF d, of "make_Wire x1 y1 x2 y2"] E(2,3)
    by (simp add: work_ok_def task_ok_def is_wire_def)
next
  case (skip i n vs)
  then show ?thesis using assms(1) by (simp add: work_ok_def task_ok_def)
next
  case (over t vs)
  then show ?thesis using assms(1) by (simp add: work_ok_def)
next
  case (split w l vs)
  have d: "diagram_ok s" using assms(1) by (simp add: work_ok_def)
  have v: "list_all (task_ok s) vs"
    using split(7) assms(1) by (auto simp: work_ok_def task_ok_def)
  have "list_all (task_ok s') vs"
    by (rule task_ok_mono [OF v]) (simp_all add: split(5) remove_length [OF d split(1)] is_wire_remove [OF d split(1)])
  then show ?thesis using split remove_diagram [OF d split(1)] by (simp add: work_ok_def)
qed

text \<open>What every step keeps holds when the work is over, also when it ends by throwing.\<close>

lemma work_step_Inl: "work_step ts s = Inl r \<Longrightarrow> r = Thrown s \<or> r = Ended s \<and> ts = []"
  by (auto simp: work_step_def split: list.splits wire_task.splits if_splits option.splits)

lemma run_tasks_inv:
  assumes run: "run_tasks ts s = Some r" and init: "I ts s"
    and step: "\<And>ts s us s'. I ts s \<Longrightarrow> work_step ts s = Inr (us, s') \<Longrightarrow> I us s'"
  shows "(\<exists>us. I us (state_of r)) \<and> (\<forall>s'. r = Ended s' \<longrightarrow> I [] s')"
proof -
  have "I ts s \<longrightarrow> (\<exists>us. I us (state_of r)) \<and> (\<forall>s'. r = Ended s' \<longrightarrow> I [] s')"
  proof (rule run_tasks.raw_induct [OF _ run])
    fix rt ts s r
    assume IH: "\<And>us s' r. rt us s' = Some r \<Longrightarrow>
        I us s' \<longrightarrow> (\<exists>us. I us (state_of r)) \<and> (\<forall>s'. r = Ended s' \<longrightarrow> I [] s')"
      and eq: "(case work_step ts s of Inl r \<Rightarrow> Some r | Inr (us, s') \<Rightarrow> rt us s') = Some r"
    show "I ts s \<longrightarrow> (\<exists>us. I us (state_of r)) \<and> (\<forall>s'. r = Ended s' \<longrightarrow> I [] s')"
    proof (cases "work_step ts s")
      case (Inl x)
      with eq have "x = r" by simp
      with work_step_Inl [OF Inl] show ?thesis by auto
    next
      case (Inr y)
      then obtain us s' where y: "work_step ts s = Inr (us, s')" by (cases y) simp
      then have "rt us s' = Some r" using eq by simp
      from IH [OF this] step [OF _ y] show ?thesis by blast
    qed
  qed
  with init show ?thesis by blast
qed

lemma run_tasks_ok:
  assumes "run_tasks ts s = Some r" "work_ok ts s"
  shows "diagram_ok (state_of r)"
proof -
  have "\<exists>us. work_ok us (state_of r)"
    by (rule run_tasks_inv [of ts s r work_ok, THEN conjunct1]) (use assms work_step_ok in blast)+
  then show ?thesis by (auto simp: work_ok_def)
qed

section \<open>The work ends\<close>

definition wire_length :: "sch \<Rightarrow> nat \<Rightarrow> nat" where
  "wire_length s i = (if is_wire s i then span (cx (comp_of s i), cy (comp_of s i)) (far_end (comp_of s i)) - 1 else 0)"

definition task_length :: "wire_task \<Rightarrow> nat" where
  "task_length t = (case t of AddWire x1 y1 x2 y2 \<Rightarrow> span (x1, y1) (x2, y2) - 1 | _ \<Rightarrow> 0)"

definition total_length :: "wire_task list \<Rightarrow> sch \<Rightarrow> nat" where
  "total_length ts s = sum_list (map (wire_length s) (components s)) + sum_list (map task_length ts)"

definition wires_to_add :: "wire_task list \<Rightarrow> nat" where
  "wires_to_add ts = length (filter (\<lambda>t. case t of AddWire x1 y1 x2 y2 \<Rightarrow> True | _ \<Rightarrow> False) ts)"

definition checks_left :: "wire_task list \<Rightarrow> sch \<Rightarrow> nat" where
  "checks_left ts s = sum_list (map (\<lambda>t. case t of CheckWires i n \<Rightarrow> length (components s) - n | _ \<Rightarrow> 0) ts)"

definition work_measure :: "((wire_task list \<times> sch) \<times> (wire_task list \<times> sch)) set" where
  "work_measure = inv_image (less_than <*lex*> less_than <*lex*> less_than <*lex*> less_than)
     (\<lambda>(ts, s). (total_length ts s, wires_to_add ts, checks_left ts s, length ts))"

lemma wf_work_measure: "Wellfounded.wf work_measure"
  unfolding work_measure_def by (intro wf_inv_image wf_lex_prod wf_less_than)

definition neat_work :: "wire_task list \<Rightarrow> sch \<Rightarrow> bool" where
  "neat_work ts s \<longleftrightarrow> work_ok ts s \<and> neat s \<and> list_all grid_task ts"

lemma make_wire_neat:
  assumes "on_grid (x1, y1)" "on_grid (x2, y2)"
  shows "neat_wire ((make_Wire x1 y1 x2 y2)\<lparr>placed := True\<rparr>)" "\<forall>q \<in> set (conns (make_Wire x1 y1 x2 y2)). on_grid (cp_at q)"
proof -
  let ?c = "make_Wire x1 y1 x2 y2"
  have b: "bbox ?c = (min x1 x2 - 2, min y1 y2 - 2, max x1 x2 + 2, max y1 y2 + 2)"
    by (auto simp: make_Wire_def Let_def case_prod_beta finish_comp_def settle_def box_of_def add_connection_def new_comp_def
        transform_x_def transform_y_def near_distance_def min_def max_def)
  have m: "map cp_at (conns ?c) = [(x1, y1), (x2, y2)]" by simp
  show "neat_wire (?c\<lparr>placed := True\<rparr>)"
    using assms m b wire_parts(2-6) [of x1 y1 x2 y2] by (simp add: neat_wire_def far_end_def)
  have "set (map cp_at (conns ?c)) = {(x1, y1), (x2, y2)}" unfolding m by simp
  then have "cp_at ` set (conns ?c) = {(x1, y1), (x2, y2)}" by (simp only: set_map)
  then show "\<forall>q \<in> set (conns ?c). on_grid (cp_at q)" using assms by (metis image_eqI insertE singletonD)
qed

lemma neat_add:
  assumes "sch_ok s" "neat s" "on_grid (x1, y1)" "on_grid (x2, y2)"
  shows "neat (add_new (make_Wire x1 y1 x2 y2) s)"
proof -
  note E = add_new_effect [OF assms(1), of "make_Wire x1 y1 x2 y2", OF make_ok(1,2)]
  note W = make_wire_neat [OF assms(3,4)]
  show ?thesis
    using assms(2) W E(3,4) unfolding neat_def E(2) is_wire_def
    by (metis (no_types, lifting) comp.select_convs(11) comp.surjective comp.update_convs(13) less_SucE)
qed

lemma neat_remove: "sch_ok s \<Longrightarrow> i \<in> set (components s) \<Longrightarrow> neat s \<Longrightarrow> neat (remove_comp i s)"
  by (auto simp: neat_def remove_comp_ok(3,4) is_wire_def neat_wire_def far_end_def)

lemma neat_place:
  "neat s \<Longrightarrow> fst p < length (heap s) \<Longrightarrow> snd p < length (conns (comp_of s (fst p))) \<Longrightarrow> on_grid (place s p)"
  by (simp add: neat_def place_def cp_of_def)

lemma split_grid: "neat_wire (comp_of s w) \<Longrightarrow> on_grid l \<Longrightarrow> list_all grid_task (split_tasks s w l)"
  by (simp add: split_tasks_def Let_def grid_task_def neat_wire_def far_end_def)

lemma neat_step:
  assumes "neat_work ts s" "work_step ts s = Inr (us, s')"
  shows "neat_work us s'"
proof -
  have ok: "work_ok ts s" "neat s" "list_all grid_task ts" and d: "diagram_ok s" "sch_ok s"
    using assms(1) by (auto simp: neat_work_def work_ok_def diagram_ok_def)
  have w: "work_ok us s'" by (rule work_step_ok [OF ok(1) assms(2)])
  from ok(1) assms(2) show ?thesis
  proof (cases rule: work_cases)
    case (add x1 y1 x2 y2 vs)
    then show ?thesis using w ok(3) neat_add [OF d(2) ok(2), of x1 y1 x2 y2] by (simp add: neat_work_def grid_task_def)
  next
    case (skip i n vs)
    then show ?thesis using w ok by (simp add: neat_work_def grid_task_def)
  next
    case (over t vs)
    then show ?thesis using w ok by (simp add: neat_work_def)
  next
    case (split u l vs)
    have n: "neat_wire (comp_of s u)" using ok(2) split(1,2) sch_okD(3) [OF d(2)] by (auto simp: neat_def)
    have "on_grid l" using split(6) neat_place [OF ok(2)] by blast
    then have "list_all grid_task (split_tasks s u l)" by (rule split_grid [OF n])
    moreover have "list_all grid_task vs" using split(7) ok(3) by (auto simp: grid_task_def)
    ultimately show ?thesis using w split(4,5) neat_remove [OF d(2) split(1) ok(2)] by (simp add: neat_work_def)
  qed
qed

lemma wire_length_remove: "sch_ok s \<Longrightarrow> i \<in> set (components s) \<Longrightarrow> wire_length (remove_comp i s) j = wire_length s j"
  by (simp add: wire_length_def is_wire_def far_end_def remove_comp_ok(3))

lemma step_smaller:
  assumes "neat_work ts s" "work_step ts s = Inr (us, s')"
  shows "((us, s'), (ts, s)) \<in> work_measure"
proof -
  have ok: "work_ok ts s" "neat s" and d: "diagram_ok s" "sch_ok s"
    using assms(1) by (auto simp: neat_work_def work_ok_def diagram_ok_def)
  from ok(1) assms(2) show ?thesis
  proof (cases rule: work_cases)
    case (add x1 y1 x2 y2 vs)
    note E = add_new_effect [OF d(2), of "make_Wire x1 y1 x2 y2", OF make_ok(1,2)]
    have "wire_length s' i = wire_length s i" if "i \<in> set (components s)" for i
      using that sch_okD(3) [OF d(2) that] by (simp add: add(2) wire_length_def is_wire_def E(4))
    then have "sum_list (map (wire_length s') (components s)) = sum_list (map (wire_length s) (components s))"
      by (intro arg_cong [of _ _ sum_list] map_cong refl) blast
    moreover have "wire_length s' (length (heap s)) = span (x1, y1) (x2, y2) - 1"
      using wire_parts(6) [of x1 y1 x2 y2] by (simp add: add(2) wire_length_def is_wire_def E(3) far_end_def)
    ultimately have "total_length us s' = total_length ts s"
      using E(1) by (simp add: total_length_def add task_length_def)
    moreover have "wires_to_add us < wires_to_add ts" by (simp add: add wires_to_add_def)
    ultimately show ?thesis by (simp add: work_measure_def)
  next
    case (skip i n vs)
    then have "total_length us s' = total_length ts s" "wires_to_add us = wires_to_add ts" "checks_left us s' < checks_left ts s"
      by (simp_all add: total_length_def task_length_def wires_to_add_def checks_left_def)
    then show ?thesis by (simp add: work_measure_def)
  next
    case (over t vs)
    then have "total_length us s' = total_length ts s" "wires_to_add us = wires_to_add ts" "checks_left us s' = checks_left ts s"
        "length us < length ts"
      by (auto simp: total_length_def task_length_def wires_to_add_def checks_left_def)
    then show ?thesis by (simp add: work_measure_def)
  next
    case (split u l vs)
    have n: "neat_wire (comp_of s u)" using ok(2) split(1,2) sch_okD(3) [OF d(2)] by (auto simp: neat_def)
    have g: "on_grid l" using split(6) neat_place [OF ok(2)] by blast
    note B = bisect_span [OF n g split(3)]
    have "components s' = remove1 u (components s)" by (simp add: split(5) remove_comp_ok(2) [OF d(2) split(1)])
    moreover have "wire_length s' = wire_length s" by (simp add: fun_eq_iff split(5) wire_length_remove [OF d(2) split(1)])
    ultimately have "sum_list (map (wire_length s) (components s)) = wire_length s u + sum_list (map (wire_length s') (components s'))"
      using sum_list_map_remove1 [OF split(1), of "wire_length s"] by simp
    moreover have "sum_list (map task_length us) < sum_list (map task_length ts) + wire_length s u"
    proof -
      have "sum_list (map task_length (split_tasks s u l)) < wire_length s u"
        using B split(2) by (simp add: split_tasks_def Let_def task_length_def wire_length_def far_end_def)
      moreover have "sum_list (map task_length vs) = sum_list (map task_length ts)" using split(7) by (auto simp: task_length_def)
      ultimately show ?thesis by (simp add: split(4))
    qed
    ultimately have "total_length us s' < total_length ts s" by (simp add: total_length_def)
    then show ?thesis by (simp add: work_measure_def)
  qed
qed

lemma work_terminates: "neat_work ts s \<Longrightarrow> \<exists>r. run_tasks ts s = Some r"
proof (induction "(ts, s)" arbitrary: ts s rule: wf_induct_rule [OF wf_work_measure])
  case 1
  show ?case
  proof (cases "work_step ts s")
    case (Inl r)
    then show ?thesis by (subst run_tasks.simps) simp
  next
    case (Inr y)
    obtain us t where y: "y = (us, t)" by fastforce
    have "\<exists>r. run_tasks us t = Some r"
      by (rule "1.hyps" [OF step_smaller [OF "1.prems"] neat_step [OF "1.prems"]]) (use Inr y in simp_all)
    then show ?thesis using Inr y by (subst run_tasks.simps) simp
  qed
qed

text \<open>C32. Adding a wire ends. On the editor's grid and with no rotated wire, whatever the diagram, the work
  that \<open>add_wire\<close> starts, in which wires split each other and every piece is checked again, comes to an end.\<close>

theorem adding_wire_ends:
  assumes "diagram_ok s" "neat s" "on_grid (x1, y1)" "on_grid (x2, y2)"
  shows "\<exists>r. add_wire x1 y1 x2 y2 s = Some r"
  unfolding add_wire_def
  by (rule work_terminates) (use assms in \<open>simp add: neat_work_def work_ok_def task_ok_def grid_task_def\<close>)

end
