(* ===== verification/SchJoin.thy ===== *)
theory SchJoin
  imports SchWire
begin

text \<open>
  What adding a wire does to the diagram: the splits replace wires by wires with the same ends, so the
  parts stay as they are, what was joined stays joined, and the two ends of the new wire are joined.
\<close>

section \<open>Links\<close>

text \<open>The pairs of locations that a wire joins, or will join once the work that is left is done.\<close>

definition links :: "wire_task list \<Rightarrow> sch \<Rightarrow> (location \<times> location) set" where
  "links ts s = {(place s (w, 0), place s (w, 1)) | w. w \<in> set (components s) \<and> is_wire s w} \<union>
     {((x1, y1), (x2, y2)) | x1 y1 x2 y2. AddWire x1 y1 x2 y2 \<in> set ts}"

definition wired :: "wire_task list \<Rightarrow> sch \<Rightarrow> (location \<times> location) set" where
  "wired ts s = (links ts s \<union> (links ts s)\<inverse>)\<^sup>*"

lemma wired_mono: "links ts s \<subseteq> wired us s' \<Longrightarrow> wired ts s \<subseteq> wired us s'"
proof -
  assume l: "links ts s \<subseteq> wired us s'"
  have "sym (wired us s')" unfolding wired_def by (intro sym_rtrancl sym_Un_converse)
  then have "(links ts s)\<inverse> \<subseteq> wired us s'" using l by (auto dest: symD)
  then have "links ts s \<union> (links ts s)\<inverse> \<subseteq> wired us s'" using l by blast
  then show ?thesis unfolding wired_def by (rule rtrancl_subset_rtrancl)
qed

lemma wired_link: "(a, b) \<in> links ts s \<Longrightarrow> (a, b) \<in> wired ts s" "(a, b) \<in> links ts s \<Longrightarrow> (b, a) \<in> wired ts s"
  by (auto simp: wired_def)

lemma wired_trans: "(a, b) \<in> wired ts s \<Longrightarrow> (b, c) \<in> wired ts s \<Longrightarrow> (a, c) \<in> wired ts s"
  unfolding wired_def by (rule rtrancl_trans)

lemma wired_refl [simp]: "(a, a) \<in> wired ts s"
  by (simp add: wired_def)

lemma neat_ends:
  assumes "neat_wire (comp_of s w)"
  shows "place s (w, 0) = (cx (comp_of s w), cy (comp_of s w))" "place s (w, 1) = far_end (comp_of s w)"
proof -
  have m: "map cp_at (conns (comp_of s w)) = [(cx (comp_of s w), cy (comp_of s w)), far_end (comp_of s w)]"
    using assms by (simp add: neat_wire_def)
  show "place s (w, 0) = (cx (comp_of s w), cy (comp_of s w))" "place s (w, 1) = far_end (comp_of s w)"
    using two_ends(2,3) [OF m] by (simp_all add: place_def cp_of_def)
qed

definition parts :: "sch \<Rightarrow> nat list" where "parts s = filter (\<lambda>i. \<not> is_wire s i) (components s)"

definition parts_kept :: "sch \<Rightarrow> sch \<Rightarrow> bool" where
  "parts_kept s s' \<longleftrightarrow> parts s' = parts s \<and> (\<forall>i \<in> set (parts s). comp_of s' i = comp_of s i)"

lemma parts_kept_trans: "parts_kept s t \<Longrightarrow> parts_kept t u \<Longrightarrow> parts_kept s u"
  by (simp add: parts_kept_def)

lemma step_joins:
  assumes "neat_work ts s" "work_step ts s = Inr (us, s')"
  shows "wired ts s \<subseteq> wired us s'" "parts_kept s s'"
proof -
  have ok: "work_ok ts s" "neat s" and d: "diagram_ok s" "sch_ok s"
    using assms(1) by (auto simp: neat_work_def work_ok_def diagram_ok_def)
  have "links ts s \<subseteq> wired us s' \<and> parts_kept s s'"
    using ok(1) assms(2)
  proof (cases rule: work_cases)
    case (add x1 y1 x2 y2 vs)
    note E = add_new_effect [OF d(2), of "make_Wire x1 y1 x2 y2", OF make_ok(1,2)]
    have kept: "comp_of s' i = comp_of s i" if "i \<in> set (components s)" for i
      using sch_okD(3) [OF d(2) that] by (simp add: add(2) E(4))
    have new: "is_wire s' (length (heap s))" "length (heap s) \<in> set (components s')"
      by (simp_all add: add(2) is_wire_def E)
    have ends: "place s' (length (heap s), 0) = (x1, y1)" "place s' (length (heap s), 1) = (x2, y2)"
    proof -
      have m: "map cp_at (conns (make_Wire x1 y1 x2 y2)) = [(x1, y1), (x2, y2)]" by simp
      show "place s' (length (heap s), 0) = (x1, y1)" "place s' (length (heap s), 1) = (x2, y2)"
        using two_ends(2,3) [OF m]
        by (simp_all add: place_def cp_of_def add(2) E(3))
    qed
    have "links ts s \<subseteq> links us s'"
    proof (rule subsetI)
      fix e assume "e \<in> links ts s"
      then consider (old) w where "w \<in> set (components s)" "is_wire s w" "e = (place s (w, 0), place s (w, 1))"
        | (task) a b a' b' where "AddWire a b a' b' \<in> set ts" "e = ((a, b), (a', b'))"
        unfolding links_def by blast
      then show "e \<in> links us s'"
      proof cases
        case old
        have "w \<in> set (components s')" "is_wire s' w" "place s' (w, j) = place s (w, j)" for j
          using old(1,2) kept [OF old(1)] by (simp_all add: add(2) E(1) is_wire_def place_def cp_of_def)
        then have "e = (place s' (w, 0), place s' (w, 1))" "w \<in> set (components s')" "is_wire s' w"
          using old(3) by simp_all
        then show ?thesis unfolding links_def by blast
      next
        case task
        show ?thesis
        proof (cases "AddWire a b a' b' \<in> set vs")
          case True
          then have "AddWire a b a' b' \<in> set us" by (simp add: add(3))
          with task(2) show ?thesis unfolding links_def by blast
        next
          case False
          then have "e = (place s' (length (heap s), 0), place s' (length (heap s), 1))"
            unfolding ends using task by (simp add: add(1))
          with new show ?thesis unfolding links_def by blast
        qed
      qed
    qed
    moreover have "links us s' \<subseteq> wired us s'" using wired_link(1) by (meson subrelI)
    moreover have "parts s' = parts s"
    proof -
      have "filter (\<lambda>i. \<not> is_wire s' i) (components s) = filter (\<lambda>i. \<not> is_wire s i) (components s)"
        by (rule filter_cong [OF refl]) (simp add: is_wire_def kept)
      then show ?thesis using new(1) by (simp add: parts_def add(2) E(1))
    qed
    ultimately show ?thesis using kept by (auto simp: parts_kept_def parts_def)
  next
    case (skip i n vs)
    then have "links ts s = links us s'" unfolding links_def by simp
    then show ?thesis using wired_link(1) skip(2) by (auto simp: parts_kept_def simp del: split_paired_All)
  next
    case (over t vs)
    then have "links ts s = links us s'" unfolding links_def by auto
    then show ?thesis using wired_link(1) over(2) by (auto simp: parts_kept_def simp del: split_paired_All)
  next
    case (split u l vs)
    have n: "neat_wire (comp_of s u)" using ok(2) split(1,2) sch_okD(3) [OF d(2)] by (auto simp: neat_def)
    note R = remove_comp_ok [OF d(2) split(1)]
    have same: "is_wire s' j = is_wire s j" "place s' p = place s p" for j p
      by (simp_all add: split(5) is_wire_def place_def cp_of_def R(3))
    have cs: "components s' = remove1 u (components s)" by (simp add: split(5) R(2))
    have ends: "links (split_tasks s u l) s' \<subseteq> links us s'" unfolding links_def split(4) by auto
    have two: "(place s (u, 0), l) \<in> links us s'" "(place s (u, 1), l) \<in> links us s'"
      unfolding neat_ends [OF n] links_def split(4) split_tasks_def far_end_def Let_def by (cases l; auto)+
    have "links ts s \<subseteq> wired us s'"
    proof (rule subrelI)
      fix a b assume "(a, b) \<in> links ts s"
      then consider (old) w where "w \<in> set (components s)" "is_wire s w" "(a, b) = (place s (w, 0), place s (w, 1))"
        | (task) x y x' y' where "AddWire x y x' y' \<in> set ts" "(a, b) = ((x, y), (x', y'))"
        unfolding links_def by blast
      then show "(a, b) \<in> wired us s'"
      proof cases
        case old
        show ?thesis
        proof (cases "w = u")
          case True
          then show ?thesis using old(3) wired_trans [OF wired_link(1) [OF two(1)] wired_link(2) [OF two(2)]] by simp
        next
          case False
          then have "w \<in> set (components s')" using old(1) by (simp add: cs)
          then have "(a, b) \<in> links us s'" using old(2,3) unfolding links_def by (auto simp: same)
          then show ?thesis by (rule wired_link)
        qed
      next
        case task
        then have "AddWire x y x' y' \<in> set us" using split(7) by (auto simp: split(4))
        with task(2) have "(a, b) \<in> links us s'" unfolding links_def by blast
        then show ?thesis by (rule wired_link)
      qed
    qed
    moreover have "parts s' = parts s"
      using split(2) by (simp add: parts_def cs same filter_remove1 remove1_idem)
    moreover have "comp_of s' i = comp_of s i" if "i \<in> set (parts s)" for i
      using that split(2) by (auto simp: split(5) R(3) parts_def)
    ultimately show ?thesis by (simp add: parts_kept_def)
  qed
  then show "wired ts s \<subseteq> wired us s'" "parts_kept s s'" using wired_mono by blast+
qed

lemma run_joins:
  assumes "run_tasks ts s = Some (Ended s')" "neat_work ts s"
  shows "wired ts s \<subseteq> wired [] s'" "parts_kept s s'" "diagram_ok s'" "neat s'"
proof -
  let ?I = "\<lambda>us t. neat_work us t \<and> wired ts s \<subseteq> wired us t \<and> parts_kept s t"
  have "?I [] s'"
  proof (rule run_tasks_inv [OF assms(1), of ?I, THEN conjunct2, rule_format])
    show "?I ts s" using assms(2) by (simp add: parts_kept_def)
  next
    fix us t vs u
    assume I: "?I us t" and st: "work_step us t = Inr (vs, u)"
    then show "?I vs u" using neat_step [OF _ st] step_joins [OF _ st] parts_kept_trans by blast
  qed simp
  then show "wired ts s \<subseteq> wired [] s'" "parts_kept s s'" "diagram_ok s'" "neat s'"
    by (auto simp: neat_work_def work_ok_def)
qed

section \<open>Links and nodes\<close>

lemma wire_two: "diagram_ok s \<Longrightarrow> w \<in> set (components s) \<Longrightarrow> is_wire s w \<Longrightarrow> j < 2 \<Longrightarrow> (w, j) \<in> live s"
  using sch_okD(3) by (auto simp: mem_live diagram_ok_def comp_shape_def is_wire_def)

lemma node_wired:
  assumes "diagram_ok s" "same_node s p q"
  shows "(place s p, place s q) \<in> wired [] s"
  using assms(2) unfolding same_node_def
proof (induction rule: rtrancl_induct)
  case base
  show ?case by simp
next
  case (step q r)
  have "(place s q, place s r) \<in> wired [] s"
  proof (cases "place s q = place s r")
    case False
    then have w: "fst q = fst r" "is_wire s (fst q)" "q \<in> live s" "r \<in> live s" using step(2) by (auto simp: touching_def)
    have len: "length (conns (comp_of s (fst q))) = 2"
      using assms(1) w sch_okD(3) by (auto simp: mem_live diagram_ok_def comp_shape_def is_wire_def)
    have "snd q \<noteq> snd r" using False w(1) by (metis prod_eq_iff)
    then have "snd q = 0 \<and> snd r = 1 \<or> snd q = 1 \<and> snd r = 0" using w(1,3,4) len by (auto simp: mem_live)
    moreover have "(place s (fst q, 0), place s (fst q, 1)) \<in> links [] s" using w by (auto simp: links_def mem_live)
    ultimately show ?thesis using wired_link w(1) by (metis prod.collapse)
  qed simp
  with step.IH show ?case by (rule wired_trans)
qed

lemma wire_link:
  assumes "(a, b) \<in> links [] s \<union> (links [] s)\<inverse>"
  obtains w i j where "w \<in> set (components s)" "is_wire s w" "i < 2" "j < 2" "a = place s (w, i)" "b = place s (w, j)"
proof -
  have two: "0 < (2::nat)" "1 < (2::nat)" by simp_all
  from assms consider "(a, b) \<in> links [] s" | "(b, a) \<in> links [] s" by blast
  then show thesis
  proof cases
    case 1
    then obtain w where "w \<in> set (components s)" "is_wire s w" "a = place s (w, 0)" "b = place s (w, 1)"
      unfolding links_def by auto
    then show thesis using that two by blast
  next
    case 2
    then obtain w where "w \<in> set (components s)" "is_wire s w" "b = place s (w, 0)" "a = place s (w, 1)"
      unfolding links_def by auto
    then show thesis using that two by blast
  qed
qed

lemma wired_node:
  assumes "diagram_ok s" "(place s p, b) \<in> wired [] s" "p \<in> live s"
  shows "\<forall>q. q \<in> live s \<longrightarrow> place s q = b \<longrightarrow> same_node s p q"
  using assms(2) unfolding wired_def
proof (induction rule: rtrancl_induct)
  case base
  have "(p, q) \<in> touching s" if "q \<in> live s" "place s q = place s p" for q using that assms(3) by (auto simp: touching_def)
  then show ?case unfolding same_node_def by blast
next
  case (step a b)
  obtain w i j where w: "w \<in> set (components s)" "is_wire s w" "i < 2" "j < 2" "a = place s (w, i)" "b = place s (w, j)"
    using wire_link [OF step(2)] by metis
  have lv: "(w, i) \<in> live s" "(w, j) \<in> live s" using wire_two [OF assms(1) w(1,2)] w(3,4) by blast+
  have "same_node s p (w, i)" using step.IH lv(1) w(5) by blast
  moreover have "((w, i), (w, j)) \<in> touching s" using lv w(2) by (simp add: touching_def)
  ultimately have pj: "same_node s p (w, j)" unfolding same_node_def by (rule rtrancl_into_rtrancl)
  have "same_node s p q" if "q \<in> live s" "place s q = b" for q
  proof -
    have "((w, j), q) \<in> touching s" using that lv(2) w(6) by (auto simp: touching_def)
    with pj show ?thesis unfolding same_node_def by (rule rtrancl_into_rtrancl)
  qed
  then show ?case by blast
qed

lemma part_kept:
  assumes "parts_kept s s'" "part_point s p"
  shows "part_point s' p" "place s' p = place s p" "p \<in> live s" "p \<in> live s'"
proof -
  have p: "p \<in> live s" "\<not> is_wire s (fst p)" using assms(2) by (simp_all add: part_point_def)
  then have m: "fst p \<in> set (parts s)" by (simp add: parts_def mem_live)
  then have c: "comp_of s' (fst p) = comp_of s (fst p)" using assms(1) by (simp add: parts_kept_def)
  have "fst p \<in> set (parts s')" using m assms(1) by (simp add: parts_kept_def)
  then show "part_point s' p" "place s' p = place s p" "p \<in> live s" "p \<in> live s'"
    using p c by (simp_all add: part_point_def mem_live parts_def place_def cp_of_def)
qed

lemma add_wire_effect:
  assumes "diagram_ok s" "neat s" "on_grid (x1, y1)" "on_grid (x2, y2)" "add_wire x1 y1 x2 y2 s = Some (Ended s')"
  shows "diagram_ok s' \<and> neat s' \<and> parts_kept s s' \<and>
    (\<forall>p q. part_point s p \<and> part_point s q \<and>
       (same_node s p q \<or> place s p = (x1, y1) \<and> place s q = (x2, y2)) \<longrightarrow> same_node s' p q)"
proof -
  have n: "neat_work [AddWire x1 y1 x2 y2] s" using assms(1-4) by (simp add: neat_work_def work_ok_def task_ok_def grid_task_def)
  have run: "run_tasks [AddWire x1 y1 x2 y2] s = Some (Ended s')" using assms(5) by (simp add: add_wire_def)
  note J = run_joins [OF run n]
  have "same_node s' p q" if p: "part_point s p" "part_point s q"
    and j: "same_node s p q \<or> place s p = (x1, y1) \<and> place s q = (x2, y2)" for p q
  proof -
    have "links [] s \<subseteq> links [AddWire x1 y1 x2 y2] s" unfolding links_def by auto
    then have old: "wired [] s \<subseteq> wired [AddWire x1 y1 x2 y2] s" using wired_link(1) by (intro wired_mono subrelI) blast
    have new: "((x1, y1), (x2, y2)) \<in> wired [AddWire x1 y1 x2 y2] s" by (rule wired_link(1)) (simp add: links_def)
    have "(place s p, place s q) \<in> wired [AddWire x1 y1 x2 y2] s"
      using j
    proof
      assume "same_node s p q"
      then show ?thesis using node_wired [OF assms(1)] old by blast
    next
      assume "place s p = (x1, y1) \<and> place s q = (x2, y2)"
      then show ?thesis using new by simp
    qed
    then have "(place s' p, place s' q) \<in> wired [] s'" using J(1) part_kept(2) [OF J(2)] p by auto
    then show ?thesis using wired_node [OF J(3)] part_kept(4) [OF J(2)] p by blast
  qed
  with J show ?thesis by blast
qed


section \<open>Examples\<close>

text \<open>Three resistors; a wire from the end of the first to the end of the third passes an end of the second.\<close>

definition three_parts :: sch where
  "three_parts = fold add_new [make_Resistor 0 0 0 None None, make_Resistor 48 48 0 None None,
     make_Resistor 96 48 0 None None] new_sch"

definition wires_of :: "sch \<Rightarrow> (location \<times> location) list" where
  "wires_of s = map (\<lambda>i. (place s (i, 0), place s (i, 1))) (filter (is_wire s) (components s))"

definition wires_after :: "sch outcome option \<Rightarrow> (location \<times> location) list option" where
  "wires_after r = (case r of Some (Ended s) \<Rightarrow> Some (wires_of s) | _ \<Rightarrow> None)"

lemma three_parts_neat: "neat three_parts"
  by code_simp

lemma three_parts_ok: "diagram_ok three_parts"
proof -
  have "sch_ok three_parts" unfolding three_parts_def by (rule fold_add_new_ok) (auto simp: new_sch_ok)
  moreover have "\<forall>i < length (heap three_parts). comp_shape (comp_of three_parts i)" by code_simp
  ultimately show ?thesis by (simp add: diagram_ok_def)
qed

theorem adding_wire_ends_witness: "\<exists>r. add_wire 0 48 96 48 three_parts = Some r"
  by (rule adding_wire_ends [OF three_parts_ok three_parts_neat]) (simp_all add: on_grid_def)

lemma three_run: "wires_after (work_for 50 [AddWire 0 48 96 48] three_parts) = Some [((0, 48), (48, 48)), ((96, 48), (48, 48))]"
  by code_simp


text \<open>Two wires on one line. A wire that is laid over the end of another is itself split while its
  first check runs; the next line of \<open>move_end\<close> then reads the diagram of a wire that has none, and
  throws. The diagram is left as the splits have made it.\<close>

lemma overlap_throws:
  "\<exists>s'. add_wire 8 0 (-8) 0 (add_new (make_Wire 0 0 16 0) new_sch) = Some (Thrown s')"
proof -
  have "case work_for 50 [AddWire 8 0 (-8) 0] (add_new (make_Wire 0 0 16 0) new_sch) of Some (Thrown s) \<Rightarrow> True | _ \<Rightarrow> False"
    by code_simp
  then obtain s' where "work_for 50 [AddWire 8 0 (-8) 0] (add_new (make_Wire 0 0 16 0) new_sch) = Some (Thrown s')"
    by (auto split: option.splits outcome.splits)
  then show ?thesis unfolding add_wire_def by (blast intro: work_for_runs)
qed

text \<open>The loop of \<open>check_wires\<close> goes on by position although a split has removed the wire at the position.
  Of two wires that follow each other in the list, and that the two ends of a resistor bisect, the
  second stays whole: the resistor is on it and not connected to it.\<close>

lemma check_wires_skips:
  "wires_after (work_for 50 [CheckWires 2 0] (fold add_new [make_Wire 0 0 16 0, make_Wire 0 48 16 48, make_Resistor 8 0 0 None None] new_sch)) =
     Some [((0, 48), (16, 48)), ((0, 0), (8, 0)), ((16, 0), (8, 0))]"
  by code_simp

end
